(* ===== verification/Ace_Prelude.thy ===== *)
theory Ace_Prelude
  imports Main "HOL-Library.Word" "HOL-Library.Monad_Syntax"
begin

text \<open>
  Shared vocabulary of the development: the machine-integer and byte types, the errno values
  the sources return, bounds-checked loads from a byte buffer, little- and big-endian byte
  encodings with their round trips, decimal text (what \<^verbatim>\<open>strtoull\<close> reads and
  \<^verbatim>\<open>printf\<close> writes), and the generic lemmas on lists, sums and options that the component
  theories use.  The collections \<open>load_defs\<close> (unfolding of buffer reads) and
  \<open>byte_simps\<close> (encode/decode cancellation) are extended by later theories.
\<close>

unbundle bit_operations_syntax

named_theorems load_defs \<open>unfolding rules for bounds-checked buffer reads\<close>
named_theorems byte_simps \<open>cancellation of encoders and decoders\<close>

section \<open>Types and error numbers\<close>

type_synonym byte = "8 word"
type_synonym u16 = "16 word"
type_synonym u32 = "32 word"
type_synonym u64 = "64 word"

text \<open>A C function that returns 0 or a negative errno is a sum: \<open>Inl e\<close> for \<open>return -e\<close>.\<close>

type_synonym errno = int

abbreviation ENOENT :: errno where "ENOENT \<equiv> 2"
abbreviation ESRCH :: errno where "ESRCH \<equiv> 3"
abbreviation EINTR :: errno where "EINTR \<equiv> 4"
abbreviation EIO :: errno where "EIO \<equiv> 5"
abbreviation E2BIG :: errno where "E2BIG \<equiv> 7"
abbreviation EAGAIN :: errno where "EAGAIN \<equiv> 11"
abbreviation ENOMEM :: errno where "ENOMEM \<equiv> 12"
abbreviation EEXIST :: errno where "EEXIST \<equiv> 17"
abbreviation EXDEV :: errno where "EXDEV \<equiv> 18"
abbreviation ENODEV :: errno where "ENODEV \<equiv> 19"
abbreviation ENOTDIR :: errno where "ENOTDIR \<equiv> 20"
abbreviation EINVAL :: errno where "EINVAL \<equiv> 22"
abbreviation ENOSPC :: errno where "ENOSPC \<equiv> 28"
abbreviation ERANGE :: errno where "ERANGE \<equiv> 34"
abbreviation ENAMETOOLONG :: errno where "ENAMETOOLONG \<equiv> 36"
abbreviation ENOTEMPTY :: errno where "ENOTEMPTY \<equiv> 39"
abbreviation ENODATA :: errno where "ENODATA \<equiv> 61"
abbreviation EOVERFLOW :: errno where "EOVERFLOW \<equiv> 75"
abbreviation EOPNOTSUPP :: errno where "EOPNOTSUPP \<equiv> 95"
abbreviation ETIMEDOUT :: errno where "ETIMEDOUT \<equiv> 110"
abbreviation ESTALE :: errno where "ESTALE \<equiv> 116"
abbreviation EUCLEAN :: errno where "EUCLEAN \<equiv> 117"

abbreviation INT64_LIMIT :: int where "INT64_LIMIT \<equiv> 9223372036854775807"
abbreviation IFNAMSIZ :: nat where "IFNAMSIZ \<equiv> 16"
abbreviation INT_MAX :: nat where "INT_MAX \<equiv> 2147483647"

section \<open>Little- and big-endian byte strings\<close>

fun nat_le :: "nat \<Rightarrow> nat \<Rightarrow> byte list" where
  "nat_le 0 x = []"
| "nat_le (Suc n) x = of_nat x # nat_le n (x div 256)"

primrec le_nat :: "byte list \<Rightarrow> nat" where
  "le_nat [] = 0"
| "le_nat (b # bs) = unat b + 256 * le_nat bs"

definition nat_be :: "nat \<Rightarrow> nat \<Rightarrow> byte list" where
  "nat_be n x = rev (nat_le n x)"

definition be_nat :: "byte list \<Rightarrow> nat" where
  "be_nat bs = le_nat (rev bs)"

lemma length_nat_le [simp]: "length (nat_le n x) = n"
  by (induction n arbitrary: x) auto

lemma length_nat_be [simp]: "length (nat_be n x) = n"
  by (simp add: nat_be_def)

lemma unat_bound: "unat (w :: 'a::len word) < 2 ^ LENGTH('a)"
  by (rule unsigned_less)

lemma unat_of_nat_byte: "unat (of_nat x :: byte) = x mod 256"
  by (simp add: unat_of_nat)

lemma le_nat_nat_le: "le_nat (nat_le n x) = x mod 256 ^ n"
proof (induction n arbitrary: x)
  case 0
  then show ?case by simp
next
  case (Suc n)
  have "x mod (256 * 256 ^ n) = 256 * (x div 256 mod 256 ^ n) + x mod 256"
    by (rule mod_mult2_eq)
  with Suc show ?case by (simp add: unat_of_nat_byte)
qed

lemma be_nat_nat_be: "be_nat (nat_be n x) = x mod 256 ^ n"
  by (simp add: be_nat_def nat_be_def le_nat_nat_le)

lemma le_nat_less: "le_nat bs < 256 ^ length bs"
proof (induction bs)
  case Nil
  then show ?case by simp
next
  case (Cons b bs)
  have "unat b < 256" using unat_bound [of b] by simp
  then have "unat b + 256 * le_nat bs < 256 * Suc (le_nat bs)" by simp
  also have "\<dots> \<le> 256 * 256 ^ length bs" using Cons by (intro mult_le_mono) auto
  finally show ?case by simp
qed

lemma be_nat_less: "be_nat bs < 256 ^ length bs"
  using le_nat_less [of "rev bs"] by (simp add: be_nat_def)

lemma nat_le_le_nat: "nat_le (length bs) (le_nat bs) = bs"
proof (induction bs)
  case Nil
  then show ?case by simp
next
  case (Cons b bs)
  have b: "unat b < 256" using unat_bound [of b] by simp
  have "unat (of_nat (unat b + 256 * le_nat bs) :: byte) = unat b"
    unfolding unat_of_nat_byte using b by simp
  then have "(of_nat (unat b + 256 * le_nat bs) :: byte) = b"
    by (simp only: word_unat_eq_iff)
  moreover have "(unat b + 256 * le_nat bs) div 256 = le_nat bs" using b by simp
  ultimately show ?case using Cons by simp
qed

lemma nat_be_be_nat: "nat_be (length bs) (be_nat bs) = bs"
  using nat_le_le_nat [of "rev bs"] by (simp add: nat_be_def be_nat_def)

text \<open>The fixed-width readings the sources use (\<^verbatim>\<open>ntohs\<close>, \<^verbatim>\<open>be64toh\<close>, native loads).\<close>

definition be16 :: "byte list \<Rightarrow> u16" where "be16 bs = of_nat (be_nat bs)"
definition be32 :: "byte list \<Rightarrow> u32" where "be32 bs = of_nat (be_nat bs)"
definition be64 :: "byte list \<Rightarrow> u64" where "be64 bs = of_nat (be_nat bs)"
definition le16 :: "byte list \<Rightarrow> u16" where "le16 bs = of_nat (le_nat bs)"
definition le32 :: "byte list \<Rightarrow> u32" where "le32 bs = of_nat (le_nat bs)"
definition le64 :: "byte list \<Rightarrow> u64" where "le64 bs = of_nat (le_nat bs)"

definition htobe16 :: "u16 \<Rightarrow> byte list" where "htobe16 w = nat_be 2 (unat w)"
definition htobe32 :: "u32 \<Rightarrow> byte list" where "htobe32 w = nat_be 4 (unat w)"
definition htobe64 :: "u64 \<Rightarrow> byte list" where "htobe64 w = nat_be 8 (unat w)"
definition st16 :: "u16 \<Rightarrow> byte list" where "st16 w = nat_le 2 (unat w)"
definition st32 :: "u32 \<Rightarrow> byte list" where "st32 w = nat_le 4 (unat w)"
definition st64 :: "u64 \<Rightarrow> byte list" where "st64 w = nat_le 8 (unat w)"

lemma length_htobe [simp]:
  "length (htobe16 a) = 2" "length (htobe32 b) = 4" "length (htobe64 c) = 8"
  by (simp_all add: htobe16_def htobe32_def htobe64_def)

lemma length_st [simp]:
  "length (st16 a) = 2" "length (st32 b) = 4" "length (st64 c) = 8"
  by (simp_all add: st16_def st32_def st64_def)

lemma unat_mod_width:
  "unat (a :: u16) mod 65536 = unat a" "unat (b :: u32) mod 4294967296 = unat b"
  "unat (c :: u64) mod 18446744073709551616 = unat c"
  using unat_bound [of a] unat_bound [of b] unat_bound [of c] by simp_all

lemma be_htobe [simp, byte_simps]:
  "be16 (htobe16 a) = a" "be32 (htobe32 b) = b" "be64 (htobe64 c) = c"
  by (simp_all add: be16_def be32_def be64_def htobe16_def htobe32_def htobe64_def
      be_nat_nat_be unat_mod_width)

lemma le_st [simp, byte_simps]:
  "le16 (st16 a) = a" "le32 (st32 b) = b" "le64 (st64 c) = c"
  by (simp_all add: le16_def le32_def le64_def st16_def st32_def st64_def
      le_nat_nat_le unat_mod_width)

lemma htobe_be:
  "length bs = 2 \<Longrightarrow> htobe16 (be16 bs) = bs"
  "length bs = 4 \<Longrightarrow> htobe32 (be32 bs) = bs"
  "length bs = 8 \<Longrightarrow> htobe64 (be64 bs) = bs"
  using be_nat_less [of bs] nat_be_be_nat [of bs]
  by (simp_all add: htobe16_def htobe32_def htobe64_def be16_def be32_def be64_def
      unat_of_nat)

lemma unat_be16_less: "unat (be16 bs) < 65536"
  using unat_bound [of "be16 bs"] by simp

section \<open>Comparing words with naturals\<close>

lemma word_less_of_nat: "n < 2 ^ LENGTH('a) \<Longrightarrow> (of_nat n < (w :: 'a::len word)) = (n < unat w)"
  by (simp add: word_less_nat_alt unat_of_nat)

lemma word_greater_of_nat: "n < 2 ^ LENGTH('a) \<Longrightarrow> ((w :: 'a::len word) < of_nat n) = (unat w < n)"
  by (simp add: word_less_nat_alt unat_of_nat)

lemma word_zero_of_nat: "n < 2 ^ LENGTH('a) \<Longrightarrow> (of_nat n = (0 :: 'a::len word)) = (n = 0)"
  by (simp add: word_unat_eq_iff unat_of_nat)

lemma ucast_of_nat_u32: "ucast (of_nat n :: u64) = (of_nat n :: u32)"
  by (simp add: word_unat_eq_iff unsigned_ucast_eq unat_of_nat take_bit_eq_mod mod_mod_cancel)

lemma unat_ucast_u32 [simp]: "unat (ucast (w :: u32) :: u64) = unat w"
  using unat_bound [of w] by (simp add: unsigned_ucast_eq take_bit_nat_eq_self)

section \<open>Bounds-checked buffer reads\<close>

text \<open>
  Every read of packet memory goes through these loads; \<open>None\<close> is an access outside the
  buffer, which the C code must never make.
\<close>

definition ld_bytes :: "byte list \<Rightarrow> nat \<Rightarrow> nat \<Rightarrow> byte list option" where
  "ld_bytes m off n = (if off + n \<le> length m then Some (take n (drop off m)) else None)"

definition ld8 :: "byte list \<Rightarrow> nat \<Rightarrow> byte option" where
  "ld8 m off = (if off < length m then Some (m ! off) else None)"

definition ld_be16 :: "byte list \<Rightarrow> nat \<Rightarrow> u16 option" where
  "ld_be16 m off = map_option be16 (ld_bytes m off 2)"

text \<open>A store that leaves the rest of the buffer unchanged; \<open>None\<close> is a write outside it.\<close>

definition st_bytes :: "byte list \<Rightarrow> nat \<Rightarrow> byte list \<Rightarrow> byte list option" where
  "st_bytes m off bs =
     (if off + length bs \<le> length m
      then Some (take off m @ bs @ drop (off + length bs) m) else None)"

text \<open>In-bounds reads as total functions, for specifications.\<close>

definition sub_bytes :: "byte list \<Rightarrow> nat \<Rightarrow> nat \<Rightarrow> byte list" where
  "sub_bytes m off n = take n (drop off m)"

lemma ld_bytes_in [load_defs]: "off + n \<le> length m \<Longrightarrow> ld_bytes m off n = Some (sub_bytes m off n)"
  by (simp add: ld_bytes_def sub_bytes_def)

lemma ld8_in [load_defs]: "off < length m \<Longrightarrow> ld8 m off = Some (m ! off)"
  by (simp add: ld8_def)

lemma ld_be16_in [load_defs]: "off + 2 \<le> length m \<Longrightarrow> ld_be16 m off = Some (be16 (sub_bytes m off 2))"
  by (simp add: ld_be16_def load_defs)

lemma length_sub_bytes [simp]: "off + n \<le> length m \<Longrightarrow> length (sub_bytes m off n) = n"
  by (simp add: sub_bytes_def)

lemma sub_bytes_append_left: "off + n \<le> length xs \<Longrightarrow> sub_bytes (xs @ ys) off n = sub_bytes xs off n"
  by (simp add: sub_bytes_def)

lemma sub_bytes_append_right: "length xs \<le> off \<Longrightarrow> sub_bytes (xs @ ys) off n = sub_bytes ys (off - length xs) n"
  by (simp add: sub_bytes_def)

lemma sub_bytes_sub_bytes: "off + n \<le> k \<Longrightarrow> sub_bytes (sub_bytes m b k) off n = sub_bytes m (b + off) n"
  by (simp add: sub_bytes_def drop_take add.commute min_def)

lemma sub_bytes_all: "length m = n \<Longrightarrow> sub_bytes m 0 n = m"
  by (simp add: sub_bytes_def)

end
