(* ===== verification/Ace_Abi.thy ===== *)
theory Ace_Abi
  imports Ace_Prelude
begin

text \<open>
  The binary interfaces shared by the programs: the constants of \<^verbatim>\<open>BPF/config.h\<close>, the
  32-byte big-endian wire header of \<^verbatim>\<open>include/ace_packet_abi.h\<close>, and the map keys,
  in-host metadata and map records of \<^verbatim>\<open>BPF/metadata.h\<close>.  Each structure is a record of its
  fields; the two that travel as bytes (wire header, XDP metadata) have an encoder and a
  decoder with both round trips.  Native integers are little-endian (ARM64).
\<close>

section \<open>Constants of BPF/config.h\<close>

abbreviation ACE_XDP_PASS_PORT :: u16 where "ACE_XDP_PASS_PORT \<equiv> 9000"
abbreviation ACE_XDP_RT_PORT :: u16 where "ACE_XDP_RT_PORT \<equiv> 9001"
abbreviation ACE_XDP_XSK_PORT :: u16 where "ACE_XDP_XSK_PORT \<equiv> 9002"
abbreviation ACE_XDP_RT_CPU :: u32 where "ACE_XDP_RT_CPU \<equiv> 3"
abbreviation ACE_XDP_CPUMAP_DRAIN_TIMEOUT_MS :: nat where "ACE_XDP_CPUMAP_DRAIN_TIMEOUT_MS \<equiv> 5000"
abbreviation ACE_XDP_CPUMAP_DRAIN_POLL_MS :: nat where "ACE_XDP_CPUMAP_DRAIN_POLL_MS \<equiv> 10"
abbreviation ACE_XDP_CPUMAP_DRAIN_GRACE_MS :: nat where "ACE_XDP_CPUMAP_DRAIN_GRACE_MS \<equiv> 100"
abbreviation ACE_XDP_CPUMAP_LOSS_QUIET_MS :: nat where "ACE_XDP_CPUMAP_LOSS_QUIET_MS \<equiv> 1000"
abbreviation ACE_XDP_CPUMAP_STABLE_POLLS :: nat where "ACE_XDP_CPUMAP_STABLE_POLLS \<equiv> 10"
abbreviation ACE_XDP_CPU_MAP_MAX_ENTRIES :: nat where "ACE_XDP_CPU_MAP_MAX_ENTRIES \<equiv> 4"
abbreviation ACE_XDP_XSK_MAP_MAX_ENTRIES :: nat where "ACE_XDP_XSK_MAP_MAX_ENTRIES \<equiv> 64"
abbreviation ACE_XDP_RECORD_DEFAULT_ENTRIES :: nat where "ACE_XDP_RECORD_DEFAULT_ENTRIES \<equiv> 262144"
abbreviation ACE_XDP_RECORD_MAX_ENTRIES :: nat where "ACE_XDP_RECORD_MAX_ENTRIES \<equiv> 1048576"
abbreviation ACE_XDP_RUNTIME_ABI_VERSION :: u32 where "ACE_XDP_RUNTIME_ABI_VERSION \<equiv> 5"
abbreviation ACE_XDP_STAT_COUNT :: nat where "ACE_XDP_STAT_COUNT \<equiv> 21"

datatype ace_xdp_stat_id =
    STAT_PASS | STAT_CPUMAP | STAT_XSK | STAT_TOTAL | STAT_EXPERIMENT_PASS
  | STAT_IPV4_INVALID | STAT_IPV4_FRAGMENT | STAT_PACKET_HEADER_INVALID
  | STAT_META_ADJUST_ERROR | STAT_META_BOUNDS_ERROR | STAT_HWTS_VALID | STAT_HWTS_ERROR
  | STAT_INGRESS_RECORDED | STAT_INGRESS_DUPLICATE | STAT_INGRESS_UPDATE_ERROR
  | STAT_CPUMAP_META_INVALID | STAT_CPUMAP_RECORDED | STAT_CPUMAP_DUPLICATE
  | STAT_CPUMAP_UPDATE_ERROR | STAT_CPUMAP_FALLBACK | STAT_XSK_FALLBACK

fun stat_index :: "ace_xdp_stat_id \<Rightarrow> nat" where
  "stat_index STAT_PASS = 0"
| "stat_index STAT_CPUMAP = 1"
| "stat_index STAT_XSK = 2"
| "stat_index STAT_TOTAL = 3"
| "stat_index STAT_EXPERIMENT_PASS = 4"
| "stat_index STAT_IPV4_INVALID = 5"
| "stat_index STAT_IPV4_FRAGMENT = 6"
| "stat_index STAT_PACKET_HEADER_INVALID = 7"
| "stat_index STAT_META_ADJUST_ERROR = 8"
| "stat_index STAT_META_BOUNDS_ERROR = 9"
| "stat_index STAT_HWTS_VALID = 10"
| "stat_index STAT_HWTS_ERROR = 11"
| "stat_index STAT_INGRESS_RECORDED = 12"
| "stat_index STAT_INGRESS_DUPLICATE = 13"
| "stat_index STAT_INGRESS_UPDATE_ERROR = 14"
| "stat_index STAT_CPUMAP_META_INVALID = 15"
| "stat_index STAT_CPUMAP_RECORDED = 16"
| "stat_index STAT_CPUMAP_DUPLICATE = 17"
| "stat_index STAT_CPUMAP_UPDATE_ERROR = 18"
| "stat_index STAT_CPUMAP_FALLBACK = 19"
| "stat_index STAT_XSK_FALLBACK = 20"

lemma stat_index_bound [simp]: "stat_index s < 21"
  by (cases s) simp_all

lemma stat_index_inj: "stat_index s = stat_index t \<Longrightarrow> s = t"
  by (cases s; cases t; simp)

section \<open>The wire header (include/ace_packet_abi.h)\<close>

abbreviation ACE_PACKET_MAGIC :: u32 where "ACE_PACKET_MAGIC \<equiv> 0x41434531"
abbreviation ACE_PACKET_VERSION :: u16 where "ACE_PACKET_VERSION \<equiv> 1"
abbreviation ACE_PACKET_HEADER_SIZE :: u16 where "ACE_PACKET_HEADER_SIZE \<equiv> 32"

text \<open>The fields hold host-order values; the encoder writes them in network order.\<close>

record ace_experiment_header =
  eh_magic :: u32
  eh_version :: u16
  eh_size :: u16
  eh_flow_id :: u32
  eh_reserved :: u32
  eh_sequence :: u64
  eh_tx_realtime_ns :: u64

definition experiment_header_bytes :: "ace_experiment_header \<Rightarrow> byte list" where
  "experiment_header_bytes h =
     htobe32 (eh_magic h) @ htobe16 (eh_version h) @ htobe16 (eh_size h) @
     htobe32 (eh_flow_id h) @ htobe32 (eh_reserved h) @ htobe64 (eh_sequence h) @
     htobe64 (eh_tx_realtime_ns h)"

definition experiment_header_of :: "byte list \<Rightarrow> ace_experiment_header" where
  "experiment_header_of bs =
     \<lparr>eh_magic = be32 (sub_bytes bs 0 4), eh_version = be16 (sub_bytes bs 4 2),
      eh_size = be16 (sub_bytes bs 6 2), eh_flow_id = be32 (sub_bytes bs 8 4),
      eh_reserved = be32 (sub_bytes bs 12 4), eh_sequence = be64 (sub_bytes bs 16 8),
      eh_tx_realtime_ns = be64 (sub_bytes bs 24 8)\<rparr>"

lemma length_experiment_header_bytes [simp]: "length (experiment_header_bytes h) = 32"
  by (simp add: experiment_header_bytes_def)

lemma experiment_header_of_bytes [simp, byte_simps]:
  "experiment_header_of (experiment_header_bytes h @ rest) = h"
  by (simp add: experiment_header_of_def experiment_header_bytes_def sub_bytes_def)

section \<open>Keys, paths and modes (BPF/metadata.h)\<close>

record ace_packet_key =
  pk_flow_id :: u32
  pk_reserved :: u32
  pk_sequence :: u64

abbreviation ACE_PATH_PASS :: u16 where "ACE_PATH_PASS \<equiv> 0"
abbreviation ACE_PATH_CPUMAP :: u16 where "ACE_PATH_CPUMAP \<equiv> 1"
abbreviation ACE_PATH_XSK :: u16 where "ACE_PATH_XSK \<equiv> 2"

abbreviation ACE_FORWARD_MIXED :: u32 where "ACE_FORWARD_MIXED \<equiv> 0"
abbreviation ACE_FORWARD_ALL_PASS :: u32 where "ACE_FORWARD_ALL_PASS \<equiv> 1"
abbreviation ACE_FORWARD_PASS_XSK :: u32 where "ACE_FORWARD_PASS_XSK \<equiv> 2"

definition ace_effective_requested_path :: "u32 \<Rightarrow> u16 \<Rightarrow> u16" where
  "ace_effective_requested_path mode classified =
     (if mode = ACE_FORWARD_ALL_PASS \<or>
         (mode = ACE_FORWARD_PASS_XSK \<and> classified = ACE_PATH_CPUMAP)
      then ACE_PATH_PASS else classified)"

section \<open>XDP metadata and map records (BPF/metadata.h)\<close>

abbreviation ACE_RX_META_MAGIC :: u32 where "ACE_RX_META_MAGIC \<equiv> 0x4143454d"
abbreviation ACE_RX_META_VERSION :: u16 where "ACE_RX_META_VERSION \<equiv> 1"
abbreviation ACE_RX_META_SIZE :: nat where "ACE_RX_META_SIZE \<equiv> 56"

abbreviation ACE_META_F_HWTS_VALID :: u32 where "ACE_META_F_HWTS_VALID \<equiv> 1"
abbreviation ACE_META_F_PACKET_ID_VALID :: u32 where "ACE_META_F_PACKET_ID_VALID \<equiv> 2"
abbreviation ACE_META_F_CPUMAP_SEEN :: u32 where "ACE_META_F_CPUMAP_SEEN \<equiv> 4"
abbreviation ACE_META_F_TIMESTAMP_ERROR :: u32 where "ACE_META_F_TIMESTAMP_ERROR \<equiv> 8"
abbreviation ACE_META_F_PATH_REQUESTED :: u32 where "ACE_META_F_PATH_REQUESTED \<equiv> 16"

record ace_rx_meta =
  rm_magic :: u32
  rm_version :: u16
  rm_size :: u16
  rm_flags :: u32
  rm_flow_id :: u32
  rm_sequence :: u64
  rm_hw_rx_ns :: u64
  rm_initial_xdp_ns :: u64
  rm_cpumap_ns :: u64
  rm_rx_queue :: u32
  rm_requested_path :: u16
  rm_timestamp_error :: u16

definition rx_meta_bytes :: "ace_rx_meta \<Rightarrow> byte list" where
  "rx_meta_bytes m =
     st32 (rm_magic m) @ st16 (rm_version m) @ st16 (rm_size m) @ st32 (rm_flags m) @
     st32 (rm_flow_id m) @ st64 (rm_sequence m) @ st64 (rm_hw_rx_ns m) @
     st64 (rm_initial_xdp_ns m) @ st64 (rm_cpumap_ns m) @ st32 (rm_rx_queue m) @
     st16 (rm_requested_path m) @ st16 (rm_timestamp_error m)"

definition rx_meta_of :: "byte list \<Rightarrow> ace_rx_meta" where
  "rx_meta_of bs =
     \<lparr>rm_magic = le32 (sub_bytes bs 0 4), rm_version = le16 (sub_bytes bs 4 2),
      rm_size = le16 (sub_bytes bs 6 2), rm_flags = le32 (sub_bytes bs 8 4),
      rm_flow_id = le32 (sub_bytes bs 12 4), rm_sequence = le64 (sub_bytes bs 16 8),
      rm_hw_rx_ns = le64 (sub_bytes bs 24 8), rm_initial_xdp_ns = le64 (sub_bytes bs 32 8),
      rm_cpumap_ns = le64 (sub_bytes bs 40 8), rm_rx_queue = le32 (sub_bytes bs 48 4),
      rm_requested_path = le16 (sub_bytes bs 52 2),
      rm_timestamp_error = le16 (sub_bytes bs 54 2)\<rparr>"

lemma length_rx_meta_bytes [simp]: "length (rx_meta_bytes m) = 56"
  by (simp add: rx_meta_bytes_def)

lemma rx_meta_of_bytes_append [byte_simps]: "rx_meta_of (rx_meta_bytes m @ rest) = m"
  by (simp add: rx_meta_of_def rx_meta_bytes_def sub_bytes_def)

lemma rx_meta_of_bytes [simp, byte_simps]: "rx_meta_of (rx_meta_bytes m) = m"
  using rx_meta_of_bytes_append [of m "[]"] by simp

record ace_ingress_record =
  ir_flow_id :: u32
  ir_rx_queue :: u32
  ir_sequence :: u64
  ir_hw_rx_ns :: u64
  ir_initial_xdp_ns :: u64
  ir_flags :: u32
  ir_requested_path :: u16
  ir_timestamp_error :: u16

record ace_cpumap_record =
  cr_flow_id :: u32
  cr_cpu :: u32
  cr_sequence :: u64
  cr_cpumap_ns :: u64
  cr_flags :: u32
  cr_requested_path :: u16
  cr_reserved :: u16

abbreviation ACE_XSK_RECORD_F_META_VALID :: u32 where "ACE_XSK_RECORD_F_META_VALID \<equiv> 1"
abbreviation ACE_XSK_RECORD_F_KEY_MATCH :: u32 where "ACE_XSK_RECORD_F_KEY_MATCH \<equiv> 2"
abbreviation ACE_XSK_RECORD_F_PATH_MATCH :: u32 where "ACE_XSK_RECORD_F_PATH_MATCH \<equiv> 4"

record ace_xsk_user_record =
  xr_flow_id :: u32
  xr_rx_queue :: u32
  xr_sequence :: u64
  xr_tx_realtime_ns :: u64
  xr_user_rx_mono_ns :: u64
  xr_user_rx_real_ns :: u64
  xr_hw_rx_ns :: u64
  xr_initial_xdp_ns :: u64
  xr_meta_flags :: u32
  xr_requested_path :: u16
  xr_timestamp_error :: u16
  xr_packet_length :: u32
  xr_validation_flags :: u32

abbreviation ACE_RUNTIME_F_HWTSTAMP_CAPTURED :: u32 where "ACE_RUNTIME_F_HWTSTAMP_CAPTURED \<equiv> 1"
abbreviation ACE_RUNTIME_F_HWTSTAMP_APPLYING :: u32 where "ACE_RUNTIME_F_HWTSTAMP_APPLYING \<equiv> 2"
abbreviation ACE_RUNTIME_F_HWTSTAMP_APPLIED :: u32 where "ACE_RUNTIME_F_HWTSTAMP_APPLIED \<equiv> 4"
abbreviation ACE_RUNTIME_F_STOPPING :: u32 where "ACE_RUNTIME_F_STOPPING \<equiv> 8"
abbreviation ACE_RUNTIME_F_ALL_PASS :: u32 where "ACE_RUNTIME_F_ALL_PASS \<equiv> 16"
abbreviation ACE_RUNTIME_F_PASS_XSK :: u32 where "ACE_RUNTIME_F_PASS_XSK \<equiv> 32"

record ace_xsk_owner =
  xo_process_start_ticks :: u64
  xo_pid :: u32
  xo_reserved :: u32

record ace_runtime_config =
  rc_abi_version :: u32
  rc_ifindex :: u32
  rc_record_capacity :: u32
  rc_xdp_program_id :: u32
  rc_owner_start_ticks :: u64
  rc_owner_pid :: u32
  rc_flags :: u32
  rc_saved_hwtstamp_flags :: u32
  rc_saved_hwtstamp_tx_type :: u32
  rc_saved_hwtstamp_rx_filter :: u32
  rc_effective_hwtstamp_flags :: u32
  rc_effective_hwtstamp_tx_type :: u32
  rc_effective_hwtstamp_rx_filter :: u32

end
