(* ===== verification/Packet_Spec.thy ===== *)
theory Packet_Spec
  imports Ace_Abi
begin

text \<open>
  What the two packet parsers of the program (the BPF classifier and the AF_XDP receiver) both
  promise: which Ethernet frames carry an experiment packet, with which destination port and
  which header.  The contract is the locale \<open>experiment_parser\<close>; its consequences (trailing
  bytes are ignored, a frame built around a valid header is accepted, the header decides the
  packet identity) are proved here once and reach each parser through its interpretation.
\<close>

section \<open>The UDP datagram of a frame\<close>

text \<open>
  An unfragmented IPv4/UDP datagram that fits in the frame, as destination port and payload.
\<close>

definition udp_view :: "byte list \<Rightarrow> (u16 \<times> byte list) option" where
  "udp_view d =
   (let ihl = (unat (d ! 14) mod 16) * 4;
        ip_len = unat (be16 (sub_bytes d 16 2));
        udp = 14 + ihl;
        udp_len = unat (be16 (sub_bytes d (udp + 4) 2)) in
    if 34 \<le> length d \<and> be16 (sub_bytes d 12 2) = 0x0800 \<and> unat (d ! 14) div 16 = 4 \<and>
       20 \<le> ihl \<and> be16 (sub_bytes d 20 2) AND 0x3fff = 0 \<and> d ! 23 = 17 \<and>
       14 + ip_len \<le> length d \<and> ihl + 8 \<le> ip_len \<and> 8 \<le> udp_len \<and> ihl + udp_len \<le> ip_len
    then Some (be16 (sub_bytes d (udp + 2) 2), sub_bytes d (udp + 8) (udp_len - 8))
    else None)"

definition valid_experiment_header :: "byte list \<Rightarrow> bool" where
  "valid_experiment_header p \<longleftrightarrow>
     32 \<le> length p \<and>
     (let h = experiment_header_of p in
      eh_magic h = ACE_PACKET_MAGIC \<and> eh_version h = ACE_PACKET_VERSION \<and>
      eh_size h = ACE_PACKET_HEADER_SIZE \<and> eh_reserved h = 0)"

definition experiment_view :: "byte list \<Rightarrow> (u16 \<times> ace_experiment_header) option" where
  "experiment_view d =
     (case udp_view d of
        None \<Rightarrow> None
      | Some (port, p) \<Rightarrow>
          if valid_experiment_header p then Some (port, experiment_header_of p) else None)"

definition header_key :: "ace_experiment_header \<Rightarrow> ace_packet_key" where
  "header_key h = \<lparr>pk_flow_id = eh_flow_id h, pk_reserved = 0, pk_sequence = eh_sequence h\<rparr>"

section \<open>Frames around a payload\<close>

text \<open>The Ethernet/IPv4/UDP frame (no IP options, not a fragment) that carries \<open>payload\<close>.\<close>

definition udp_frame ::
  "byte list \<Rightarrow> byte \<Rightarrow> byte list \<Rightarrow> byte \<Rightarrow> byte list \<Rightarrow> u16 \<Rightarrow> u16 \<Rightarrow> byte list \<Rightarrow> byte list \<Rightarrow> byte list"
  where
  "udp_frame macs tos ident ttl rest sport dport ucsum payload =
     macs @ [0x08, 0x00] @ [0x45, tos] @ htobe16 (of_nat (28 + length payload)) @ ident @
     [0x40, 0x00, ttl, 17] @ rest @ htobe16 sport @ htobe16 dport @
     htobe16 (of_nat (8 + length payload)) @ ucsum @ payload"

lemma udp_view_udp_frame:
  assumes "length macs = 12" "length ident = 2" "length rest = 10" "length ucsum = 2"
    and len: "length payload \<le> 65507"
  shows "udp_view (udp_frame macs tos ident ttl rest sport dport ucsum payload @ pad)
    = Some (dport, payload)"
proof -
  let ?d = "udp_frame macs tos ident ttl rest sport dport ucsum payload @ pad"
  have v: "?d ! 14 = 0x45" and p: "?d ! 23 = 17"
    using assms by (simp_all add: udp_frame_def nth_append)
  have et: "sub_bytes ?d 12 2 = [0x08, 0x00]" and fr: "sub_bytes ?d 20 2 = [0x40, 0x00]"
    using assms by (simp_all add: udp_frame_def sub_bytes_def)
  have tl: "sub_bytes ?d 16 2 = htobe16 (of_nat (28 + length payload))"
    and ul: "sub_bytes ?d 38 2 = htobe16 (of_nat (8 + length payload))"
    and dp: "sub_bytes ?d 36 2 = htobe16 dport"
    and pl: "sub_bytes ?d 42 (length payload) = payload"
    using assms by (simp_all add: udp_frame_def sub_bytes_def)
  have e: "be16 [0x08, 0x00] = (0x0800 :: u16)" "be16 [0x40, 0x00] AND 0x3fff = (0 :: u16)"
    by (simp_all add: be16_def be_nat_def)
  have n: "unat (of_nat (28 + length payload) :: u16) = 28 + length payload"
    "unat (of_nat (8 + length payload) :: u16) = 8 + length payload"
    using len by (simp_all add: unat_of_nat del: of_nat_add)
  have L: "length (udp_frame macs tos ident ttl rest sport dport ucsum payload)
      = 42 + length payload"
    using assms by (simp add: udp_frame_def)
  show ?thesis
    unfolding udp_view_def Let_def v by (simp del: of_nat_add add: et fr tl ul dp pl p e n L)
qed

section \<open>The parser contract\<close>

text \<open>
  A parser serves the ports of its \<open>route\<close> and answers with the requested path of the port and
  the identity of the packet.
\<close>

locale experiment_parser =
  fixes accepts :: "byte list \<Rightarrow> (u16 \<times> ace_packet_key) option"
    and route :: "u16 \<rightharpoonup> u16"
  assumes accepts_view:
    "accepts d = (case experiment_view d of
                    None \<Rightarrow> None
                  | Some (port, h) \<Rightarrow> map_option (\<lambda>path. (path, header_key h)) (route port))"
begin

lemma accepts_Some_iff:
  "accepts d = Some (path, key) \<longleftrightarrow>
     (\<exists>port h. experiment_view d = Some (port, h) \<and> route port = Some path \<and> key = header_key h)"
  by (auto simp: accepts_view split: option.splits)

lemma accepts_frame:
  assumes "length macs = 12" "length ident = 2" "length rest = 10" "length ucsum = 2"
    and "length body \<le> 65475" and "route dport = Some path"
    and "eh_magic h = ACE_PACKET_MAGIC" "eh_version h = ACE_PACKET_VERSION"
    and "eh_size h = ACE_PACKET_HEADER_SIZE" "eh_reserved h = 0"
  shows "accepts (udp_frame macs tos ident ttl rest sport dport ucsum
           (experiment_header_bytes h @ body) @ pad) = Some (path, header_key h)"
  using assms
  by (simp add: accepts_view experiment_view_def udp_view_udp_frame valid_experiment_header_def)

lemma accepts_reserved_zero: "accepts d = Some (path, key) \<Longrightarrow> pk_reserved key = 0"
  by (auto simp: accepts_Some_iff header_key_def)

end

text \<open>Two parsers of the contract agree on every path that the same ports lead to.\<close>

lemma experiment_parsers_agree:
  assumes "experiment_parser p r" "experiment_parser q s"
    and "\<And>port. r port = Some path \<longleftrightarrow> s port = Some path"
  shows "p d = Some (path, key) \<longleftrightarrow> q d = Some (path, key)"
  using experiment_parser.accepts_Some_iff [OF assms(1)]
    experiment_parser.accepts_Some_iff [OF assms(2)] assms(3) by auto

section \<open>Reading the header from a longer payload\<close>

lemma experiment_header_of_sub_bytes:
  "32 \<le> n \<Longrightarrow> experiment_header_of (sub_bytes d off n) = experiment_header_of (sub_bytes d off 32)"
  by (simp add: experiment_header_of_def sub_bytes_sub_bytes)

end
