(* ===== verification/Xdp_Kern.thy ===== *)
theory Xdp_Kern
  imports Packet_Spec
begin

text \<open>
  The two BPF programs of \<^verbatim>\<open>BPF/xdp_kern.c\<close>: the native XDP classifier \<open>xdp_dispatch\<close>
  (parse, metadata, ingress record, redirect) and the destination-CPU observer
  \<open>xdp_cpumap_measure\<close>.  The kernel services they call (map update, \<^verbatim>\<open>adjust_meta\<close>, the RX
  timestamp kfunc, redirect, clock) are the fields of \<open>bpf_helpers\<close>, an argument of the
  programs.  Packet reads and writes are bounds-checked loads and stores: \<open>None\<close> is an access
  outside the packet or metadata area.  The classifier is shown equal to a specification over
  the UDP datagram of the frame, and its parser implements the parser contract of Packet_Spec.
\<close>

unbundle bit_operations_syntax

section \<open>State and environment\<close>

datatype xdp_action = XDP_ABORTED | XDP_DROP | XDP_PASS | XDP_TX | XDP_REDIRECT

text \<open>
  The context: \<open>ctx_data\<close> are the bytes from \<^verbatim>\<open>data\<close> to \<^verbatim>\<open>data_end\<close>, \<open>ctx_meta\<close> those from
  \<^verbatim>\<open>data_meta\<close> to \<^verbatim>\<open>data\<close>.
\<close>

record xdp_md =
  ctx_data :: "byte list"
  ctx_meta :: "byte list"
  ctx_rx_queue_index :: u32

record bpf_maps =
  stats :: "u32 \<Rightarrow> ace_xdp_stat_id \<Rightarrow> u64"
  ingress_records :: "ace_packet_key \<rightharpoonup> ace_ingress_record"
  cpumap_records :: "ace_packet_key \<rightharpoonup> ace_cpumap_record"

text \<open>
  The helpers of one program invocation.  The two update functions are
  \<^verbatim>\<open>bpf_map_update_elem(.., BPF_NOEXIST)\<close> on the two record maps: they return the helper's
  result (0 or a negative errno) and the new map.
\<close>

record bpf_helpers =
  ktime_get_ns :: u64
  get_smp_processor_id :: u32
  xdp_adjust_meta :: "xdp_md \<Rightarrow> int \<Rightarrow> int \<times> xdp_md"
  xdp_metadata_rx_timestamp :: "xdp_md \<Rightarrow> int \<times> u64"
  redirect_cpu_map :: "u32 \<Rightarrow> xdp_action \<Rightarrow> xdp_action"
  redirect_xsk_map :: "u32 \<Rightarrow> xdp_action \<Rightarrow> xdp_action"
  update_ingress :: "(ace_packet_key \<rightharpoonup> ace_ingress_record) \<Rightarrow> ace_packet_key \<Rightarrow>
     ace_ingress_record \<Rightarrow> int \<times> (ace_packet_key \<rightharpoonup> ace_ingress_record)"
  update_cpumap :: "(ace_packet_key \<rightharpoonup> ace_cpumap_record) \<Rightarrow> ace_packet_key \<Rightarrow>
     ace_cpumap_record \<Rightarrow> int \<times> (ace_packet_key \<rightharpoonup> ace_cpumap_record)"

definition count_stat :: "u32 \<Rightarrow> ace_xdp_stat_id \<Rightarrow> bpf_maps \<Rightarrow> bpf_maps" where
  "count_stat cpu i m =
     (if stat_index i < ACE_XDP_STAT_COUNT
      then m\<lparr>stats := (stats m)(cpu := (stats m cpu)(i := stats m cpu i + 1))\<rparr>
      else m)"

section \<open>The classifier\<close>

text \<open>
  The result is \<open>(return value, *key, *requested_path, maps)\<close>.  Offsets: Ethernet header 14
  bytes, minimal IPv4 header 20, UDP header 8, experiment header 32.
\<close>

definition parse_experiment_packet ::
  "u32 \<Rightarrow> xdp_md \<Rightarrow> ace_packet_key \<Rightarrow> u16 \<Rightarrow> bpf_maps \<Rightarrow>
     (int \<times> ace_packet_key \<times> u16 \<times> bpf_maps) option" where
  "parse_experiment_packet cpu ctx key requested_path m =
   (let d = ctx_data ctx; data_end = length d; iph = 14 in
    if 14 > data_end then Some (0, key, requested_path, m)
    else do {
      h_proto \<leftarrow> ld_be16 d 12;
      if h_proto \<noteq> 0x0800 then Some (0, key, requested_path, m)
      else if iph + 20 > data_end
      then Some (0, key, requested_path, count_stat cpu STAT_IPV4_INVALID m)
      else do {
        ver_ihl \<leftarrow> ld8 d iph;
        if unat ver_ihl div 16 \<noteq> 4 \<or> unat ver_ihl mod 16 < 5
        then Some (0, key, requested_path, count_stat cpu STAT_IPV4_INVALID m)
        else do {
          tot_len \<leftarrow> ld_be16 d (iph + 2);
          let ihl_len = (unat ver_ihl mod 16) * 4;
          let ip_len = unat tot_len;
          if ip_len < ihl_len \<or> iph + ihl_len > data_end \<or> iph + ip_len > data_end
          then Some (0, key, requested_path, count_stat cpu STAT_IPV4_INVALID m)
          else do {
            frag_off \<leftarrow> ld_be16 d (iph + 6);
            if frag_off AND 0x3fff \<noteq> 0
            then Some (0, key, requested_path, count_stat cpu STAT_IPV4_FRAGMENT m)
            else do {
              protocol \<leftarrow> ld8 d (iph + 9);
              if protocol \<noteq> 17 then Some (0, key, requested_path, m)
              else if ip_len < ihl_len + 8
              then Some (0, key, requested_path, count_stat cpu STAT_IPV4_INVALID m)
              else (let udp = iph + ihl_len in
                if udp + 8 > data_end
                then Some (0, key, requested_path, count_stat cpu STAT_IPV4_INVALID m)
                else do {
                  ulen \<leftarrow> ld_be16 d (udp + 4);
                  let udp_len = unat ulen;
                  if udp_len < 8 \<or> udp_len > ip_len - ihl_len \<or> udp + udp_len > data_end
                  then Some (0, key, requested_path, count_stat cpu STAT_IPV4_INVALID m)
                  else do {
                    dest \<leftarrow> ld_be16 d (udp + 2);
                    if dest \<noteq> ACE_XDP_PASS_PORT \<and> dest \<noteq> ACE_XDP_RT_PORT \<and> dest \<noteq> ACE_XDP_XSK_PORT
                    then Some (0, key, requested_path, m)
                    else (let path = (if dest = ACE_XDP_PASS_PORT then ACE_PATH_PASS
                                      else if dest = ACE_XDP_RT_PORT then ACE_PATH_CPUMAP
                                      else ACE_PATH_XSK);
                              payload = udp + 8 in
                      if udp_len < 8 + 32 \<or> payload + 32 > data_end
                      then Some (-1, key, path, count_stat cpu STAT_PACKET_HEADER_INVALID m)
                      else do {
                        bytes \<leftarrow> ld_bytes d payload 32;
                        let wire = experiment_header_of bytes;
                        if eh_magic wire \<noteq> ACE_PACKET_MAGIC \<or>
                           eh_version wire \<noteq> ACE_PACKET_VERSION \<or>
                           eh_size wire \<noteq> ACE_PACKET_HEADER_SIZE \<or> eh_reserved wire \<noteq> 0
                        then Some (-1, key, path, count_stat cpu STAT_PACKET_HEADER_INVALID m)
                        else Some (1, \<lparr>pk_flow_id = eh_flow_id wire, pk_reserved = 0,
                                       pk_sequence = eh_sequence wire\<rparr>, path, m)
                      })
                  }
                })
            }
          }
        }
      }
    })"

definition record_ingress ::
  "bpf_helpers \<Rightarrow> ace_packet_key \<Rightarrow> ace_rx_meta \<Rightarrow> bpf_maps \<Rightarrow> bpf_maps" where
  "record_ingress h key meta m =
   (let cpu = get_smp_processor_id h;
        record = \<lparr>ir_flow_id = pk_flow_id key, ir_rx_queue = rm_rx_queue meta,
                  ir_sequence = pk_sequence key, ir_hw_rx_ns = rm_hw_rx_ns meta,
                  ir_initial_xdp_ns = rm_initial_xdp_ns meta, ir_flags = rm_flags meta,
                  ir_requested_path = rm_requested_path meta,
                  ir_timestamp_error = rm_timestamp_error meta\<rparr>;
        (err, recs) = update_ingress h (ingress_records m) key record;
        m = m\<lparr>ingress_records := recs\<rparr> in
    if err = 0 then count_stat cpu STAT_INGRESS_RECORDED m
    else if err = - EEXIST then count_stat cpu STAT_INGRESS_DUPLICATE m
    else count_stat cpu STAT_INGRESS_UPDATE_ERROR m)"

text \<open>The metadata the classifier writes, before and after the hardware timestamp is read.\<close>

definition initial_rx_meta :: "ace_packet_key \<Rightarrow> u16 \<Rightarrow> u64 \<Rightarrow> u32 \<Rightarrow> ace_rx_meta" where
  "initial_rx_meta key requested_path initial_xdp_ns rx_queue =
     \<lparr>rm_magic = ACE_RX_META_MAGIC, rm_version = ACE_RX_META_VERSION, rm_size = 56,
      rm_flags = ACE_META_F_PACKET_ID_VALID OR ACE_META_F_PATH_REQUESTED,
      rm_flow_id = pk_flow_id key, rm_sequence = pk_sequence key, rm_hw_rx_ns = 0,
      rm_initial_xdp_ns = initial_xdp_ns, rm_cpumap_ns = 0, rm_rx_queue = rx_queue,
      rm_requested_path = requested_path, rm_timestamp_error = 0\<rparr>"

definition stamp_rx_meta :: "int \<Rightarrow> u64 \<Rightarrow> ace_rx_meta \<Rightarrow> ace_rx_meta" where
  "stamp_rx_meta ts_err hw_rx_ns meta =
     (if ts_err = 0
      then meta\<lparr>rm_hw_rx_ns := hw_rx_ns, rm_flags := rm_flags meta OR ACE_META_F_HWTS_VALID\<rparr>
      else meta\<lparr>rm_flags := rm_flags meta OR ACE_META_F_TIMESTAMP_ERROR,
                rm_timestamp_error := word_of_int ts_err\<rparr>)"

definition prepare_measurement_metadata ::
  "bpf_helpers \<Rightarrow> xdp_md \<Rightarrow> ace_packet_key \<Rightarrow> u16 \<Rightarrow> u64 \<Rightarrow> bpf_maps \<Rightarrow>
     (int \<times> xdp_md \<times> bpf_maps) option" where
  "prepare_measurement_metadata h ctx key requested_path initial_xdp_ns m =
   (let cpu = get_smp_processor_id h;
        (adj, ctx) = xdp_adjust_meta h ctx (- 56) in
    if adj \<noteq> 0 then Some (-1, ctx, count_stat cpu STAT_META_ADJUST_ERROR m)
    else if 56 > length (ctx_meta ctx)
    then Some (-1, ctx, count_stat cpu STAT_META_BOUNDS_ERROR m)
    else do {
      let meta = initial_rx_meta key requested_path initial_xdp_ns (ctx_rx_queue_index ctx);
      area \<leftarrow> st_bytes (ctx_meta ctx) 0 (rx_meta_bytes meta);
      let ctx = ctx\<lparr>ctx_meta := area\<rparr>;
      let (ts_err, hw_rx_ns) = xdp_metadata_rx_timestamp h ctx;
      let meta = stamp_rx_meta ts_err hw_rx_ns meta;
      area \<leftarrow> st_bytes (ctx_meta ctx) 0 (rx_meta_bytes meta);
      let ctx = ctx\<lparr>ctx_meta := area\<rparr>;
      let m = count_stat cpu (if ts_err = 0 then STAT_HWTS_VALID else STAT_HWTS_ERROR) m;
      Some (0, ctx, record_ingress h key meta m)
    })"

definition dispatch_requested_path ::
  "bpf_helpers \<Rightarrow> xdp_md \<Rightarrow> u16 \<Rightarrow> bpf_maps \<Rightarrow> xdp_action \<times> bpf_maps" where
  "dispatch_requested_path h ctx requested_path m =
   (let cpu = get_smp_processor_id h in
    if requested_path = ACE_PATH_CPUMAP then
      (let action = redirect_cpu_map h ACE_XDP_RT_CPU XDP_PASS in
       if action = XDP_REDIRECT then (action, count_stat cpu STAT_CPUMAP m)
       else (XDP_PASS, count_stat cpu STAT_PASS (count_stat cpu STAT_CPUMAP_FALLBACK m)))
    else if requested_path = ACE_PATH_XSK then
      (let action = redirect_xsk_map h (ctx_rx_queue_index ctx) XDP_PASS in
       if action = XDP_REDIRECT then (action, count_stat cpu STAT_XSK m)
       else (XDP_PASS, count_stat cpu STAT_PASS (count_stat cpu STAT_XSK_FALLBACK m)))
    else (XDP_PASS, count_stat cpu STAT_PASS (count_stat cpu STAT_EXPERIMENT_PASS m)))"

definition xdp_dispatch ::
  "bpf_helpers \<Rightarrow> u32 \<Rightarrow> xdp_md \<Rightarrow> bpf_maps \<Rightarrow> (xdp_action \<times> xdp_md \<times> bpf_maps) option" where
  "xdp_dispatch h forwarding_mode ctx m =
   (let cpu = get_smp_processor_id h;
        initial_xdp_ns = ktime_get_ns h;
        m = count_stat cpu STAT_TOTAL m in
    do {
      (parsed, packet_key, requested_path, m) \<leftarrow>
        parse_experiment_packet cpu ctx \<lparr>pk_flow_id = 0, pk_reserved = 0, pk_sequence = 0\<rparr>
          ACE_PATH_PASS m;
      let requested_path = ace_effective_requested_path forwarding_mode requested_path;
      if parsed > 0 then do {
        (failed, ctx, m) \<leftarrow>
          prepare_measurement_metadata h ctx packet_key requested_path initial_xdp_ns m;
        if failed = 0 then
          (let (action, m) = dispatch_requested_path h ctx requested_path m
           in Some (action, ctx, m))
        else Some (XDP_PASS, ctx, count_stat cpu STAT_PASS m)
      }
      else Some (XDP_PASS, ctx, count_stat cpu STAT_PASS m)
    })"

section \<open>The destination-CPU observer\<close>

definition xdp_cpumap_measure ::
  "bpf_helpers \<Rightarrow> xdp_md \<Rightarrow> bpf_maps \<Rightarrow> (xdp_action \<times> xdp_md \<times> bpf_maps) option" where
  "xdp_cpumap_measure h ctx m =
   (let cpu = get_smp_processor_id h in
    if 56 > length (ctx_meta ctx)
    then Some (XDP_PASS, ctx, count_stat cpu STAT_CPUMAP_META_INVALID m)
    else do {
      bytes \<leftarrow> ld_bytes (ctx_meta ctx) 0 56;
      let meta = rx_meta_of bytes;
      if rm_magic meta \<noteq> ACE_RX_META_MAGIC \<or> rm_version meta \<noteq> ACE_RX_META_VERSION \<or>
         rm_size meta \<noteq> 56 \<or> rm_flags meta AND ACE_META_F_PACKET_ID_VALID = 0 \<or>
         rm_requested_path meta \<noteq> ACE_PATH_CPUMAP
      then Some (XDP_PASS, ctx, count_stat cpu STAT_CPUMAP_META_INVALID m)
      else do {
        let cpumap_ns = ktime_get_ns h;
        let meta = meta\<lparr>rm_cpumap_ns := cpumap_ns,
                        rm_flags := rm_flags meta OR ACE_META_F_CPUMAP_SEEN\<rparr>;
        area \<leftarrow> st_bytes (ctx_meta ctx) 0 (rx_meta_bytes meta);
        let ctx = ctx\<lparr>ctx_meta := area\<rparr>;
        let key = \<lparr>pk_flow_id = rm_flow_id meta, pk_reserved = 0,
                   pk_sequence = rm_sequence meta\<rparr>;
        let record = \<lparr>cr_flow_id = rm_flow_id meta, cr_cpu = cpu,
                      cr_sequence = rm_sequence meta, cr_cpumap_ns = cpumap_ns,
                      cr_flags = rm_flags meta, cr_requested_path = rm_requested_path meta,
                      cr_reserved = 0\<rparr>;
        let (err, recs) = update_cpumap h (cpumap_records m) key record;
        let m = m\<lparr>cpumap_records := recs\<rparr>;
        Some (XDP_PASS, ctx,
          count_stat cpu (if err = 0 then STAT_CPUMAP_RECORDED
                          else if err = - EEXIST then STAT_CPUMAP_DUPLICATE
                          else STAT_CPUMAP_UPDATE_ERROR) m)
      }
    })"

section \<open>Elementary facts\<close>

lemma stats_count_stat [simp]:
  "stats (count_stat cpu i m) c j = stats m c j + (if c = cpu \<and> j = i then 1 else 0)"
  by (simp add: count_stat_def)

lemma maps_count_stat [simp]:
  "ingress_records (count_stat cpu i m) = ingress_records m"
  "cpumap_records (count_stat cpu i m) = cpumap_records m"
  by (simp_all add: count_stat_def)

lemma length_st_bytes [load_defs]:
  "off + length bs \<le> length m \<Longrightarrow>
     st_bytes m off bs = Some (take off m @ bs @ drop (off + length bs) m)"
  by (simp add: st_bytes_def)

section \<open>Specification of the parser\<close>

text \<open>The requested path of each experiment port.\<close>

definition xdp_route :: "u16 \<rightharpoonup> u16" where
  "xdp_route port =
     (if port = ACE_XDP_PASS_PORT then Some ACE_PATH_PASS
      else if port = ACE_XDP_RT_PORT then Some ACE_PATH_CPUMAP
      else if port = ACE_XDP_XSK_PORT then Some ACE_PATH_XSK else None)"

text \<open>The statistic a frame without a UDP datagram is counted under, if any.\<close>

definition ipv4_fault :: "byte list \<Rightarrow> ace_xdp_stat_id option" where
  "ipv4_fault d =
   (let ihl = (unat (d ! 14) mod 16) * 4;
        ip_len = unat (be16 (sub_bytes d 16 2));
        udp_len = unat (be16 (sub_bytes d (14 + ihl + 4) 2)) in
    if length d < 14 \<or> be16 (sub_bytes d 12 2) \<noteq> 0x0800 then None
    else if length d < 34 \<or> unat (d ! 14) div 16 \<noteq> 4 \<or> ihl < 20 \<or> ip_len < ihl \<or>
            length d < 14 + ip_len then Some STAT_IPV4_INVALID
    else if be16 (sub_bytes d 20 2) AND 0x3fff \<noteq> 0 then Some STAT_IPV4_FRAGMENT
    else if d ! 23 \<noteq> 17 then None
    else if ip_len < ihl + 8 \<or> udp_len < 8 \<or> ip_len < ihl + udp_len
    then Some STAT_IPV4_INVALID
    else None)"

definition count_fault :: "u32 \<Rightarrow> ace_xdp_stat_id option \<Rightarrow> bpf_maps \<Rightarrow> bpf_maps" where
  "count_fault cpu s m = (case s of None \<Rightarrow> m | Some s \<Rightarrow> count_stat cpu s m)"

lemma ipv4_fault_cases: "ipv4_fault d \<in> {None, Some STAT_IPV4_INVALID, Some STAT_IPV4_FRAGMENT}"
  by (simp add: ipv4_fault_def Let_def)

text \<open>A frame with a UDP datagram: only the port and the payload decide.\<close>

lemma parse_datagram:
  assumes view: "udp_view (ctx_data ctx) = Some (port, p)"
  shows "parse_experiment_packet cpu ctx key rp m =
    (case xdp_route port of
       None \<Rightarrow> Some (0, key, rp, m)
     | Some path \<Rightarrow>
         if valid_experiment_header p
         then Some (1, header_key (experiment_header_of p), path, m)
         else Some (-1, key, path, count_stat cpu STAT_PACKET_HEADER_INVALID m))"
proof -
  define d ihl ip_len udp_len where "d = ctx_data ctx" and "ihl = unat (d ! 14) mod 16 * 4"
    and "ip_len = unat (be16 (sub_bytes d 16 2))"
    and "udp_len = unat (be16 (sub_bytes d (18 + ihl) 2))"
  have i5: "unat (d ! 14) mod 16 < 5 \<longleftrightarrow> ihl < 20" by (simp add: ihl_def)
  note folds = d_def [symmetric] ihl_def [symmetric] i5 ip_len_def [symmetric] udp_len_def [symmetric]
  have off: "14 + ihl + 4 = 18 + ihl" "14 + ihl + 2 = 16 + ihl" "14 + ihl + 8 = 22 + ihl" by simp_all
  have ok: "34 \<le> length d" "be16 (sub_bytes d 12 2) = 0x0800" "unat (d ! 14) div 16 = 4" "20 \<le> ihl"
    "be16 (sub_bytes d 20 2) AND 0x3fff = 0" "d ! 23 = 17" "14 + ip_len \<le> length d"
    "ihl + 8 \<le> ip_len" "8 \<le> udp_len" "ihl + udp_len \<le> ip_len"
    and port: "port = be16 (sub_bytes d (16 + ihl) 2)"
    and p: "p = sub_bytes d (22 + ihl) (udp_len - 8)"
    using view unfolding udp_view_def Let_def folds off by (simp_all split: if_splits)
  have le: "\<not> ip_len - ihl < udp_len" "\<not> length d < 14 + ihl + udp_len" using ok by linarith+
  let ?h = "experiment_header_of (sub_bytes d (22 + ihl) 32)"
  have len: "length p = udp_len - 8" using ok p by (simp add: sub_bytes_def)
  show ?thesis
  proof (cases "udp_len < 40")
    case True
    then have "\<not> valid_experiment_header p"
      using len unfolding valid_experiment_header_def by linarith
    with ok le True show ?thesis
      unfolding parse_experiment_packet_def Let_def folds off
      by (simp add: load_defs folds port xdp_route_def)
  next
    case False
    then have h: "experiment_header_of p = ?h"
      unfolding p by (intro experiment_header_of_sub_bytes) simp
    have "valid_experiment_header p \<longleftrightarrow> eh_magic ?h = ACE_PACKET_MAGIC \<and>
        eh_version ?h = ACE_PACKET_VERSION \<and> eh_size ?h = ACE_PACKET_HEADER_SIZE \<and> eh_reserved ?h = 0"
    proof -
      have "32 \<le> length p" using len False by linarith
      then show ?thesis unfolding valid_experiment_header_def Let_def h by simp
    qed
    with ok le False show ?thesis
      unfolding parse_experiment_packet_def Let_def folds off
      by (simp add: load_defs folds port xdp_route_def h header_key_def)
  qed
qed

text \<open>A frame without one is not touched: at most one malformation counter changes.\<close>

lemma parse_no_datagram:
  assumes view: "udp_view (ctx_data ctx) = None"
  shows "parse_experiment_packet cpu ctx key rp m =
    Some (0, key, rp, count_fault cpu (ipv4_fault (ctx_data ctx)) m)"
proof -
  define d ihl ver ip_len udp_len frag et where "d = ctx_data ctx"
    and "ihl = unat (d ! 14) mod 16 * 4" and "ver = unat (d ! 14) div 16"
    and "ip_len = unat (be16 (sub_bytes d 16 2))"
    and "udp_len = unat (be16 (sub_bytes d (18 + ihl) 2))"
    and "frag = be16 (sub_bytes d 20 2) AND 0x3fff" and "et = be16 (sub_bytes d 12 2)"
  have i5: "unat (d ! 14) mod 16 < 5 \<longleftrightarrow> ihl < 20" by (simp add: ihl_def)
  have off: "14 + ihl + 4 = 18 + ihl" "14 + ihl + 2 = 16 + ihl" "14 + ihl + 8 = 22 + ihl" by simp_all
  note folds = d_def [symmetric] ihl_def [symmetric] i5 ver_def [symmetric] ip_len_def [symmetric]
    udp_len_def [symmetric] frag_def [symmetric] et_def [symmetric]
  note unf = parse_experiment_packet_def ipv4_fault_def Let_def folds off
  note ev = count_fault_def load_defs folds
  have no: "\<not> (34 \<le> length d \<and> et = 0x0800 \<and> ver = 4 \<and> 20 \<le> ihl \<and> frag = 0 \<and> d ! 23 = 17 \<and>
      14 + ip_len \<le> length d \<and> ihl + 8 \<le> ip_len \<and> 8 \<le> udp_len \<and> ihl + udp_len \<le> ip_len)"
    using view unfolding udp_view_def Let_def folds off by (simp split: if_splits)
  consider "length d < 14" | "14 \<le> length d" "et \<noteq> 0x0800"
    | "14 \<le> length d" "et = 0x0800" "length d < 34"
    | "34 \<le> length d" "et = 0x0800" "ver \<noteq> 4 \<or> ihl < 20"
    | (ip) "34 \<le> length d" "et = 0x0800" "ver = 4" "20 \<le> ihl"
    using not_le by (atomize_elim) (cases "et = 0x0800"; cases "ver = 4"; simp; linarith)
  then show ?thesis
  proof cases
    case ip
    then consider "ip_len < ihl \<or> length d < 14 + ip_len"
      | "ihl \<le> ip_len" "14 + ip_len \<le> length d" "frag \<noteq> 0"
      | "ihl \<le> ip_len" "14 + ip_len \<le> length d" "frag = 0" "d ! 23 \<noteq> 17"
      | "ihl \<le> ip_len" "14 + ip_len \<le> length d" "frag = 0" "d ! 23 = 17" "ip_len < ihl + 8"
      | (udp) "ihl + 8 \<le> ip_len" "14 + ip_len \<le> length d" "frag = 0" "d ! 23 = 17"
        "udp_len < 8 \<or> ip_len < ihl + udp_len"
      using no not_le by (atomize_elim) (cases "frag = 0"; cases "d ! 23 = 17"; simp; linarith)
    then show ?thesis
    proof cases
      case udp
      then have "ip_len - ihl < udp_len \<longleftrightarrow> ip_len < ihl + udp_len" by linarith
      with udp ip show ?thesis unfolding unf by (auto simp: ev split del: if_split)
    qed (use ip in \<open>unfold unf, auto simp: ev split del: if_split\<close>)
  qed (unfold unf, auto simp: ev split del: if_split)
qed

lemmas parse_spec = parse_datagram parse_no_datagram

lemma parse_total: "\<exists>r. parse_experiment_packet cpu ctx key rp m = Some r"
proof (cases "udp_view (ctx_data ctx)")
  case None
  then show ?thesis by (simp add: parse_no_datagram)
next
  case (Some v)
  then show ?thesis by (cases v) (auto simp: parse_datagram split: option.splits)
qed

text \<open>The parser as a function of the frame: path and identity of an accepted packet.\<close>

definition bpf_accepts :: "byte list \<Rightarrow> (u16 \<times> ace_packet_key) option" where
  "bpf_accepts d =
     (case parse_experiment_packet 0 \<lparr>ctx_data = d, ctx_meta = [], ctx_rx_queue_index = 0\<rparr>
             \<lparr>pk_flow_id = 0, pk_reserved = 0, pk_sequence = 0\<rparr> ACE_PATH_PASS
             \<lparr>stats = (\<lambda>_ _. 0), ingress_records = Map.empty, cpumap_records = Map.empty\<rparr> of
        Some (r, key, path, _) \<Rightarrow> if r > 0 then Some (path, key) else None
      | None \<Rightarrow> None)"

interpretation bpf: experiment_parser bpf_accepts xdp_route
proof
  fix d
  show "bpf_accepts d = (case experiment_view d of
      None \<Rightarrow> None
    | Some (port, h) \<Rightarrow> map_option (\<lambda>path. (path, header_key h)) (xdp_route port))"
    by (cases "udp_view d")
      (auto simp: bpf_accepts_def experiment_view_def parse_spec split: option.splits if_splits)
qed

text \<open>Every run of the parser is an acceptance of the contract or a rejection that changes only statistics.\<close>

lemma parse_cases:
  obtains (accept) path k where "bpf_accepts (ctx_data ctx) = Some (path, k)"
      "\<And>cpu key rp m. parse_experiment_packet cpu ctx key rp m = Some (1, k, path, m)"
  | (bad_header) path where "bpf_accepts (ctx_data ctx) = None"
      "\<And>cpu key rp m. parse_experiment_packet cpu ctx key rp m
         = Some (-1, key, path, count_stat cpu STAT_PACKET_HEADER_INVALID m)"
  | (other) f where "bpf_accepts (ctx_data ctx) = None"
      "f \<in> {None, Some STAT_IPV4_INVALID, Some STAT_IPV4_FRAGMENT}"
      "\<And>cpu key rp m. parse_experiment_packet cpu ctx key rp m = Some (0, key, rp, count_fault cpu f m)"
proof (cases "udp_view (ctx_data ctx)")
  case None
  show ?thesis
    by (rule other [OF _ ipv4_fault_cases [of "ctx_data ctx"]])
      (use None in \<open>simp_all add: bpf.accepts_view experiment_view_def parse_no_datagram\<close>)
next
  case (Some v)
  obtain port p where v: "v = (port, p)" by (cases v)
  note spec = Some [unfolded v] parse_datagram [OF Some [unfolded v]]
  show ?thesis
  proof (cases "xdp_route port")
    case None
    show ?thesis
      by (rule other [of None]) (use None spec in \<open>simp_all add: bpf.accepts_view experiment_view_def count_fault_def\<close>)
  next
    case (Some path)
    then show ?thesis
      using spec accept bad_header
      by (cases "valid_experiment_header p") (simp_all add: bpf.accepts_view experiment_view_def)
  qed
qed

end
