(* ===== verification/Afxdp_Packet.thy ===== *)
theory Afxdp_Packet
  imports Xdp_Kern
begin

text \<open>
  Packet parsing of the AF_XDP receiver (\<^verbatim>\<open>BPF/afxdp_recv.c\<close>, \<^verbatim>\<open>packet_udp_info\<close> and
  \<^verbatim>\<open>experiment_packet_id\<close>).  The receiver parses every frame again in user space; that it
  agrees with the classifier is shown by interpreting the same parser contract.
\<close>

unbundle bit_operations_syntax

text \<open>The payload pointer is its offset in the packet.\<close>

record udp_packet_info =
  up_payload :: nat
  up_payload_length :: nat
  up_destination_port :: u16

text \<open>\<open>None\<close> is an access beyond \<open>length\<close> bytes, \<open>Some None\<close> the result \<open>false\<close>.\<close>

definition packet_udp_info :: "byte list \<Rightarrow> udp_packet_info option option" where
  "packet_udp_info bytes =
   (let len = length bytes in
    if len < 14 then Some None
    else do {
      h_proto \<leftarrow> ld_be16 bytes 12;
      if h_proto \<noteq> 0x0800 then Some None
      else if len < 14 + 20 then Some None
      else do {
        ip \<leftarrow> ld_bytes bytes 14 20;
        let version = unat (ip ! 0) div 16;
        let ihl = unat (ip ! 0) mod 16;
        if version \<noteq> 4 \<or> ihl < 5 \<or> ip ! 9 \<noteq> 17 then Some None
        else if be16 (sub_bytes ip 6 2) AND 0x3fff \<noteq> 0 then Some None
        else (let ip_header_len = ihl * 4 in
          if len < 14 + ip_header_len + 8 then Some None
          else (let ip_total_len = unat (be16 (sub_bytes ip 2 2)) in
            if ip_total_len < ip_header_len + 8 \<or> ip_total_len > len - 14 then Some None
            else do {
              udp \<leftarrow> ld_bytes bytes (14 + ip_header_len) 8;
              let udp_len = unat (be16 (sub_bytes udp 4 2));
              if udp_len < 8 \<or> udp_len > ip_total_len - ip_header_len then Some None
              else Some (Some \<lparr>up_payload = 14 + ip_header_len + 8,
                               up_payload_length = udp_len - 8,
                               up_destination_port = be16 (sub_bytes udp 2 2)\<rparr>)
            }))
      }
    })"

text \<open>The outputs are \<open>(flow_id, sequence, tx_realtime_ns)\<close>.\<close>

definition experiment_packet_id ::
  "byte list \<Rightarrow> udp_packet_info \<Rightarrow> (u32 \<times> u64 \<times> u64) option option" where
  "experiment_packet_id bytes packet =
   (if up_payload_length packet < 32 then Some None
    else do {
      b \<leftarrow> ld_bytes bytes (up_payload packet) 32;
      let header = experiment_header_of b;
      if eh_magic header \<noteq> ACE_PACKET_MAGIC \<or> eh_version header \<noteq> ACE_PACKET_VERSION \<or>
         eh_size header \<noteq> 32 \<or> eh_reserved header \<noteq> 0
      then Some None
      else Some (Some (eh_flow_id header, eh_sequence header, eh_tx_realtime_ns header))
    })"

section \<open>Agreement with the contract\<close>

lemma packet_udp_info_view:
  "packet_udp_info d =
     (case udp_view d of
        None \<Rightarrow> Some None
      | Some (port, p) \<Rightarrow>
          Some (Some \<lparr>up_payload = 14 + (unat (d ! 14) mod 16) * 4 + 8,
                      up_payload_length = length p, up_destination_port = port\<rparr>))"
proof -
  define ihl ip_len udp_len frag where "ihl = unat (d ! 14) mod 16 * 4"
    and "ip_len = unat (be16 (sub_bytes d 16 2))"
    and "udp_len = unat (be16 (sub_bytes d (18 + ihl) 2))"
    and "frag = be16 (sub_bytes d 20 2) AND 0x3fff"
  have i5: "unat (d ! 14) mod 16 < 5 \<longleftrightarrow> ihl < 20" by (simp add: ihl_def)
  have off: "14 + ihl + 4 = 18 + ihl" "14 + ihl + 2 = 16 + ihl" "14 + ihl + 8 = 22 + ihl" by simp_all
  note folds = ihl_def [symmetric] ip_len_def [symmetric] udp_len_def [symmetric] frag_def [symmetric] i5 off
  have ip: "34 \<le> length d \<Longrightarrow> sub_bytes d 14 20 ! 0 = d ! 14" "34 \<le> length d \<Longrightarrow> sub_bytes d 14 20 ! 9 = d ! 23"
    by (simp_all add: sub_bytes_def)
  show ?thesis
  proof (cases "34 \<le> length d \<and> be16 (sub_bytes d 12 2) = 0x0800")
    case False
    then show ?thesis
      unfolding packet_udp_info_def udp_view_def Let_def by (auto simp: load_defs)
  next
    case True
    have l: "length (sub_bytes d (22 + ihl) (udp_len - 8)) = udp_len - 8"
      if "14 + ip_len \<le> length d" "ihl + udp_len \<le> ip_len" "8 \<le> udp_len"
      using that by (intro length_sub_bytes) linarith
    have c: "(ip_len > length d - 14) = (\<not> 14 + ip_len \<le> length d)"
      "(udp_len > ip_len - ihl) = (\<not> ihl + udp_len \<le> ip_len)" if "ihl + 8 \<le> ip_len"
      using True that by linarith+
    show ?thesis
      using True c l
      unfolding packet_udp_info_def udp_view_def Let_def
      by (auto simp: load_defs ip sub_bytes_sub_bytes folds)
  qed
qed

lemma udp_view_payload:
  assumes "udp_view d = Some (port, p)"
  shows "p = sub_bytes d (14 + (unat (d ! 14) mod 16) * 4 + 8) (length p)"
    and "14 + (unat (d ! 14) mod 16) * 4 + 8 + length p \<le> length d"
  using assms by (auto simp: udp_view_def Let_def split: if_splits)

lemma experiment_packet_id_view:
  assumes v: "udp_view d = Some (port, p)"
  shows "experiment_packet_id d \<lparr>up_payload = 14 + (unat (d ! 14) mod 16) * 4 + 8,
      up_payload_length = length p, up_destination_port = port\<rparr> =
    Some (if valid_experiment_header p
          then Some (eh_flow_id (experiment_header_of p), eh_sequence (experiment_header_of p),
                     eh_tx_realtime_ns (experiment_header_of p)) else None)"
proof -
  define off where "off = 14 + (unat (d ! 14) mod 16) * 4 + 8"
  have p: "p = sub_bytes d off (length p)" and le: "off + length p \<le> length d"
    using udp_view_payload [OF v] by (simp_all add: off_def)
  show ?thesis
  proof (cases "32 \<le> length p")
    case False
    then show ?thesis by (simp add: experiment_packet_id_def valid_experiment_header_def)
  next
    case True
    have h: "experiment_header_of (sub_bytes d off 32) = experiment_header_of p"
      by (subst p, rule experiment_header_of_sub_bytes [OF True, symmetric])
    have "ld_bytes d off 32 = Some (sub_bytes d off 32)" using True le by (simp add: load_defs)
    with True show ?thesis
      unfolding off_def [symmetric]
      by (auto simp: experiment_packet_id_def valid_experiment_header_def Let_def h)
  qed
qed

text \<open>The receiver's verdict on a frame, as \<^verbatim>\<open>receive_batch\<close> combines the two functions.\<close>

definition xsk_accepts :: "byte list \<Rightarrow> (u16 \<times> ace_packet_key) option" where
  "xsk_accepts d =
     (case packet_udp_info d of
        Some (Some info) \<Rightarrow>
          if up_destination_port info \<noteq> ACE_XDP_XSK_PORT then None
          else (case experiment_packet_id d info of
                  Some (Some (flow, sq, _)) \<Rightarrow>
                    Some (ACE_PATH_XSK, \<lparr>pk_flow_id = flow, pk_reserved = 0, pk_sequence = sq\<rparr>)
                | _ \<Rightarrow> None)
      | _ \<Rightarrow> None)"

definition xsk_route :: "u16 \<rightharpoonup> u16" where
  "xsk_route = [ACE_XDP_XSK_PORT \<mapsto> ACE_PATH_XSK]"

interpretation xsk: experiment_parser xsk_accepts xsk_route
proof
  fix d
  show "xsk_accepts d = (case experiment_view d of
      None \<Rightarrow> None
    | Some (port, h) \<Rightarrow> map_option (\<lambda>path. (path, header_key h)) (xsk_route port))"
  proof (cases "udp_view d")
    case None
    then show ?thesis by (simp add: xsk_accepts_def packet_udp_info_view experiment_view_def)
  next
    case (Some v)
    obtain port p where v: "udp_view d = Some (port, p)" using Some by (cases v) simp
    show ?thesis
      using experiment_packet_id_view [OF v]
      by (auto simp: xsk_accepts_def packet_udp_info_view v experiment_view_def xsk_route_def header_key_def)
  qed
qed

section \<open>Properties\<close>

text \<open>
  The receiver's packet parsing never reads beyond the packet, on any bytes.
\<close>

theorem afxdp_parsing_safe:
  "\<exists>r. packet_udp_info d = Some r \<and>
     (case r of None \<Rightarrow> True | Some info \<Rightarrow> \<exists>q. experiment_packet_id d info = Some q)"
proof (cases "udp_view d")
  case None
  then show ?thesis by (simp add: packet_udp_info_view)
next
  case (Some v)
  obtain port p where v: "udp_view d = Some (port, p)" using Some by (cases v) simp
  from experiment_packet_id_view [OF v] show ?thesis by (simp add: packet_udp_info_view v)
qed

text \<open>
  Property C23.  Kernel and user space agree on which packets are experiment packets: the
  receiver accepts a frame with identity \<open>key\<close> exactly when the classifier accepts it for the
  XSK path with the same identity.  The two parsers are written and ordered differently.
\<close>

theorem xsk_agrees_with_classifier:
  "xsk_accepts d = Some (path, key) \<longleftrightarrow> bpf_accepts d = Some (path, key) \<and> path = ACE_PATH_XSK"
proof -
  have "xsk_accepts d = Some (ACE_PATH_XSK, key) \<longleftrightarrow> bpf_accepts d = Some (ACE_PATH_XSK, key)"
    by (rule experiment_parsers_agree [OF xsk.experiment_parser_axioms bpf.experiment_parser_axioms])
      (simp add: xsk_route_def xdp_route_def)
  moreover have "xsk_accepts d = Some (path, key) \<Longrightarrow> path = ACE_PATH_XSK"
    by (auto simp: xsk.accepts_Some_iff xsk_route_def split: if_splits)
  ultimately show ?thesis by auto
qed

text \<open>
  Both parsers accept the frame that carries a valid experiment header on UDP port
  9002, whatever the addresses, identification, time to live, checksums, body and trailing
  padding, and read the header's flow id and sequence number as its identity.
\<close>

theorem frame_accepted_by_both:
  assumes "length macs = 12" "length ident = 2" "length rest = 10" "length ucsum = 2"
    and "length body \<le> 65475"
    and "eh_magic h = ACE_PACKET_MAGIC" "eh_version h = ACE_PACKET_VERSION"
    and "eh_size h = ACE_PACKET_HEADER_SIZE" "eh_reserved h = 0"
    and d: "d = udp_frame macs tos ident ttl rest sport ACE_XDP_XSK_PORT ucsum
           (experiment_header_bytes h @ body) @ pad"
  shows "bpf_accepts d = Some (ACE_PATH_XSK, header_key h) \<and>
    xsk_accepts d = Some (ACE_PATH_XSK, header_key h)"
  unfolding d
  by (intro conjI bpf.accepts_frame xsk.accepts_frame)
    (use assms in \<open>simp_all add: xdp_route_def xsk_route_def\<close>)

theorem frame_accepted_by_both_witness:
  "\<exists>d. xsk_accepts d = Some (ACE_PATH_XSK, \<lparr>pk_flow_id = 7, pk_reserved = 0, pk_sequence = 3\<rparr>)"
proof -
  let ?h = "\<lparr>eh_magic = ACE_PACKET_MAGIC, eh_version = ACE_PACKET_VERSION,
     eh_size = ACE_PACKET_HEADER_SIZE, eh_flow_id = 7, eh_reserved = 0, eh_sequence = 3,
     eh_tx_realtime_ns = 12345\<rparr>"
  show ?thesis
    using frame_accepted_by_both [of "replicate 12 0" "[0, 0]" "replicate 10 0" "[0, 0]" "[1, 2]" ?h _ 0 64 4000 "[]"]
    by (auto simp: header_key_def)
qed

end
