(* ===== verification/Xdp_Machine.thy ===== *)
theory Xdp_Machine
  imports Xdp_Kern
begin

text \<open>
  The two BPF programs as one machine.  First each program is summarised (which statistics a run
  counts, what it does to the maps and to the frame), then frames, the CPUMAP queue and the maps
  form the state of \<open>pipeline_step\<close>: a run of the classifier, a run of the observer on a queued
  frame, or the loss of a queued frame.  Every reachable state satisfies the accounting
  invariants that the loader's drain and the offline analysis read off the statistics.  What the
  programs rely on in the kernel (\<^verbatim>\<open>BPF_NOEXIST\<close> updates, \<^verbatim>\<open>bpf_xdp_adjust_meta\<close>) is
  \<open>kernel_law\<close>.
\<close>

unbundle bit_operations_syntax

section \<open>What one run of the classifier does\<close>

definition stamped_meta :: "bpf_helpers \<Rightarrow> ace_packet_key \<Rightarrow> u16 \<Rightarrow> xdp_md \<Rightarrow> ace_rx_meta" where
  "stamped_meta h key path ctx =
   (let meta = initial_rx_meta key path (ktime_get_ns h) (ctx_rx_queue_index ctx);
        (ts_err, hw_rx_ns) = xdp_metadata_rx_timestamp h
           (ctx\<lparr>ctx_meta := rx_meta_bytes meta @ drop 56 (ctx_meta ctx)\<rparr>)
    in stamp_rx_meta ts_err hw_rx_ns meta)"

lemma prepare_cases:
  obtains (fail) s where "s \<in> {STAT_META_ADJUST_ERROR, STAT_META_BOUNDS_ERROR}"
      "\<And>m. prepare_measurement_metadata h ctx key path (ktime_get_ns h) m
         = Some (-1, snd (xdp_adjust_meta h ctx (- 56)), count_stat (get_smp_processor_id h) s m)"
  | (ok) ctx' meta s where "xdp_adjust_meta h ctx (- 56) = (0, ctx')" "56 \<le> length (ctx_meta ctx')"
      "meta = stamped_meta h key path ctx'" "s \<in> {STAT_HWTS_VALID, STAT_HWTS_ERROR}"
      "\<And>m. prepare_measurement_metadata h ctx key path (ktime_get_ns h) m
         = Some (0, ctx'\<lparr>ctx_meta := rx_meta_bytes meta @ drop 56 (ctx_meta ctx')\<rparr>,
             record_ingress h key meta (count_stat (get_smp_processor_id h) s m))"
proof -
  obtain adj ctx' where a: "xdp_adjust_meta h ctx (- 56) = (adj, ctx')" by fastforce
  let ?i = "initial_rx_meta key path (ktime_get_ns h) (ctx_rx_queue_index ctx')"
  obtain e hw where t: "xdp_metadata_rx_timestamp h
      (ctx'\<lparr>ctx_meta := rx_meta_bytes ?i @ drop 56 (ctx_meta ctx')\<rparr>) = (e, hw)" by fastforce
  note d = prepare_measurement_metadata_def Let_def a
  show ?thesis
  proof (cases "adj = 0 \<and> 56 \<le> length (ctx_meta ctx')")
    case True
    have "stamped_meta h key path ctx' = stamp_rx_meta e hw ?i"
      by (simp add: stamped_meta_def Let_def t)
    with True t show ?thesis
      by (intro ok [of ctx' _ "if e = 0 then STAT_HWTS_VALID else STAT_HWTS_ERROR"])
        (simp_all add: d load_defs)
  next
    case False
    then show ?thesis
      by (intro fail [of "if adj \<noteq> 0 then STAT_META_ADJUST_ERROR else STAT_META_BOUNDS_ERROR"])
        (auto simp: d)
  qed
qed


definition ingress_outcome :: "int \<Rightarrow> ace_xdp_stat_id" where
  "ingress_outcome e = (if e = 0 then STAT_INGRESS_RECORDED
     else if e = - EEXIST then STAT_INGRESS_DUPLICATE else STAT_INGRESS_UPDATE_ERROR)"

definition ingress_record_of :: "ace_packet_key \<Rightarrow> ace_rx_meta \<Rightarrow> ace_ingress_record" where
  "ingress_record_of key meta =
     \<lparr>ir_flow_id = pk_flow_id key, ir_rx_queue = rm_rx_queue meta,
      ir_sequence = pk_sequence key, ir_hw_rx_ns = rm_hw_rx_ns meta,
      ir_initial_xdp_ns = rm_initial_xdp_ns meta, ir_flags = rm_flags meta,
      ir_requested_path = rm_requested_path meta, ir_timestamp_error = rm_timestamp_error meta\<rparr>"

lemma record_ingress_eq:
  assumes "update_ingress h (ingress_records m) key (ingress_record_of key meta) = (e, recs)"
  shows "record_ingress h key meta m =
    count_stat (get_smp_processor_id h) (ingress_outcome e) (m\<lparr>ingress_records := recs\<rparr>)"
  using assms by (simp add: record_ingress_def ingress_record_of_def ingress_outcome_def Let_def)

lemma dispatch_requested_path_cases:
  obtains (cpumap) "path = ACE_PATH_CPUMAP"
      "\<And>m. dispatch_requested_path h ctx path m
         = (XDP_REDIRECT, count_stat (get_smp_processor_id h) STAT_CPUMAP m)"
  | (xsk) "path = ACE_PATH_XSK"
      "\<And>m. dispatch_requested_path h ctx path m
         = (XDP_REDIRECT, count_stat (get_smp_processor_id h) STAT_XSK m)"
  | (pass) s where "s \<in> {STAT_EXPERIMENT_PASS, STAT_CPUMAP_FALLBACK, STAT_XSK_FALLBACK}"
      "\<And>m. dispatch_requested_path h ctx path m
         = (XDP_PASS, count_stat (get_smp_processor_id h) STAT_PASS
                        (count_stat (get_smp_processor_id h) s m))"
proof -
  let ?s = "if path = ACE_PATH_CPUMAP then STAT_CPUMAP_FALLBACK
            else if path = ACE_PATH_XSK then STAT_XSK_FALLBACK else STAT_EXPERIMENT_PASS"
  consider "path = ACE_PATH_CPUMAP" "redirect_cpu_map h ACE_XDP_RT_CPU XDP_PASS = XDP_REDIRECT"
    | "path = ACE_PATH_XSK" "redirect_xsk_map h (ctx_rx_queue_index ctx) XDP_PASS = XDP_REDIRECT"
    | "\<not> (path = ACE_PATH_CPUMAP \<and> redirect_cpu_map h ACE_XDP_RT_CPU XDP_PASS = XDP_REDIRECT)"
      "\<not> (path = ACE_PATH_XSK \<and> redirect_xsk_map h (ctx_rx_queue_index ctx) XDP_PASS = XDP_REDIRECT)"
    by blast
  then show ?thesis
  proof cases
    case 3
    show ?thesis by (rule pass [of ?s]) (use 3 in \<open>auto simp: dispatch_requested_path_def Let_def\<close>)
  qed (use cpumap xsk in \<open>simp_all add: dispatch_requested_path_def Let_def\<close>)
qed

abbreviation with_meta :: "ace_rx_meta \<Rightarrow> xdp_md \<Rightarrow> xdp_md" where
  "with_meta meta ctx \<equiv> ctx\<lparr>ctx_meta := rx_meta_bytes meta @ drop 56 (ctx_meta ctx)\<rparr>"

lemma dispatch_cases:
  obtains (reject) f where "bpf_accepts (ctx_data ctx) = None"
      "f \<in> {None, Some STAT_IPV4_INVALID, Some STAT_IPV4_FRAGMENT, Some STAT_PACKET_HEADER_INVALID}"
      "\<And>m. xdp_dispatch h mode ctx m = Some (XDP_PASS, ctx,
         count_stat (get_smp_processor_id h) STAT_PASS (count_fault (get_smp_processor_id h) f
           (count_stat (get_smp_processor_id h) STAT_TOTAL m)))"
  | (no_meta) path k s where "bpf_accepts (ctx_data ctx) = Some (path, k)"
      "s \<in> {STAT_META_ADJUST_ERROR, STAT_META_BOUNDS_ERROR}"
      "\<And>m. xdp_dispatch h mode ctx m = Some (XDP_PASS, snd (xdp_adjust_meta h ctx (- 56)),
         count_stat (get_smp_processor_id h) STAT_PASS (count_stat (get_smp_processor_id h) s
           (count_stat (get_smp_processor_id h) STAT_TOTAL m)))"
  | (routed) path k ctx' meta s where "bpf_accepts (ctx_data ctx) = Some (path, k)"
      "xdp_adjust_meta h ctx (- 56) = (0, ctx')" "56 \<le> length (ctx_meta ctx')"
      "meta = stamped_meta h k (ace_effective_requested_path mode path) ctx'"
      "s \<in> {STAT_HWTS_VALID, STAT_HWTS_ERROR}"
      "\<And>m. xdp_dispatch h mode ctx m =
         (let (a, m') = dispatch_requested_path h (with_meta meta ctx')
                (ace_effective_requested_path mode path)
                (record_ingress h k meta (count_stat (get_smp_processor_id h) s
                   (count_stat (get_smp_processor_id h) STAT_TOTAL m)))
          in Some (a, with_meta meta ctx', m'))"
proof (cases ctx rule: parse_cases)
  case (accept path k)
  note acc = accept
  show ?thesis
  proof (cases rule: prepare_cases [where h = h and ctx = ctx and key = k and
        path = "ace_effective_requested_path mode path"])
    case (fail s)
    show ?thesis
      by (rule no_meta [OF acc(1) fail(1)]) (simp add: xdp_dispatch_def Let_def acc(2) fail(2))
  next
    case (ok ctx' meta s)
    show ?thesis
      by (rule routed [OF acc(1) ok(1-4)]) (simp add: xdp_dispatch_def Let_def acc(2) ok(5))
  qed
next
  case (bad_header path)
  show ?thesis
    by (rule reject [of "Some STAT_PACKET_HEADER_INVALID"])
      (simp_all add: bad_header xdp_dispatch_def Let_def count_fault_def)
next
  case (other f)
  show ?thesis
    by (rule reject [of f]) (use other(1,2) in \<open>auto simp: other(3) xdp_dispatch_def Let_def\<close>)
qed

section \<open>The observer\<close>

definition cpumap_meta_ok :: "xdp_md \<Rightarrow> bool" where
  "cpumap_meta_ok ctx \<longleftrightarrow> 56 \<le> length (ctx_meta ctx) \<and>
     (let meta = rx_meta_of (sub_bytes (ctx_meta ctx) 0 56) in
      rm_magic meta = ACE_RX_META_MAGIC \<and> rm_version meta = ACE_RX_META_VERSION \<and> rm_size meta = 56 \<and>
      rm_flags meta AND ACE_META_F_PACKET_ID_VALID \<noteq> 0 \<and> rm_requested_path meta = ACE_PATH_CPUMAP)"

definition cpumap_outcome :: "int \<Rightarrow> ace_xdp_stat_id" where
  "cpumap_outcome e = (if e = 0 then STAT_CPUMAP_RECORDED
     else if e = - EEXIST then STAT_CPUMAP_DUPLICATE else STAT_CPUMAP_UPDATE_ERROR)"

definition meta_key :: "ace_rx_meta \<Rightarrow> ace_packet_key" where
  "meta_key meta = \<lparr>pk_flow_id = rm_flow_id meta, pk_reserved = 0, pk_sequence = rm_sequence meta\<rparr>"

definition cpumap_record_of :: "bpf_helpers \<Rightarrow> ace_rx_meta \<Rightarrow> ace_cpumap_record" where
  "cpumap_record_of h meta =
     \<lparr>cr_flow_id = rm_flow_id meta, cr_cpu = get_smp_processor_id h, cr_sequence = rm_sequence meta,
      cr_cpumap_ns = ktime_get_ns h, cr_flags = rm_flags meta OR ACE_META_F_CPUMAP_SEEN,
      cr_requested_path = rm_requested_path meta, cr_reserved = 0\<rparr>"

lemma measure_cases:
  obtains (invalid) "\<not> cpumap_meta_ok ctx"
      "\<And>m. xdp_cpumap_measure h ctx m
         = Some (XDP_PASS, ctx, count_stat (get_smp_processor_id h) STAT_CPUMAP_META_INVALID m)"
  | (measured) meta ctx' where "cpumap_meta_ok ctx" "meta = rx_meta_of (sub_bytes (ctx_meta ctx) 0 56)"
      "ctx_data ctx' = ctx_data ctx"
      "rx_meta_of (sub_bytes (ctx_meta ctx') 0 56) = meta\<lparr>rm_cpumap_ns := ktime_get_ns h,
         rm_flags := rm_flags meta OR ACE_META_F_CPUMAP_SEEN\<rparr>"
      "\<And>m e recs. update_cpumap h (cpumap_records m) (meta_key meta) (cpumap_record_of h meta) = (e, recs) \<Longrightarrow>
         xdp_cpumap_measure h ctx m = Some (XDP_PASS, ctx',
           count_stat (get_smp_processor_id h) (cpumap_outcome e) (m\<lparr>cpumap_records := recs\<rparr>))"
proof (cases "cpumap_meta_ok ctx")
  case False
  show ?thesis
    by (rule invalid) (use False in \<open>auto simp: xdp_cpumap_measure_def cpumap_meta_ok_def Let_def load_defs\<close>)
next
  case True
  define meta where "meta = rx_meta_of (sub_bytes (ctx_meta ctx) 0 56)"
  let ?m' = "meta\<lparr>rm_cpumap_ns := ktime_get_ns h, rm_flags := rm_flags meta OR ACE_META_F_CPUMAP_SEEN\<rparr>"
  show ?thesis
    by (rule measured [of meta "with_meta ?m' ctx"])
      (use True in \<open>auto simp: xdp_cpumap_measure_def cpumap_meta_ok_def Let_def load_defs meta_def [symmetric]
        sub_bytes_append_left sub_bytes_all meta_key_def cpumap_record_of_def cpumap_outcome_def\<close>)
qed


section \<open>The kernel services the programs rely on\<close>

definition noexist_update ::
  "(('k \<rightharpoonup> 'v) \<Rightarrow> 'k \<Rightarrow> 'v \<Rightarrow> int \<times> ('k \<rightharpoonup> 'v)) \<Rightarrow> bool" where
  "noexist_update upd \<longleftrightarrow>
     (\<forall>mp k v. case upd mp k v of
        (e, mp') \<Rightarrow> if e = 0 then mp k = None \<and> mp' = mp(k \<mapsto> v) else mp' = mp)"

definition adjust_meta_law :: "(xdp_md \<Rightarrow> int \<Rightarrow> int \<times> xdp_md) \<Rightarrow> bool" where
  "adjust_meta_law adj \<longleftrightarrow>
     (\<forall>ctx delta. ctx_data (snd (adj ctx delta)) = ctx_data ctx \<and>
        ctx_rx_queue_index (snd (adj ctx delta)) = ctx_rx_queue_index ctx)"

definition kernel_law :: "bpf_helpers \<Rightarrow> bool" where
  "kernel_law h \<longleftrightarrow> noexist_update (update_ingress h) \<and> noexist_update (update_cpumap h) \<and>
     adjust_meta_law (xdp_adjust_meta h)"

lemma noexist_update_cases:
  assumes "noexist_update upd"
  obtains (inserted) "mp k = None" "upd mp k v = (0, mp(k \<mapsto> v))"
  | (refused) e where "e \<noteq> 0" "upd mp k v = (e, mp)"
proof -
  obtain e mp' where u: "upd mp k v = (e, mp')" by fastforce
  then have "if e = 0 then mp k = None \<and> mp' = mp(k \<mapsto> v) else mp' = mp"
    using assms [unfolded noexist_update_def, rule_format, of mp k v] by simp
  with u that show ?thesis by (auto split: if_splits)
qed

section \<open>Frames, CPUMAP queue and maps as one machine\<close>

record pipeline =
  pl_maps :: bpf_maps
  pl_cpumap :: "xdp_md list"
  pl_lost :: u64

definition to_cpumap :: "u32 \<Rightarrow> xdp_md \<Rightarrow> xdp_action \<Rightarrow> bool" where
  "to_cpumap mode ctx action \<longleftrightarrow> action = XDP_REDIRECT \<and>
     (case bpf_accepts (ctx_data ctx) of
        None \<Rightarrow> False
      | Some (path, _) \<Rightarrow> ace_effective_requested_path mode path = ACE_PATH_CPUMAP)"

inductive pipeline_step :: "u32 \<Rightarrow> pipeline \<Rightarrow> pipeline \<Rightarrow> bool" for mode where
  dispatch: "\<lbrakk>kernel_law h; xdp_dispatch h mode ctx (pl_maps p) = Some (action, ctx', m')\<rbrakk> \<Longrightarrow>
     pipeline_step mode p (p\<lparr>pl_maps := m',
       pl_cpumap := pl_cpumap p @ (if to_cpumap mode ctx action then [ctx'] else [])\<rparr>)"
| observe: "\<lbrakk>kernel_law h; pl_cpumap p = q @ ctx # r;
     xdp_cpumap_measure h ctx (pl_maps p) = Some (action, ctx', m')\<rbrakk> \<Longrightarrow>
     pipeline_step mode p (p\<lparr>pl_maps := m', pl_cpumap := q @ r\<rparr>)"
| lose: "pl_cpumap p = q @ ctx # r \<Longrightarrow>
     pipeline_step mode p (p\<lparr>pl_cpumap := q @ r, pl_lost := pl_lost p + 1\<rparr>)"

definition init_maps :: bpf_maps where
  "init_maps = \<lparr>stats = (\<lambda>_ _. 0), ingress_records = Map.empty, cpumap_records = Map.empty\<rparr>"

definition init_pipeline :: pipeline where
  "init_pipeline = \<lparr>pl_maps = init_maps, pl_cpumap = [], pl_lost = 0\<rparr>"

inductive reachable :: "u32 \<Rightarrow> pipeline \<Rightarrow> bool" for mode where
  start: "reachable mode init_pipeline"
| step: "reachable mode p \<Longrightarrow> pipeline_step mode p p' \<Longrightarrow> reachable mode p'"

definition stat_total :: "bpf_maps \<Rightarrow> ace_xdp_stat_id \<Rightarrow> u64" where
  "stat_total m s = (\<Sum>c\<in>UNIV. stats m c s)"

lemma stat_total_count [simp]:
  "stat_total (count_stat cpu i m) s = stat_total m s + (if s = i then 1 else 0)"
  unfolding stat_total_def stats_count_stat sum.distrib by (cases "s = i") simp_all

lemma stat_total_update [simp]:
  "stat_total (m\<lparr>ingress_records := a\<rparr>) s = stat_total m s"
  "stat_total (m\<lparr>cpumap_records := b\<rparr>) s = stat_total m s"
  by (simp_all add: stat_total_def)

text \<open>A run of a program counts a list of statistics on its own CPU.\<close>

definition count_all :: "u32 \<Rightarrow> ace_xdp_stat_id list \<Rightarrow> bpf_maps \<Rightarrow> bpf_maps" where
  "count_all cpu l m = fold (count_stat cpu) l m"

lemma count_all_simps [simp]:
  "stats (count_all cpu l m) c s = stats m c s + (if c = cpu then of_nat (count_list l s) else 0)"
  "stat_total (count_all cpu l m) s = stat_total m s + of_nat (count_list l s)"
  "ingress_records (count_all cpu l m) = ingress_records m"
  "cpumap_records (count_all cpu l m) = cpumap_records m"
  unfolding count_all_def by (induction l arbitrary: m) (simp_all add: algebra_simps)

lemma count_stat_ingress [simp]:
  "(count_stat cpu s m)\<lparr>ingress_records := r\<rparr> = count_stat cpu s (m\<lparr>ingress_records := r\<rparr>)"
  by (simp add: count_stat_def)

section \<open>What the classifier leaves in the maps\<close>

lemma stamped_meta_fields:
  "rm_magic (stamped_meta h k path ctx) = ACE_RX_META_MAGIC"
  "rm_version (stamped_meta h k path ctx) = ACE_RX_META_VERSION"
  "rm_size (stamped_meta h k path ctx) = 56"
  "rm_flow_id (stamped_meta h k path ctx) = pk_flow_id k"
  "rm_sequence (stamped_meta h k path ctx) = pk_sequence k"
  "rm_requested_path (stamped_meta h k path ctx) = path"
  "rm_rx_queue (stamped_meta h k path ctx) = ctx_rx_queue_index ctx"
  "rm_initial_xdp_ns (stamped_meta h k path ctx) = ktime_get_ns h"
  "rm_flags (stamped_meta h k path ctx) \<in> {19, 26}"
  "rm_flags (stamped_meta h k path ctx) = 26 \<Longrightarrow> rm_hw_rx_ns (stamped_meta h k path ctx) = 0"
  "rm_flags (stamped_meta h k path ctx) = 19 \<Longrightarrow> rm_timestamp_error (stamped_meta h k path ctx) = 0"
  by (auto simp: stamped_meta_def stamp_rx_meta_def initial_rx_meta_def Let_def split: prod.splits)

lemma cpumap_meta_ok_stamped:
  assumes "path = ACE_PATH_CPUMAP"
  shows "cpumap_meta_ok (with_meta (stamped_meta h k path ctx) ctx')"
  using stamped_meta_fields(9) [of h k path ctx] assms
  by (auto simp: cpumap_meta_ok_def sub_bytes_append_left sub_bytes_all stamped_meta_fields)

section \<open>One run of the classifier in summary\<close>

lemma dispatch_summary:
  assumes d: "xdp_dispatch h mode ctx m = Some (a, ctx', m')"
  obtains (unmeasured) l where "a = XDP_PASS"
      "ctx' = ctx \<or> ctx' = snd (xdp_adjust_meta h ctx (- 56))"
      "l \<in> {[], [STAT_IPV4_INVALID], [STAT_IPV4_FRAGMENT], [STAT_PACKET_HEADER_INVALID],
             [STAT_META_ADJUST_ERROR], [STAT_META_BOUNDS_ERROR]}"
      "m' = count_all (get_smp_processor_id h) (STAT_TOTAL # l @ [STAT_PASS]) m"
  | (measured) path k eff ctx0 meta e recs s l where "bpf_accepts (ctx_data ctx) = Some (path, k)"
      "eff = ace_effective_requested_path mode path" "xdp_adjust_meta h ctx (- 56) = (0, ctx0)"
      "meta = stamped_meta h k eff ctx0" "ctx' = with_meta meta ctx0"
      "update_ingress h (ingress_records m) k (ingress_record_of k meta) = (e, recs)"
      "s \<in> {STAT_HWTS_VALID, STAT_HWTS_ERROR}"
      "(a = XDP_REDIRECT \<and> eff = ACE_PATH_CPUMAP \<and> l = [STAT_CPUMAP]) \<or>
       (a = XDP_REDIRECT \<and> eff = ACE_PATH_XSK \<and> l = [STAT_XSK]) \<or>
       (a = XDP_PASS \<and> l \<in> {[STAT_EXPERIMENT_PASS, STAT_PASS], [STAT_CPUMAP_FALLBACK, STAT_PASS],
                              [STAT_XSK_FALLBACK, STAT_PASS]})"
      "m' = count_all (get_smp_processor_id h) (STAT_TOTAL # s # ingress_outcome e # l)
              (m\<lparr>ingress_records := recs\<rparr>)"
proof (cases rule: dispatch_cases [where h = h and mode = mode and ctx = ctx])
  case (reject f)
  then show ?thesis
    using d by (intro unmeasured [of "case f of None \<Rightarrow> [] | Some s \<Rightarrow> [s]"])
      (auto simp: count_all_def count_fault_def)
next
  case (no_meta path k s)
  then show ?thesis using d by (intro unmeasured [of "[s]"]) (auto simp: count_all_def)
next
  case (routed path k ctx0 meta s)
  let ?eff = "ace_effective_requested_path mode path"
  obtain e recs where u: "update_ingress h (ingress_records m) k (ingress_record_of k meta) = (e, recs)"
    by fastforce
  then have r: "record_ingress h k meta (count_stat c1 s1 (count_stat c2 s2 m)) =
      count_stat (get_smp_processor_id h) (ingress_outcome e)
        (count_stat c1 s1 (count_stat c2 s2 (m\<lparr>ingress_records := recs\<rparr>)))" for c1 s1 c2 s2
    by (subst record_ingress_eq) simp_all
  note get = measured [OF routed(1) refl routed(2,4) _ u routed(5)]
  show ?thesis
  proof (cases rule: dispatch_requested_path_cases [where h = h and ctx = "with_meta meta ctx0" and path = ?eff])
    case cpumap
    show ?thesis
      by (rule get [of "[STAT_CPUMAP]"]) (use cpumap d in \<open>auto simp: routed(6) r count_all_def\<close>)
  next
    case xsk
    show ?thesis
      by (rule get [of "[STAT_XSK]"]) (use xsk d in \<open>auto simp: routed(6) r count_all_def\<close>)
  next
    case (pass s')
    show ?thesis
      by (rule get [of "[s', STAT_PASS]"]) (use pass d in \<open>auto simp: routed(6) r count_all_def\<close>)
  qed
qed

section \<open>Per-CPU accounting\<close>

definition balanced :: "bpf_maps \<Rightarrow> bool" where
  "balanced m \<longleftrightarrow> (\<forall>c.
     stats m c STAT_TOTAL = stats m c STAT_PASS + stats m c STAT_CPUMAP + stats m c STAT_XSK \<and>
     stats m c STAT_HWTS_VALID + stats m c STAT_HWTS_ERROR =
       stats m c STAT_INGRESS_RECORDED + stats m c STAT_INGRESS_DUPLICATE + stats m c STAT_INGRESS_UPDATE_ERROR \<and>
     stats m c STAT_INGRESS_RECORDED + stats m c STAT_INGRESS_DUPLICATE + stats m c STAT_INGRESS_UPDATE_ERROR =
       stats m c STAT_EXPERIMENT_PASS + stats m c STAT_CPUMAP + stats m c STAT_CPUMAP_FALLBACK +
       stats m c STAT_XSK + stats m c STAT_XSK_FALLBACK)"

lemma dispatch_balanced:
  assumes "balanced m" "xdp_dispatch h mode ctx m = Some (a, ctx', m')"
  shows "balanced m'"
  using assms(2)
proof (cases rule: dispatch_summary)
  case (unmeasured l)
  then show ?thesis using assms(1) by (auto simp: balanced_def)
next
  case (measured path k eff ctx0 meta e recs s l)
  then show ?thesis using assms(1)
    by (auto simp: balanced_def ingress_outcome_def algebra_simps)
qed


section \<open>One run of the observer in summary\<close>

lemma measure_summary:
  assumes "xdp_cpumap_measure h ctx m = Some (a, ctx', m')"
  obtains (invalid) "\<not> cpumap_meta_ok ctx" "a = XDP_PASS" "ctx' = ctx"
      "m' = count_all (get_smp_processor_id h) [STAT_CPUMAP_META_INVALID] m"
  | (recorded) meta e recs where "cpumap_meta_ok ctx" "a = XDP_PASS"
      "meta = rx_meta_of (sub_bytes (ctx_meta ctx) 0 56)" "ctx_data ctx' = ctx_data ctx"
      "rx_meta_of (sub_bytes (ctx_meta ctx') 0 56) = meta\<lparr>rm_cpumap_ns := ktime_get_ns h,
         rm_flags := rm_flags meta OR ACE_META_F_CPUMAP_SEEN\<rparr>"
      "update_cpumap h (cpumap_records m) (meta_key meta) (cpumap_record_of h meta) = (e, recs)"
      "m' = count_all (get_smp_processor_id h) [cpumap_outcome e] (m\<lparr>cpumap_records := recs\<rparr>)"
proof (cases rule: measure_cases [where h = h and ctx = ctx])
  case invalid
  then show ?thesis using assms by (intro that(1)) (simp_all add: count_all_def)
next
  case (measured meta ctx'')
  obtain e recs where u: "update_cpumap h (cpumap_records m) (meta_key meta) (cpumap_record_of h meta) = (e, recs)"
    by fastforce
  show ?thesis
    using measured(5) [OF u] assms by (intro that(2) [OF measured(1) _ measured(2) _ _ u])
      (simp_all add: measured(3,4) count_all_def)
qed

lemma measure_balanced:
  assumes "balanced m" "xdp_cpumap_measure h ctx m = Some (a, ctx', m')"
  shows "balanced m'"
  using assms(2)
  by (cases rule: measure_summary) (use assms(1) in \<open>auto simp: balanced_def cpumap_outcome_def\<close>)

section \<open>Invariants of the machine\<close>

definition queue_inv :: "pipeline \<Rightarrow> bool" where
  "queue_inv p \<longleftrightarrow> (\<forall>f \<in> set (pl_cpumap p). cpumap_meta_ok f) \<and>
     (\<forall>c. stats (pl_maps p) c STAT_CPUMAP_META_INVALID = 0)"

definition flow_inv :: "pipeline \<Rightarrow> bool" where
  "flow_inv p \<longleftrightarrow> (let t = stat_total (pl_maps p) in
     t STAT_CPUMAP = of_nat (length (pl_cpumap p)) + pl_lost p +
       t STAT_CPUMAP_RECORDED + t STAT_CPUMAP_DUPLICATE + t STAT_CPUMAP_UPDATE_ERROR)"

definition card_inv :: "bpf_maps \<Rightarrow> bool" where
  "card_inv m \<longleftrightarrow> finite (dom (ingress_records m)) \<and> finite (dom (cpumap_records m)) \<and>
     stat_total m STAT_INGRESS_RECORDED = of_nat (card (dom (ingress_records m))) \<and>
     stat_total m STAT_CPUMAP_RECORDED = of_nat (card (dom (cpumap_records m)))"

lemma to_cpumap_iff:
  "bpf_accepts (ctx_data ctx) = Some (path, k) \<Longrightarrow>
     to_cpumap mode ctx a \<longleftrightarrow> a = XDP_REDIRECT \<and> ace_effective_requested_path mode path = ACE_PATH_CPUMAP"
  "\<not> to_cpumap mode ctx XDP_PASS"
  by (simp_all add: to_cpumap_def)

lemma dispatch_queue:
  assumes "xdp_dispatch h mode ctx m = Some (a, ctx', m')"
  shows "to_cpumap mode ctx a \<Longrightarrow> cpumap_meta_ok ctx'"
    and "stat_total m' STAT_CPUMAP = stat_total m STAT_CPUMAP + (if to_cpumap mode ctx a then 1 else 0)"
    and "cpumap_records m' = cpumap_records m"
  subgoal by (cases rule: dispatch_summary [OF assms(1)]) (auto simp: to_cpumap_iff cpumap_meta_ok_stamped)
  subgoal by (cases rule: dispatch_summary [OF assms(1)]) (auto simp: to_cpumap_iff ingress_outcome_def)
  subgoal by (cases rule: dispatch_summary [OF assms(1)]) auto
  done

lemma dispatch_stats_frame:
  assumes "xdp_dispatch h mode ctx m = Some (a, ctx', m')"
    and "s \<in> {STAT_CPUMAP_META_INVALID, STAT_CPUMAP_RECORDED, STAT_CPUMAP_DUPLICATE, STAT_CPUMAP_UPDATE_ERROR}"
  shows "stats m' c s = stats m c s" "stat_total m' s = stat_total m s"
  subgoal by (cases rule: dispatch_summary [OF assms(1)]) (use assms(2) in \<open>auto simp: ingress_outcome_def\<close>)
  subgoal by (cases rule: dispatch_summary [OF assms(1)]) (use assms(2) in \<open>auto simp: ingress_outcome_def\<close>)
  done

lemma dispatch_ingress:
  assumes "kernel_law h" "xdp_dispatch h mode ctx m = Some (a, ctx', m')"
  obtains (same) "ingress_records m' = ingress_records m"
      "stat_total m' STAT_INGRESS_RECORDED = stat_total m STAT_INGRESS_RECORDED"
  | (fresh) path k ctx0 where "bpf_accepts (ctx_data ctx) = Some (path, k)" "ingress_records m k = None"
      "xdp_adjust_meta h ctx (- 56) = (0, ctx0)"
      "ingress_records m' = (ingress_records m)(k \<mapsto> ingress_record_of k
         (stamped_meta h k (ace_effective_requested_path mode path) ctx0))"
      "stat_total m' STAT_INGRESS_RECORDED = stat_total m STAT_INGRESS_RECORDED + 1"
  using assms(2)
proof (cases rule: dispatch_summary)
  case (unmeasured l)
  then show ?thesis by (intro same) auto
next
  case (measured path k eff ctx0 meta e recs s l)
  from assms(1) have "noexist_update (update_ingress h)" by (simp add: kernel_law_def)
  then show ?thesis
  proof (cases rule: noexist_update_cases [where mp = "ingress_records m" and k = k and v = "ingress_record_of k meta"])
    case inserted
    with measured show ?thesis
      by (intro fresh [of path k ctx0]) (auto simp: ingress_outcome_def)
  next
    case (refused e')
    with measured show ?thesis by (intro same) (auto simp: ingress_outcome_def)
  qed
qed

lemma measure_cpumap:
  assumes "kernel_law h" "xdp_cpumap_measure h ctx m = Some (a, ctx', m')" "cpumap_meta_ok ctx"
  obtains (same) s where "cpumap_records m' = cpumap_records m"
      "s \<in> {STAT_CPUMAP_DUPLICATE, STAT_CPUMAP_UPDATE_ERROR}"
      "m' = count_all (get_smp_processor_id h) [s] m"
  | (fresh) meta where "meta = rx_meta_of (sub_bytes (ctx_meta ctx) 0 56)"
      "cpumap_records m (meta_key meta) = None"
      "m' = count_all (get_smp_processor_id h) [STAT_CPUMAP_RECORDED]
         (m\<lparr>cpumap_records := (cpumap_records m)(meta_key meta \<mapsto> cpumap_record_of h meta)\<rparr>)"
  using assms(2)
proof (cases rule: measure_summary)
  case invalid
  with assms(3) show ?thesis by simp
next
  case (recorded meta e recs)
  from assms(1) have "noexist_update (update_cpumap h)" by (simp add: kernel_law_def)
  then show ?thesis
  proof (cases rule: noexist_update_cases [where mp = "cpumap_records m" and k = "meta_key meta"
        and v = "cpumap_record_of h meta"])
    case inserted
    with recorded show ?thesis by (intro fresh [of meta]) (auto simp: cpumap_outcome_def)
  next
    case (refused e')
    with recorded show ?thesis
      by (intro same [of "cpumap_outcome e"]) (auto simp: cpumap_outcome_def)
  qed
qed

lemma queue_inv_step: "pipeline_step mode p p' \<Longrightarrow> queue_inv p \<Longrightarrow> queue_inv p'"
proof (induction rule: pipeline_step.induct)
  case (dispatch h ctx p a ctx' m')
  then show ?case
    using dispatch_queue(1) [OF dispatch(2)] dispatch_stats_frame(1) [OF dispatch(2)]
    by (auto simp: queue_inv_def)
next
  case (observe h p q ctx r a ctx' m')
  then have "cpumap_meta_ok ctx" by (simp add: queue_inv_def)
  from measure_cpumap [OF observe(1,3) this] have "stats m' c STAT_CPUMAP_META_INVALID = stats (pl_maps p) c STAT_CPUMAP_META_INVALID" for c
    by cases auto
  then show ?case using observe by (simp add: queue_inv_def)
qed (auto simp: queue_inv_def)

lemma flow_inv_step: "pipeline_step mode p p' \<Longrightarrow> queue_inv p \<Longrightarrow> flow_inv p \<Longrightarrow> flow_inv p'"
proof (induction rule: pipeline_step.induct)
  case (dispatch h ctx p a ctx' m')
  then show ?case
    using dispatch_queue(2) [OF dispatch(2)] dispatch_stats_frame(2) [OF dispatch(2)]
    by (simp add: flow_inv_def Let_def)
next
  case (observe h p q ctx r a ctx' m')
  then have "cpumap_meta_ok ctx" by (simp add: queue_inv_def)
  from measure_cpumap [OF observe(1,3) this] show ?case
    using observe by cases (auto simp: flow_inv_def Let_def)
qed (auto simp: flow_inv_def Let_def)

lemma card_inv_step:
  "pipeline_step mode p p' \<Longrightarrow> queue_inv p \<Longrightarrow> card_inv (pl_maps p) \<Longrightarrow> card_inv (pl_maps p')"
proof (induction rule: pipeline_step.induct)
  case (dispatch h ctx p a ctx' m')
  from dispatch(1,2) show ?case
    using dispatch(4) dispatch_queue(3) [OF dispatch(2)] dispatch_stats_frame(2) [OF dispatch(2)]
    by (cases rule: dispatch_ingress) (auto simp: card_inv_def domIff card_insert_if)
next
  case (observe h p q ctx r a ctx' m')
  then have "cpumap_meta_ok ctx" by (simp add: queue_inv_def)
  from measure_cpumap [OF observe(1,3) this] show ?case
    using observe by cases (auto simp: card_inv_def domIff card_insert_if)
qed (auto simp: card_inv_def)

lemma records_mono_step:
  "pipeline_step mode p p' \<Longrightarrow> queue_inv p \<Longrightarrow>
     ingress_records (pl_maps p) \<subseteq>\<^sub>m ingress_records (pl_maps p') \<and>
     cpumap_records (pl_maps p) \<subseteq>\<^sub>m cpumap_records (pl_maps p')"
proof (induction rule: pipeline_step.induct)
  case (dispatch h ctx p a ctx' m')
  from dispatch(1,2) show ?case
    using dispatch_queue(3) [OF dispatch(2)]
    by (cases rule: dispatch_ingress) (auto simp: map_le_def)
next
  case (observe h p q ctx r a ctx' m')
  then have "cpumap_meta_ok ctx" by (simp add: queue_inv_def)
  from measure_cpumap [OF observe(1,3) this] show ?case
    by cases (auto simp: map_le_def)
qed auto


section \<open>Well-formed records\<close>

definition mode_paths :: "u32 \<Rightarrow> u16 set" where
  "mode_paths mode =
     (if mode = ACE_FORWARD_ALL_PASS then {ACE_PATH_PASS}
      else if mode = ACE_FORWARD_PASS_XSK then {ACE_PATH_PASS, ACE_PATH_XSK}
      else {ACE_PATH_PASS, ACE_PATH_CPUMAP, ACE_PATH_XSK})"

definition ingress_record_ok :: "u32 \<Rightarrow> ace_packet_key \<Rightarrow> ace_ingress_record \<Rightarrow> bool" where
  "ingress_record_ok mode k r \<longleftrightarrow>
     pk_reserved k = 0 \<and> ir_flow_id r = pk_flow_id k \<and> ir_sequence r = pk_sequence k \<and>
     ir_requested_path r \<in> mode_paths mode \<and>
     (ir_flags r = ACE_META_F_HWTS_VALID OR ACE_META_F_PACKET_ID_VALID OR ACE_META_F_PATH_REQUESTED \<and>
        ir_timestamp_error r = 0 \<or>
      ir_flags r = ACE_META_F_PACKET_ID_VALID OR ACE_META_F_TIMESTAMP_ERROR OR ACE_META_F_PATH_REQUESTED \<and>
        ir_hw_rx_ns r = 0)"

definition cpumap_record_ok :: "u32 \<Rightarrow> ace_packet_key \<Rightarrow> ace_cpumap_record \<Rightarrow> bool" where
  "cpumap_record_ok mode k r \<longleftrightarrow>
     pk_reserved k = 0 \<and> cr_flow_id r = pk_flow_id k \<and> cr_sequence r = pk_sequence k \<and> cr_reserved r = 0 \<and>
     cr_requested_path r = ACE_PATH_CPUMAP \<and> ACE_PATH_CPUMAP \<in> mode_paths mode"

definition record_inv :: "u32 \<Rightarrow> pipeline \<Rightarrow> bool" where
  "record_inv mode p \<longleftrightarrow>
     (\<forall>k r. ingress_records (pl_maps p) k = Some r \<longrightarrow> ingress_record_ok mode k r) \<and>
     (\<forall>k r. cpumap_records (pl_maps p) k = Some r \<longrightarrow> cpumap_record_ok mode k r) \<and>
     (pl_cpumap p \<noteq> [] \<longrightarrow> ACE_PATH_CPUMAP \<in> mode_paths mode)"

lemma bpf_accepts_path: "bpf_accepts d = Some (path, k) \<Longrightarrow>
    ace_effective_requested_path mode path \<in> mode_paths mode \<and> pk_reserved k = 0"
  by (auto simp: bpf.accepts_Some_iff xdp_route_def ace_effective_requested_path_def mode_paths_def
      header_key_def split: if_splits)

lemma ingress_record_ok_stamped:
  assumes "bpf_accepts d = Some (path, k)"
  shows "ingress_record_ok mode k
    (ingress_record_of k (stamped_meta h k (ace_effective_requested_path mode path) ctx))"
proof -
  let ?m = "stamped_meta h k (ace_effective_requested_path mode path) ctx"
  have "rm_flags ?m = 19 \<and> rm_timestamp_error ?m = 0 \<or> rm_flags ?m = 26 \<and> rm_hw_rx_ns ?m = 0"
    using stamped_meta_fields(9-11) by blast
  then show ?thesis
    using bpf_accepts_path [OF assms, of mode]
    by (auto simp: ingress_record_ok_def ingress_record_of_def stamped_meta_fields)
qed

lemma record_inv_step: "pipeline_step mode p p' \<Longrightarrow> queue_inv p \<Longrightarrow> record_inv mode p \<Longrightarrow> record_inv mode p'"
proof (induction rule: pipeline_step.induct)
  case (dispatch h ctx p a ctx' m')
  have q: "to_cpumap mode ctx a \<Longrightarrow> ACE_PATH_CPUMAP \<in> mode_paths mode"
    using bpf_accepts_path [where mode = mode]
    by (auto simp: to_cpumap_def split: option.splits) metis
  from dispatch(1,2) show ?case
    using dispatch(4) q dispatch_queue(3) [OF dispatch(2)]
    by (cases rule: dispatch_ingress) (auto simp: record_inv_def ingress_record_ok_stamped)
next
  case (observe h p q ctx r a ctx' m')
  then have ok: "cpumap_meta_ok ctx" by (simp add: queue_inv_def)
  then have rec: "cpumap_record_ok mode (meta_key meta) (cpumap_record_of h meta)"
    if "meta = rx_meta_of (sub_bytes (ctx_meta ctx) 0 56)" for meta
    using that observe by (simp add: cpumap_record_ok_def cpumap_meta_ok_def Let_def meta_key_def
        cpumap_record_of_def record_inv_def)
  from measure_cpumap [OF observe(1,3) ok] show ?case
    using observe(2,5) by cases (use rec in \<open>auto simp: record_inv_def\<close>)
qed (auto simp: record_inv_def)

section \<open>Reachable states\<close>

definition pipeline_inv :: "u32 \<Rightarrow> pipeline \<Rightarrow> bool" where
  "pipeline_inv mode p \<longleftrightarrow> balanced (pl_maps p) \<and> queue_inv p \<and> flow_inv p \<and> card_inv (pl_maps p) \<and>
     record_inv mode p"

lemma balanced_step: "pipeline_step mode p p' \<Longrightarrow> balanced (pl_maps p) \<Longrightarrow> balanced (pl_maps p')"
  by (induction rule: pipeline_step.induct) (auto intro: dispatch_balanced measure_balanced)

lemma pipeline_inv_init: "pipeline_inv mode init_pipeline"
  by (simp add: pipeline_inv_def init_pipeline_def init_maps_def balanced_def queue_inv_def flow_inv_def
      card_inv_def record_inv_def stat_total_def)

lemma pipeline_inv_step: "pipeline_step mode p p' \<Longrightarrow> pipeline_inv mode p \<Longrightarrow> pipeline_inv mode p'"
  unfolding pipeline_inv_def
  by (blast intro: balanced_step queue_inv_step flow_inv_step card_inv_step record_inv_step)

lemma reachable_inv: "reachable mode p \<Longrightarrow> pipeline_inv mode p"
  by (induction rule: reachable.induct) (auto intro: pipeline_inv_init pipeline_inv_step)

lemma reachable_steps: "(pipeline_step mode)\<^sup>*\<^sup>* p p' \<Longrightarrow> reachable mode p \<Longrightarrow> reachable mode p'"
  by (induction rule: rtranclp_induct) (auto intro: reachable.step)

lemma records_mono_steps:
  assumes "(pipeline_step mode)\<^sup>*\<^sup>* p p'" "reachable mode p"
  shows "ingress_records (pl_maps p) \<subseteq>\<^sub>m ingress_records (pl_maps p') \<and>
     cpumap_records (pl_maps p) \<subseteq>\<^sub>m cpumap_records (pl_maps p')"
  using assms(1)
proof (induction rule: rtranclp_induct)
  case (step y z)
  then have "queue_inv y"
    using assms(2) reachable_inv reachable_steps pipeline_inv_def by blast
  with records_mono_step [OF step(2)] step(3) show ?case by (blast intro: map_le_trans)
qed simp

section \<open>Where the records come from\<close>

text \<open>
  The events of a run, newest first: the runs of the classifier with the action it returned, the runs
  of the observer, and the frames lost between the two.
\<close>

datatype pipeline_event = Dispatched bpf_helpers xdp_md xdp_action | Observed bpf_helpers xdp_md | Lost xdp_md

inductive history :: "u32 \<Rightarrow> pipeline_event list \<Rightarrow> pipeline \<Rightarrow> bool" for mode where
  begun: "history mode [] init_pipeline"
| dispatched: "\<lbrakk>history mode es p; kernel_law h; xdp_dispatch h mode ctx (pl_maps p) = Some (action, ctx', m')\<rbrakk> \<Longrightarrow>
     history mode (Dispatched h ctx action # es) (p\<lparr>pl_maps := m',
       pl_cpumap := pl_cpumap p @ (if to_cpumap mode ctx action then [ctx'] else [])\<rparr>)"
| observed: "\<lbrakk>history mode es p; kernel_law h; pl_cpumap p = q @ ctx # r;
     xdp_cpumap_measure h ctx (pl_maps p) = Some (action, ctx', m')\<rbrakk> \<Longrightarrow>
     history mode (Observed h ctx # es) (p\<lparr>pl_maps := m', pl_cpumap := q @ r\<rparr>)"
| lost: "\<lbrakk>history mode es p; pl_cpumap p = q @ ctx # r\<rbrakk> \<Longrightarrow>
     history mode (Lost ctx # es) (p\<lparr>pl_cpumap := q @ r, pl_lost := pl_lost p + 1\<rparr>)"

lemma history_reachable: "history mode es p \<Longrightarrow> reachable mode p"
  by (induction rule: history.induct) (blast intro: reachable.intros pipeline_step.intros)+

lemma reachable_history: "reachable mode p \<Longrightarrow> \<exists>es. history mode es p"
proof (induction rule: reachable.induct)
  case (step p p')
  then obtain es where es: "history mode es p" by blast
  from step(2) es show ?case by (cases rule: pipeline_step.cases) (blast intro: history.intros)+
qed (blast intro: history.begun)

text \<open>An ingress record describes one run of the classifier: its frame, its clock and what the driver reported.\<close>

definition record_of_frame :: "u32 \<Rightarrow> bpf_helpers \<Rightarrow> xdp_md \<Rightarrow> ace_packet_key \<Rightarrow> ace_ingress_record \<Rightarrow> bool" where
  "record_of_frame mode h ctx k r \<longleftrightarrow>
     (\<exists>path. bpf_accepts (ctx_data ctx) = Some (path, k) \<and> ir_requested_path r = ace_effective_requested_path mode path) \<and>
     ir_rx_queue r = ctx_rx_queue_index ctx \<and> ir_initial_xdp_ns r = ktime_get_ns h \<and>
     (\<exists>ctx1 e hw. ctx_data ctx1 = ctx_data ctx \<and> xdp_metadata_rx_timestamp h ctx1 = (e, hw) \<and>
        ir_hw_rx_ns r = (if e = 0 then hw else 0) \<and> ir_timestamp_error r = word_of_int e)"

lemma stamped_meta_reported:
  obtains ctx1 e hw where "ctx_data ctx1 = ctx_data ctx" "ctx_rx_queue_index ctx1 = ctx_rx_queue_index ctx"
    "xdp_metadata_rx_timestamp h ctx1 = (e, hw)"
    "stamped_meta h k path ctx = stamp_rx_meta e hw (initial_rx_meta k path (ktime_get_ns h) (ctx_rx_queue_index ctx))"
proof -
  let ?ctx1 = "with_meta (initial_rx_meta k path (ktime_get_ns h) (ctx_rx_queue_index ctx)) ctx"
  show ?thesis
    by (rule that [of ?ctx1 "fst (xdp_metadata_rx_timestamp h ?ctx1)" "snd (xdp_metadata_rx_timestamp h ?ctx1)"])
      (simp_all add: stamped_meta_def Let_def split: prod.splits)
qed

lemma record_of_frame_stamped:
  assumes "kernel_law h" "xdp_adjust_meta h ctx (- 56) = (0, ctx0)" "bpf_accepts (ctx_data ctx) = Some (path, k)"
  shows "record_of_frame mode h ctx k
    (ingress_record_of k (stamped_meta h k (ace_effective_requested_path mode path) ctx0))"
proof -
  have "adjust_meta_law (xdp_adjust_meta h)" using assms(1) by (simp add: kernel_law_def)
  then have c: "ctx_data ctx0 = ctx_data ctx" "ctx_rx_queue_index ctx0 = ctx_rx_queue_index ctx"
    using assms(2) unfolding adjust_meta_law_def by (metis snd_conv)+
  let ?m = "stamped_meta h k (ace_effective_requested_path mode path) ctx0"
  obtain ctx1 e hw where t: "ctx_data ctx1 = ctx_data ctx0" "xdp_metadata_rx_timestamp h ctx1 = (e, hw)"
    "?m = stamp_rx_meta e hw (initial_rx_meta k (ace_effective_requested_path mode path) (ktime_get_ns h) (ctx_rx_queue_index ctx0))"
    by (rule stamped_meta_reported [of ctx0 h k "ace_effective_requested_path mode path"])
  have "rm_hw_rx_ns ?m = (if e = 0 then hw else 0)" "rm_timestamp_error ?m = word_of_int e"
    unfolding t(3) by (simp_all add: stamp_rx_meta_def initial_rx_meta_def)
  then show ?thesis using assms(3) c t(1,2)
    by (auto simp: record_of_frame_def ingress_record_of_def stamped_meta_fields)
qed

text \<open>A frame on its way to the observer, and a record the observer made, belong to a frame the classifier redirected to the CPUMAP.\<close>

definition redirected_before :: "u32 \<Rightarrow> pipeline_event list \<Rightarrow> byte list \<Rightarrow> ace_packet_key \<Rightarrow> bool" where
  "redirected_before mode es d k \<longleftrightarrow>
     (\<exists>h ctx path. Dispatched h ctx XDP_REDIRECT \<in> set es \<and> ctx_data ctx = d \<and> bpf_accepts d = Some (path, k) \<and>
        ace_effective_requested_path mode path = ACE_PATH_CPUMAP)"

definition observed_record :: "u32 \<Rightarrow> pipeline_event list \<Rightarrow> ace_packet_key \<Rightarrow> ace_cpumap_record \<Rightarrow> bool" where
  "observed_record mode es k r \<longleftrightarrow>
     (\<exists>h ctx. Observed h ctx \<in> set es \<and> redirected_before mode es (ctx_data ctx) k \<and>
        cr_cpu r = get_smp_processor_id h \<and> cr_cpumap_ns r = ktime_get_ns h)"

definition origin_inv :: "u32 \<Rightarrow> pipeline_event list \<Rightarrow> pipeline \<Rightarrow> bool" where
  "origin_inv mode es p \<longleftrightarrow>
     (\<forall>k r. ingress_records (pl_maps p) k = Some r \<longrightarrow>
        (\<exists>h ctx action. Dispatched h ctx action \<in> set es \<and> record_of_frame mode h ctx k r)) \<and>
     (\<forall>k r. cpumap_records (pl_maps p) k = Some r \<longrightarrow> observed_record mode es k r) \<and>
     (\<forall>f \<in> set (pl_cpumap p). redirected_before mode es (ctx_data f) (meta_key (rx_meta_of (sub_bytes (ctx_meta f) 0 56))))"

lemma redirected_before_mono: "redirected_before mode es d k \<Longrightarrow> redirected_before mode (ev # es) d k"
  by (auto simp: redirected_before_def)

lemma observed_record_mono: "observed_record mode es k r \<Longrightarrow> observed_record mode (ev # es) k r"
  unfolding observed_record_def using redirected_before_mono by fastforce

lemma origin_inv_mono: "origin_inv mode es p \<Longrightarrow> origin_inv mode (ev # es) p"
  unfolding origin_inv_def using redirected_before_mono observed_record_mono by (metis list.set_intros(2))

lemma dispatch_redirected:
  assumes "kernel_law h" "xdp_dispatch h mode ctx m = Some (a, ctx', m')" "to_cpumap mode ctx a"
  shows "redirected_before mode [Dispatched h ctx a] (ctx_data ctx') (meta_key (rx_meta_of (sub_bytes (ctx_meta ctx') 0 56)))"
  using assms(2)
proof (cases rule: dispatch_summary)
  case (unmeasured l)
  with assms(3) show ?thesis by (simp add: to_cpumap_iff)
next
  case (measured path k eff ctx0 meta e recs s l)
  have "adjust_meta_law (xdp_adjust_meta h)" using assms(1) by (simp add: kernel_law_def)
  then have c: "ctx_data ctx0 = ctx_data ctx" using measured(3) unfolding adjust_meta_law_def by (metis snd_conv)
  have "meta_key (rx_meta_of (sub_bytes (ctx_meta ctx') 0 56)) = meta_key meta"
    using measured(5) by (simp add: sub_bytes_append_left sub_bytes_all)
  also have "\<dots> = k" using bpf_accepts_path [OF measured(1)] measured(4) by (simp add: meta_key_def stamped_meta_fields)
  finally show ?thesis
    using assms(3) measured(1,2,5) c by (auto simp: redirected_before_def to_cpumap_iff)
qed

lemma origin_inv_history: "history mode es p \<Longrightarrow> origin_inv mode es p"
proof (induction rule: history.induct)
  case begun
  show ?case by (simp add: origin_inv_def init_pipeline_def init_maps_def)
next
  case (dispatched es p h ctx a ctx' m')
  let ?ev = "Dispatched h ctx a"
  have old: "origin_inv mode (?ev # es) p" using dispatched.IH by (rule origin_inv_mono)
  have new: "redirected_before mode (?ev # es) (ctx_data ctx') (meta_key (rx_meta_of (sub_bytes (ctx_meta ctx') 0 56)))"
    if "to_cpumap mode ctx a"
    using dispatch_redirected [OF dispatched.hyps(2,3) that] unfolding redirected_before_def by fastforce
  have cm: "cpumap_records m' = cpumap_records (pl_maps p)" by (rule dispatch_queue(3) [OF dispatched.hyps(3)])
  from dispatched.hyps(2,3) show ?case
  proof (cases rule: dispatch_ingress)
    case same
    with old new cm show ?thesis by (auto simp: origin_inv_def)
  next
    case (fresh path k ctx0)
    have "record_of_frame mode h ctx k (ingress_record_of k (stamped_meta h k (ace_effective_requested_path mode path) ctx0))"
      using record_of_frame_stamped [OF dispatched.hyps(2) fresh(3,1)] .
    with old new cm fresh(4) show ?thesis unfolding origin_inv_def by (auto split: if_splits)
  qed
next
  case (observed es p h q ctx r a ctx' m')
  let ?ev = "Observed h ctx"
  have old: "origin_inv mode (?ev # es) p" using observed.IH by (rule origin_inv_mono)
  have ok: "cpumap_meta_ok ctx" using reachable_inv [OF history_reachable [OF observed.hyps(1)]] observed.hyps(3)
    by (simp add: pipeline_inv_def queue_inv_def)
  from observed.hyps(2,4) ok show ?case
  proof (cases rule: measure_cpumap)
    case (same s)
    with old observed.hyps(3) show ?thesis by (auto simp: origin_inv_def)
  next
    case (fresh meta)
    have "redirected_before mode (?ev # es) (ctx_data ctx) (meta_key meta)"
      using old observed.hyps(3) fresh(1) by (auto simp: origin_inv_def)
    then have "observed_record mode (?ev # es) (meta_key meta) (cpumap_record_of h meta)"
      by (auto simp: observed_record_def cpumap_record_of_def)
    with old observed.hyps(3) fresh(3) show ?thesis unfolding origin_inv_def by auto
  qed
next
  case (lost es p q ctx r)
  from origin_inv_mono [OF lost.IH, of "Lost ctx"] lost.hyps(2) show ?case by (auto simp: origin_inv_def)
qed

section \<open>A sample run\<close>

text \<open>
  Concrete helpers and a concrete frame to port 9001: the run redirects the frame to the CPUMAP,
  records it, and the observer then records it on the destination CPU.
\<close>

definition plain_update :: "('k \<rightharpoonup> 'v) \<Rightarrow> 'k \<Rightarrow> 'v \<Rightarrow> int \<times> ('k \<rightharpoonup> 'v)" where
  "plain_update mp k v = (if mp k \<noteq> None then (- EEXIST, mp) else (0, mp(k \<mapsto> v)))"

definition sample_helpers :: bpf_helpers where
  "sample_helpers = \<lparr>ktime_get_ns = 1000, get_smp_processor_id = 2,
     xdp_adjust_meta = (\<lambda>ctx d. (0, ctx\<lparr>ctx_meta := replicate (nat (- d)) 0 @ ctx_meta ctx\<rparr>)),
     xdp_metadata_rx_timestamp = (\<lambda>ctx. (0, 77)),
     redirect_cpu_map = (\<lambda>k fl. XDP_REDIRECT), redirect_xsk_map = (\<lambda>k fl. XDP_REDIRECT),
     update_ingress = plain_update, update_cpumap = plain_update\<rparr>"

definition sample_header :: ace_experiment_header where
  "sample_header = \<lparr>eh_magic = ACE_PACKET_MAGIC, eh_version = ACE_PACKET_VERSION,
     eh_size = ACE_PACKET_HEADER_SIZE, eh_flow_id = 7, eh_reserved = 0, eh_sequence = 3,
     eh_tx_realtime_ns = 12345\<rparr>"

definition sample_frame :: "u16 \<Rightarrow> xdp_md" where
  "sample_frame port = \<lparr>ctx_data = udp_frame (replicate 12 0) 0 [0, 0] 64 (replicate 10 0) 4000 port [0, 0]
     (experiment_header_bytes sample_header @ [1, 2, 3]), ctx_meta = [], ctx_rx_queue_index = 0\<rparr>"


lemma sample_view:
  "udp_view (ctx_data (sample_frame port)) = Some (port, experiment_header_bytes sample_header @ [1, 2, 3])"
  using udp_view_udp_frame [where pad = "[]"] by (simp add: sample_frame_def)

lemma sample_frame_fields: "ctx_meta (sample_frame port) = []" "ctx_rx_queue_index (sample_frame port) = 0"
  by (simp_all add: sample_frame_def)

lemma sample_valid: "valid_experiment_header (experiment_header_bytes sample_header @ [1, 2, 3])"
  by (simp add: valid_experiment_header_def sample_header_def)

lemma sample_key: "header_key sample_header = \<lparr>pk_flow_id = 7, pk_reserved = 0, pk_sequence = 3\<rparr>"
  by (simp add: header_key_def sample_header_def)

definition sample_meta :: ace_rx_meta where
  "sample_meta = \<lparr>rm_magic = ACE_RX_META_MAGIC, rm_version = 1, rm_size = 56, rm_flags = 19, rm_flow_id = 7,
     rm_sequence = 3, rm_hw_rx_ns = 77, rm_initial_xdp_ns = 1000, rm_cpumap_ns = 0, rm_rx_queue = 0,
     rm_requested_path = 1, rm_timestamp_error = 0\<rparr>"

definition sample_redirected :: xdp_md where
  "sample_redirected = (sample_frame 9001)\<lparr>ctx_meta := rx_meta_bytes sample_meta\<rparr>"

lemma sample_dispatch:
  "xdp_dispatch sample_helpers 0 (sample_frame 9001) init_maps = Some (XDP_REDIRECT, sample_redirected,
     count_all 2 [STAT_TOTAL, STAT_HWTS_VALID, STAT_INGRESS_RECORDED, STAT_CPUMAP]
       (init_maps\<lparr>ingress_records := [\<lparr>pk_flow_id = 7, pk_reserved = 0, pk_sequence = 3\<rparr> \<mapsto>
          ingress_record_of \<lparr>pk_flow_id = 7, pk_reserved = 0, pk_sequence = 3\<rparr> sample_meta]\<rparr>))"
  by (simp add: xdp_dispatch_def Let_def parse_datagram [OF sample_view] xdp_route_def sample_valid
      sample_key ace_effective_requested_path_def prepare_measurement_metadata_def sample_helpers_def
      load_defs initial_rx_meta_def stamp_rx_meta_def record_ingress_def plain_update_def init_maps_def
      dispatch_requested_path_def count_all_def sample_redirected_def sample_meta_def sample_frame_fields
      ingress_record_of_def count_stat_def)

lemma sample_law: "kernel_law sample_helpers"
  by (auto simp: kernel_law_def sample_helpers_def noexist_update_def plain_update_def adjust_meta_law_def)

lemma sample_to_cpumap: "to_cpumap 0 (sample_frame 9001) XDP_REDIRECT"
proof -
  have "bpf_accepts (ctx_data (sample_frame 9001)) = Some (1, header_key sample_header)"
    by (simp add: bpf.accepts_view experiment_view_def sample_view sample_valid xdp_route_def)
  then show ?thesis by (simp add: to_cpumap_def ace_effective_requested_path_def)
qed

abbreviation sample_id :: ace_packet_key where
  "sample_id \<equiv> \<lparr>pk_flow_id = 7, pk_reserved = 0, pk_sequence = 3\<rparr>"

definition sample_maps :: bpf_maps where
  "sample_maps = count_all 2 [STAT_TOTAL, STAT_HWTS_VALID, STAT_INGRESS_RECORDED, STAT_CPUMAP]
     (init_maps\<lparr>ingress_records := [sample_id \<mapsto> ingress_record_of sample_id sample_meta]\<rparr>)"

definition sample_pipeline :: pipeline where
  "sample_pipeline = \<lparr>pl_maps = sample_maps, pl_cpumap = [sample_redirected], pl_lost = 0\<rparr>"

lemma sample_step: "pipeline_step 0 init_pipeline sample_pipeline"
  using pipeline_step.dispatch [OF sample_law, where p = init_pipeline and mode = 0] sample_dispatch sample_to_cpumap
  by (fastforce simp: init_pipeline_def sample_pipeline_def sample_maps_def)

lemma sample_reachable: "reachable 0 sample_pipeline"
  by (rule reachable.step [OF reachable.start sample_step])

definition sample_observed :: pipeline where
  "sample_observed = \<lparr>pl_maps = count_all 2 [STAT_CPUMAP_RECORDED]
      (sample_maps\<lparr>cpumap_records := [sample_id \<mapsto> cpumap_record_of sample_helpers sample_meta]\<rparr>),
    pl_cpumap = [], pl_lost = 0\<rparr>"

lemma sample_measure:
  "\<exists>ctx'. xdp_cpumap_measure sample_helpers sample_redirected sample_maps =
     Some (XDP_PASS, ctx', pl_maps sample_observed)"
proof -
  have meta: "rx_meta_of (sub_bytes (ctx_meta sample_redirected) 0 56) = sample_meta"
    by (simp add: sample_redirected_def sub_bytes_all)
  have ok: "cpumap_meta_ok sample_redirected"
    unfolding cpumap_meta_ok_def Let_def meta by (simp add: sample_redirected_def sample_meta_def)
  have id: "meta_key sample_meta = sample_id" by (simp add: meta_key_def sample_meta_def)
  have u: "update_cpumap sample_helpers (cpumap_records sample_maps) sample_id (cpumap_record_of sample_helpers sample_meta)
     = (0, [sample_id \<mapsto> cpumap_record_of sample_helpers sample_meta])"
    by (simp add: sample_helpers_def plain_update_def sample_maps_def init_maps_def)
  show ?thesis
  proof (cases rule: measure_cases [where h = sample_helpers and ctx = sample_redirected])
    case invalid
    with ok show ?thesis by simp
  next
    case (measured meta' ctx')
    then have m': "meta' = sample_meta" using meta by simp
    show ?thesis
      using measured(5) [unfolded m' id, OF u]
      by (simp add: sample_observed_def count_all_def cpumap_outcome_def) (simp add: sample_helpers_def)
  qed
qed

lemma sample_observe_step: "pipeline_step 0 sample_pipeline sample_observed"
proof -
  obtain ctx' where "xdp_cpumap_measure sample_helpers sample_redirected (pl_maps sample_pipeline) =
     Some (XDP_PASS, ctx', pl_maps sample_observed)" using sample_measure by (auto simp: sample_pipeline_def)
  from pipeline_step.observe [OF sample_law _ this, of "[]" "[]" 0]
  show ?thesis by (simp add: sample_pipeline_def sample_observed_def)
qed

lemma sample_history: "history 0 [Observed sample_helpers sample_redirected, Dispatched sample_helpers (sample_frame 9001) XDP_REDIRECT] sample_observed"
proof -
  have "history 0 [Dispatched sample_helpers (sample_frame 9001) XDP_REDIRECT] sample_pipeline"
    using history.dispatched [OF history.begun sample_law, where mode = 0] sample_dispatch sample_to_cpumap
    by (fastforce simp: init_pipeline_def sample_pipeline_def sample_maps_def)
  moreover obtain ctx' where "xdp_cpumap_measure sample_helpers sample_redirected (pl_maps sample_pipeline) =
     Some (XDP_PASS, ctx', pl_maps sample_observed)" using sample_measure by (auto simp: sample_pipeline_def)
  ultimately show ?thesis
    using history.observed [OF _ sample_law, of 0 _ sample_pipeline "[]" sample_redirected "[]"]
    by (simp add: sample_pipeline_def sample_observed_def)
qed

section \<open>Properties\<close>

text \<open>
  Property C9.  The classifier never reads or writes outside the packet or its metadata area, on
  any frame and with any kernel services, and it only ever passes or redirects a frame.
\<close>

theorem xdp_dispatch_safe:
  "\<exists>action ctx' m'. xdp_dispatch h mode ctx m = Some (action, ctx', m') \<and>
     (action = XDP_PASS \<or> action = XDP_REDIRECT)"
proof (cases rule: dispatch_cases [where h = h and mode = mode and ctx = ctx])
  case (routed path k ctx' meta s)
  then show ?thesis
    by (cases rule: dispatch_requested_path_cases [where h = h and ctx = "with_meta meta ctx'"
          and path = "ace_effective_requested_path mode path"]) auto
qed simp_all

text \<open>
  The observer never accesses memory outside the metadata area, always passes the
  frame on, and accepts the metadata exactly when magic, version, size, packet-id flag and path
  are those of a CPUMAP frame; only then does it write to the CPUMAP record map.
\<close>

theorem xdp_cpumap_measure_safe:
  "\<exists>ctx' m'. xdp_cpumap_measure h ctx m = Some (XDP_PASS, ctx', m') \<and> ctx_data ctx' = ctx_data ctx \<and>
     (cpumap_meta_ok ctx \<or>
      ctx' = ctx \<and> m' = count_stat (get_smp_processor_id h) STAT_CPUMAP_META_INVALID m)"
proof (cases rule: measure_cases [where h = h and ctx = ctx])
  case (measured meta ctx')
  obtain e recs where "update_cpumap h (cpumap_records m) (meta_key meta) (cpumap_record_of h meta) = (e, recs)"
    by fastforce
  from measured(5) [OF this] measured(1,3) show ?thesis by simp
qed simp

text \<open>
  Property C7.  The parser of the classifier equals its specification on every frame: a frame
  without a complete, unfragmented IPv4/UDP datagram is ignored and counted under its
  malformation; a datagram to another port is ignored; a datagram to an experiment port is
  accepted with the path of its port and the identity in its header, or rejected and counted
  when the header is not the 32-byte version-1 header.
\<close>

theorem parse_experiment_packet_spec:
  "parse_experiment_packet cpu ctx key rp m =
   (case udp_view (ctx_data ctx) of
      None \<Rightarrow> Some (0, key, rp, count_fault cpu (ipv4_fault (ctx_data ctx)) m)
    | Some (port, p) \<Rightarrow>
       (case xdp_route port of
          None \<Rightarrow> Some (0, key, rp, m)
        | Some path \<Rightarrow>
            if valid_experiment_header p
            then Some (1, header_key (experiment_header_of p), path, m)
            else Some (-1, key, path, count_stat cpu STAT_PACKET_HEADER_INVALID m)))"
  by (simp add: parse_spec split: option.split)

text \<open>
  Property C20.  Accounting on every CPU, in every reachable state (as 64-bit counters): the total
  is the sum of passed, CPUMAP- and XSK-redirected frames; every timestamped frame has exactly
  one ingress outcome (recorded, duplicate, update error) and exactly one disposition (experiment
  pass, CPUMAP, XSK or one of the two fallbacks).
\<close>

theorem reachable_balanced:
  assumes "reachable mode p"
  shows "balanced (pl_maps p)"
  using reachable_inv [OF assms] by (simp add: pipeline_inv_def)

theorem reachable_balanced_witness:
  "reachable 0 sample_pipeline \<and> balanced (pl_maps sample_pipeline)"
  using reachable_balanced [OF sample_reachable] sample_reachable by blast

text \<open>
  Property C21.  The observer never meets invalid metadata on a frame the classifier redirected,
  and the frames counted as redirected to the CPUMAP are exactly those still queued, those lost
  on the way, and those the observer recorded, found duplicate or failed to record.
\<close>

theorem reachable_cpumap_flow:
  assumes "reachable mode p"
  shows "stats (pl_maps p) c STAT_CPUMAP_META_INVALID = 0 \<and>
    stat_total (pl_maps p) STAT_CPUMAP = of_nat (length (pl_cpumap p)) + pl_lost p +
      stat_total (pl_maps p) STAT_CPUMAP_RECORDED + stat_total (pl_maps p) STAT_CPUMAP_DUPLICATE +
      stat_total (pl_maps p) STAT_CPUMAP_UPDATE_ERROR"
  using reachable_inv [OF assms] by (simp add: pipeline_inv_def queue_inv_def flow_inv_def Let_def)

theorem reachable_cpumap_flow_witness:
  "reachable 0 sample_pipeline \<and> stats (pl_maps sample_pipeline) 2 STAT_CPUMAP_META_INVALID = 0 \<and>
   stat_total (pl_maps sample_pipeline) STAT_CPUMAP = of_nat (length (pl_cpumap sample_pipeline)) +
      pl_lost sample_pipeline +
      stat_total (pl_maps sample_pipeline) STAT_CPUMAP_RECORDED +
      stat_total (pl_maps sample_pipeline) STAT_CPUMAP_DUPLICATE +
      stat_total (pl_maps sample_pipeline) STAT_CPUMAP_UPDATE_ERROR"
  using reachable_cpumap_flow [OF sample_reachable] sample_reachable by blast

text \<open>
  In every reachable state the two record maps hold exactly as many packets as the
  recorded statistics say (modulo 2^64, the width of the counters).
\<close>

theorem reachable_records_counted:
  assumes "reachable mode p"
  shows "finite (dom (ingress_records (pl_maps p))) \<and> finite (dom (cpumap_records (pl_maps p))) \<and>
    stat_total (pl_maps p) STAT_INGRESS_RECORDED = of_nat (card (dom (ingress_records (pl_maps p)))) \<and>
    stat_total (pl_maps p) STAT_CPUMAP_RECORDED = of_nat (card (dom (cpumap_records (pl_maps p))))"
  using reachable_inv [OF assms] by (simp add: pipeline_inv_def card_inv_def)

theorem reachable_records_counted_witness:
  "reachable 0 sample_pipeline \<and> sample_id \<in> dom (ingress_records (pl_maps sample_pipeline)) \<and>
   stat_total (pl_maps sample_pipeline) STAT_INGRESS_RECORDED =
     of_nat (card (dom (ingress_records (pl_maps sample_pipeline))))"
  using reachable_records_counted [OF sample_reachable] sample_reachable
  by (auto simp: sample_pipeline_def sample_maps_def)

text \<open>
  The first observation of a packet is never overwritten: once a reachable state
  holds an ingress or CPUMAP record, every later state holds the same record.
\<close>

theorem first_observation_kept:
  assumes "reachable mode p" "(pipeline_step mode)\<^sup>*\<^sup>* p p'"
  shows "ingress_records (pl_maps p) \<subseteq>\<^sub>m ingress_records (pl_maps p') \<and>
    cpumap_records (pl_maps p) \<subseteq>\<^sub>m cpumap_records (pl_maps p')"
  by (rule records_mono_steps [OF assms(2,1)])

theorem first_observation_kept_witness:
  "ingress_records (pl_maps sample_observed) sample_id
     = Some (ingress_record_of sample_id sample_meta)"
proof -
  have "ingress_records (pl_maps sample_pipeline) sample_id = Some (ingress_record_of sample_id sample_meta)"
    by (simp add: sample_pipeline_def sample_maps_def)
  then show ?thesis
    using first_observation_kept [OF sample_reachable r_into_rtranclp [of "pipeline_step 0", OF sample_observe_step]]
    by (metis domI map_le_def)
qed

text \<open>
  Property C22.  Every record describes a packet that was handled.  In every run of the machine each
  ingress record belongs to a frame that the classifier processed: the key is the identity in the
  frame, the requested path the one of the frame's port under the forwarding mode, the queue and the first time
  those of that run, the hardware timestamp the one that the driver reported then, or 0 with its
  error.  Each CPUMAP record was made by a run of the observer, on its CPU and at its time, from a frame
  with this identity that the classifier had redirected to the CPUMAP.  The records are well
  formed, and CPUMAP records and queued frames exist only in the mixed mode.
\<close>

theorem reachable_records_ok:
  assumes "history mode es p"
  shows "(\<forall>k r. ingress_records (pl_maps p) k = Some r \<longrightarrow> ingress_record_ok mode k r \<and>
      (\<exists>h ctx action. Dispatched h ctx action \<in> set es \<and> record_of_frame mode h ctx k r)) \<and>
    (\<forall>k r. cpumap_records (pl_maps p) k = Some r \<longrightarrow> cpumap_record_ok mode k r \<and> observed_record mode es k r) \<and>
    (pl_cpumap p \<noteq> [] \<longrightarrow> mode \<noteq> ACE_FORWARD_ALL_PASS \<and> mode \<noteq> ACE_FORWARD_PASS_XSK)"
  using reachable_inv [OF history_reachable [OF assms]] origin_inv_history [OF assms]
  by (auto simp: pipeline_inv_def record_inv_def origin_inv_def mode_paths_def split: if_splits)

theorem reachable_records_ok_witness:
  "\<exists>es. history 0 es sample_observed \<and> (\<exists>h ctx action. Dispatched h ctx action \<in> set es \<and>
     record_of_frame 0 h ctx sample_id (ingress_record_of sample_id sample_meta)) \<and>
   observed_record 0 es sample_id (cpumap_record_of sample_helpers sample_meta)"
proof -
  have "ingress_records (pl_maps sample_observed) sample_id = Some (ingress_record_of sample_id sample_meta)"
    "cpumap_records (pl_maps sample_observed) sample_id = Some (cpumap_record_of sample_helpers sample_meta)"
    by (simp_all add: sample_observed_def sample_maps_def)
  with reachable_records_ok [OF sample_history] sample_history show ?thesis by blast
qed

text \<open>
  With the kernel's metadata adjustment leaving the packet alone, the classifier
  never changes a byte of the packet: measuring a frame does not alter what its receiver sees.
\<close>

theorem dispatch_keeps_packet:
  assumes "kernel_law h" "xdp_dispatch h mode ctx m = Some (action, ctx', m')"
  shows "ctx_data ctx' = ctx_data ctx"
proof -
  have adj: "ctx_data (snd (xdp_adjust_meta h ctx (- 56))) = ctx_data ctx"
    using assms(1) by (simp add: kernel_law_def adjust_meta_law_def)
  from assms(2) show ?thesis
  proof (cases rule: dispatch_summary)
    case (unmeasured l)
    with adj show ?thesis by auto
  next
    case (measured path k eff ctx0 meta e recs s l)
    with adj show ?thesis by auto
  qed
qed

theorem dispatch_keeps_packet_witness:
  "kernel_law sample_helpers \<and> ctx_data sample_redirected = ctx_data (sample_frame 9001)"
  using dispatch_keeps_packet [OF sample_law sample_dispatch] sample_law by blast

end
