(* ===== verification/Afxdp_Umem.thy ===== *)
theory Afxdp_Umem
  imports Afxdp_Packet Xdp_Machine
begin

text \<open>
  The receive path of the AF_XDP receiver (\<^verbatim>\<open>BPF/afxdp_recv.c\<close>): descriptor validation, frame
  ownership, metadata, user records and recycling in \<^verbatim>\<open>receive_batch\<close>.  The rings are libxdp's:
  what one call of \<^verbatim>\<open>receive_batch\<close> sees of them (the peeked descriptors, whether the refill
  slots could be reserved) and the clock readings are arguments; what it does to them (cancel or
  release, the submitted refill addresses) is part of the result.  UMEM memory is a byte list, and
  \<open>None\<close> is an access outside it.
\<close>

unbundle bit_operations_syntax

section \<open>State\<close>

abbreviation NUM_FRAMES :: nat where "NUM_FRAMES \<equiv> 4096"
abbreviation FRAME_SIZE :: nat where "FRAME_SIZE \<equiv> 4096"
abbreviation UMEM_SIZE :: nat where "UMEM_SIZE \<equiv> 16777216"

record xdp_desc =
  xd_addr :: u64
  xd_len :: u32
  xd_options :: u32

record umem_info =
  um_buffer :: "byte list"
  um_frame_in_kernel :: "nat \<Rightarrow> bool"
  um_userspace_owned_frames :: u32

record rx_counters =
  received_packets :: u64
  received_udp_packets :: u64
  received_experiment_packets :: u64
  malformed_packets :: u64
  unexpected_port_packets :: u64
  metadata_invalid_packets :: u64
  record_overflow_packets :: u64
  recycled_frames :: u64
  umem_invariant_errors :: u64

record rx_state =
  rs_umem :: umem_info
  rs_count :: rx_counters
  rs_records :: "ace_xsk_user_record list"

definition frame_of :: "u64 \<Rightarrow> nat" where
  "frame_of addr = unat (ucast (addr div of_nat FRAME_SIZE) :: u32)"

definition fill_initial_frames :: "bool \<Rightarrow> umem_info \<Rightarrow> errno + (u64 list \<times> umem_info)" where
  "fill_initial_frames reserved umem =
     (if \<not> reserved then Inl ENOSPC
      else Inr (map (\<lambda>i. of_nat i * of_nat FRAME_SIZE) [0..<NUM_FRAMES],
                umem\<lparr>um_frame_in_kernel := (\<lambda>f. f < NUM_FRAMES)\<rparr>))"

section \<open>Descriptors\<close>

text \<open>
  \<open>extract_addr\<close> and \<open>add_offset\<close> are libxdp's \<^verbatim>\<open>xsk_umem__extract_addr\<close> and
  \<^verbatim>\<open>xsk_umem__add_offset_to_addr\<close>; \<^verbatim>\<open>XDP_PKT_CONTD\<close> is bit 0 of the options.
\<close>

definition validate_rx_descriptor ::
  "(u64 \<Rightarrow> u64) \<Rightarrow> (u64 \<Rightarrow> u64) \<Rightarrow> xdp_desc \<Rightarrow> errno + (u64 \<times> u64)" where
  "validate_rx_descriptor extract_addr add_offset desc =
   (let base_addr = extract_addr (xd_addr desc);
        packet_addr = add_offset (xd_addr desc);
        chunk_start = base_addr AND NOT (of_nat FRAME_SIZE - 1);
        chunk_end = chunk_start + of_nat FRAME_SIZE in
    if xd_options desc AND 1 \<noteq> 0 then Inl EOPNOTSUPP
    else if xd_options desc \<noteq> 0 then Inl EOPNOTSUPP
    else if base_addr \<ge> of_nat UMEM_SIZE \<or> packet_addr \<ge> of_nat UMEM_SIZE \<or> xd_len desc = 0 \<or>
            ucast (xd_len desc) > of_nat UMEM_SIZE - packet_addr
    then Inl ERANGE
    else if packet_addr < chunk_start \<or> packet_addr \<ge> chunk_end \<or>
            ucast (xd_len desc) > chunk_end - packet_addr
    then Inl ERANGE
    else Inr (chunk_start, packet_addr))"

section \<open>Metadata\<close>

definition meta_location :: "u64 \<Rightarrow> nat option" where
  "meta_location packet_addr =
   (let chunk_start = packet_addr AND NOT (of_nat FRAME_SIZE - 1);
        metadata_addr = packet_addr - 56 in
    if packet_addr < 56 then None
    else if metadata_addr < chunk_start \<or> metadata_addr > of_nat UMEM_SIZE - 56 then None
    else Some (unat metadata_addr))"

definition count_meta_invalid :: "rx_counters \<Rightarrow> rx_counters" where
  "count_meta_invalid c = c\<lparr>metadata_invalid_packets := metadata_invalid_packets c + 1\<rparr>"

definition read_xdp_metadata ::
  "umem_info \<Rightarrow> u64 \<Rightarrow> u32 \<Rightarrow> u64 \<Rightarrow> ace_xsk_user_record \<Rightarrow> rx_counters \<Rightarrow>
     (ace_xsk_user_record \<times> rx_counters) option" where
  "read_xdp_metadata umem packet_addr flow_id sequence record c =
   (case meta_location packet_addr of
      None \<Rightarrow> Some (record, count_meta_invalid c)
    | Some metadata_addr \<Rightarrow> do {
        bytes \<leftarrow> ld_bytes (um_buffer umem) metadata_addr 56;
        let metadata = rx_meta_of bytes;
        if rm_magic metadata \<noteq> ACE_RX_META_MAGIC \<or> rm_version metadata \<noteq> ACE_RX_META_VERSION \<or>
           rm_size metadata \<noteq> 56 \<or> rm_flags metadata AND ACE_META_F_PACKET_ID_VALID = 0
        then Some (record, count_meta_invalid c)
        else (let flags = xr_validation_flags record OR ACE_XSK_RECORD_F_META_VALID;
                  flags = (if rm_flow_id metadata = flow_id \<and> rm_sequence metadata = sequence
                           then flags OR ACE_XSK_RECORD_F_KEY_MATCH else flags);
                  flags = (if rm_requested_path metadata = ACE_PATH_XSK
                           then flags OR ACE_XSK_RECORD_F_PATH_MATCH else flags);
                  record = record\<lparr>xr_validation_flags := flags\<rparr> in
              if flags AND (ACE_XSK_RECORD_F_KEY_MATCH OR ACE_XSK_RECORD_F_PATH_MATCH) \<noteq>
                 (ACE_XSK_RECORD_F_KEY_MATCH OR ACE_XSK_RECORD_F_PATH_MATCH)
              then Some (record, count_meta_invalid c)
              else Some (record\<lparr>xr_hw_rx_ns := rm_hw_rx_ns metadata,
                                xr_initial_xdp_ns := rm_initial_xdp_ns metadata,
                                xr_meta_flags := rm_flags metadata,
                                xr_requested_path := rm_requested_path metadata,
                                xr_timestamp_error := rm_timestamp_error metadata\<rparr>, c))
      })"

definition clear_xdp_metadata :: "umem_info \<Rightarrow> u64 \<Rightarrow> umem_info option" where
  "clear_xdp_metadata umem packet_addr =
   (case meta_location packet_addr of
      None \<Rightarrow> Some umem
    | Some metadata_addr \<Rightarrow> do {
        buffer \<leftarrow> st_bytes (um_buffer umem) metadata_addr (replicate 56 0);
        Some (umem\<lparr>um_buffer := buffer\<rparr>)
      })"

section \<open>receive_batch\<close>

record timespec =
  ts_sec :: u64
  ts_nsec :: u64

definition timespec_ns :: "timespec \<Rightarrow> u64" where
  "timespec_ns ts = ts_sec ts * 1000000000 + ts_nsec ts"

text \<open>The two \<^verbatim>\<open>clock_gettime\<close> calls: their readings, or the errno of the one that failed.\<close>

definition capture_user_timestamps :: "errno + (timespec \<times> timespec) \<Rightarrow> errno + (u64 \<times> u64)" where
  "capture_user_timestamps clocks =
     (case clocks of Inl e \<Rightarrow> Inl e | Inr (mono_ts, real_ts) \<Rightarrow> Inr (timespec_ns mono_ts, timespec_ns real_ts))"

definition take_frame :: "umem_info \<Rightarrow> nat \<Rightarrow> umem_info" where
  "take_frame umem frame =
     umem\<lparr>um_frame_in_kernel := (um_frame_in_kernel umem)(frame := False),
          um_userspace_owned_frames := um_userspace_owned_frames umem + 1\<rparr>"

definition give_frame :: "umem_info \<Rightarrow> nat \<Rightarrow> umem_info" where
  "give_frame umem frame =
     umem\<lparr>um_frame_in_kernel := (um_frame_in_kernel umem)(frame := True),
          um_userspace_owned_frames := um_userspace_owned_frames umem - 1\<rparr>"

text \<open>Undo the claims of the descriptors validated so far, in order.\<close>

primrec give_back :: "umem_info \<Rightarrow> (u64 \<times> u64) list \<Rightarrow> umem_info" where
  "give_back umem [] = umem"
| "give_back umem (a # as) = give_back (give_frame umem (frame_of (fst a))) as"

text \<open>The validation loop; \<open>claimed\<close> are the pairs \<open>(addresses[j], data_addresses[j])\<close> so far.\<close>

primrec claim_batch ::
  "(xdp_desc \<Rightarrow> errno + (u64 \<times> u64)) \<Rightarrow> xdp_desc list \<Rightarrow> (u64 \<times> u64) list \<Rightarrow> umem_info \<Rightarrow> rx_counters \<Rightarrow>
     (errno + (u64 \<times> u64) list) \<times> umem_info \<times> rx_counters" where
  "claim_batch validate [] claimed umem c = (Inr claimed, umem, c)"
| "claim_batch validate (d # ds) claimed umem c =
   (case validate d of
      Inl e \<Rightarrow> (Inl e, give_back umem claimed, c)
    | Inr (addr, data) \<Rightarrow>
        (let frame = frame_of addr in
         if frame \<ge> NUM_FRAMES \<or> \<not> um_frame_in_kernel umem frame
         then (Inl EUCLEAN, give_back umem claimed,
               c\<lparr>umem_invariant_errors := umem_invariant_errors c + 1\<rparr>)
         else claim_batch validate ds (claimed @ [(addr, data)]) (take_frame umem frame) c))"

definition first_error :: "errno option \<Rightarrow> errno \<Rightarrow> errno option" where
  "first_error batch_error e = (case batch_error of None \<Rightarrow> Some e | Some _ \<Rightarrow> batch_error)"

definition new_user_record ::
  "u32 \<Rightarrow> u32 \<Rightarrow> u64 \<Rightarrow> u64 \<Rightarrow> u64 \<Rightarrow> u64 \<Rightarrow> u32 \<Rightarrow> ace_xsk_user_record" where
  "new_user_record queue_id flow_id sequence tx_ns mono_ns real_ns len =
     \<lparr>xr_flow_id = flow_id, xr_rx_queue = queue_id, xr_sequence = sequence,
      xr_tx_realtime_ns = tx_ns, xr_user_rx_mono_ns = mono_ns, xr_user_rx_real_ns = real_ns,
      xr_hw_rx_ns = 0, xr_initial_xdp_ns = 0, xr_meta_flags = 0, xr_requested_path = 0,
      xr_timestamp_error = 0, xr_packet_length = len, xr_validation_flags = 0\<rparr>"

text \<open>The body of the packet loop up to the label \<^verbatim>\<open>recycle\<close>.\<close>

definition record_packet ::
  "u32 \<Rightarrow> nat \<Rightarrow> errno + (timespec \<times> timespec) \<Rightarrow> xdp_desc \<Rightarrow> u64 \<Rightarrow> rx_state \<Rightarrow> errno option \<Rightarrow>
     (rx_state \<times> errno option) option" where
  "record_packet queue_id record_capacity clocks desc data st batch_error =
   (let c = rs_count st; c = c\<lparr>received_packets := received_packets c + 1\<rparr> in
    case capture_user_timestamps clocks of
      Inl e \<Rightarrow> Some (st\<lparr>rs_count := c\<rparr>, first_error batch_error e)
    | Inr (mono_ns, real_ns) \<Rightarrow> do {
        packet \<leftarrow> ld_bytes (um_buffer (rs_umem st)) (unat data) (unat (xd_len desc));
        udp \<leftarrow> packet_udp_info packet;
        case udp of
          None \<Rightarrow> Some (st\<lparr>rs_count := c\<lparr>malformed_packets := malformed_packets c + 1\<rparr>\<rparr>, batch_error)
        | Some udp_packet \<Rightarrow>
            (let c = c\<lparr>received_udp_packets := received_udp_packets c + 1\<rparr> in
             if up_destination_port udp_packet \<noteq> ACE_XDP_XSK_PORT
             then Some (st\<lparr>rs_count := c\<lparr>unexpected_port_packets := unexpected_port_packets c + 1\<rparr>\<rparr>,
                        batch_error)
             else do {
               pid \<leftarrow> experiment_packet_id packet udp_packet;
               case pid of
                 None \<Rightarrow> Some (st\<lparr>rs_count := c\<rparr>, batch_error)
               | Some (flow_id, sequence, tx_realtime_ns) \<Rightarrow>
                   (let c = c\<lparr>received_experiment_packets := received_experiment_packets c + 1\<rparr> in
                    if length (rs_records st) < record_capacity
                    then do {
                      (record, c) \<leftarrow> read_xdp_metadata (rs_umem st) data flow_id sequence
                        (new_user_record queue_id flow_id sequence tx_realtime_ns mono_ns real_ns (xd_len desc)) c;
                      Some (st\<lparr>rs_count := c, rs_records := rs_records st @ [record]\<rparr>, batch_error)
                    }
                    else Some (st\<lparr>rs_count := c\<lparr>record_overflow_packets := record_overflow_packets c + 1\<rparr>\<rparr>,
                               first_error batch_error ENOSPC))
             })
      })"

text \<open>From the label \<^verbatim>\<open>recycle\<close> on: clear the metadata, refill, return the frame.\<close>

definition recycle_frame ::
  "u64 \<times> u64 \<Rightarrow> rx_state \<Rightarrow> errno option \<Rightarrow> (rx_state \<times> errno option) option" where
  "recycle_frame a st batch_error =
   do {
     umem \<leftarrow> clear_xdp_metadata (rs_umem st) (snd a);
     let frame = frame_of (fst a);
     let c = rs_count st;
     if um_frame_in_kernel umem frame \<or> um_userspace_owned_frames umem = 0
     then Some (st\<lparr>rs_umem := umem,
                   rs_count := c\<lparr>umem_invariant_errors := umem_invariant_errors c + 1\<rparr>\<rparr>,
                first_error batch_error EUCLEAN)
     else Some (st\<lparr>rs_umem := give_frame umem frame,
                   rs_count := c\<lparr>recycled_frames := recycled_frames c + 1\<rparr>\<rparr>, batch_error)
   }"

fun process_batch ::
  "u32 \<Rightarrow> nat \<Rightarrow> (nat \<Rightarrow> errno + (timespec \<times> timespec)) \<Rightarrow> nat \<Rightarrow> (xdp_desc \<times> u64 \<times> u64) list \<Rightarrow>
     rx_state \<Rightarrow> errno option \<Rightarrow> (rx_state \<times> errno option) option" where
  "process_batch queue_id cap clocks i [] st batch_error = Some (st, batch_error)"
| "process_batch queue_id cap clocks i ((desc, a) # rest) st batch_error =
   do {
     (st, batch_error) \<leftarrow> record_packet queue_id cap (clocks i) desc (snd a) st batch_error;
     (st, batch_error) \<leftarrow> recycle_frame a st batch_error;
     process_batch queue_id cap clocks (i + 1) rest st batch_error
   }"

text \<open>
  One call: \<open>available\<close> are the entries of the RX ring (\<^verbatim>\<open>peek\<close> hands out at most 64),
  \<open>reserved\<close> whether \<^verbatim>\<open>xsk_ring_prod__reserve\<close> gave all refill slots.  The result has the
  return value, the number of RX entries released (0 after a cancel), the refill addresses
  submitted, and the state.
\<close>

record batch_result =
  br_value :: "errno + nat"
  br_released :: nat
  br_fill :: "u64 list"
  br_state :: rx_state

abbreviation RX_BATCH_SIZE :: nat where "RX_BATCH_SIZE \<equiv> 64"

definition receive_batch ::
  "(xdp_desc \<Rightarrow> errno + (u64 \<times> u64)) \<Rightarrow> u32 \<Rightarrow> nat \<Rightarrow> xdp_desc list \<Rightarrow> bool \<Rightarrow>
     (nat \<Rightarrow> errno + (timespec \<times> timespec)) \<Rightarrow> rx_state \<Rightarrow> batch_result option" where
  "receive_batch validate queue_id record_capacity available reserved clocks st =
   (let descs = take RX_BATCH_SIZE available; received = length descs in
    if received = 0 then Some \<lparr>br_value = Inr 0, br_released = 0, br_fill = [], br_state = st\<rparr>
    else (case claim_batch validate descs [] (rs_umem st) (rs_count st) of
        (Inl e, umem, c) \<Rightarrow>
          Some \<lparr>br_value = Inl e, br_released = 0, br_fill = [],
                br_state = st\<lparr>rs_umem := umem, rs_count := c\<rparr>\<rparr>
      | (Inr claimed, umem, c) \<Rightarrow>
          if \<not> reserved
          then Some \<lparr>br_value = Inl ENOSPC, br_released = 0, br_fill = [],
                     br_state = st\<lparr>rs_umem := give_back umem claimed, rs_count := c\<rparr>\<rparr>
          else do {
            (st, batch_error) \<leftarrow> process_batch queue_id record_capacity clocks 0 (zip descs claimed)
              (st\<lparr>rs_umem := umem, rs_count := c\<rparr>) None;
            let c = rs_count st;
            let (st, batch_error) =
              (if um_userspace_owned_frames (rs_umem st) \<noteq> 0
               then (st\<lparr>rs_count := c\<lparr>umem_invariant_errors := umem_invariant_errors c + 1\<rparr>\<rparr>,
                     first_error batch_error EUCLEAN)
               else (st, batch_error));
            Some \<lparr>br_value = (case batch_error of Some e \<Rightarrow> Inl e | None \<Rightarrow> Inr received),
                  br_released = received, br_fill = map fst claimed, br_state = st\<rparr>
          }))"

section \<open>Descriptor validation\<close>

lemma and_not_mask_word: "(x :: 'a::len word) AND NOT (mask n) = push_bit n (drop_bit n x)"
  by (rule bit_word_eqI) (auto simp: bit_simps)
lemma mask12: "(of_nat FRAME_SIZE - 1 :: u64) = mask 12" by (simp add: mask_eq_exp_minus_1)
lemma unat_push_drop: "unat (push_bit n (drop_bit n (x :: u64))) = unat x div 2 ^ n * 2 ^ n"
proof -
  have "unat x div 2 ^ n * 2 ^ n \<le> unat x" by (rule div_times_less_eq_dividend)
  also have "\<dots> < 2 ^ 64" using unat_bound [of x] by simp
  finally have "take_bit 64 (unat x div 2 ^ n * 2 ^ n) = unat x div 2 ^ n * 2 ^ n"
    by (simp only: take_bit_nat_eq_self)
  moreover have "take_bit 64 (unat x) = unat x" using unat_bound [of x] by (simp add: take_bit_nat_eq_self)
  ultimately show ?thesis
    unfolding unsigned_push_bit_eq unsigned_drop_bit_eq
    by (simp add: push_bit_eq_mult drop_bit_eq_div)
qed
lemma unat_chunk: "unat ((x :: u64) AND NOT (of_nat FRAME_SIZE - 1)) = unat x div FRAME_SIZE * FRAME_SIZE"
  unfolding mask12 and_not_mask_word unat_push_drop by simp

text \<open>
  What the batch loop relies on: an accepted descriptor lies inside one chunk of the UMEM, whose
  base is the refill address.
\<close>

definition desc_ok :: "xdp_desc \<Rightarrow> u64 \<Rightarrow> u64 \<Rightarrow> bool" where
  "desc_ok d addr data \<longleftrightarrow>
     unat addr = unat data div FRAME_SIZE * FRAME_SIZE \<and> unat addr < UMEM_SIZE \<and>
     0 < unat (xd_len d) \<and> unat data + unat (xd_len d) \<le> unat addr + FRAME_SIZE"

lemma validate_rx_descriptor_ok:
  assumes "validate_rx_descriptor ea ao d = Inr (addr, data)"
  shows "desc_ok d addr data"
proof -
  define base where "base = ea (xd_addr d)"
  have a: "addr = base AND NOT (of_nat FRAME_SIZE - 1)" and dt: "data = ao (xd_addr d)"
    and b: "\<not> base \<ge> of_nat UMEM_SIZE" "\<not> data \<ge> of_nat UMEM_SIZE" "xd_len d \<noteq> 0"
    and c: "\<not> data < addr" "\<not> data \<ge> addr + of_nat FRAME_SIZE"
      "\<not> ucast (xd_len d) > addr + of_nat FRAME_SIZE - data"
    using assms by (auto simp: validate_rx_descriptor_def Let_def base_def split: if_splits)
  have ua: "unat addr = unat base div FRAME_SIZE * FRAME_SIZE" unfolding a by (rule unat_chunk)
  have ub: "unat base < UMEM_SIZE" "unat data < UMEM_SIZE"
    using b(1,2) by (simp_all add: word_le_nat_alt)
  have l1: "unat addr \<le> unat base" unfolding ua by (rule div_times_less_eq_dividend)
  have ue: "unat (addr + of_nat FRAME_SIZE) = unat addr + FRAME_SIZE"
    using l1 ub by (subst unat_add_lem [THEN iffD1]) simp_all
  have d1: "unat addr \<le> unat data" "unat data < unat addr + FRAME_SIZE"
    using c(1,2) ue by (simp_all add: word_le_nat_alt word_less_nat_alt not_le not_less)
  have "data \<le> addr + of_nat FRAME_SIZE" using d1 ue by (simp add: word_le_nat_alt)
  then have "unat (addr + of_nat FRAME_SIZE - data) = unat addr + FRAME_SIZE - unat data"
    using ue by (simp add: unat_sub)
  moreover have "unat (ucast (xd_len d) :: u64) = unat (xd_len d)" by simp
  ultimately have d2: "unat (xd_len d) \<le> unat addr + FRAME_SIZE - unat data"
    using c(3) by (simp only: word_less_nat_alt not_less)
  have "unat data div FRAME_SIZE = unat base div FRAME_SIZE"
    using d1 ua by (intro div_nat_eqI) auto
  moreover have "0 < unat (xd_len d)" using b(3) by (simp add: unat_gt_0)
  ultimately show ?thesis using d1 d2 l1 ub ua by (simp add: desc_ok_def)
qed

lemma desc_ok_frame:
  assumes "desc_ok d addr data"
  shows "frame_of addr = unat data div FRAME_SIZE" "frame_of addr < NUM_FRAMES"
    "unat data + unat (xd_len d) \<le> UMEM_SIZE"
proof -
  have a: "unat addr = unat data div FRAME_SIZE * FRAME_SIZE" "unat addr < UMEM_SIZE"
    using assms by (simp_all add: desc_ok_def)
  have q: "unat data div FRAME_SIZE < NUM_FRAMES" using a by linarith
  have "unat (addr div of_nat FRAME_SIZE) = unat data div FRAME_SIZE"
    using a by (simp add: unat_div)
  then show f: "frame_of addr = unat data div FRAME_SIZE"
    using q by (simp add: frame_of_def unsigned_ucast_eq take_bit_nat_eq_self)
  show "frame_of addr < NUM_FRAMES" using f q by simp
  show "unat data + unat (xd_len d) \<le> UMEM_SIZE"
    using assms q a by (simp add: desc_ok_def)
qed

section \<open>Frame ownership\<close>

text \<open>\<open>held u0 fs u\<close>: \<open>u\<close> is \<open>u0\<close> with the frames \<open>fs\<close> claimed from the kernel.\<close>

definition held :: "umem_info \<Rightarrow> nat list \<Rightarrow> umem_info \<Rightarrow> bool" where
  "held u0 fs u \<longleftrightarrow>
     u = u0\<lparr>um_frame_in_kernel := (\<lambda>f. um_frame_in_kernel u0 f \<and> f \<notin> set fs),
            um_userspace_owned_frames := um_userspace_owned_frames u0 + of_nat (length fs)\<rparr> \<and>
     distinct fs \<and> (\<forall>f \<in> set fs. um_frame_in_kernel u0 f)"

lemma held_Nil [simp]: "held u0 [] u \<longleftrightarrow> u = u0"
  by (simp add: held_def)

lemma held_take: "held u0 fs u \<Longrightarrow> um_frame_in_kernel u f \<Longrightarrow> held u0 (fs @ [f]) (take_frame u f)"
  by (auto simp: held_def take_frame_def algebra_simps fun_eq_iff)

lemma held_give: "held u0 (f # fs) u \<Longrightarrow> held u0 fs (give_frame u f)"
  by (auto simp: held_def give_frame_def algebra_simps fun_eq_iff)

lemma held_buffer: "held u0 fs u \<Longrightarrow> held (u0\<lparr>um_buffer := b\<rparr>) fs (u\<lparr>um_buffer := b\<rparr>)"
  by (auto simp: held_def)

abbreviation frames_of :: "(u64 \<times> u64) list \<Rightarrow> nat list" where
  "frames_of as \<equiv> map (\<lambda>a. frame_of (fst a)) as"

lemma give_back_held: "held u0 (frames_of as) u \<Longrightarrow> give_back u as = u0"
  by (induction as arbitrary: u) (auto intro: held_give)

lemma claim_batch_outcome:
  assumes "held u0 (frames_of claimed) u" "claim_batch validate ds claimed u c = (r, u', c')"
  shows "(\<exists>e. r = Inl e \<and> u' = u0 \<and>
            (c' = c \<or> e = EUCLEAN \<and> c' = c\<lparr>umem_invariant_errors := umem_invariant_errors c + 1\<rparr>)) \<or>
         (\<exists>as. r = Inr (claimed @ as) \<and> held u0 (frames_of (claimed @ as)) u' \<and> c' = c \<and>
            list_all2 (\<lambda>d a. validate d = Inr a) ds as)"
  using assms
proof (induction ds arbitrary: claimed u)
  case Nil
  then show ?case by auto
next
  case (Cons d ds)
  show ?case
  proof (cases "validate d")
    case (Inl e)
    with Cons show ?thesis by (auto simp: give_back_held)
  next
    case (Inr a)
    show ?thesis
    proof (cases "frame_of (fst a) \<ge> NUM_FRAMES \<or> \<not> um_frame_in_kernel u (frame_of (fst a))")
      case True
      with Inr Cons show ?thesis by (cases a) (auto simp: give_back_held)
    next
      case False
      with Cons(3) Inr have c1: "claim_batch validate ds (claimed @ [a]) (take_frame u (frame_of (fst a))) c = (r, u', c')"
        by (cases a) auto
      have h1: "held u0 (frames_of (claimed @ [a])) (take_frame u (frame_of (fst a)))"
        using held_take [OF Cons(2)] False by simp
      consider e where "r = Inl e" "u' = u0"
          "c' = c \<or> e = EUCLEAN \<and> c' = c\<lparr>umem_invariant_errors := umem_invariant_errors c + 1\<rparr>"
        | as where "r = Inr (claimed @ a # as)" "held u0 (frames_of (claimed @ a # as)) u'" "c' = c"
          "list_all2 (\<lambda>d a. validate d = Inr a) ds as"
        using Cons.IH [OF h1 c1] by auto
      then show ?thesis
      proof cases
        case 2
        with Inr show ?thesis by (intro disjI2 exI [of _ "a # as"]) simp
      qed auto
    qed
  qed
qed

section \<open>Chunks\<close>

definition chunk :: "byte list \<Rightarrow> nat \<Rightarrow> byte list" where
  "chunk b f = sub_bytes b (f * FRAME_SIZE) FRAME_SIZE"

lemma sub_bytes_chunk:
  assumes "f * FRAME_SIZE \<le> off" "off + n \<le> f * FRAME_SIZE + FRAME_SIZE"
  shows "sub_bytes b off n = sub_bytes (chunk b f) (off - f * FRAME_SIZE) n"
  using assms by (simp add: chunk_def sub_bytes_sub_bytes)

lemma sub_bytes_store_other:
  assumes "off + length x \<le> length b" "k + n \<le> off \<or> off + length x \<le> k"
  shows "sub_bytes (take off b @ x @ drop (off + length x) b) k n = sub_bytes b k n"
  using assms(2)
proof
  assume "k + n \<le> off"
  then show ?thesis
    using assms(1) by (simp add: sub_bytes_append_left) (simp add: sub_bytes_def drop_take min_def)
next
  assume "off + length x \<le> k"
  then show ?thesis using assms(1) by (simp add: sub_bytes_def min_def)
qed

lemma meta_location_Some:
  assumes "meta_location data = Some n"
  shows "unat data div FRAME_SIZE * FRAME_SIZE \<le> n" "n + 56 = unat data" "n + 56 \<le> UMEM_SIZE"
proof -
  have a: "\<not> data < 56" "\<not> data - 56 < data AND NOT (of_nat FRAME_SIZE - 1)"
    "\<not> data - 56 > of_nat UMEM_SIZE - 56" "n = unat (data - 56)"
    using assms by (auto simp: meta_location_def Let_def split: if_splits)
  have s: "unat (data - 56) = unat data - 56" using a(1) by (simp add: unat_sub word_le_nat_alt word_less_nat_alt)
  have "unat (data AND NOT (of_nat FRAME_SIZE - 1)) \<le> unat (data - 56)"
    using a(2) by (simp only: word_less_nat_alt not_less)
  then show "unat data div FRAME_SIZE * FRAME_SIZE \<le> n" by (simp only: unat_chunk a(4))
  show "n + 56 = unat data" using a(1,4) s by (simp add: word_less_nat_alt)
  have "unat (data - 56) \<le> unat (of_nat UMEM_SIZE - 56 :: u64)"
    using a(3) by (simp only: word_less_nat_alt not_less)
  then show "n + 56 \<le> UMEM_SIZE" using a(4) by simp
qed

lemma clear_xdp_metadata_effect:
  assumes "length (um_buffer u) = UMEM_SIZE"
  obtains b where "clear_xdp_metadata u data = Some (u\<lparr>um_buffer := b\<rparr>)" "length b = UMEM_SIZE"
    "\<And>f. f \<noteq> unat data div FRAME_SIZE \<Longrightarrow> chunk b f = chunk (um_buffer u) f"
    "\<And>n. meta_location data = Some n \<Longrightarrow> sub_bytes b n 56 = replicate 56 0"
proof (cases "meta_location data")
  case None
  then show ?thesis using assms by (intro that [of "um_buffer u"]) (simp_all add: clear_xdp_metadata_def)
next
  case (Some n)
  note loc = meta_location_Some [OF Some]
  let ?z = "replicate 56 0 :: byte list"
  let ?b = "take n (um_buffer u) @ ?z @ drop (n + 56) (um_buffer u)"
  show ?thesis
  proof (rule that [of ?b])
    show "clear_xdp_metadata u data = Some (u\<lparr>um_buffer := ?b\<rparr>)"
      using Some loc assms by (simp add: clear_xdp_metadata_def load_defs)
    show "length ?b = UMEM_SIZE" using loc assms by simp
    show "chunk ?b f = chunk (um_buffer u) f" if "f \<noteq> unat data div FRAME_SIZE" for f
    proof -
      have "f < unat data div FRAME_SIZE \<or> f \<ge> unat data div FRAME_SIZE + 1" using that by linarith
      then have "f * FRAME_SIZE + FRAME_SIZE \<le> n \<or> n + 56 \<le> f * FRAME_SIZE"
        using loc(1,2) by (elim disjE; linarith)
      then show ?thesis
        using loc assms sub_bytes_store_other [of n ?z "um_buffer u" "f * FRAME_SIZE" FRAME_SIZE]
        by (simp add: chunk_def)
    qed
    show "sub_bytes ?b m 56 = replicate 56 0" if "meta_location data = Some m" for m
      using that Some loc assms by (simp add: sub_bytes_def)
  qed
qed

section \<open>Recording a batch, without recycling\<close>

text \<open>
  The specification of a batch: every packet is recorded from the UMEM as it was when the batch
  was received.
\<close>

fun observe_batch ::
  "u32 \<Rightarrow> nat \<Rightarrow> (nat \<Rightarrow> errno + (timespec \<times> timespec)) \<Rightarrow> nat \<Rightarrow> (xdp_desc \<times> u64 \<times> u64) list \<Rightarrow>
     rx_state \<Rightarrow> errno option \<Rightarrow> (rx_state \<times> errno option) option" where
  "observe_batch queue_id cap clocks i [] st e = Some (st, e)"
| "observe_batch queue_id cap clocks i ((desc, a) # rest) st e =
   do {
     (st, e) \<leftarrow> record_packet queue_id cap (clocks i) desc (snd a) st e;
     observe_batch queue_id cap clocks (i + 1) rest st e
   }"

text \<open>The same state over another UMEM and with \<open>n\<close> frames recycled.\<close>

definition patch :: "umem_info \<Rightarrow> u64 \<Rightarrow> rx_state \<Rightarrow> rx_state" where
  "patch u n st = st\<lparr>rs_umem := u, rs_count := (rs_count st)\<lparr>recycled_frames := n\<rparr>\<rparr>"

definition same_chunk :: "umem_info \<Rightarrow> umem_info \<Rightarrow> u64 \<Rightarrow> bool" where
  "same_chunk u v data \<longleftrightarrow>
     length (um_buffer u) = UMEM_SIZE \<and> length (um_buffer v) = UMEM_SIZE \<and>
     chunk (um_buffer u) (unat data div FRAME_SIZE) = chunk (um_buffer v) (unat data div FRAME_SIZE)"

lemma same_chunk_meta:
  assumes "same_chunk u v data" "meta_location data = Some n"
  shows "ld_bytes (um_buffer u) n 56 = ld_bytes (um_buffer v) n 56"
proof -
  note loc = meta_location_Some [OF assms(2)]
  have "unat data < unat data div FRAME_SIZE * FRAME_SIZE + FRAME_SIZE" using dividend_less_div_times [of FRAME_SIZE "unat data"] by simp
  then have "sub_bytes (um_buffer u) n 56 = sub_bytes (um_buffer v) n 56"
    using loc assms(1) by (simp add: same_chunk_def sub_bytes_chunk [of "unat data div FRAME_SIZE" n 56])
  then show ?thesis using loc assms(1) by (simp add: load_defs same_chunk_def)
qed

lemma same_chunk_packet:
  assumes "same_chunk u v data" "desc_ok d addr data"
  shows "ld_bytes (um_buffer u) (unat data) (unat (xd_len d)) = ld_bytes (um_buffer v) (unat data) (unat (xd_len d))"
proof -
  have "sub_bytes (um_buffer u) (unat data) (unat (xd_len d)) = sub_bytes (um_buffer v) (unat data) (unat (xd_len d))"
    using assms by (simp add: same_chunk_def desc_ok_def
        sub_bytes_chunk [of "unat data div FRAME_SIZE" "unat data" "unat (xd_len d)"])
  then show ?thesis
    using desc_ok_frame(3) [OF assms(2)] assms(1) by (simp add: load_defs same_chunk_def)
qed

lemma read_xdp_metadata_patch:
  assumes "same_chunk u v data"
  shows "read_xdp_metadata u data flow sq r (c\<lparr>recycled_frames := n\<rparr>) =
    map_option (\<lambda>(r, c). (r, c\<lparr>recycled_frames := n\<rparr>)) (read_xdp_metadata v data flow sq r c)"
  using same_chunk_meta [OF assms]
  by (cases "meta_location data"; cases "ld_bytes (um_buffer v) (the (meta_location data)) 56")
    (auto simp: read_xdp_metadata_def count_meta_invalid_def Let_def)

lemma record_packet_patch:
  assumes "same_chunk u (rs_umem st) data" "desc_ok d addr data"
  shows "record_packet q cap cl d data (patch u n st) e =
    map_option (\<lambda>(st, e). (patch u n st, e)) (record_packet q cap cl d data st e)"
proof (cases "capture_user_timestamps cl")
  case (Inl e')
  then show ?thesis by (simp add: record_packet_def patch_def Let_def)
next
  case (Inr ts)
  obtain m r where ts: "ts = (m, r)" by (cases ts)
  let ?p = "sub_bytes (um_buffer (rs_umem st)) (unat data) (unat (xd_len d))"
  have ld: "ld_bytes (um_buffer (rs_umem st)) (unat data) (unat (xd_len d)) = Some ?p"
    using desc_ok_frame(3) [OF assms(2)] assms(1) by (simp add: load_defs same_chunk_def)
  note ld' = same_chunk_packet [OF assms]
  have rd: "read_xdp_metadata u data f s rc (c\<lparr>recycled_frames := n, received_packets := x,
        received_udp_packets := y, received_experiment_packets := z\<rparr>) =
      map_option (\<lambda>(r, c). (r, c\<lparr>recycled_frames := n\<rparr>)) (read_xdp_metadata (rs_umem st) data f s rc
        (c\<lparr>received_packets := x, received_udp_packets := y, received_experiment_packets := z\<rparr>))"
    for f s rc c x y z
    using read_xdp_metadata_patch [OF assms(1), where flow = f and sq = s and r = rc and n = n
        and c = "c\<lparr>received_packets := x, received_udp_packets := y, received_experiment_packets := z\<rparr>"] by (cases c) simp
  show ?thesis
    unfolding record_packet_def Let_def Inr ts patch_def
    by (auto simp: ld ld' rd split: option.splits bind_splits)
qed

lemma read_xdp_metadata_total:
  assumes "length (um_buffer u) = UMEM_SIZE"
  shows "\<exists>r' c'. read_xdp_metadata u data flow sq r c = Some (r', c')"
proof (cases "meta_location data")
  case None
  then show ?thesis by (simp add: read_xdp_metadata_def)
next
  case (Some n)
  with meta_location_Some [OF Some] assms show ?thesis
    by (simp add: read_xdp_metadata_def load_defs Let_def)
qed

lemma record_packet_total:
  assumes buf: "length (um_buffer (rs_umem st)) = UMEM_SIZE" and ok: "desc_ok d addr data"
  shows "\<exists>st' e'. record_packet q cap cl d data st e = Some (st', e') \<and> rs_umem st' = rs_umem st \<and>
    (rs_records st' = rs_records st \<or>
     (\<exists>r. rs_records st' = rs_records st @ [r] \<and> length (rs_records st) < cap))"
proof (cases "capture_user_timestamps cl")
  case (Inl e')
  then show ?thesis by (simp add: record_packet_def Let_def)
next
  case (Inr ts)
  obtain m r where ts: "ts = (m, r)" by (cases ts)
  let ?p = "sub_bytes (um_buffer (rs_umem st)) (unat data) (unat (xd_len d))"
  have ld: "ld_bytes (um_buffer (rs_umem st)) (unat data) (unat (xd_len d)) = Some ?p"
    using desc_ok_frame(3) [OF ok] buf by (simp add: load_defs)
  show ?thesis
  proof (cases "udp_view ?p")
    case None
    then show ?thesis by (simp add: record_packet_def Let_def Inr ts ld packet_udp_info_view)
  next
    case (Some v)
    obtain port b where v: "udp_view ?p = Some (port, b)" using Some by (cases v) simp
    obtain r' c' where rd: "read_xdp_metadata (rs_umem st) data flow sq r0 c0 = Some (r' flow sq r0 c0, c' flow sq r0 c0)"
      for flow sq r0 c0 using read_xdp_metadata_total [OF buf] by metis
    show ?thesis
      using experiment_packet_id_view [OF v]
      by (auto simp: record_packet_def Let_def Inr ts ld packet_udp_info_view v rd)
  qed
qed

lemma recycle_frame_patch:
  assumes h: "held u0 (frame_of (fst a) # fs) u" and z: "um_userspace_owned_frames u0 = 0"
    and n: "length fs < 64" and buf: "length (um_buffer u) = UMEM_SIZE"
    and ok: "desc_ok d (fst a) (snd a)"
  obtains b u' where "recycle_frame a (patch u n t) e = Some (patch u' (n + 1) t, e)"
    "held (u0\<lparr>um_buffer := b\<rparr>) fs u'" "um_buffer u' = b" "length b = UMEM_SIZE"
    "\<And>f. f \<noteq> frame_of (fst a) \<Longrightarrow> chunk b f = chunk (um_buffer u) f"
proof -
  obtain b where b: "clear_xdp_metadata u (snd a) = Some (u\<lparr>um_buffer := b\<rparr>)" "length b = UMEM_SIZE"
    "\<And>f. f \<noteq> unat (snd a) div FRAME_SIZE \<Longrightarrow> chunk b f = chunk (um_buffer u) f"
    using clear_xdp_metadata_effect [OF buf, of "snd a"] by metis
  let ?u' = "give_frame (u\<lparr>um_buffer := b\<rparr>) (frame_of (fst a))"
  have "of_nat (Suc (length fs)) \<noteq> (0 :: u32)" using n by (subst word_zero_of_nat) simp_all
  then have own: "um_userspace_owned_frames u \<noteq> 0" "\<not> um_frame_in_kernel u (frame_of (fst a))"
    using h z by (auto simp: held_def)
  show ?thesis
  proof (rule that [of ?u' b])
    show "recycle_frame a (patch u n t) e = Some (patch ?u' (n + 1) t, e)"
      using own by (simp add: recycle_frame_def b(1) patch_def Let_def)
    show "held (u0\<lparr>um_buffer := b\<rparr>) fs ?u'" by (rule held_give [OF held_buffer [OF h]])
  qed (use b desc_ok_frame(1) [OF ok] in \<open>simp_all add: give_frame_def\<close>)
qed

lemma list_all2_right: "list_all2 P xs ys \<Longrightarrow> y \<in> set ys \<Longrightarrow> \<exists>x. P x y"
  by (induction rule: list_all2_induct) auto

lemma process_batch_refines:
  assumes "list_all2 (\<lambda>d a. desc_ok d (fst a) (snd a)) ds as" "held u0 (frames_of as) u"
    "um_userspace_owned_frames u0 = 0" "length as \<le> 64" "length (um_buffer u) = UMEM_SIZE"
    "length (um_buffer (rs_umem t)) = UMEM_SIZE"
    "\<And>a. a \<in> set as \<Longrightarrow> same_chunk u (rs_umem t) (snd a)"
  shows "\<exists>b t' e'. length b = UMEM_SIZE \<and> observe_batch q cap cl i (zip ds as) t e = Some (t', e') \<and>
    process_batch q cap cl i (zip ds as) (patch u n t) e =
      Some (patch (u0\<lparr>um_buffer := b\<rparr>) (n + of_nat (length as)) t', e')"
  using assms
proof (induction ds as arbitrary: u0 u i t e n rule: list_all2_induct)
  case Nil
  then show ?case by (intro exI [of _ "um_buffer u"]) simp
next
  case (Cons d ds a as)
  have same: "same_chunk u (rs_umem t) (snd a)" using Cons.prems by simp
  obtain t1 e1 where r: "record_packet q cap (cl i) d (snd a) t e = Some (t1, e1)" "rs_umem t1 = rs_umem t"
    using record_packet_total [OF Cons.prems(5) Cons.hyps(1), of q cap "cl i" e] by blast
  have p: "record_packet q cap (cl i) d (snd a) (patch u n t) e = Some (patch u n t1, e1)"
    using record_packet_patch [OF same Cons.hyps(1)] r by simp
  have h: "held u0 (frame_of (fst a) # frames_of as) u" and l: "length (frames_of as) < 64"
    using Cons.prems by simp_all
  obtain b u' where g: "recycle_frame a (patch u n t1) e1 = Some (patch u' (n + 1) t1, e1)"
    "held (u0\<lparr>um_buffer := b\<rparr>) (frames_of as) u'" "um_buffer u' = b" "length b = UMEM_SIZE"
    "\<And>f. f \<noteq> frame_of (fst a) \<Longrightarrow> chunk b f = chunk (um_buffer u) f"
    by (rule recycle_frame_patch [OF h Cons.prems(2) l Cons.prems(4) Cons.hyps(1), where n = n and t = t1 and e = e1]) blast
  have dist: "frame_of (fst a) \<notin> set (frames_of as)" using Cons.prems(1) by (simp add: held_def)
  have "same_chunk u' (rs_umem t1) (snd c)" if c: "c \<in> set as" for c
  proof -
    obtain d' where "desc_ok d' (fst c) (snd c)"
      using list_all2_right [OF Cons.hyps(2) c] by blast
    then have "frame_of (fst c) = unat (snd c) div FRAME_SIZE" by (rule desc_ok_frame(1))
    moreover have "frame_of (fst c) \<noteq> frame_of (fst a)" using dist c by (metis (no_types, lifting) image_eqI list.set_map)
    ultimately show ?thesis using Cons.prems(6) [of c] c g(3-5) r(2) by (simp add: same_chunk_def)
  qed
  with Cons.IH [of "u0\<lparr>um_buffer := b\<rparr>" u' t1 "i + 1" e1 "n + 1"] g(2-4) Cons.prems r
  obtain b' t' e' where "length b' = UMEM_SIZE"
    "observe_batch q cap cl (i + 1) (zip ds as) t1 e1 = Some (t', e')"
    "process_batch q cap cl (i + 1) (zip ds as) (patch u' (n + 1) t1) e1 =
      Some (patch (u0\<lparr>um_buffer := b'\<rparr>) (n + 1 + of_nat (length as)) t', e')"
    by auto
  then show ?case using p g(1) r by (intro exI [of _ b'] exI [of _ t'] exI [of _ e']) (simp add: add.assoc)
qed

section \<open>The batch, for any validator that keeps the chunk contract\<close>

locale rx_validator =
  fixes validate :: "xdp_desc \<Rightarrow> errno + (u64 \<times> u64)"
  assumes validate_ok: "validate d = Inr (addr, data) \<Longrightarrow> desc_ok d addr data"
begin

lemma receive_batch_outcome:
  assumes own: "um_userspace_owned_frames (rs_umem st) = 0"
    and buf: "length (um_buffer (rs_umem st)) = UMEM_SIZE"
  obtains (idle) "take RX_BATCH_SIZE available = []"
      "receive_batch validate q cap available reserved clocks st =
         Some \<lparr>br_value = Inr 0, br_released = 0, br_fill = [], br_state = st\<rparr>"
  | (cancelled) e c where "receive_batch validate q cap available reserved clocks st =
         Some \<lparr>br_value = Inl e, br_released = 0, br_fill = [], br_state = st\<lparr>rs_count := c\<rparr>\<rparr>"
      "c = rs_count st \<or> e = EUCLEAN \<and>
         c = (rs_count st)\<lparr>umem_invariant_errors := umem_invariant_errors (rs_count st) + 1\<rparr>"
  | (consumed) as b t e where "reserved"
      "list_all2 (\<lambda>d a. validate d = Inr a) (take RX_BATCH_SIZE available) as"
      "distinct (frames_of as)" "\<And>a. a \<in> set as \<Longrightarrow> um_frame_in_kernel (rs_umem st) (frame_of (fst a))"
      "observe_batch q cap clocks 0 (zip (take RX_BATCH_SIZE available) as) st None = Some (t, e)"
      "length b = UMEM_SIZE"
      "receive_batch validate q cap available reserved clocks st =
         Some \<lparr>br_value = (case e of Some e \<Rightarrow> Inl e | None \<Rightarrow> Inr (length as)),
               br_released = length as, br_fill = map fst as,
               br_state = patch ((rs_umem st)\<lparr>um_buffer := b\<rparr>)
                 (recycled_frames (rs_count st) + of_nat (length as)) t\<rparr>"
proof (cases "take RX_BATCH_SIZE available = []")
  case True
  then show ?thesis by (intro idle) (simp_all add: receive_batch_def Let_def)
next
  case False
  let ?ds = "take RX_BATCH_SIZE available"
  obtain r u c where cl: "claim_batch validate ?ds [] (rs_umem st) (rs_count st) = (r, u, c)"
    by (cases "claim_batch validate ?ds [] (rs_umem st) (rs_count st)") auto
  from claim_batch_outcome [OF _ cl, of "rs_umem st"]
  consider (err) e where "r = Inl e" "u = rs_umem st" "c = rs_count st \<or> e = EUCLEAN \<and>
       c = (rs_count st)\<lparr>umem_invariant_errors := umem_invariant_errors (rs_count st) + 1\<rparr>"
    | (ok) as where "r = Inr as" "held (rs_umem st) (frames_of as) u" "c = rs_count st"
       "list_all2 (\<lambda>d a. validate d = Inr a) ?ds as"
    by auto
  then show ?thesis
  proof cases
    case err
    then show ?thesis using False cl
      by (intro cancelled [of e c]) (simp_all add: receive_batch_def Let_def)
  next
    case ok
    show ?thesis
    proof (cases reserved)
      case False
      then show ?thesis using \<open>?ds \<noteq> []\<close> cl ok give_back_held [OF ok(2)]
        by (intro cancelled [of ENOSPC c]) (simp_all add: receive_batch_def Let_def)
    next
      case True
      have len: "length as = length ?ds" using list_all2_lengthD [OF ok(4)] by (rule sym)
      have l2: "list_all2 (\<lambda>d a. desc_ok d (fst a) (snd a)) ?ds as"
        using ok(4) by (rule list.rel_mono_strong) (auto intro: validate_ok)
      have ub: "um_buffer u = um_buffer (rs_umem st)" using ok(2) by (simp add: held_def)
      obtain b t e where pb: "length b = UMEM_SIZE" "observe_batch q cap clocks 0 (zip ?ds as) st None = Some (t, e)"
        "process_batch q cap clocks 0 (zip ?ds as) (patch u (recycled_frames (rs_count st)) st) None =
          Some (patch ((rs_umem st)\<lparr>um_buffer := b\<rparr>) (recycled_frames (rs_count st) + of_nat (length as)) t, e)"
        using process_batch_refines [OF l2 ok(2) own, of st q cap clocks 0 None "recycled_frames (rs_count st)"]
          len buf ub by (auto simp: same_chunk_def)
      have st: "st\<lparr>rs_umem := u\<rparr> = patch u (recycled_frames (rs_count st)) st"
        by (simp add: patch_def)
      show ?thesis
      proof (rule consumed [OF True ok(4) _ _ pb(2,1)])
        show "distinct (frames_of as)" using ok(2) by (simp add: held_def)
        show "um_frame_in_kernel (rs_umem st) (frame_of (fst a))" if "a \<in> set as" for a
          using ok(2) that by (auto simp: held_def)
        show "receive_batch validate q cap available reserved clocks st =
         Some \<lparr>br_value = (case e of Some e \<Rightarrow> Inl e | None \<Rightarrow> Inr (length as)),
               br_released = length as, br_fill = map fst as,
               br_state = patch ((rs_umem st)\<lparr>um_buffer := b\<rparr>)
                 (recycled_frames (rs_count st) + of_nat (length as)) t\<rparr>"
          using \<open>?ds \<noteq> []\<close> cl ok(1,3) True pb(3) own len
          by (simp add: receive_batch_def Let_def st) (simp add: patch_def split: option.split)
      qed
    qed
  qed
qed

end

interpretation rx: rx_validator "validate_rx_descriptor ea ao" for ea and ao
  by unfold_locales (rule validate_rx_descriptor_ok)

section \<open>Metadata\<close>

lemma rx_meta_zero: "rm_magic (rx_meta_of (replicate 56 0)) = 0"
  by (simp add: rx_meta_of_def sub_bytes_def le32_def numeral_eq_Suc)

section \<open>Records of a batch\<close>

lemma observe_batch_records:
  assumes "list_all2 (\<lambda>d a. desc_ok d (fst a) (snd a)) ds as" "length (um_buffer (rs_umem t)) = UMEM_SIZE"
    "observe_batch q cap cl i (zip ds as) t e = Some (t', e')"
  shows "\<exists>new. rs_records t' = rs_records t @ new \<and> length new \<le> length as \<and>
    (new = [] \<or> length (rs_records t') \<le> cap) \<and> rs_umem t' = rs_umem t"
  using assms
proof (induction ds as arbitrary: i t e rule: list_all2_induct)
  case (Cons d ds a as)
  obtain t1 e1 where r: "record_packet q cap (cl i) d (snd a) t e = Some (t1, e1)" "rs_umem t1 = rs_umem t"
    "rs_records t1 = rs_records t \<or> (\<exists>r. rs_records t1 = rs_records t @ [r] \<and> length (rs_records t) < cap)"
    using record_packet_total [OF Cons.prems(1) Cons.hyps(1), of q cap "cl i" e] by blast
  then obtain new where "rs_records t' = rs_records t1 @ new" "length new \<le> length as"
    "new = [] \<or> length (rs_records t') \<le> cap" "rs_umem t' = rs_umem t1"
    using Cons.IH [of t1 "i + 1" e1] Cons.prems by auto
  then show ?case using r(2,3) by (cases "rs_records t1 = rs_records t") auto
qed simp

section \<open>Properties\<close>

text \<open>
  An accepted RX descriptor lies inside one aligned 4096-byte chunk of the UMEM,
  whatever address decoding libxdp performs: the refill address is the base of that chunk, the
  frame number is below 4096, and reading the packet stays inside the UMEM.
\<close>

theorem validate_rx_descriptor_in_chunk:
  assumes "validate_rx_descriptor extract_addr add_offset d = Inr (addr, data)"
  shows "unat addr = frame_of addr * FRAME_SIZE \<and> frame_of addr < NUM_FRAMES \<and> unat addr \<le> unat data \<and>
    unat data + unat (xd_len d) \<le> unat addr + FRAME_SIZE \<and> unat addr + FRAME_SIZE \<le> UMEM_SIZE \<and>
    xd_options d = 0 \<and> xd_len d \<noteq> 0"
proof -
  note ok = validate_rx_descriptor_ok [OF assms]
  have "xd_options d = 0" "xd_len d \<noteq> 0"
    using assms by (auto simp: validate_rx_descriptor_def Let_def split: if_splits)
  then show ?thesis
    using ok desc_ok_frame [OF ok] by (auto simp: desc_ok_def)
qed

theorem validate_rx_descriptor_in_chunk_witness:
  "validate_rx_descriptor (\<lambda>a. a) (\<lambda>a. a) \<lparr>xd_addr = 8448, xd_len = 77, xd_options = 0\<rparr> = Inr (8192, 8448) \<and>
   frame_of 8192 < NUM_FRAMES"
proof -
  have v: "validate_rx_descriptor (\<lambda>a. a) (\<lambda>a. a) \<lparr>xd_addr = 8448, xd_len = 77, xd_options = 0\<rparr> = Inr (8192, 8448)"
    by (simp add: validate_rx_descriptor_def)
  with validate_rx_descriptor_in_chunk [OF v] show ?thesis by simp
qed

text \<open>
  Property C2.  UMEM ownership across a batch: starting with no frame held by user space, every
  outcome of \<open>receive_batch\<close> (an error, a cancelled batch, a consumed batch) makes no access
  outside the UMEM, leaves the same frames with the kernel and none with user space, and submits
  one refill per released descriptor, each the base of a distinct frame the kernel owned.  No
  frame is lost or handed back twice.
\<close>

theorem receive_batch_keeps_ownership:
  assumes "um_userspace_owned_frames (rs_umem st) = 0" "length (um_buffer (rs_umem st)) = UMEM_SIZE"
  shows "\<exists>r. receive_batch (validate_rx_descriptor ea ao) q cap available reserved clocks st = Some r \<and>
    um_frame_in_kernel (rs_umem (br_state r)) = um_frame_in_kernel (rs_umem st) \<and>
    um_userspace_owned_frames (rs_umem (br_state r)) = 0 \<and>
    length (um_buffer (rs_umem (br_state r))) = UMEM_SIZE \<and>
    br_released r = length (br_fill r) \<and> distinct (map frame_of (br_fill r)) \<and>
    (\<forall>a \<in> set (br_fill r). unat a = frame_of a * FRAME_SIZE \<and> frame_of a < NUM_FRAMES \<and>
       um_frame_in_kernel (rs_umem st) (frame_of a))"
  using assms
proof (cases rule: rx.receive_batch_outcome [where ea = ea and ao = ao and q = q and cap = cap and available = available
      and reserved = reserved and clocks = clocks])
  case (consumed as b t e)
  have "unat (fst a) = frame_of (fst a) * FRAME_SIZE \<and> frame_of (fst a) < NUM_FRAMES" if a: "a \<in> set as" for a
  proof -
    obtain d where "validate_rx_descriptor ea ao d = Inr a" using list_all2_right [OF consumed(2) a] by blast
    then have ok: "desc_ok d (fst a) (snd a)" using validate_rx_descriptor_ok by (cases a) simp
    from desc_ok_frame [OF ok] ok show ?thesis by (simp add: desc_ok_def)
  qed
  with consumed assms show ?thesis by (auto simp: patch_def comp_def)
qed (use assms in auto)

definition sample_rx_state :: rx_state where
  "sample_rx_state =
     \<lparr>rs_umem = \<lparr>um_buffer = replicate UMEM_SIZE 0, um_frame_in_kernel = (\<lambda>f. f < NUM_FRAMES),
                 um_userspace_owned_frames = 0\<rparr>,
      rs_count = \<lparr>received_packets = 0, received_udp_packets = 0, received_experiment_packets = 0,
                  malformed_packets = 0, unexpected_port_packets = 0, metadata_invalid_packets = 0,
                  record_overflow_packets = 0, recycled_frames = 0, umem_invariant_errors = 0\<rparr>,
      rs_records = []\<rparr>"

definition sample_clocks :: "nat \<Rightarrow> errno + (timespec \<times> timespec)" where
  "sample_clocks i = Inr (\<lparr>ts_sec = 1, ts_nsec = of_nat i\<rparr>, \<lparr>ts_sec = 2, ts_nsec = of_nat i\<rparr>)"

abbreviation sample_desc :: xdp_desc where
  "sample_desc \<equiv> \<lparr>xd_addr = 8448, xd_len = 77, xd_options = 0\<rparr>"

lemma sample_rx_ok:
  "um_userspace_owned_frames (rs_umem sample_rx_state) = 0"
  "length (um_buffer (rs_umem sample_rx_state)) = UMEM_SIZE"
  by (simp_all add: sample_rx_state_def)

lemma sample_receives:
  "\<exists>r. receive_batch (validate_rx_descriptor (\<lambda>a. a) (\<lambda>a. a)) 0 16 [sample_desc] reserved sample_clocks
     sample_rx_state = Some r"
  using sample_rx_ok
  by (cases rule: rx.receive_batch_outcome [where ea = "\<lambda>a. a" and ao = "\<lambda>a. a" and q = 0 and cap = 16
        and available = "[sample_desc]" and reserved = reserved and clocks = sample_clocks]) auto

theorem receive_batch_keeps_ownership_witness:
  "\<exists>r. receive_batch (validate_rx_descriptor (\<lambda>a. a) (\<lambda>a. a)) 0 16 [sample_desc] True sample_clocks sample_rx_state
       = Some r \<and>
     um_frame_in_kernel (rs_umem (br_state r)) 2 \<and> um_userspace_owned_frames (rs_umem (br_state r)) = 0"
proof -
  have "um_frame_in_kernel (rs_umem sample_rx_state) 2" by (simp add: sample_rx_state_def)
  then show ?thesis
    using receive_batch_keeps_ownership [OF sample_rx_ok, of "\<lambda>a. a" "\<lambda>a. a" 0 16 "[sample_desc]" True sample_clocks]
    by auto
qed

text \<open>
  Property C19.  Recycling is transparent: when a batch is consumed, counters, records and error
  are those of recording each packet in turn from the UMEM as it was received; clearing the
  metadata of one packet and handing its frame back never disturbs a later packet of the batch.
\<close>

theorem receive_batch_refines_observation:
  assumes "um_userspace_owned_frames (rs_umem st) = 0" "length (um_buffer (rs_umem st)) = UMEM_SIZE"
    and "receive_batch (validate_rx_descriptor ea ao) q cap available reserved clocks st = Some r"
    and "br_released r \<noteq> 0"
  shows "\<exists>as t e. list_all2 (\<lambda>d a. validate_rx_descriptor ea ao d = Inr a) (take RX_BATCH_SIZE available) as \<and>
    observe_batch q cap clocks 0 (zip (take RX_BATCH_SIZE available) as) st None = Some (t, e) \<and>
    rs_records (br_state r) = rs_records t \<and>
    rs_count (br_state r) = (rs_count t)\<lparr>recycled_frames :=
      recycled_frames (rs_count st) + of_nat (length (take RX_BATCH_SIZE available))\<rparr> \<and>
    br_value r = (case e of Some e \<Rightarrow> Inl e | None \<Rightarrow> Inr (length (take RX_BATCH_SIZE available)))"
  using assms(1,2)
proof (cases rule: rx.receive_batch_outcome [where ea = ea and ao = ao and q = q and cap = cap and available = available
      and reserved = reserved and clocks = clocks])
  case (consumed as b t e)
  have len: "length as = length (take RX_BATCH_SIZE available)"
    using list_all2_lengthD [OF consumed(2)] by (rule sym)
  show ?thesis
    by (rule exI [of _ as], rule exI [of _ t], rule exI [of _ e])
      (use consumed assms(3) len in \<open>auto simp: patch_def split: option.split\<close>)
qed (use assms in auto)

theorem receive_batch_refines_observation_witness:
  "\<exists>r as t e. receive_batch (validate_rx_descriptor (\<lambda>a. a) (\<lambda>a. a)) 0 16 [sample_desc] True sample_clocks
       sample_rx_state = Some r \<and>
     observe_batch 0 16 sample_clocks 0 (zip (take RX_BATCH_SIZE [sample_desc]) as) sample_rx_state None = Some (t, e) \<and>
     rs_records (br_state r) = rs_records t"
proof -
  let ?v = "validate_rx_descriptor (\<lambda>a. a) (\<lambda>a. a)"
  have v: "?v sample_desc = Inr (8192, 8448)" by (simp add: validate_rx_descriptor_def)
  have f: "frame_of 8192 = 2" by (simp add: frame_of_def)
  have c: "claim_batch ?v [sample_desc] [] (rs_umem sample_rx_state) (rs_count sample_rx_state) =
      (Inr [(8192, 8448)], take_frame (rs_umem sample_rx_state) 2, rs_count sample_rx_state)"
    by (simp add: v f sample_rx_state_def)
  have one: "br_released r = 1"
    if "receive_batch ?v 0 16 [sample_desc] True sample_clocks sample_rx_state = Some r" for r
    using that unfolding receive_batch_def Let_def
    by (simp add: c del: claim_batch.simps) (auto split: bind_splits prod.splits if_splits)
  obtain r where r: "receive_batch ?v 0 16 [sample_desc] True sample_clocks sample_rx_state = Some r"
    using sample_receives [of True] by blast
  have "br_released r \<noteq> 0" using one [OF r] by simp
  from receive_batch_refines_observation [OF sample_rx_ok r this] r show ?thesis by blast
qed

text \<open>
  Records survive: a batch only appends records, at most one per received packet,
  and never beyond the capacity of the record array.
\<close>

theorem receive_batch_appends_records:
  assumes "um_userspace_owned_frames (rs_umem st) = 0" "length (um_buffer (rs_umem st)) = UMEM_SIZE"
    and "receive_batch (validate_rx_descriptor ea ao) q cap available reserved clocks st = Some r"
  shows "\<exists>new. rs_records (br_state r) = rs_records st @ new \<and> length new \<le> br_released r \<and>
    (new = [] \<or> length (rs_records (br_state r)) \<le> cap)"
  using assms(1,2)
proof (cases rule: rx.receive_batch_outcome [where ea = ea and ao = ao and q = q and cap = cap and available = available
      and reserved = reserved and clocks = clocks])
  case (consumed as b t e)
  have "list_all2 (\<lambda>d a. desc_ok d (fst a) (snd a)) (take RX_BATCH_SIZE available) as"
    using consumed(2) by (rule list.rel_mono_strong) (auto intro: validate_rx_descriptor_ok)
  from observe_batch_records [OF this assms(2) consumed(5)] show ?thesis
    using consumed(7) assms(3) by (auto simp: patch_def)
qed (use assms in auto)

theorem receive_batch_appends_records_witness:
  "\<exists>r new. receive_batch (validate_rx_descriptor (\<lambda>a. a) (\<lambda>a. a)) 0 16 [sample_desc] False sample_clocks
       sample_rx_state = Some r \<and> rs_records (br_state r) = rs_records sample_rx_state @ new"
proof -
  obtain r where r: "receive_batch (validate_rx_descriptor (\<lambda>a. a) (\<lambda>a. a)) 0 16 [sample_desc] False sample_clocks
       sample_rx_state = Some r" using sample_receives by blast
  with receive_batch_appends_records [OF sample_rx_ok r] show ?thesis by blast
qed

text \<open>
  Stale metadata is never reported: after a frame has been recycled, reading
  metadata at the same packet address finds none valid, so a later packet that arrives without
  metadata is counted as such and keeps an all-zero measurement.
\<close>

theorem recycled_metadata_is_invalid:
  assumes "length (um_buffer u) = UMEM_SIZE" "clear_xdp_metadata u data = Some u'"
  shows "read_xdp_metadata u' data flow sq r c = Some (r, count_meta_invalid c)"
proof (rule clear_xdp_metadata_effect [OF assms(1), of data])
  fix b assume b: "clear_xdp_metadata u data = Some (u\<lparr>um_buffer := b\<rparr>)" "length b = UMEM_SIZE"
    "\<And>n. meta_location data = Some n \<Longrightarrow> sub_bytes b n 56 = replicate 56 0"
  from b(1) assms(2) have u': "um_buffer u' = b" by auto
  show ?thesis
  proof (cases "meta_location data")
    case None
    then show ?thesis by (simp add: read_xdp_metadata_def)
  next
    case (Some n)
    have "ld_bytes b n 56 = Some (replicate 56 0)"
      using meta_location_Some [OF Some] b(2) b(3) [OF Some] by (simp add: load_defs)
    with Some show ?thesis by (simp add: read_xdp_metadata_def u' rx_meta_zero Let_def)
  qed
qed

theorem recycled_metadata_is_invalid_witness:
  "\<exists>u'. clear_xdp_metadata (rs_umem sample_rx_state) 8448 = Some u' \<and>
     read_xdp_metadata u' 8448 7 3 (new_user_record 0 7 3 0 0 0 77) (rs_count sample_rx_state)
       = Some (new_user_record 0 7 3 0 0 0 77, count_meta_invalid (rs_count sample_rx_state))"
proof (rule clear_xdp_metadata_effect [OF sample_rx_ok(2), of 8448])
  fix b assume c: "clear_xdp_metadata (rs_umem sample_rx_state) 8448 = Some (rs_umem sample_rx_state\<lparr>um_buffer := b\<rparr>)"
  from recycled_metadata_is_invalid [OF sample_rx_ok(2) c] c show ?thesis by blast
qed

text \<open>
  Property C33.  Metadata crosses from kernel to user space intact.  Let the classifier redirect a frame to
  its AF_XDP socket, and let the bytes before the packet in the receiver's buffer be the metadata area that the
  classifier left in front of the frame.  Then the record of the user program receives, for the identity
  the classifier read from the frame, the hardware timestamp that the driver reported for this frame (or
  0 with its error), the time at which the classifier saw the frame, the flags that say which of both, and is
  marked as valid with matching key and path; no error is counted.
\<close>

theorem xsk_metadata_end_to_end:
  assumes "kernel_law h" "bpf_accepts (ctx_data ctx) = Some (path, key)" "ace_effective_requested_path mode path = ACE_PATH_XSK"
    and "xdp_dispatch h mode ctx m = Some (XDP_REDIRECT, ctx', m')"
    and "meta_location data = Some n" "length (um_buffer u) = UMEM_SIZE"
    and "length (ctx_meta ctx') = 56" "sub_bytes (um_buffer u) n 56 = ctx_meta ctx'"
  shows "\<exists>ctx1 e hw. ctx_data ctx1 = ctx_data ctx \<and> ctx_rx_queue_index ctx1 = ctx_rx_queue_index ctx \<and>
    xdp_metadata_rx_timestamp h ctx1 = (e, hw) \<and>
    read_xdp_metadata u data (pk_flow_id key) (pk_sequence key)
      (new_user_record q (pk_flow_id key) (pk_sequence key) tx mono_ns real_ns len) c =
    Some ((new_user_record q (pk_flow_id key) (pk_sequence key) tx mono_ns real_ns len)
      \<lparr>xr_validation_flags := ACE_XSK_RECORD_F_META_VALID OR ACE_XSK_RECORD_F_KEY_MATCH OR ACE_XSK_RECORD_F_PATH_MATCH,
       xr_hw_rx_ns := (if e = 0 then hw else 0), xr_initial_xdp_ns := ktime_get_ns h,
       xr_meta_flags := ACE_META_F_PACKET_ID_VALID OR ACE_META_F_PATH_REQUESTED OR
         (if e = 0 then ACE_META_F_HWTS_VALID else ACE_META_F_TIMESTAMP_ERROR),
       xr_requested_path := ACE_PATH_XSK, xr_timestamp_error := word_of_int e\<rparr>, c)"
  using assms(4)
proof (cases rule: dispatch_summary)
  case (measured path' key' eff ctx0 meta e0 recs s l)
  have k: "path' = path" "key' = key" "eff = ACE_PATH_XSK" using measured(1,2) assms(2,3) by simp_all
  have c0: "ctx_data ctx0 = ctx_data ctx" "ctx_rx_queue_index ctx0 = ctx_rx_queue_index ctx"
    using assms(1) measured(3) unfolding kernel_law_def adjust_meta_law_def by (metis snd_conv)+
  obtain ctx1 e hw where t: "ctx_data ctx1 = ctx_data ctx0" "ctx_rx_queue_index ctx1 = ctx_rx_queue_index ctx0"
    "xdp_metadata_rx_timestamp h ctx1 = (e, hw)"
    "stamped_meta h key ACE_PATH_XSK ctx0 = stamp_rx_meta e hw (initial_rx_meta key ACE_PATH_XSK (ktime_get_ns h) (ctx_rx_queue_index ctx0))"
    by (rule stamped_meta_reported)
  have meta: "meta = stamp_rx_meta e hw (initial_rx_meta key ACE_PATH_XSK (ktime_get_ns h) (ctx_rx_queue_index ctx0))"
    using measured(4) k t(4) by simp
  have "ctx_meta ctx' = rx_meta_bytes meta" using measured(5) assms(7) by simp
  then have "ld_bytes (um_buffer u) n 56 = Some (rx_meta_bytes meta)"
    using meta_location_Some [OF assms(5)] assms(6,8) by (simp add: load_defs)
  then show ?thesis using t(1-3) c0 assms(5)
    by (intro exI [of _ ctx1] exI [of _ e] exI [of _ hw])
      (auto simp: read_xdp_metadata_def meta stamp_rx_meta_def initial_rx_meta_def new_user_record_def Let_def)
qed simp

text \<open>A frame to the AF_XDP port, redirected, and a buffer with the metadata before the packet.\<close>

lemma sample_xsk_dispatch:
  "bpf_accepts (ctx_data (sample_frame 9002)) = Some (ACE_PATH_XSK, sample_id)"
  "\<exists>m'. xdp_dispatch sample_helpers 0 (sample_frame 9002) init_maps =
     Some (XDP_REDIRECT, (sample_frame 9002)\<lparr>ctx_meta := rx_meta_bytes (sample_meta\<lparr>rm_requested_path := ACE_PATH_XSK\<rparr>)\<rparr>, m')"
proof -
  show "bpf_accepts (ctx_data (sample_frame 9002)) = Some (ACE_PATH_XSK, sample_id)"
    by (simp add: bpf.accepts_view experiment_view_def sample_view sample_valid xdp_route_def sample_key)
  show "\<exists>m'. xdp_dispatch sample_helpers 0 (sample_frame 9002) init_maps =
     Some (XDP_REDIRECT, (sample_frame 9002)\<lparr>ctx_meta := rx_meta_bytes (sample_meta\<lparr>rm_requested_path := ACE_PATH_XSK\<rparr>)\<rparr>, m')"
    by (simp add: xdp_dispatch_def Let_def parse_datagram [OF sample_view] xdp_route_def sample_valid
        sample_key ace_effective_requested_path_def prepare_measurement_metadata_def sample_helpers_def
        load_defs initial_rx_meta_def stamp_rx_meta_def record_ingress_def plain_update_def init_maps_def
        dispatch_requested_path_def sample_meta_def sample_frame_fields)
qed

theorem xsk_metadata_end_to_end_witness:
  "\<exists>u r. read_xdp_metadata u 8448 7 3 (new_user_record 0 7 3 12345 5 6 77) (rs_count sample_rx_state) = Some r \<and>
     xr_validation_flags (fst r) = 7 \<and> xr_hw_rx_ns (fst r) = 77 \<and> xr_initial_xdp_ns (fst r) = 1000"
proof -
  let ?m = "sample_meta\<lparr>rm_requested_path := ACE_PATH_XSK\<rparr>"
  let ?u = "(rs_umem sample_rx_state)\<lparr>um_buffer := replicate 8392 0 @ rx_meta_bytes ?m @ replicate (UMEM_SIZE - 8448) 0\<rparr>"
  obtain m' where d: "xdp_dispatch sample_helpers 0 (sample_frame 9002) init_maps = Some (XDP_REDIRECT, (sample_frame 9002)\<lparr>ctx_meta := rx_meta_bytes ?m\<rparr>, m')"
    using sample_xsk_dispatch(2) by blast
  have loc: "meta_location 8448 = Some 8392" by (simp add: meta_location_def)
  have e: "ace_effective_requested_path 0 ACE_PATH_XSK = ACE_PATH_XSK" by (simp add: ace_effective_requested_path_def)
  have b: "length (um_buffer ?u) = UMEM_SIZE" "length (ctx_meta ((sample_frame 9002)\<lparr>ctx_meta := rx_meta_bytes ?m\<rparr>)) = 56"
    "sub_bytes (um_buffer ?u) 8392 56 = ctx_meta ((sample_frame 9002)\<lparr>ctx_meta := rx_meta_bytes ?m\<rparr>)"
    by (simp_all add: sub_bytes_append_right sub_bytes_append_left sub_bytes_all)
  have hw: "xdp_metadata_rx_timestamp sample_helpers ctx1 = (0, 77)" "ktime_get_ns sample_helpers = 1000" for ctx1 by (simp_all add: sample_helpers_def)
  from xsk_metadata_end_to_end [OF sample_law sample_xsk_dispatch(1) e d loc b, of 0 12345 5 6 77 "rs_count sample_rx_state"]
  show ?thesis by (intro exI [of _ ?u]) (auto simp: hw)
qed

end
