(* ===== verification/Drain.thy ===== *)
theory Drain
  imports Xdp_Machine
begin

text \<open>
  The two shutdown waits.  \<^verbatim>\<open>BPF/afxdp_run_control.h\<close>: the AF_XDP receiver's drain window, one
  fixed deadline.  \<^verbatim>\<open>BPF/xdp_loader.c\<close>, \<^verbatim>\<open>wait_for_cpumap_records\<close>: the loader polls the
  statistics every 10 ms, for at most 5 s, until the CPUMAP counters are stable.  What each poll
  reads is an argument; the loop is a terminating function of the elapsed time, and its verdicts
  are characterised by what the polls saw.
\<close>

section \<open>The receiver's drain window (BPF/afxdp_run_control.h)\<close>

text \<open>Times are 64-bit signed nanoseconds; the additions wrap as words.\<close>

record ace_xsk_drain =
  dr_active :: bool
  dr_deadline_ns :: u64

definition ace_xsk_drain_begin :: "ace_xsk_drain \<Rightarrow> u64 \<Rightarrow> u32 \<Rightarrow> ace_xsk_drain" where
  "ace_xsk_drain_begin drain now_ns duration_ms =
     (if \<not> dr_active drain
      then drain\<lparr>dr_active := True, dr_deadline_ns := now_ns + ucast duration_ms * 1000000\<rparr>
      else drain)"

definition ace_xsk_drain_poll_ms :: "ace_xsk_drain \<Rightarrow> u64 \<Rightarrow> int" where
  "ace_xsk_drain_poll_ms drain now_ns =
     (if \<not> dr_active drain then 1000
      else (let remaining = sint (dr_deadline_ns drain - now_ns) in
        if remaining \<le> 0 then - 1
        else if remaining \<ge> 1000000000 then 1000
        else (remaining + 999999) div 1000000))"

section \<open>The loader's CPUMAP drain (BPF/xdp_loader.c)\<close>

text \<open>\<open>look\<close> is the per-CPU array that \<^verbatim>\<open>bpf_map_lookup_elem\<close> returns, or its errno.\<close>

definition lookup_stat_total :: "errno + u64 list \<Rightarrow> errno + u64" where
  "lookup_stat_total look = (case look of Inl e \<Rightarrow> Inl e | Inr values \<Rightarrow> Inr (foldl (+) 0 values))"

record cpumap_drain_report =
  dr_requested :: u64
  dr_terminal :: u64
  dr_unobserved :: u64

text \<open>One poll: the five lookups in the order of the source, as \<open>(requested, terminal)\<close>.\<close>

definition drain_snapshot :: "(ace_xdp_stat_id \<Rightarrow> errno + u64 list) \<Rightarrow> errno + (u64 \<times> u64)" where
  "drain_snapshot look =
   (case lookup_stat_total (look STAT_CPUMAP_RECORDED) of Inl e \<Rightarrow> Inl e | Inr recorded \<Rightarrow>
    case lookup_stat_total (look STAT_CPUMAP_DUPLICATE) of Inl e \<Rightarrow> Inl e | Inr duplicate \<Rightarrow>
    case lookup_stat_total (look STAT_CPUMAP_UPDATE_ERROR) of Inl e \<Rightarrow> Inl e | Inr update_error \<Rightarrow>
    case lookup_stat_total (look STAT_CPUMAP_META_INVALID) of Inl e \<Rightarrow> Inl e | Inr invalid \<Rightarrow>
    case lookup_stat_total (look STAT_CPUMAP) of Inl e \<Rightarrow> Inl e | Inr requested \<Rightarrow>
      Inr (requested, recorded + duplicate + update_error + invalid))"

text \<open>
  The loop, at poll number \<open>elapsed div 10\<close>.  Falling out of the loop condition would return 0
  without a report; that value is \<open>Inr None\<close>.
\<close>

function drain_loop ::
  "(nat \<Rightarrow> ace_xdp_stat_id \<Rightarrow> errno + u64 list) \<Rightarrow> nat \<Rightarrow> u64 \<Rightarrow> u64 \<Rightarrow> nat \<Rightarrow> nat \<Rightarrow>
     errno + cpumap_drain_report option" where
  "drain_loop look elapsed previous_requested previous_terminal last_change_ms stable_snapshots =
   (if elapsed > ACE_XDP_CPUMAP_DRAIN_TIMEOUT_MS then Inr None
    else (case drain_snapshot (look (elapsed div ACE_XDP_CPUMAP_DRAIN_POLL_MS)) of
        Inl e \<Rightarrow> Inl e
      | Inr (requested, terminal) \<Rightarrow>
          (let same = (requested = previous_requested \<and> terminal = previous_terminal);
               stable_snapshots = (if same then stable_snapshots + 1 else 0);
               last_change_ms = (if same then last_change_ms else elapsed) in
           if requested = terminal \<and> elapsed \<ge> ACE_XDP_CPUMAP_DRAIN_GRACE_MS \<and>
              stable_snapshots \<ge> ACE_XDP_CPUMAP_STABLE_POLLS
           then Inr (Some \<lparr>dr_requested = requested, dr_terminal = terminal, dr_unobserved = 0\<rparr>)
           else if elapsed = ACE_XDP_CPUMAP_DRAIN_TIMEOUT_MS
           then (if requested > terminal \<and>
                    elapsed - last_change_ms \<ge> ACE_XDP_CPUMAP_LOSS_QUIET_MS \<and>
                    stable_snapshots \<ge> ACE_XDP_CPUMAP_STABLE_POLLS
                 then Inr (Some \<lparr>dr_requested = requested, dr_terminal = terminal,
                                 dr_unobserved = requested - terminal\<rparr>)
                 else Inl ETIMEDOUT)
           else drain_loop look (elapsed + ACE_XDP_CPUMAP_DRAIN_POLL_MS) requested terminal
                  last_change_ms stable_snapshots)))"
  by pat_completeness auto
termination by (relation "measure (\<lambda>(_, elapsed, _). 5001 - elapsed)") auto

declare drain_loop.simps [simp del]


definition wait_for_cpumap_records ::
  "int \<Rightarrow> bool \<Rightarrow> (nat \<Rightarrow> ace_xdp_stat_id \<Rightarrow> errno + u64 list) \<Rightarrow> errno + cpumap_drain_report option" where
  "wait_for_cpumap_records ncpu allocated look =
     (if ncpu < 1 then Inl EINVAL
      else if \<not> allocated then Inl ENOMEM
      else drain_loop look 0 (- 1) (- 1) 0 0)"

section \<open>What the polls saw\<close>

text \<open>
  The polls decide the wait at the first poll that fails, or that is the last of eleven identical ones with equal
  counts after the grace time.
\<close>

definition settled :: "(nat \<Rightarrow> errno + (u64 \<times> u64)) \<Rightarrow> nat \<Rightarrow> u64 \<Rightarrow> bool" where
  "settled s n r \<longleftrightarrow> 10 \<le> n \<and> (\<forall>j. n - 10 \<le> j \<and> j \<le> n \<longrightarrow> s j = Inr (r, r))"

definition decided :: "(nat \<Rightarrow> errno + (u64 \<times> u64)) \<Rightarrow> nat \<Rightarrow> bool" where
  "decided s n \<longleftrightarrow> (\<exists>e. s n = Inl e) \<or> (\<exists>r. settled s n r)"

text \<open>At the end of the window, counters that stood still for the last second and show a loss.\<close>

definition lossy :: "(nat \<Rightarrow> errno + (u64 \<times> u64)) \<Rightarrow> u64 \<Rightarrow> u64 \<Rightarrow> bool" where
  "lossy s r t \<longleftrightarrow> t < r \<and> (\<forall>j. 400 \<le> j \<and> j \<le> 500 \<longrightarrow> s j = Inr (r, t))"

definition drain_verdict :: "(nat \<Rightarrow> errno + (u64 \<times> u64)) \<Rightarrow> errno + cpumap_drain_report option \<Rightarrow> bool" where
  "drain_verdict s v \<longleftrightarrow>
     (\<exists>n \<le> 500. (\<forall>i < n. \<not> decided s i) \<and>
        ((\<exists>e. s n = Inl e \<and> v = Inl e) \<or>
         (\<exists>r. settled s n r \<and> v = Inr (Some \<lparr>dr_requested = r, dr_terminal = r, dr_unobserved = 0\<rparr>)))) \<or>
     (\<forall>i \<le> 500. \<not> decided s i) \<and>
       ((\<exists>r t. lossy s r t \<and> v = Inr (Some \<lparr>dr_requested = r, dr_terminal = t, dr_unobserved = r - t\<rparr>)) \<or>
        (\<forall>r t. \<not> lossy s r t) \<and> v = Inl ETIMEDOUT)"

text \<open>What the loop variables say after \<open>i\<close> polls: the length of the run of identical polls and where it began.\<close>

definition steady :: "(nat \<Rightarrow> errno + (u64 \<times> u64)) \<Rightarrow> nat \<Rightarrow> nat \<Rightarrow> u64 \<Rightarrow> u64 \<Rightarrow> bool" where
  "steady s m i r t \<longleftrightarrow> (\<forall>j. m \<le> j \<and> j < i \<longrightarrow> s j = Inr (r, t))"

definition drain_inv ::
  "(nat \<Rightarrow> errno + (u64 \<times> u64)) \<Rightarrow> nat \<Rightarrow> u64 \<Rightarrow> u64 \<Rightarrow> nat \<Rightarrow> nat \<Rightarrow> bool" where
  "drain_inv s i pr pt lc st \<longleftrightarrow>
     steady s (i - (st + 1)) i pr pt \<and> (\<forall>j < i. lc \<le> 10 * j \<longrightarrow> s j = Inr (pr, pt)) \<and> lc \<le> 10 * i \<and>
     (\<forall>m < i. steady s m i pr pt \<longrightarrow> i \<le> m + st + 1 \<and> lc \<le> 10 * m)"

lemma steady_extend: "s i = Inr (r, t) \<Longrightarrow> m \<le> i \<Longrightarrow> steady s m (Suc i) r t \<longleftrightarrow> steady s m i r t"
  by (auto simp: steady_def less_Suc_eq)

lemma steady_last: "steady s m i r t \<Longrightarrow> m < i \<Longrightarrow> s (i - 1) = Inr (r, t)"
  by (simp add: steady_def)

lemma drain_inv_step:
  assumes "drain_inv s i pr pt lc st" "s i = Inr (r, t)"
  shows "drain_inv s (i + 1) r t (if r = pr \<and> t = pt then lc else 10 * i)
    (if r = pr \<and> t = pt then st + 1 else 0)"
proof -
  have inv: "steady s (i - (st + 1)) i pr pt" "\<And>j. j < i \<Longrightarrow> lc \<le> 10 * j \<Longrightarrow> s j = Inr (pr, pt)" "lc \<le> 10 * i"
    "\<And>m. m < i \<Longrightarrow> steady s m i pr pt \<Longrightarrow> i \<le> m + st + 1 \<and> lc \<le> 10 * m"
    using assms(1) by (auto simp: drain_inv_def)
  show ?thesis
  proof (cases "r = pr \<and> t = pt")
    case True
    have "steady s (i + 1 - (st + 1 + 1)) (i + 1) r t" using inv(1) True assms(2) by (auto simp: steady_extend)
    moreover have "s j = Inr (r, t)" if "j < i + 1" "lc \<le> 10 * j" for j
      using inv(2) [of j] that assms(2) True by (cases "j = i") auto
    moreover have "i + 1 \<le> m + (st + 1) + 1 \<and> lc \<le> 10 * m" if "m < i + 1" "steady s m (i + 1) r t" for m
      using inv(4) [of m] inv(3) that assms(2) True by (cases "m = i") (auto simp: steady_extend)
    ultimately show ?thesis using True inv(3) by (simp add: drain_inv_def)
  next
    case False
    have last: "i = 0 \<or> s (i - 1) = Inr (pr, pt)" using steady_last [OF inv(1)] by (cases i) auto
    have "steady s (i + 1 - (0 + 1)) (i + 1) r t" using assms(2) by (auto simp: steady_def less_Suc_eq)
    moreover have "s j = Inr (r, t)" if "j < i + 1" "10 * i \<le> 10 * j" for j using that assms(2) by (cases "j = i") auto
    moreover have "m = i" if "m < i + 1" "steady s m (i + 1) r t" for m
    proof (rule ccontr)
      assume "m \<noteq> i"
      then have "steady s m i r t" "m < i" using that assms(2) by (auto simp: steady_extend)
      then show False using steady_last [of s m i r t] last False by auto
    qed
    ultimately show ?thesis using False by (auto simp: drain_inv_def)
  qed
qed

lemma drain_loop_step:
  assumes "drain_snapshot (look i) = Inr (r, t)" "i \<le> 500"
    and "st' = (if r = pr \<and> t = pt then st + 1 else 0)" "lc' = (if r = pr \<and> t = pt then lc else 10 * i)"
  shows "drain_loop look (10 * i) pr pt lc st =
      (if r = t \<and> 10 \<le> i \<and> st' \<ge> 10
       then Inr (Some \<lparr>dr_requested = r, dr_terminal = t, dr_unobserved = 0\<rparr>)
       else if i = 500
       then (if r > t \<and> 5000 - lc' \<ge> 1000 \<and> st' \<ge> 10
             then Inr (Some \<lparr>dr_requested = r, dr_terminal = t, dr_unobserved = r - t\<rparr>)
             else Inl ETIMEDOUT)
       else drain_loop look (10 * (i + 1)) r t lc' st')"
proof -
  have e: "10 * (i + 1) = 10 * i + 10" by simp
  show ?thesis
    unfolding e using assms(1,2)
    by (subst drain_loop.simps) (simp add: Let_def flip: assms(3,4))
qed

lemma settled_steady: "settled s i q \<longleftrightarrow> 10 \<le> i \<and> steady s (i - 10) (i + 1) q q"
  by (auto simp: settled_def steady_def less_Suc_eq_le)

lemma steady_longer: "steady s m i r t \<Longrightarrow> m \<le> n \<Longrightarrow> steady s n i r t"
  by (auto simp: steady_def)

lemma settled_run:
  assumes "drain_inv s (i + 1) r t lc st" "s i = Inr (r, t)"
  shows "settled s i q \<longleftrightarrow> r = t \<and> q = r \<and> 10 \<le> i \<and> 10 \<le> st"
proof
  assume set: "settled s i q"
  then have i: "10 \<le> i" "steady s (i - 10) (i + 1) q q" by (simp_all add: settled_steady)
  then have q: "r = q" "t = q" using steady_last [OF i(2)] assms(2) by auto
  have "i - 10 < i + 1" by simp
  then have "i + 1 \<le> (i - 10) + st + 1" using assms(1) i(2) unfolding drain_inv_def q by blast
  then show "r = t \<and> q = r \<and> 10 \<le> i \<and> 10 \<le> st" using q i by simp
next
  assume a: "r = t \<and> q = r \<and> 10 \<le> i \<and> 10 \<le> st"
  have "steady s (i + 1 - (st + 1)) (i + 1) r t" using assms(1) by (simp add: drain_inv_def)
  then have "steady s (i - 10) (i + 1) r t" by (rule steady_longer) (use a in linarith)
  then show "settled s i q" using a by (simp add: settled_steady)
qed

lemma lossy_steady: "lossy s r t \<longleftrightarrow> t < r \<and> steady s 400 501 r t"
  by (auto simp: lossy_def steady_def)

lemma lossy_run:
  assumes "drain_inv s 501 r t lc st"
  shows "lossy s r' t' \<longleftrightarrow> r' = r \<and> t' = t \<and> t < r \<and> lc \<le> 4000 \<and> 10 \<le> st"
proof
  assume l: "lossy s r' t'"
  then have st: "steady s 400 501 r' t'" by (simp add: lossy_steady)
  have "steady s (501 - (st + 1)) 501 r t" using assms by (simp add: drain_inv_def)
  then have "s 500 = Inr (r, t)" using steady_last [of s "501 - (st + 1)" 501] by simp
  then have eq: "r' = r" "t' = t" using steady_last [OF st] by simp_all
  have "400 < (501 :: nat)" by simp
  then have "501 \<le> 400 + st + 1 \<and> lc \<le> 10 * 400" using assms st unfolding drain_inv_def eq by blast
  then show "r' = r \<and> t' = t \<and> t < r \<and> lc \<le> 4000 \<and> 10 \<le> st" using l eq by (simp add: lossy_def)
next
  assume a: "r' = r \<and> t' = t \<and> t < r \<and> lc \<le> 4000 \<and> 10 \<le> st"
  have "s j = Inr (r, t)" if "400 \<le> j" "j < 501" for j
  proof -
    have "lc \<le> 10 * j" using a that by linarith
    then show ?thesis using assms that unfolding drain_inv_def by blast
  qed
  then show "lossy s r' t'" using a by (simp add: lossy_steady steady_def)
qed

lemma drain_loop_verdict:
  assumes "i \<le> 500" "drain_inv (\<lambda>i. drain_snapshot (look i)) i pr pt lc st" "\<forall>j < i. \<not> decided (\<lambda>i. drain_snapshot (look i)) j"
  shows "drain_verdict (\<lambda>i. drain_snapshot (look i)) (drain_loop look (10 * i) pr pt lc st)"
  using assms
proof (induction "500 - i" arbitrary: i pr pt lc st rule: less_induct)
  case less
  let ?s = "\<lambda>i. drain_snapshot (look i)"
  show ?case
  proof (cases "?s i")
    case (Inl e)
    with less.prems show ?thesis
      by (subst drain_loop.simps) (auto simp: drain_verdict_def)
  next
    case (Inr rt)
    obtain r t where rt: "?s i = Inr (r, t)" using Inr by (cases rt) simp
    define st' lc' where "st' = (if r = pr \<and> t = pt then st + 1 else 0)"
      and "lc' = (if r = pr \<and> t = pt then lc else 10 * i)"
    have inv: "drain_inv ?s (i + 1) r t lc' st'"
      unfolding st'_def lc'_def by (rule drain_inv_step [OF less.prems(2) rt])
    note eq = drain_loop_step [where look = look and i = i, OF rt less.prems(1) st'_def lc'_def]
    note set = settled_run [OF inv rt]
    show ?thesis
    proof (cases "r = t \<and> 10 \<le> i \<and> 10 \<le> st'")
      case True
      then have "settled ?s i r" using set by simp
      with True less.prems(1,3) show ?thesis
        unfolding eq drain_verdict_def by (intro disjI1 exI [of _ i]) auto
    next
      case not_clean: False
      then have un: "\<not> decided ?s i" using set rt by (auto simp: decided_def)
      then have und: "\<forall>j < i + 1. \<not> decided ?s j" using less.prems(3) by (auto simp: less_Suc_eq)
      show ?thesis
      proof (cases "i = 500")
        case True
        have "drain_inv ?s 501 r t lc' st'" using inv True by simp
        note l = lossy_run [OF this]
        have all: "\<forall>i \<le> 500. \<not> decided ?s i" using und True by (auto simp: less_Suc_eq_le)
        have "(1000 \<le> 5000 - lc') = (lc' \<le> 4000)" by linarith
        then show ?thesis using True not_clean all unfolding eq drain_verdict_def l by auto
      next
        case False
        with less.prems(1) less.hyps [of "i + 1"] inv und have
          "drain_verdict ?s (drain_loop look (10 * (i + 1)) r t lc' st')" by simp
        with False not_clean show ?thesis unfolding eq by auto
      qed
    qed
  qed
qed

section \<open>A quiescent pipeline\<close>

text \<open>The per-CPU array of a statistic, as a lookup of a possible-CPU list returns it.\<close>

definition maps_lookup :: "u32 list \<Rightarrow> bpf_maps \<Rightarrow> ace_xdp_stat_id \<Rightarrow> errno + u64 list" where
  "maps_lookup cpus m s = Inr (map (\<lambda>c. stats m c s) cpus)"

lemma foldl_add_map: "foldl (+) a (map f xs) = a + (\<Sum>x\<leftarrow>xs. (f x :: u64))"
  by (induction xs arbitrary: a) (simp_all add: algebra_simps)

lemma lookup_stat_total_maps:
  assumes "distinct cpus" "\<And>c. c \<notin> set cpus \<Longrightarrow> stats m c s = 0"
  shows "lookup_stat_total (maps_lookup cpus m s) = Inr (stat_total m s)"
proof -
  have "(\<Sum>c\<leftarrow>cpus. stats m c s) = (\<Sum>c\<in>set cpus. stats m c s)"
    using assms(1) by (simp add: sum_list_distinct_conv_sum_set)
  also have "\<dots> = (\<Sum>c\<in>UNIV. stats m c s)"
    by (rule sum.mono_neutral_left) (use assms(2) in auto)
  finally show ?thesis by (simp add: lookup_stat_total_def maps_lookup_def foldl_add_map stat_total_def)
qed

lemma drain_loop_constant:
  assumes "\<And>i. drain_snapshot (look i) = Inr (r, t)" "i \<le> (if r = t then 10 else 500)"
    and "i = 0 \<or> pr = r \<and> pt = t \<and> i \<le> st + 1" "lc = 0"
  shows "drain_loop look (10 * i) pr pt lc st =
    (if r = t \<or> t < r then Inr (Some \<lparr>dr_requested = r, dr_terminal = t, dr_unobserved = r - t\<rparr>)
     else Inl ETIMEDOUT)"
  using assms(2-)
proof (induction "500 - i" arbitrary: i pr pt lc st rule: less_induct)
  case less
  define st' where "st' = (if r = pr \<and> t = pt then st + 1 else 0)"
  have i: "i \<le> 500" using less.prems(1) by (simp split: if_splits)
  have lc: "0 = (if r = pr \<and> t = pt then lc else 10 * i)" using less.prems by auto
  have st: "i \<le> st'" using less.prems(2) by (auto simp: st'_def)
  note eq = drain_loop_step [where look = look and i = i, OF assms(1) i st'_def lc]
  show ?case
  proof (cases "i = (if r = t then 10 else 500)")
    case True
    with st show ?thesis unfolding eq by (auto split: if_splits)
  next
    case False
    with less.prems(1) i less.hyps [of "i + 1" r t st' 0] st
    have "drain_loop look (10 * (i + 1)) r t 0 st' =
      (if r = t \<or> t < r then Inr (Some \<lparr>dr_requested = r, dr_terminal = t, dr_unobserved = r - t\<rparr>)
       else Inl ETIMEDOUT)" by (auto split: if_splits)
    with False less.prems(1) show ?thesis unfolding eq by (auto split: if_splits)
  qed
qed

section \<open>Signed differences of times\<close>

lemma uint_small: "unat (a :: u64) < 2 ^ 63 \<Longrightarrow> 0 \<le> uint a \<and> uint a < 2 ^ 63"
proof -
  assume "unat a < 2 ^ 63"
  then have "int (unat a) < int (2 ^ 63)" by (simp only: of_nat_less_iff)
  then show ?thesis by simp
qed

lemma sint_small: "unat (a :: u64) < 2 ^ 63 \<Longrightarrow> sint a = uint a"
  using uint_small [of a] unfolding sint_uint by (intro signed_take_bit_int_eq_self) (auto intro: order_trans [of _ 0])

lemma sint_diff_small:
  assumes "unat (a :: u64) < 2 ^ 63" "unat b < 2 ^ 63"
  shows "sint (a - b) = int (unat a) - int (unat b)"
proof -
  have "sint (a - b) = signed_take_bit 63 (sint a - sint b)"
    using sint_word_ariths(2) [of a b] by simp
  also have "\<dots> = uint a - uint b"
    unfolding sint_small [OF assms(1)] sint_small [OF assms(2)]
    using uint_small [OF assms(1)] uint_small [OF assms(2)]
    by (intro signed_take_bit_int_eq_self) linarith+
  finally show ?thesis by simp
qed

section \<open>Properties\<close>

text \<open>
  Property C34.  The CPUMAP drain always ends within 501 polls, and the polls alone determine how: with the error
  of the first poll that fails; with success at the first poll that ends eleven identical polls with
  equal request and outcome counts; at the end of the window with the exact difference as loss, exactly if the
  counters stood still for its last second and show one; and with a timeout exactly in the remaining
  cases, so never while the polls allow a verdict, and never with success without a report.
\<close>

theorem wait_for_cpumap_records_verdict:
  "if ncpu < 1 then wait_for_cpumap_records ncpu allocated look = Inl EINVAL
   else if \<not> allocated then wait_for_cpumap_records ncpu allocated look = Inl ENOMEM
   else drain_verdict (\<lambda>i. drain_snapshot (look i)) (wait_for_cpumap_records ncpu allocated look)"
  using drain_loop_verdict [of 0 look "- 1" "- 1" 0 0]
  by (simp add: wait_for_cpumap_records_def drain_inv_def steady_def)

theorem wait_for_cpumap_records_verdict_witness:
  "drain_verdict (\<lambda>i. drain_snapshot (\<lambda>_. Inr [0, 0, 0, 0])) (wait_for_cpumap_records 4 True (\<lambda>_ _. Inr [0, 0, 0, 0]))"
  using wait_for_cpumap_records_verdict [of 4 True "\<lambda>_ _. Inr [0, 0, 0, 0]"] by simp

text \<open>
  The drain reports the truth about the data path.  In a reachable state of the
  pipeline that no longer changes, with statistics read from the possible CPUs, the loader's wait
  ends with a report whose unobserved count is exactly the number of redirected frames still
  queued or lost (given that the counters did not wrap).
\<close>

theorem drain_reports_unobserved:
  assumes "reachable mode p" "distinct cpus" "cpus \<noteq> []"
    and zero: "\<And>c s. c \<notin> set cpus \<Longrightarrow> stats (pl_maps p) c s = 0"
    and "unobserved = of_nat (length (pl_cpumap p)) + pl_lost p"
    and nowrap: "unobserved \<le> stat_total (pl_maps p) STAT_CPUMAP"
  shows "wait_for_cpumap_records (int (length cpus)) True (\<lambda>_. maps_lookup cpus (pl_maps p)) =
    Inr (Some \<lparr>dr_requested = stat_total (pl_maps p) STAT_CPUMAP,
               dr_terminal = stat_total (pl_maps p) STAT_CPUMAP - unobserved,
               dr_unobserved = unobserved\<rparr>)"
proof -
  let ?t = "stat_total (pl_maps p)"
  have inv: "queue_inv p" "flow_inv p" using reachable_inv [OF assms(1)] by (simp_all add: pipeline_inv_def)
  have z: "?t STAT_CPUMAP_META_INVALID = 0" using inv(1) by (simp add: queue_inv_def stat_total_def)
  have f: "?t STAT_CPUMAP = unobserved + (?t STAT_CPUMAP_RECORDED + ?t STAT_CPUMAP_DUPLICATE + ?t STAT_CPUMAP_UPDATE_ERROR)"
    using inv(2) assms(5) by (simp add: flow_inv_def Let_def add.assoc)
  have snap: "drain_snapshot (maps_lookup cpus (pl_maps p)) = Inr (?t STAT_CPUMAP, ?t STAT_CPUMAP - unobserved)"
    unfolding drain_snapshot_def using f z
    by (simp add: lookup_stat_total_maps [OF assms(2)] zero)
  have "?t STAT_CPUMAP = ?t STAT_CPUMAP - unobserved \<or> ?t STAT_CPUMAP - unobserved < ?t STAT_CPUMAP"
    using word_sub_le [OF nowrap] by (auto simp: order_le_less)
  moreover have "1 \<le> int (length cpus)" using assms(3) by (cases cpus) auto
  ultimately show ?thesis
    using drain_loop_constant [of "\<lambda>_. maps_lookup cpus (pl_maps p)" "?t STAT_CPUMAP"
        "?t STAT_CPUMAP - unobserved" 0 "- 1" "- 1" 0 0] snap assms(3)
    by (simp add: wait_for_cpumap_records_def)
qed

theorem drain_reports_unobserved_witness:
  "wait_for_cpumap_records 1 True (\<lambda>_. maps_lookup [2] (pl_maps sample_pipeline)) =
     Inr (Some \<lparr>dr_requested = 1, dr_terminal = 0, dr_unobserved = 1\<rparr>)"
proof -
  have t: "stat_total (pl_maps sample_pipeline) STAT_CPUMAP = 1"
    by (simp add: sample_pipeline_def sample_maps_def init_maps_def) (simp add: stat_total_def)
  have "stats (pl_maps sample_pipeline) c s = 0" if "c \<notin> set [2]" for c s
    using that by (simp add: sample_pipeline_def sample_maps_def init_maps_def)
  from drain_reports_unobserved [OF sample_reachable, where cpus = "[2]" and unobserved = 1, OF _ _ this] t show ?thesis
    by (simp add: sample_pipeline_def)
qed

text \<open>
  The receiver's drain is one fixed window: whatever further stop signals arrive,
  the wait ends exactly when the window that the first one opened has passed, and until then each
  poll waits between one millisecond and one second and overshoots the deadline by less than a
  millisecond.
\<close>

theorem afxdp_drain_window:
  assumes "\<not> dr_active d" "unat t0 + unat ms * 1000000 < 2 ^ 63" "unat now < 2 ^ 63"
    and "drain = ace_xsk_drain_begin (ace_xsk_drain_begin d t0 ms) t1 ms'"
    and "left = int (unat t0 + unat ms * 1000000) - int (unat now)"
  shows "(ace_xsk_drain_poll_ms drain now = - 1 \<longleftrightarrow> left \<le> 0) \<and>
    (0 < left \<longrightarrow> 1 \<le> ace_xsk_drain_poll_ms drain now \<and> ace_xsk_drain_poll_ms drain now \<le> 1000 \<and>
       ace_xsk_drain_poll_ms drain now * 1000000 < left + 1000000)"
proof -
  let ?dl = "t0 + ucast ms * 1000000 :: u64"
  have "unat (ucast ms * 1000000 :: u64) = unat ms * 1000000"
    using unat_bound [of ms] by (subst unat_mult_lem [THEN iffD1]) simp_all
  then have dl: "unat ?dl = unat t0 + unat ms * 1000000"
    using assms(2) by (subst unat_add_lem [THEN iffD1]) simp_all
  have "sint (?dl - now) = left"
    using sint_diff_small [of ?dl now] dl assms(2,3,5) by simp
  then have p: "ace_xsk_drain_poll_ms drain now =
      (if left \<le> 0 then - 1 else if left \<ge> 1000000000 then 1000 else (left + 999999) div 1000000)"
    using assms(1,4) by (simp add: ace_xsk_drain_begin_def ace_xsk_drain_poll_ms_def)
  show ?thesis unfolding p by (auto split: if_splits)
qed

theorem afxdp_drain_window_witness:
  "ace_xsk_drain_poll_ms (ace_xsk_drain_begin (ace_xsk_drain_begin \<lparr>dr_active = False, dr_deadline_ns = 0\<rparr> 0 100) 5 100)
     100000000 = - 1"
  using afxdp_drain_window [of "\<lparr>dr_active = False, dr_deadline_ns = 0\<rparr>" 0 100 100000000 _ 5 100] by simp

end
