(* ===== verification/Decimal_Text.thy ===== *)
theory Decimal_Text
  imports Ace_Prelude
begin

text \<open>
  Decimal text: what \<^verbatim>\<open>strtoull(text, &end, 10)\<close> reads and what \<^verbatim>\<open>printf\<close> writes, and the
  option parsers that every program of the suite carries in its own copy.  A C string is the
  list of its characters before the terminating NUL, a possibly null pointer an option.  The
  copies all implement the contract \<open>decimal_parser\<close>: digits only, inside the bounds, no sign,
  no blank, no overflow.
\<close>

section \<open>Digits\<close>

definition char_code :: "char \<Rightarrow> nat" where "char_code c = of_char c"

definition is_digit :: "char \<Rightarrow> bool" where
  "is_digit c \<longleftrightarrow> 48 \<le> char_code c \<and> char_code c \<le> 57"

definition digit_val :: "char \<Rightarrow> nat" where "digit_val c = char_code c - 48"

definition dec_val :: "string \<Rightarrow> nat" where
  "dec_val s = foldl (\<lambda>a c. a * 10 + digit_val c) 0 s"

definition digit_char :: "nat \<Rightarrow> char" where "digit_char d = char_of (d + 48)"

fun show_nat :: "nat \<Rightarrow> string" where
  "show_nat n = (if n < 10 then [digit_char n] else show_nat (n div 10) @ [digit_char (n mod 10)])"

declare show_nat.simps [simp del]

lemma digit_char_props [simp]:
  assumes "d < 10"
  shows "is_digit (digit_char d)" "digit_val (digit_char d) = d"
  using assms by (simp_all add: is_digit_def digit_val_def char_code_def digit_char_def)

lemma dec_val_append [simp]: "dec_val (s @ [c]) = dec_val s * 10 + digit_val c"
  by (simp add: dec_val_def)

lemma show_nat_digits: "list_all is_digit (show_nat n)"
proof (induction n rule: show_nat.induct)
  case (1 n)
  then show ?case by (subst show_nat.simps) auto
qed

lemma dec_val_show_nat [simp]: "dec_val (show_nat n) = n"
proof (induction n rule: show_nat.induct)
  case (1 n)
  then show ?case
    by (subst show_nat.simps) (auto simp: dec_val_def simp flip: dec_val_append)
qed

lemma show_nat_not_Nil [simp]: "show_nat n \<noteq> []"
  by (subst show_nat.simps) simp

text \<open>Evaluation of concrete numbers.\<close>

lemmas show_nat_eval = show_nat.simps digit_char_def char_of_def bit_0

section \<open>strtoull\<close>

definition is_space :: "char \<Rightarrow> bool" where
  "is_space c \<longleftrightarrow> char_code c = 32 \<or> (9 \<le> char_code c \<and> char_code c \<le> 13)"

text \<open>Value, unread rest (the text itself when there is no number), and whether \<open>errno\<close> is set.\<close>

definition strtoull :: "string \<Rightarrow> u64 \<times> string \<times> bool" where
  "strtoull text =
   (let s = dropWhile is_space text;
        neg = (s \<noteq> [] \<and> hd s = CHR ''-'');
        s = (if s \<noteq> [] \<and> (hd s = CHR ''-'' \<or> hd s = CHR ''+'') then tl s else s);
        ds = takeWhile is_digit s;
        v = dec_val ds in
    if ds = [] then (0, text, False)
    else if v \<ge> 2 ^ 64 then (- 1, drop (length ds) s, True)
    else (if neg then - of_nat v else of_nat v, drop (length ds) s, False))"

lemma is_digit_not_space: "is_digit c \<Longrightarrow> \<not> is_space c"
  by (auto simp: is_digit_def is_space_def)

lemma is_digit_not_sign: "is_digit c \<Longrightarrow> c \<noteq> CHR ''-'' \<and> c \<noteq> CHR ''+''"
  by (auto simp: is_digit_def char_code_def)

lemma strtoull_prefix:
  assumes "ds \<noteq> []" "list_all is_digit ds" "rest = [] \<or> \<not> is_digit (hd rest)"
  shows "strtoull (ds @ rest) =
    (if dec_val ds \<ge> 2 ^ 64 then (- 1, rest, True) else (of_nat (dec_val ds), rest, False))"
proof -
  obtain c cs where c: "ds = c # cs" "is_digit c" using assms by (cases ds) auto
  have t: "takeWhile is_digit (ds @ rest) = ds"
    using assms by (cases rest) (auto simp: list_all_iff takeWhile_append2)
  have s: "dropWhile is_space (ds @ rest) = ds @ rest"
    using c by (simp add: is_digit_not_space)
  show ?thesis
    unfolding strtoull_def Let_def s using t c is_digit_not_sign [OF c(2)] by auto
qed

lemma strtoull_digits:
  assumes "s \<noteq> []" "list_all is_digit s"
  shows "strtoull s = (if dec_val s \<ge> 2 ^ 64 then (- 1, [], True) else (of_nat (dec_val s), [], False))"
  using strtoull_prefix [OF assms, of "[]"] by simp

section \<open>The parsers\<close>

text \<open>\<open>None\<close> is the error return, \<open>Some v\<close> success with \<open>*value = v\<close>.\<close>

definition ace_parse_u64 :: "string option \<Rightarrow> u64 \<Rightarrow> u64 \<Rightarrow> u64 option" where
  "ace_parse_u64 text minimum maximum =
   (case text of
      None \<Rightarrow> None
    | Some s \<Rightarrow>
        if s = [] then None
        else if \<not> list_all is_digit s then None
        else (let (parsed, end, err) = strtoull s in
              if err \<or> end \<noteq> [] \<or> parsed < minimum \<or> parsed > maximum then None
              else Some parsed))"

definition sender_parse_u64 :: "string option \<Rightarrow> u64 \<Rightarrow> u64 \<Rightarrow> u64 option" where
  "sender_parse_u64 text minimum maximum =
   (case text of
      None \<Rightarrow> None
    | Some s \<Rightarrow>
        if s = [] then None
        else if \<not> list_all is_digit s then None
        else (let (parsed, end, err) = strtoull s in
              if err \<or> s = end \<or> end \<noteq> [] \<or> parsed < minimum \<or> parsed > maximum then None
              else Some parsed))"

definition receiver_parse_u64 :: "string option \<Rightarrow> u64 \<Rightarrow> u64 \<Rightarrow> u64 option" where
  "receiver_parse_u64 text minimum maximum =
   (case text of
      None \<Rightarrow> None
    | Some s \<Rightarrow>
        if s = [] then None
        else if \<not> list_all is_digit s then None
        else (let (parsed, end, err) = strtoull s in
              if err \<or> s = end \<or> end \<noteq> [] \<or> parsed < minimum \<or> parsed > maximum then None
              else Some parsed))"

text \<open>\<^verbatim>\<open>unsigned long\<close> is 64 bits wide on the target, so \<^verbatim>\<open>strtoul\<close> is \<open>strtoull\<close>.\<close>

definition parse_unsigned :: "string option \<Rightarrow> u32 \<Rightarrow> u32 \<Rightarrow> u32 option" where
  "parse_unsigned text minimum maximum =
   (case text of
      None \<Rightarrow> None
    | Some s \<Rightarrow>
        if s = [] then None
        else if \<not> list_all is_digit s then None
        else (let (parsed, end, err) = strtoull s in
              if err \<or> s = end \<or> end \<noteq> [] \<or> parsed < ucast minimum \<or> parsed > ucast maximum
              then None else Some (ucast parsed)))"

definition loader_parse_u32 :: "string option \<Rightarrow> u32 \<Rightarrow> u32 \<Rightarrow> errno + u32" where
  "loader_parse_u32 text mn mx =
   (case text of
      None \<Rightarrow> Inl EINVAL
    | Some s \<Rightarrow>
        if s = [] then Inl EINVAL
        else if \<not> list_all is_digit s then Inl EINVAL
        else (let (parsed, end, err) = strtoull s in
              if err \<or> end \<noteq> [] \<or> parsed < ucast mn \<or> parsed > ucast mx
              then Inl EINVAL else Inr (ucast parsed)))"

definition unsigned_value :: "string option \<Rightarrow> u64 option" where
  "unsigned_value text =
   (case text of
      None \<Rightarrow> None
    | Some s \<Rightarrow>
        if s = [] then None
        else if \<not> list_all is_digit s then None
        else (let (parsed, end, err) = strtoull s in
              if err \<or> end \<noteq> [] then None else Some parsed))"

definition parse_queue_id :: "string option \<Rightarrow> errno + u32" where
  "parse_queue_id text =
   (case text of
      None \<Rightarrow> Inl EINVAL
    | Some s \<Rightarrow>
        if s = [] then Inl EINVAL
        else if \<not> list_all is_digit s then Inl EINVAL
        else (let (parsed, end, err) = strtoull s in
              if err \<or> end \<noteq> [] \<or> parsed > 0xFFFFFFFF then Inl ERANGE
              else Inr (ucast parsed)))"

definition parse_record_capacity :: "string option \<Rightarrow> errno + u32" where
  "parse_record_capacity text =
   (case text of
      None \<Rightarrow> Inl EINVAL
    | Some s \<Rightarrow>
        if s = [] then Inl EINVAL
        else if \<not> list_all is_digit s then Inl EINVAL
        else (let (parsed, end, err) = strtoull s in
              if err \<or> s = end \<or> end \<noteq> [] \<or> parsed < 1 \<or> parsed > 1048576
              then Inl EINVAL else Inr (ucast parsed)))"

section \<open>The contract\<close>

definition res_option :: "'e + 'a \<Rightarrow> 'a option" where
  "res_option r = (case r of Inl _ \<Rightarrow> None | Inr v \<Rightarrow> Some v)"

lemma res_option_simps [simp]: "res_option (Inl e) = None" "res_option (Inr v) = Some v"
  by (simp_all add: res_option_def)

definition dec_accepts :: "string option \<Rightarrow> nat \<Rightarrow> nat \<Rightarrow> nat option" where
  "dec_accepts text lo hi =
   (case text of
      None \<Rightarrow> None
    | Some s \<Rightarrow> if s \<noteq> [] \<and> list_all is_digit s \<and> lo \<le> dec_val s \<and> dec_val s \<le> hi
               then Some (dec_val s) else None)"

locale decimal_parser =
  fixes parse :: "string option \<Rightarrow> 'a::len word option" and lo hi :: nat
  assumes parse_exact: "parse text = map_option of_nat (dec_accepts text lo hi)"
    and hi_fits: "hi < 2 ^ LENGTH('a)"
begin

lemma parse_bounds: "parse text = Some v \<Longrightarrow> lo \<le> unat v \<and> unat v \<le> hi"
  using hi_fits
  by (auto simp: parse_exact dec_accepts_def unat_of_nat split: option.splits if_splits)

lemma parse_value: "parse (Some s) = Some v \<Longrightarrow> unat v = dec_val s"
  using hi_fits
  by (auto simp: parse_exact dec_accepts_def unat_of_nat split: if_splits)

lemma parse_show: "lo \<le> unat v \<Longrightarrow> unat v \<le> hi \<Longrightarrow> parse (Some (show_nat (unat v))) = Some v"
  by (simp add: parse_exact dec_accepts_def show_nat_digits)

lemma parse_rejects: "\<not> list_all is_digit s \<Longrightarrow> parse (Some s) = None"
  by (simp add: parse_exact dec_accepts_def)

end

lemmas dec_simps = dec_accepts_def strtoull_digits word_less_of_nat word_greater_of_nat word_zero_of_nat
  ucast_of_nat_u32

interpretation ace_u64: decimal_parser "\<lambda>t. ace_parse_u64 t lo hi" "unat lo" "unat hi" for lo and hi
proof
  show "ace_parse_u64 t lo hi = map_option of_nat (dec_accepts t (unat lo) (unat hi))" for t
    using unat_bound [of hi]
    by (auto simp: ace_parse_u64_def dec_simps split: option.splits if_splits)
qed (rule unat_bound)

interpretation sender_u64: decimal_parser "\<lambda>t. sender_parse_u64 t lo hi" "unat lo" "unat hi" for lo and hi
proof
  show "sender_parse_u64 t lo hi = map_option of_nat (dec_accepts t (unat lo) (unat hi))" for t
    using unat_bound [of hi]
    by (auto simp: sender_parse_u64_def dec_simps split: option.splits if_splits)
qed (rule unat_bound)

interpretation receiver_u64: decimal_parser "\<lambda>t. receiver_parse_u64 t lo hi" "unat lo" "unat hi" for lo and hi
proof
  show "receiver_parse_u64 t lo hi = map_option of_nat (dec_accepts t (unat lo) (unat hi))" for t
    using unat_bound [of hi]
    by (auto simp: receiver_parse_u64_def dec_simps split: option.splits if_splits)
qed (rule unat_bound)

interpretation phc_u32: decimal_parser "\<lambda>t. parse_unsigned t lo hi" "unat lo" "unat hi" for lo and hi
proof
  show "parse_unsigned t lo hi = map_option of_nat (dec_accepts t (unat lo) (unat hi))" for t
    using unat_bound [of hi]
    by (auto simp: parse_unsigned_def dec_simps split: option.splits if_splits)
qed (rule unat_bound)

interpretation loader_u32: decimal_parser "\<lambda>t. res_option (loader_parse_u32 t lo hi)" "unat lo" "unat hi" for lo and hi
proof
  show "res_option (loader_parse_u32 t lo hi) = map_option of_nat (dec_accepts t (unat lo) (unat hi))" for t
    using unat_bound [of hi]
    by (auto simp: loader_parse_u32_def dec_simps split: option.splits if_splits)
qed (rule unat_bound)

interpretation cpu_u64: decimal_parser "\<lambda>t. unsigned_value t" "0" "2 ^ 64 - 1"
proof
  show "unsigned_value t = map_option of_nat (dec_accepts t (0) (2 ^ 64 - 1))" for t
    by (auto simp: unsigned_value_def dec_simps split: option.splits if_splits)
qed simp

interpretation queue_u32: decimal_parser "\<lambda>t. res_option (parse_queue_id t)" "0" "2 ^ 32 - 1"
proof
  show "res_option (parse_queue_id t) = map_option of_nat (dec_accepts t (0) (2 ^ 32 - 1))" for t
    by (auto simp: parse_queue_id_def dec_simps split: option.splits if_splits)
qed simp

interpretation capacity_u32: decimal_parser "\<lambda>t. res_option (parse_record_capacity t)" "1" "1048576"
proof
  show "res_option (parse_record_capacity t) = map_option of_nat (dec_accepts t (1) (1048576))" for t
    by (auto simp: parse_record_capacity_def dec_simps split: option.splits if_splits)
qed simp

section \<open>Properties\<close>

text \<open>
  The eight copies of the numeric option parser accept exactly the same texts: a
  non-empty string of decimal digits whose value lies within the bounds, whatever its length
  (leading zeros, values beyond 64 bits), and return that value; a null pointer, an empty text,
  a sign, a blank or any other character is an error.
\<close>

theorem option_parsers_exact:
  "ace_parse_u64 t lo hi = map_option of_nat (dec_accepts t (unat lo) (unat hi)) \<and>
   sender_parse_u64 t lo hi = map_option of_nat (dec_accepts t (unat lo) (unat hi)) \<and>
   receiver_parse_u64 t lo hi = map_option of_nat (dec_accepts t (unat lo) (unat hi)) \<and>
   parse_unsigned t a b = map_option of_nat (dec_accepts t (unat a) (unat b)) \<and>
   res_option (loader_parse_u32 t a b) = map_option of_nat (dec_accepts t (unat a) (unat b)) \<and>
   unsigned_value t = map_option of_nat (dec_accepts t 0 (2 ^ 64 - 1)) \<and>
   res_option (parse_queue_id t) = map_option of_nat (dec_accepts t 0 (2 ^ 32 - 1)) \<and>
   res_option (parse_record_capacity t) = map_option of_nat (dec_accepts t 1 1048576)"
  by (intro conjI ace_u64.parse_exact sender_u64.parse_exact receiver_u64.parse_exact
      phc_u32.parse_exact loader_u32.parse_exact cpu_u64.parse_exact queue_u32.parse_exact
      capacity_u32.parse_exact)

text \<open>
  Printing a value in decimal and parsing it back gives the value, for every
  value within the bounds: what one program of the suite passes to another on its command line
  (ports, queue ids, record capacities, deadlines) arrives unchanged.
\<close>

theorem option_parsers_roundtrip:
  assumes "lo \<le> v" "v \<le> hi" "a \<le> w" "w \<le> b"
  shows "ace_parse_u64 (Some (show_nat (unat v))) lo hi = Some v \<and>
    sender_parse_u64 (Some (show_nat (unat v))) lo hi = Some v \<and>
    receiver_parse_u64 (Some (show_nat (unat v))) lo hi = Some v \<and>
    parse_unsigned (Some (show_nat (unat w))) a b = Some w \<and>
    res_option (loader_parse_u32 (Some (show_nat (unat w))) a b) = Some w \<and>
    res_option (parse_queue_id (Some (show_nat (unat w)))) = Some w"
  using assms unat_bound [of w]
  by (auto simp: word_le_nat_alt intro!: ace_u64.parse_show sender_u64.parse_show
      receiver_u64.parse_show phc_u32.parse_show loader_u32.parse_show queue_u32.parse_show)

theorem option_parsers_roundtrip_witness:
  "ace_parse_u64 (Some (show_nat (unat (9001 :: u64)))) 1 65535 = Some 9001 \<and>
   res_option (parse_queue_id (Some (show_nat (unat (3 :: u32))))) = Some 3"
  using option_parsers_roundtrip [of 1 9001 65535 0 3 4] by simp

end
