(* ===== verification/Command_Line.thy ===== *)
theory Command_Line
  imports Decimal_Text Ace_Abi
begin

text \<open>
  The command lines of the four programs: \<^verbatim>\<open>udp_socket/src/sender.c\<close> and \<^verbatim>\<open>receiver.c\<close>
  (\<^verbatim>\<open>parse_arguments\<close>), \<^verbatim>\<open>BPF/xdp_loader.c\<close> and \<^verbatim>\<open>BPF/afxdp_recv.c\<close> (\<^verbatim>\<open>parse_options\<close>).  The library's
  \<^verbatim>\<open>getopt_long\<close> turns the arguments into a list of options with their \<^verbatim>\<open>optarg\<close> and the operands
  left over; the models start from that list.  Each program supplies a handler for one option
  and a final test; the loop over the options is the same and is treated once, in the locale
  \<open>option_handler\<close>.
\<close>

datatype 'c cli_result = Cli_ok 'c | Cli_bad | Cli_help

primrec cli_loop :: "('o \<Rightarrow> 'c \<Rightarrow> 'c cli_result) \<Rightarrow> 'o list \<Rightarrow> 'c \<Rightarrow> 'c cli_result" where
  "cli_loop handle [] c = Cli_ok c"
| "cli_loop handle (opt # opts) c =
     (case handle opt c of
        Cli_ok c' \<Rightarrow> cli_loop handle opts c'
      | Cli_bad \<Rightarrow> Cli_bad
      | Cli_help \<Rightarrow> Cli_help)"

text \<open>The contract of a handler: it keeps what holds of the configuration.\<close>

locale option_handler =
  fixes handle :: "'o \<Rightarrow> 'c \<Rightarrow> 'c cli_result" and ok :: "'c \<Rightarrow> bool"
  assumes handle_ok: "ok c \<Longrightarrow> handle opt c = Cli_ok c' \<Longrightarrow> ok c'"
begin

lemma loop_ok: "ok c \<Longrightarrow> cli_loop handle opts c = Cli_ok c' \<Longrightarrow> ok c'"
  by (induction opts arbitrary: c) (auto split: cli_result.splits dest: handle_ok)

end

abbreviation UINT16_MAX :: u64 where "UINT16_MAX \<equiv> 65535"
abbreviation UINT32_MAX :: u64 where "UINT32_MAX \<equiv> 4294967295"
abbreviation UINT64_MAX :: u64 where "UINT64_MAX \<equiv> 18446744073709551615"
abbreviation INT64_MAX :: u64 where "INT64_MAX \<equiv> 9223372036854775807"
abbreviation ACE_MAX_UDP_PAYLOAD :: nat where "ACE_MAX_UDP_PAYLOAD \<equiv> 1472"

text \<open>The completion descriptor: unset, or an inherited descriptor above the standard streams.\<close>

definition fd_of :: "u64 \<Rightarrow> int" where "fd_of v = int (unat v)"

definition fd_ok :: "int \<Rightarrow> bool" where "fd_ok fd \<longleftrightarrow> fd = -1 \<or> 3 \<le> fd \<and> fd < 2147483648"

lemma fd_ok_of: "3 \<le> unat v \<Longrightarrow> unat v \<le> INT_MAX \<Longrightarrow> fd_ok (fd_of v)"
  unfolding fd_ok_def fd_of_def by (intro disjI2 conjI) linarith+

text \<open>Reading one numeric \<^verbatim>\<open>optarg\<close> into a field.\<close>

definition with_value :: "'v option \<Rightarrow> ('v \<Rightarrow> 'c) \<Rightarrow> 'c cli_result" where
  "with_value parsed assign = (case parsed of None \<Rightarrow> Cli_bad | Some v \<Rightarrow> Cli_ok (assign v))"

text \<open>A non-empty string \<^verbatim>\<open>optarg\<close> (\<^verbatim>\<open>if (!*optarg) return -1\<close>).\<close>

definition with_text :: "string \<Rightarrow> 'c \<Rightarrow> 'c cli_result" where
  "with_text optarg c = (if optarg = [] then Cli_bad else Cli_ok c)"

lemma with_value_ok [simp]: "with_value p f = Cli_ok c \<longleftrightarrow> (\<exists>v. p = Some v \<and> c = f v)"
  by (auto simp: with_value_def split: option.splits)

lemma with_text_ok [simp]: "with_text s f = Cli_ok c \<longleftrightarrow> s \<noteq> [] \<and> c = f"
  by (auto simp: with_text_def)

section \<open>sender\<close>

record sender_config =
  sc_destination :: "string option"
  sc_ready_file :: "string option"
  sc_stats_json :: "string option"
  sc_start_file :: "string option"
  sc_port :: u16
  sc_flow_id :: u32
  sc_payload_size :: u32
  sc_period_ns :: u64
  sc_packet_count :: u64
  sc_start_at_ns :: u64
  sc_completion_fd :: int
  sc_defer_flush :: bool
  sc_flow_id_set :: bool

datatype sender_opt =
    S_completion_fd string | S_defer_flush | S_start_file string | S_ready_file string
  | S_stats_json string | S_start_at_ns string | S_port string | S_flow_id string
  | S_payload_size string | S_count string | S_period_ns string | S_help | S_unknown

definition sender_defaults :: sender_config where
  "sender_defaults =
     \<lparr>sc_destination = None, sc_ready_file = None, sc_stats_json = None, sc_start_file = None,
      sc_port = 9000, sc_flow_id = 0, sc_payload_size = 64, sc_period_ns = 1000000,
      sc_packet_count = 200000, sc_start_at_ns = 0, sc_completion_fd = -1,
      sc_defer_flush = False, sc_flow_id_set = False\<rparr>"

fun sender_option :: "sender_opt \<Rightarrow> sender_config \<Rightarrow> sender_config cli_result" where
  "sender_option (S_completion_fd a) c =
     with_value (ace_parse_u64 (Some a) 3 (of_nat INT_MAX)) (\<lambda>v. c\<lparr>sc_completion_fd := fd_of v\<rparr>)"
| "sender_option S_defer_flush c = Cli_ok (c\<lparr>sc_defer_flush := True\<rparr>)"
| "sender_option (S_start_file a) c = with_text a (c\<lparr>sc_start_file := Some a\<rparr>)"
| "sender_option (S_ready_file a) c = with_text a (c\<lparr>sc_ready_file := Some a\<rparr>)"
| "sender_option (S_stats_json a) c = with_text a (c\<lparr>sc_stats_json := Some a\<rparr>)"
| "sender_option (S_start_at_ns a) c =
     with_value (ace_parse_u64 (Some a) 1 INT64_MAX) (\<lambda>v. c\<lparr>sc_start_at_ns := v\<rparr>)"
| "sender_option (S_port a) c =
     with_value (sender_parse_u64 (Some a) 1 UINT16_MAX) (\<lambda>v. c\<lparr>sc_port := ucast v\<rparr>)"
| "sender_option (S_flow_id a) c =
     with_value (sender_parse_u64 (Some a) 0 UINT32_MAX) (\<lambda>v. c\<lparr>sc_flow_id := ucast v, sc_flow_id_set := True\<rparr>)"
| "sender_option (S_payload_size a) c =
     with_value (sender_parse_u64 (Some a) 0 (of_nat (ACE_MAX_UDP_PAYLOAD - 32))) (\<lambda>v. c\<lparr>sc_payload_size := ucast v\<rparr>)"
| "sender_option (S_count a) c =
     with_value (sender_parse_u64 (Some a) 1 UINT64_MAX) (\<lambda>v. c\<lparr>sc_packet_count := v\<rparr>)"
| "sender_option (S_period_ns a) c =
     with_value (sender_parse_u64 (Some a) 1 INT64_MAX) (\<lambda>v. c\<lparr>sc_period_ns := v\<rparr>)"
| "sender_option S_help c = Cli_help"
| "sender_option S_unknown c = Cli_bad"

definition sender_parse_arguments :: "sender_opt list \<Rightarrow> string list \<Rightarrow> sender_config cli_result" where
  "sender_parse_arguments opts operands =
     (case cli_loop sender_option opts sender_defaults of
        Cli_bad \<Rightarrow> Cli_bad
      | Cli_help \<Rightarrow> Cli_help
      | Cli_ok c \<Rightarrow>
          if \<not> sc_flow_id_set c \<or> length operands \<noteq> 1 then Cli_bad
          else if sc_start_file c \<noteq> None \<and> sc_start_at_ns c \<noteq> 0 then Cli_bad
          else if sc_defer_flush c \<and> sc_completion_fd c < 0 then Cli_bad
          else Cli_ok (c\<lparr>sc_destination := Some (hd operands)\<rparr>))"

definition sender_fields_ok :: "sender_config \<Rightarrow> bool" where
  "sender_fields_ok c \<longleftrightarrow>
     0 < unat (sc_port c) \<and> unat (sc_payload_size c) + 32 \<le> ACE_MAX_UDP_PAYLOAD \<and>
     0 < unat (sc_period_ns c) \<and> unat (sc_period_ns c) < 2 ^ 63 \<and> 0 < unat (sc_packet_count c) \<and>
     unat (sc_start_at_ns c) < 2 ^ 63 \<and> fd_ok (sc_completion_fd c)"


lemmas parse_ranges = ace_u64.parse_bounds sender_u64.parse_bounds receiver_u64.parse_bounds

interpretation sender_cli: option_handler sender_option sender_fields_ok
proof
  fix c c' opt
  assume "sender_fields_ok c" "sender_option opt c = Cli_ok c'"
  then show "sender_fields_ok c'"
    by (cases opt) (auto simp: sender_fields_ok_def unsigned_ucast_eq take_bit_eq_mod fd_ok_of dest!: parse_ranges)
qed

section \<open>receiver\<close>

record receiver_config =
  vc_bind_address :: string
  vc_tmpfs_path :: string
  vc_result_path :: string
  vc_interface_name :: "string option"
  vc_ready_file :: "string option"
  vc_stats_json :: "string option"
  vc_port :: u16
  vc_flow_id :: u32
  vc_payload_size :: u32
  vc_expected_samples :: u64
  vc_drain_ms :: u64
  vc_idle_timeout_ms :: u64
  vc_require_hwts :: bool
  vc_flow_id_set :: bool
  vc_defer_flush :: bool
  vc_completion_fd :: int

datatype receiver_opt =
    V_completion_fd string | V_defer_flush | V_ready_file string | V_stats_json string
  | V_drain_ms string | V_idle_timeout_ms string | V_bind string | V_port string | V_flow_id string
  | V_payload_size string | V_count string | V_tmpfs string | V_output string | V_interface string
  | V_require_hwts | V_help | V_unknown

definition receiver_defaults :: receiver_config where
  "receiver_defaults =
     \<lparr>vc_bind_address = ''0.0.0.0'', vc_tmpfs_path = ''/dev/shm/ace_udp_samples.tmp'',
      vc_result_path = ''./samples.bin'', vc_interface_name = None, vc_ready_file = None,
      vc_stats_json = None, vc_port = 9000, vc_flow_id = 0, vc_payload_size = 64,
      vc_expected_samples = 200000, vc_drain_ms = 100, vc_idle_timeout_ms = 0,
      vc_require_hwts = False, vc_flow_id_set = False, vc_defer_flush = False, vc_completion_fd = -1\<rparr>"

text \<open>
  \<^verbatim>\<open>IFNAMSIZ\<close> is 16 and the bound of \<^verbatim>\<open>--count\<close> is \<^verbatim>\<open>INT64_MAX / sizeof(struct sample_record)\<close>,
  with a record of 56 bytes.
\<close>

fun receiver_option :: "receiver_opt \<Rightarrow> receiver_config \<Rightarrow> receiver_config cli_result" where
  "receiver_option (V_completion_fd a) c =
     with_value (ace_parse_u64 (Some a) 3 (of_nat INT_MAX)) (\<lambda>v. c\<lparr>vc_completion_fd := fd_of v\<rparr>)"
| "receiver_option V_defer_flush c = Cli_ok (c\<lparr>vc_defer_flush := True\<rparr>)"
| "receiver_option (V_ready_file a) c = with_text a (c\<lparr>vc_ready_file := Some a\<rparr>)"
| "receiver_option (V_stats_json a) c = with_text a (c\<lparr>vc_stats_json := Some a\<rparr>)"
| "receiver_option (V_drain_ms a) c =
     with_value (ace_parse_u64 (Some a) 0 UINT32_MAX) (\<lambda>v. c\<lparr>vc_drain_ms := v\<rparr>)"
| "receiver_option (V_idle_timeout_ms a) c =
     with_value (ace_parse_u64 (Some a) 0 UINT32_MAX) (\<lambda>v. c\<lparr>vc_idle_timeout_ms := v\<rparr>)"
| "receiver_option (V_bind a) c = Cli_ok (c\<lparr>vc_bind_address := a\<rparr>)"
| "receiver_option (V_port a) c =
     with_value (receiver_parse_u64 (Some a) 1 UINT16_MAX) (\<lambda>v. c\<lparr>vc_port := ucast v\<rparr>)"
| "receiver_option (V_flow_id a) c =
     with_value (receiver_parse_u64 (Some a) 0 UINT32_MAX) (\<lambda>v. c\<lparr>vc_flow_id := ucast v, vc_flow_id_set := True\<rparr>)"
| "receiver_option (V_payload_size a) c =
     with_value (receiver_parse_u64 (Some a) 0 (of_nat (ACE_MAX_UDP_PAYLOAD - 32))) (\<lambda>v. c\<lparr>vc_payload_size := ucast v\<rparr>)"
| "receiver_option (V_count a) c =
     with_value (receiver_parse_u64 (Some a) 1 164703072086692425) (\<lambda>v. c\<lparr>vc_expected_samples := v\<rparr>)"
| "receiver_option (V_tmpfs a) c = Cli_ok (c\<lparr>vc_tmpfs_path := a\<rparr>)"
| "receiver_option (V_output a) c = Cli_ok (c\<lparr>vc_result_path := a\<rparr>)"
| "receiver_option (V_interface a) c =
     (if a = [] \<or> length a \<ge> 16 then Cli_bad else Cli_ok (c\<lparr>vc_interface_name := Some a\<rparr>))"
| "receiver_option V_require_hwts c = Cli_ok (c\<lparr>vc_require_hwts := True\<rparr>)"
| "receiver_option V_help c = Cli_help"
| "receiver_option V_unknown c = Cli_bad"

definition receiver_parse_arguments :: "receiver_opt list \<Rightarrow> string list \<Rightarrow> receiver_config cli_result" where
  "receiver_parse_arguments opts operands =
     (case cli_loop receiver_option opts receiver_defaults of
        Cli_bad \<Rightarrow> Cli_bad
      | Cli_help \<Rightarrow> Cli_help
      | Cli_ok c \<Rightarrow> if vc_flow_id_set c \<and> operands = [] then Cli_ok c else Cli_bad)"

definition receiver_fields_ok :: "receiver_config \<Rightarrow> bool" where
  "receiver_fields_ok c \<longleftrightarrow>
     0 < unat (vc_port c) \<and> unat (vc_payload_size c) + 32 \<le> ACE_MAX_UDP_PAYLOAD \<and>
     0 < unat (vc_expected_samples c) \<and> 56 * unat (vc_expected_samples c) < 2 ^ 63 \<and>
     unat (vc_drain_ms c) < 2 ^ 32 \<and> unat (vc_idle_timeout_ms c) < 2 ^ 32 \<and>
     pred_option (\<lambda>name. name \<noteq> [] \<and> length name < 16) (vc_interface_name c) \<and>
     fd_ok (vc_completion_fd c)"

interpretation receiver_cli: option_handler receiver_option receiver_fields_ok
proof
  fix c c' opt
  assume "receiver_fields_ok c" "receiver_option opt c = Cli_ok c'"
  then show "receiver_fields_ok c'"
    by (cases opt) (auto simp: receiver_fields_ok_def unsigned_ucast_eq take_bit_eq_mod fd_ok_of split: if_splits dest!: parse_ranges)
qed

section \<open>loader\<close>

record loader_options =
  lo_ifname :: string
  lo_output_dir :: "string option"
  lo_output_prefix :: string
  lo_ready_path :: "string option"
  lo_mode :: u32
  lo_record_capacity :: u32
  lo_quiet :: bool
  lo_recover :: bool
  lo_cleanup_pins :: bool

datatype loader_opt =
    L_output_dir string | L_prefix string | L_quiet | L_verbose | L_records string | L_mode string
  | L_ready_file string | L_recover | L_cleanup_pins | L_help | L_unknown

definition loader_defaults :: loader_options where
  "loader_defaults =
     \<lparr>lo_ifname = ''eth0'', lo_output_dir = None, lo_output_prefix = [], lo_ready_path = None,
      lo_mode = ACE_FORWARD_MIXED, lo_record_capacity = of_nat ACE_XDP_RECORD_DEFAULT_ENTRIES,
      lo_quiet = True, lo_recover = False, lo_cleanup_pins = False\<rparr>"

fun loader_option :: "loader_opt \<Rightarrow> loader_options \<Rightarrow> loader_options cli_result" where
  "loader_option (L_output_dir a) c = Cli_ok (c\<lparr>lo_output_dir := Some a\<rparr>)"
| "loader_option (L_prefix a) c = Cli_ok (c\<lparr>lo_output_prefix := a\<rparr>)"
| "loader_option L_quiet c = Cli_ok (c\<lparr>lo_quiet := True\<rparr>)"
| "loader_option L_verbose c = Cli_ok (c\<lparr>lo_quiet := False\<rparr>)"
| "loader_option (L_records a) c =
     with_value (res_option (loader_parse_u32 (Some a) 1 (of_nat ACE_XDP_RECORD_MAX_ENTRIES)))
       (\<lambda>v. c\<lparr>lo_record_capacity := v\<rparr>)"
| "loader_option (L_mode a) c =
     (if a = ''mixed'' then Cli_ok (c\<lparr>lo_mode := ACE_FORWARD_MIXED\<rparr>)
      else if a = ''all-pass'' then Cli_ok (c\<lparr>lo_mode := ACE_FORWARD_ALL_PASS\<rparr>)
      else if a = ''pass-xsk'' then Cli_ok (c\<lparr>lo_mode := ACE_FORWARD_PASS_XSK\<rparr>)
      else Cli_bad)"
| "loader_option (L_ready_file a) c = with_text a (c\<lparr>lo_ready_path := Some a\<rparr>)"
| "loader_option L_recover c = Cli_ok (c\<lparr>lo_recover := True\<rparr>)"
| "loader_option L_cleanup_pins c = Cli_ok (c\<lparr>lo_cleanup_pins := True\<rparr>)"
| "loader_option L_help c = Cli_help"
| "loader_option L_unknown c = Cli_bad"

definition prefix_char :: "char \<Rightarrow> bool" where
  "prefix_char c \<longleftrightarrow>
     (let n = char_code c in
      97 \<le> n \<and> n \<le> 122 \<or> 65 \<le> n \<and> n \<le> 90 \<or> 48 \<le> n \<and> n \<le> 57 \<or> n = 95 \<or> n = 45 \<or> n = 46)"

definition loader_parse_options :: "loader_opt list \<Rightarrow> string list \<Rightarrow> loader_options cli_result" where
  "loader_parse_options opts operands =
     (case cli_loop loader_option opts loader_defaults of
        Cli_bad \<Rightarrow> Cli_bad
      | Cli_help \<Rightarrow> Cli_help
      | Cli_ok c \<Rightarrow>
          (let c = (case operands of [] \<Rightarrow> c | name # _ \<Rightarrow> c\<lparr>lo_ifname := name\<rparr>) in
           if length operands > 1 then Cli_bad
           else if lo_output_dir c = None then Cli_bad
           else if lo_recover c \<and> lo_ready_path c \<noteq> None then Cli_bad
           else if lo_cleanup_pins c \<and> \<not> lo_recover c then Cli_bad
           else if \<not> list_all prefix_char (lo_output_prefix c) then Cli_bad
           else if length (lo_output_prefix c) > 64 then Cli_bad
           else Cli_ok c))"

definition loader_fields_ok :: "loader_options \<Rightarrow> bool" where
  "loader_fields_ok c \<longleftrightarrow>
     1 \<le> unat (lo_record_capacity c) \<and> unat (lo_record_capacity c) \<le> ACE_XDP_RECORD_MAX_ENTRIES \<and>
     lo_mode c \<in> {ACE_FORWARD_MIXED, ACE_FORWARD_ALL_PASS, ACE_FORWARD_PASS_XSK}"

interpretation loader_cli: option_handler loader_option loader_fields_ok
proof
  fix c c' opt
  assume "loader_fields_ok c" "loader_option opt c = Cli_ok c'"
  then show "loader_fields_ok c'"
    by (cases opt) (auto simp: loader_fields_ok_def split: if_splits dest!: loader_u32.parse_bounds)
qed

section \<open>AF_XDP receiver\<close>

record receiver_options =
  ro_ifname :: string
  ro_output_path :: "string option"
  ro_ready_path :: "string option"
  ro_stats_path :: "string option"
  ro_drain_ms :: u32
  ro_completion_fd :: int
  ro_defer_flush :: bool
  ro_busy_poll :: bool
  ro_start_gated :: bool
  ro_busy_timeout_sec :: u32
  ro_queue_id :: u32
  ro_record_capacity :: u32
  ro_records_explicit :: bool

datatype afxdp_opt =
    A_output string | A_records string | A_ready_file string | A_stats_json string | A_drain_ms string
  | A_completion_fd string | A_defer_flush | A_busy | A_start_gated | A_busy_timeout_sec string
  | A_help | A_unknown

definition afxdp_defaults :: receiver_options where
  "afxdp_defaults =
     \<lparr>ro_ifname = ''eth0'', ro_output_path = None, ro_ready_path = None, ro_stats_path = None,
      ro_drain_ms = 100, ro_completion_fd = -1, ro_defer_flush = False, ro_busy_poll = False,
      ro_start_gated = False, ro_busy_timeout_sec = 90, ro_queue_id = 0,
      ro_record_capacity = of_nat ACE_XDP_RECORD_DEFAULT_ENTRIES, ro_records_explicit = False\<rparr>"

fun afxdp_option :: "afxdp_opt \<Rightarrow> receiver_options \<Rightarrow> receiver_options cli_result" where
  "afxdp_option (A_output a) c = Cli_ok (c\<lparr>ro_output_path := Some a\<rparr>)"
| "afxdp_option (A_records a) c =
     with_value (res_option (parse_record_capacity (Some a)))
       (\<lambda>v. c\<lparr>ro_record_capacity := v, ro_records_explicit := True\<rparr>)"
| "afxdp_option (A_ready_file a) c = with_text a (c\<lparr>ro_ready_path := Some a\<rparr>)"
| "afxdp_option (A_stats_json a) c = with_text a (c\<lparr>ro_stats_path := Some a\<rparr>)"
| "afxdp_option (A_drain_ms a) c =
     with_value (ace_parse_u64 (Some a) 0 60000) (\<lambda>v. c\<lparr>ro_drain_ms := ucast v\<rparr>)"
| "afxdp_option (A_completion_fd a) c =
     with_value (ace_parse_u64 (Some a) 3 (of_nat INT_MAX)) (\<lambda>v. c\<lparr>ro_completion_fd := fd_of v\<rparr>)"
| "afxdp_option A_defer_flush c = Cli_ok (c\<lparr>ro_defer_flush := True\<rparr>)"
| "afxdp_option A_busy c = Cli_ok (c\<lparr>ro_busy_poll := True\<rparr>)"
| "afxdp_option A_start_gated c = Cli_ok (c\<lparr>ro_start_gated := True\<rparr>)"
| "afxdp_option (A_busy_timeout_sec a) c =
     with_value (ace_parse_u64 (Some a) 1 172800) (\<lambda>v. c\<lparr>ro_busy_timeout_sec := ucast v\<rparr>)"
| "afxdp_option A_help c = Cli_help"
| "afxdp_option A_unknown c = Cli_bad"

definition afxdp_parse_options :: "afxdp_opt list \<Rightarrow> string list \<Rightarrow> receiver_options cli_result" where
  "afxdp_parse_options opts operands =
     (case cli_loop afxdp_option opts afxdp_defaults of
        Cli_bad \<Rightarrow> Cli_bad
      | Cli_help \<Rightarrow> Cli_help
      | Cli_ok c \<Rightarrow>
          (let c = (case operands of [] \<Rightarrow> c | name # _ \<Rightarrow> c\<lparr>ro_ifname := name\<rparr>);
               queue = (case operands of _ # q # _ \<Rightarrow> res_option (parse_queue_id (Some q)) | _ \<Rightarrow> Some (ro_queue_id c)) in
           case queue of
             None \<Rightarrow> Cli_bad
           | Some q \<Rightarrow>
               if (ro_start_gated c \<and> \<not> ro_busy_poll c) \<or> length operands > 2 \<or>
                  ro_output_path c = None \<or> ro_output_path c = Some []
               then Cli_bad else Cli_ok (c\<lparr>ro_queue_id := q\<rparr>)))"

definition afxdp_fields_ok :: "receiver_options \<Rightarrow> bool" where
  "afxdp_fields_ok c \<longleftrightarrow>
     1 \<le> unat (ro_record_capacity c) \<and> unat (ro_record_capacity c) \<le> ACE_XDP_RECORD_MAX_ENTRIES \<and>
     unat (ro_drain_ms c) \<le> 60000 \<and> 1 \<le> unat (ro_busy_timeout_sec c) \<and> unat (ro_busy_timeout_sec c) \<le> 172800 \<and>
     fd_ok (ro_completion_fd c)"

interpretation afxdp_cli: option_handler afxdp_option afxdp_fields_ok
proof
  fix c c' opt
  assume "afxdp_fields_ok c" "afxdp_option opt c = Cli_ok c'"
  then show "afxdp_fields_ok c'"
    by (cases opt) (auto simp: afxdp_fields_ok_def unsigned_ucast_eq take_bit_eq_mod fd_ok_of dest!: parse_ranges capacity_u32.parse_bounds)
qed


section \<open>What an accepted command line guarantees\<close>

lemma sender_defaults_ok: "sender_fields_ok sender_defaults"
  by (simp add: sender_fields_ok_def sender_defaults_def fd_ok_def)

lemma receiver_defaults_ok: "receiver_fields_ok receiver_defaults"
  by (simp add: receiver_fields_ok_def receiver_defaults_def fd_ok_def)

lemma loader_defaults_ok: "loader_fields_ok loader_defaults"
  by (simp add: loader_fields_ok_def loader_defaults_def)

lemma afxdp_defaults_ok: "afxdp_fields_ok afxdp_defaults"
  by (simp add: afxdp_fields_ok_def afxdp_defaults_def fd_ok_def)

text \<open>
  A command line the sender accepts, whatever the options and their order, gives a
  configuration in range: a port, a datagram that fits the MTU, a positive period and packet
  count, a start deadline below \<open>2 ^ 63\<close>, a flow id and exactly one destination; not two start
  conditions at once; and a deferred flush only with a completion descriptor.
\<close>

theorem sender_arguments_checked:
  assumes "sender_parse_arguments opts operands = Cli_ok c"
  shows "sender_fields_ok c \<and> sc_flow_id_set c \<and> (\<exists>d. operands = [d] \<and> sc_destination c = Some d) \<and>
    (sc_start_file c = None \<or> sc_start_at_ns c = 0) \<and> (sc_defer_flush c \<longrightarrow> 3 \<le> sc_completion_fd c)"
proof -
  obtain c0 where c0: "cli_loop sender_option opts sender_defaults = Cli_ok c0"
    "sc_flow_id_set c0" "length operands = 1" "sc_start_file c0 = None \<or> sc_start_at_ns c0 = 0"
    "sc_defer_flush c0 \<longrightarrow> \<not> sc_completion_fd c0 < 0" "c = c0\<lparr>sc_destination := Some (hd operands)\<rparr>"
    using assms by (auto simp: sender_parse_arguments_def split: cli_result.splits if_splits)
  have "sender_fields_ok c0" using sender_cli.loop_ok [OF sender_defaults_ok c0(1)] .
  then show ?thesis using c0
    by (cases operands) (auto simp: sender_fields_ok_def fd_ok_def)
qed

theorem sender_arguments_checked_witness:
  "\<exists>c. sender_parse_arguments [S_flow_id ''7'', S_completion_fd ''5'', S_defer_flush] [''10.0.0.2''] = Cli_ok c \<and>
     sender_fields_ok c \<and> 3 \<le> sc_completion_fd c"
proof -
  have p: "\<exists>c. sender_parse_arguments [S_flow_id ''7'', S_completion_fd ''5'', S_defer_flush] [''10.0.0.2''] = Cli_ok c \<and>
      sc_defer_flush c"
    using sender_u64.parse_show [of 0 "7 :: u64" UINT32_MAX] ace_u64.parse_show [of 3 "5 :: u64" "of_nat INT_MAX"]
    by (simp add: sender_parse_arguments_def sender_defaults_def show_nat_eval with_value_def fd_of_def)
  then show ?thesis using sender_arguments_checked by blast
qed

text \<open>
  A command line the UDP receiver accepts gives a port, a datagram that fits the MTU,
  a positive number of samples whose record array of 56 bytes each stays below \<open>2 ^ 63\<close> bytes (so the
  size computation does not wrap), waiting times of 32 bits and an interface name that fits \<^verbatim>\<open>IFNAMSIZ\<close>.
\<close>

theorem receiver_arguments_checked:
  assumes "receiver_parse_arguments opts operands = Cli_ok c"
  shows "receiver_fields_ok c \<and> vc_flow_id_set c \<and> operands = []"
proof -
  have "cli_loop receiver_option opts receiver_defaults = Cli_ok c" "vc_flow_id_set c" "operands = []"
    using assms by (auto simp: receiver_parse_arguments_def split: cli_result.splits if_splits)
  then show ?thesis using receiver_cli.loop_ok [OF receiver_defaults_ok] by blast
qed

theorem receiver_arguments_checked_witness:
  "\<exists>c. receiver_parse_arguments [V_flow_id ''7''] [] = Cli_ok c \<and> receiver_fields_ok c"
proof -
  have "\<exists>c. receiver_parse_arguments [V_flow_id ''7''] [] = Cli_ok c"
    using receiver_u64.parse_show [of 0 "7 :: u64" UINT32_MAX]
    by (simp add: receiver_parse_arguments_def receiver_defaults_def show_nat_eval with_value_def)
  then show ?thesis using receiver_arguments_checked by blast
qed

text \<open>
  A command line the loader accepts names an output directory, a forwarding mode of the
  three the classifier knows, a record capacity within the maps' limit and a file-name prefix of at
  most 64 characters without a path separator; recovery never publishes readiness, and pins are
  cleaned up only in recovery.
\<close>

theorem loader_options_checked:
  assumes "loader_parse_options opts operands = Cli_ok c"
  shows "loader_fields_ok c \<and> lo_output_dir c \<noteq> None \<and> CHR ''/'' \<notin> set (lo_output_prefix c) \<and>
    length (lo_output_prefix c) \<le> 64 \<and> (lo_recover c \<longrightarrow> lo_ready_path c = None) \<and>
    (lo_cleanup_pins c \<longrightarrow> lo_recover c)"
proof -
  obtain c0 where c0: "cli_loop loader_option opts loader_defaults = Cli_ok c0"
    "c = (case operands of [] \<Rightarrow> c0 | name # _ \<Rightarrow> c0\<lparr>lo_ifname := name\<rparr>)"
    and t: "lo_output_dir c \<noteq> None" "lo_recover c \<longrightarrow> lo_ready_path c = None" "lo_cleanup_pins c \<longrightarrow> lo_recover c"
    "list_all prefix_char (lo_output_prefix c)" "length (lo_output_prefix c) \<le> 64"
    using assms by (auto simp: loader_parse_options_def Let_def split: cli_result.splits if_splits)
  have "loader_fields_ok c0" using loader_cli.loop_ok [OF loader_defaults_ok c0(1)] .
  then have "loader_fields_ok c" using c0(2) by (auto simp: loader_fields_ok_def split: list.splits)
  moreover have "\<not> prefix_char (CHR ''/'')" by (simp add: prefix_char_def char_code_def)
  ultimately show ?thesis using t by (auto simp: list_all_iff)
qed

theorem loader_options_checked_witness:
  "\<exists>c. loader_parse_options [L_output_dir ''out'', L_mode ''pass-xsk''] [''eth1''] = Cli_ok c \<and> loader_fields_ok c"
proof -
  have "\<exists>c. loader_parse_options [L_output_dir ''out'', L_mode ''pass-xsk''] [''eth1''] = Cli_ok c"
    by (simp add: loader_parse_options_def loader_defaults_def)
  then show ?thesis using loader_options_checked by blast
qed

text \<open>
  A command line the AF_XDP receiver accepts names a non-empty output path, a record
  capacity within the limit, a drain window of at most a minute and a busy timeout of at most two
  days; a gated start is accepted only for a busy-polling receiver.
\<close>

theorem afxdp_options_checked:
  assumes "afxdp_parse_options opts operands = Cli_ok c"
  shows "afxdp_fields_ok c \<and> (\<exists>path. ro_output_path c = Some path \<and> path \<noteq> []) \<and>
    (ro_start_gated c \<longrightarrow> ro_busy_poll c) \<and> length operands \<le> 2"
proof (cases "cli_loop afxdp_option opts afxdp_defaults")
  case (Cli_ok c0)
  have "afxdp_fields_ok c0" using afxdp_cli.loop_ok [OF afxdp_defaults_ok Cli_ok] .
  then show ?thesis using assms Cli_ok
    by (auto simp: afxdp_parse_options_def Let_def afxdp_fields_ok_def split: if_splits option.splits list.splits)
qed (use assms in \<open>simp_all add: afxdp_parse_options_def\<close>)

theorem afxdp_options_checked_witness:
  "\<exists>c. afxdp_parse_options [A_output ''x.csv'', A_busy, A_start_gated] [] = Cli_ok c \<and> ro_busy_poll c"
proof -
  have "\<exists>c. afxdp_parse_options [A_output ''x.csv'', A_busy, A_start_gated] [] = Cli_ok c \<and> ro_start_gated c"
    by (simp add: afxdp_parse_options_def afxdp_defaults_def)
  then show ?thesis using afxdp_options_checked by blast
qed

end
