(* ===== verification/Udp_Sender.thy ===== *)
theory Udp_Sender
  imports Command_Line Afxdp_Packet
begin

text \<open>
  The paced sender, \<^verbatim>\<open>udp_socket/src/sender.c\<close>: the schedule of absolute deadlines, the chunked wait
  for a deadline, the send loop with its statistics and the verdict.  Times are \<open>int\<close> (C's
  \<^verbatim>\<open>int64_t\<close>; the schedule test keeps them in range, which is proved), counters are 64-bit words.
  The clocks, \<^verbatim>\<open>clock_nanosleep\<close>, \<^verbatim>\<open>sendto\<close> and the stop flag are inputs of each iteration.
  The \<^verbatim>\<open>long double\<close> sums of the report are left out.
\<close>


section \<open>Deadlines\<close>

record abs_time =
  at_sec :: int
  at_nsec :: int

definition at_ns :: "abs_time \<Rightarrow> int" where
  "at_ns t = at_sec t * 1000000000 + at_nsec t"

definition add_ns :: "abs_time \<Rightarrow> u64 \<Rightarrow> abs_time" where
  "add_ns t nanoseconds =
   (let sec = at_sec t + uint (nanoseconds div 1000000000);
        nsec = at_nsec t + uint (nanoseconds mod 1000000000) in
    if nsec \<ge> 1000000000 then \<lparr>at_sec = sec + 1, at_nsec = nsec - 1000000000\<rparr>
    else \<lparr>at_sec = sec, at_nsec = nsec\<rparr>)"

definition at_normal :: "abs_time \<Rightarrow> bool" where
  "at_normal t \<longleftrightarrow> 0 \<le> at_sec t \<and> 0 \<le> at_nsec t \<and> at_nsec t < 1000000000"

lemma add_ns_at_ns: "at_ns (add_ns t n) = at_ns t + uint n"
proof -
  have "uint n = uint (n div 1000000000) * 1000000000 + uint (n mod 1000000000)"
    by (simp add: uint_div uint_mod)
  then show ?thesis by (simp add: add_ns_def at_ns_def Let_def algebra_simps)
qed

lemma add_ns_normal: "at_normal t \<Longrightarrow> at_normal (add_ns t n)"
proof -
  assume a: "at_normal t"
  have "0 \<le> uint (n mod 1000000000)" "uint (n mod 1000000000) < 1000000000" "0 \<le> uint (n div 1000000000)"
    by (simp_all add: uint_mod)
  with a show ?thesis unfolding at_normal_def add_ns_def Let_def by (auto split: if_splits)
qed

text \<open>
  One round of \<open>sleep_until\<close>: the stop flag, the clock (or its errno), and the result of
  \<^verbatim>\<open>clock_nanosleep\<close>.  The result is the return value (\<open>None\<close>: still waiting when the rounds end)
  with the wake-up times that were requested.
\<close>

record sleep_round =
  sr_stop :: bool
  sr_now :: "errno + int"
  sr_nanosleep :: errno

fun sleep_until :: "int \<Rightarrow> sleep_round list \<Rightarrow> errno option \<times> int list" where
  "sleep_until target [] = (None, [])"
| "sleep_until target (r # rs) =
   (if sr_stop r then (Some EINTR, [])
    else (case sr_now r of
        Inl e \<Rightarrow> (Some e, [])
      | Inr now \<Rightarrow>
          if now \<ge> target then (Some 0, [])
          else (let wake = (if target - now > 10000000 then now + 10000000 else target) in
                if sr_nanosleep r \<noteq> 0 \<and> sr_nanosleep r \<noteq> EINTR then (Some (sr_nanosleep r), [wake])
                else (case sleep_until target rs of (res, wakes) \<Rightarrow> (res, wake # wakes)))))"

section \<open>Starting\<close>

text \<open>
  One look at the start file: the stop flag, opening it (whether it is a regular file, and what one
  \<^verbatim>\<open>read\<close> of at most 79 bytes returns), and the clock.  \<open>None\<close>: still waiting when the looks end.
\<close>

abbreviation ETIME :: errno where "ETIME \<equiv> 62"

record start_look =
  sl_stop :: bool
  sl_open :: "errno + bool \<times> (errno + string)"
  sl_now :: "errno + int"

definition start_deadline :: "string \<Rightarrow> errno + int \<Rightarrow> errno + u64" where
  "start_deadline content now =
   (let value = rev (dropWhile (\<lambda>c. c = CHR 0x0A \<or> c = CHR 0x0D) (rev content)) in
    if content = [] \<or> length content = 79 \<or> CHR 0x00 \<in> set content then Inl EINVAL
    else (case ace_parse_u64 (Some value) 1 INT64_MAX of
        None \<Rightarrow> Inl EINVAL
      | Some deadline \<Rightarrow>
          (case now of
             Inl e \<Rightarrow> Inl e
           | Inr t \<Rightarrow> if deadline \<le> word_of_int t then Inl ETIME else Inr deadline)))"

fun wait_start_file :: "start_look list \<Rightarrow> (errno + u64) option" where
  "wait_start_file [] = None"
| "wait_start_file (l # ls) =
   (if sl_stop l then Some (Inl EINTR)
    else (case sl_open l of
        Inl e \<Rightarrow> if e \<noteq> ENOENT \<and> e \<noteq> EINTR then Some (Inl e) else wait_start_file ls
      | Inr (regular, content) \<Rightarrow>
          if \<not> regular then Some (Inl EINVAL)
          else (case content of
              Inl _ \<Rightarrow> Some (Inl EINVAL)
            | Inr bytes \<Rightarrow> Some (start_deadline (take 79 bytes) (sl_now l)))))"

text \<open>The checks of \<^verbatim>\<open>main\<close> between the start barrier and the loop: \<open>Inl\<close> is the termination reason.\<close>

definition sender_schedule :: "sender_config \<Rightarrow> int option \<Rightarrow> string + abs_time" where
  "sender_schedule config start_ns =
   (case start_ns of
      None \<Rightarrow> Inl ''clock_error''
    | Some start \<Rightarrow>
      (let base_ns = (if sc_start_at_ns config \<noteq> 0 then sc_start_at_ns config else word_of_int start) in
       if sc_start_at_ns config \<noteq> 0 \<and> base_ns \<le> word_of_int start then Inl ''start_deadline_expired''
       else if sc_packet_count config - 1 > (INT64_MAX - base_ns) div sc_period_ns config
       then Inl ''configuration_error''
       else Inr \<lparr>at_sec = uint (base_ns div 1000000000), at_nsec = uint (base_ns mod 1000000000)\<rparr>))"

section \<open>The loop\<close>

record tick =
  tk_stop :: bool
  tk_rounds :: "sleep_round list"
  tk_stop_slept :: bool
  tk_mono :: "int option"
  tk_real :: "int option"
  tk_sendto :: "errno + nat"

record send_call =
  sp_deadline :: int
  sp_actual :: int
  sp_bytes :: "byte list"

record send_state =
  ss_next :: abs_time
  ss_sent :: u64
  ss_errors :: u64
  ss_attempted :: u64
  ss_interval_count :: u64
  ss_interval_min :: u64
  ss_interval_max :: u64
  ss_late_count :: u64
  ss_late_max :: u64
  ss_late_periods :: u64
  ss_previous_tx :: int
  ss_first_tx :: int
  ss_last_tx :: int
  ss_reason :: string
  ss_last_send_errno :: errno
  ss_calls :: "send_call list"

definition sender_header :: "sender_config \<Rightarrow> u64 \<Rightarrow> u64 \<Rightarrow> ace_experiment_header" where
  "sender_header config seq tx_ns =
     \<lparr>eh_magic = ACE_PACKET_MAGIC, eh_version = ACE_PACKET_VERSION, eh_size = ACE_PACKET_HEADER_SIZE,
      eh_flow_id = sc_flow_id config, eh_reserved = 0, eh_sequence = seq, eh_tx_realtime_ns = tx_ns\<rparr>"

text \<open>The packet buffer is zeroed once; only the header bytes are rewritten.\<close>

definition sender_packet :: "sender_config \<Rightarrow> u64 \<Rightarrow> u64 \<Rightarrow> byte list" where
  "sender_packet config seq tx_ns =
     experiment_header_bytes (sender_header config seq tx_ns) @ replicate (unat (sc_payload_size config)) 0"

definition note_timing :: "sender_config \<Rightarrow> int \<Rightarrow> send_state \<Rightarrow> send_state" where
  "note_timing config actual st =
   (let deadline = at_ns (ss_next st);
        lateness = (if actual > deadline then word_of_int (actual - deadline) else 0);
        st = st\<lparr>ss_late_count := ss_late_count st + (if lateness \<noteq> 0 then 1 else 0),
                ss_late_periods := ss_late_periods st + (if lateness \<ge> sc_period_ns config then 1 else 0),
                ss_late_max := (if lateness > ss_late_max st then lateness else ss_late_max st)\<rparr>;
        st = (if ss_previous_tx st \<noteq> 0 then
                (let interval = word_of_int (actual - ss_previous_tx st) in
                 st\<lparr>ss_interval_min := (if interval < ss_interval_min st then interval else ss_interval_min st),
                    ss_interval_max := (if interval > ss_interval_max st then interval else ss_interval_max st),
                    ss_interval_count := ss_interval_count st + 1\<rparr>)
              else st) in
    st\<lparr>ss_previous_tx := actual\<rparr>)"

definition send_packet :: "sender_config \<Rightarrow> nat \<Rightarrow> int \<Rightarrow> int \<Rightarrow> errno + nat \<Rightarrow> send_state \<Rightarrow> send_state" where
  "send_packet config seq actual tx_ns result st =
   (let packet = sender_packet config (of_nat seq) (word_of_int tx_ns);
        st = st\<lparr>ss_first_tx := (if ss_attempted st = 0 then actual else ss_first_tx st),
                ss_last_tx := actual, ss_attempted := ss_attempted st + 1,
                ss_calls := ss_calls st @ [\<lparr>sp_deadline = at_ns (ss_next st), sp_actual = actual, sp_bytes = packet\<rparr>]\<rparr> in
    if result = Inr (length packet) then st\<lparr>ss_sent := ss_sent st + 1\<rparr>
    else st\<lparr>ss_last_send_errno := (case result of Inl e \<Rightarrow> e | Inr _ \<Rightarrow> EIO), ss_errors := ss_errors st + 1\<rparr>)"

datatype loop_exit = Continue send_state | Break send_state

definition send_fails :: "string \<Rightarrow> send_state \<Rightarrow> loop_exit" where
  "send_fails reason st = Break (st\<lparr>ss_errors := ss_errors st + 1, ss_reason := reason\<rparr>)"

definition send_step :: "sender_config \<Rightarrow> nat \<Rightarrow> tick \<Rightarrow> send_state \<Rightarrow> loop_exit option" where
  "send_step config seq t st =
   (let waits = (seq \<noteq> 0 \<or> sc_start_at_ns config \<noteq> 0);
        st = (if seq \<noteq> 0 then st\<lparr>ss_next := add_ns (ss_next st) (sc_period_ns config)\<rparr> else st);
        slept = (if waits then fst (sleep_until (at_ns (ss_next st)) (tk_rounds t)) else Some 0) in
    case slept of
      None \<Rightarrow> None
    | Some sleep_result \<Rightarrow>
        if sleep_result \<noteq> 0 \<and> sleep_result \<noteq> EINTR then Some (send_fails ''sleep_error'' st)
        else if waits \<and> tk_stop_slept t then Some (Break st)
        else (case tk_mono t of
            None \<Rightarrow> Some (send_fails ''clock_error'' st)
          | Some actual \<Rightarrow>
              (let st = note_timing config actual st in
               case tk_real t of
                 None \<Rightarrow> Some (send_fails ''clock_error'' st)
               | Some tx_ns \<Rightarrow> Some (Continue (send_packet config seq actual tx_ns (tk_sendto t) st)))))"

text \<open>
  \<open>send_loop config env left seq st\<close> runs from sequence number \<open>seq\<close> with \<open>left\<close> packets to go;
  \<open>env seq\<close> are the inputs of that iteration.  \<open>None\<close>: a wait had not ended.
\<close>

fun send_loop :: "sender_config \<Rightarrow> (nat \<Rightarrow> tick) \<Rightarrow> nat \<Rightarrow> nat \<Rightarrow> send_state \<Rightarrow> send_state option" where
  "send_loop config env 0 seq st = Some st"
| "send_loop config env (Suc left) seq st =
     (if tk_stop (env seq) then Some st
      else (case send_step config seq (env seq) st of
          None \<Rightarrow> None
        | Some (Break st') \<Rightarrow> Some st'
        | Some (Continue st') \<Rightarrow> send_loop config env left (Suc seq) st'))"

definition send_init :: "abs_time \<Rightarrow> send_state" where
  "send_init start =
     \<lparr>ss_next = start, ss_sent = 0, ss_errors = 0, ss_attempted = 0, ss_interval_count = 0,
      ss_interval_min = -1, ss_interval_max = 0, ss_late_count = 0, ss_late_max = 0,
      ss_late_periods = 0, ss_previous_tx = 0, ss_first_tx = 0, ss_last_tx = 0,
      ss_reason = ''count'', ss_last_send_errno = 0, ss_calls = []\<rparr>"

text \<open>After the loop: the reason (\<open>stop\<close> is the flag then), the byte for the coordinator, the exit status.\<close>

definition sender_finish :: "bool \<Rightarrow> send_state \<Rightarrow> send_state" where
  "sender_finish stop st =
     (if stop then st\<lparr>ss_reason := ''signal''\<rparr>
      else if ss_errors st \<noteq> 0 \<and> ss_reason st = ''count'' then st\<lparr>ss_reason := ''send_error''\<rparr>
      else st)"

definition sender_outcome :: "sender_config \<Rightarrow> bool \<Rightarrow> send_state \<Rightarrow> byte" where
  "sender_outcome config stop st =
     (if ss_errors st \<noteq> 0 \<or> stop \<or> ss_attempted st \<noteq> sc_packet_count config then 1 else 0)"


section \<open>The wait\<close>

lemma sleep_until_wakes: "w \<in> set (snd (sleep_until target rs)) \<Longrightarrow> w \<le> target"
  by (induction target rs rule: sleep_until.induct)
     (auto simp: Let_def split: if_splits sum.splits prod.splits)

lemma sleep_until_due:
  "fst (sleep_until target rs) = Some 0 \<Longrightarrow> \<forall>r \<in> set rs. sr_now r \<noteq> Inl 0 \<Longrightarrow>
     \<exists>r \<in> set rs. \<exists>now. sr_now r = Inr now \<and> target \<le> now"
  by (induction target rs rule: sleep_until.induct)
     (auto simp: Let_def split: if_splits sum.splits prod.splits)

lemma sleep_until_ends:
  "r \<in> set rs \<Longrightarrow> sr_stop r \<or> (\<exists>now. sr_now r = Inr now \<and> target \<le> now) \<Longrightarrow>
     \<exists>e. fst (sleep_until target rs) = Some e"
  by (induction target rs rule: sleep_until.induct)
     (auto simp: Let_def split: if_splits sum.splits prod.splits)

section \<open>The loop\<close>

text \<open>What every call of \<^verbatim>\<open>sendto\<close> so far was given.\<close>

definition calls_ok :: "sender_config \<Rightarrow> int \<Rightarrow> send_call list \<Rightarrow> bool" where
  "calls_ok config base calls \<longleftrightarrow>
     (\<forall>i < length calls.
        sp_deadline (calls ! i) = base + int i * uint (sc_period_ns config) \<and>
        (\<exists>tx_ns. sp_bytes (calls ! i) = sender_packet config (of_nat i) tx_ns))"

lemma calls_ok_snoc:
  "calls_ok config base calls \<Longrightarrow> sp_deadline c = base + int (length calls) * uint (sc_period_ns config) \<Longrightarrow>
     sp_bytes c = sender_packet config (of_nat (length calls)) tx \<Longrightarrow> calls_ok config base (calls @ [c])"
  by (auto simp: calls_ok_def nth_append less_Suc_eq)

text \<open>The deadline variable before iteration \<open>seq\<close> advances it.\<close>

definition next_before :: "sender_config \<Rightarrow> int \<Rightarrow> nat \<Rightarrow> int" where
  "next_before config base seq = base + int (seq - 1) * uint (sc_period_ns config)"

definition send_inv :: "sender_config \<Rightarrow> int \<Rightarrow> nat \<Rightarrow> send_state \<Rightarrow> bool" where
  "send_inv config base seq st \<longleftrightarrow>
     at_ns (ss_next st) = next_before config base seq \<and> length (ss_calls st) = seq \<and>
     ss_attempted st = of_nat seq \<and> calls_ok config base (ss_calls st) \<and>
     (\<exists>failed \<le> seq. ss_sent st = of_nat (seq - failed) \<and> ss_errors st = of_nat failed)"

text \<open>What the loop leaves behind, whichever way it ends.\<close>

definition send_done :: "sender_config \<Rightarrow> int \<Rightarrow> nat \<Rightarrow> send_state \<Rightarrow> bool" where
  "send_done config base planned st \<longleftrightarrow>
     length (ss_calls st) \<le> planned \<and>
     ss_attempted st = of_nat (length (ss_calls st)) \<and> calls_ok config base (ss_calls st) \<and>
     (\<exists>failed \<le> length (ss_calls st). ss_sent st = of_nat (length (ss_calls st) - failed) \<and>
        (ss_errors st = of_nat failed \<or> ss_errors st = of_nat (Suc failed) \<and> length (ss_calls st) < planned))"

lemma send_done_mono: "send_done config base n st \<Longrightarrow> n \<le> m \<Longrightarrow> send_done config base m st"
  by (force simp: send_done_def)

lemma note_timing_frame [simp]:
  "ss_next (note_timing config a st) = ss_next st" "ss_calls (note_timing config a st) = ss_calls st"
  "ss_attempted (note_timing config a st) = ss_attempted st" "ss_sent (note_timing config a st) = ss_sent st"
  "ss_errors (note_timing config a st) = ss_errors st"
  by (simp_all add: note_timing_def Let_def)

lemma send_packet_inv:
  assumes "send_inv config base seq st" "at_ns (ss_next st') = base + int seq * uint (sc_period_ns config)"
    "ss_calls st' = ss_calls st" "ss_attempted st' = ss_attempted st" "ss_sent st' = ss_sent st"
    "ss_errors st' = ss_errors st"
  shows "send_inv config base (Suc seq) (send_packet config seq actual tx_ns result st')"
proof -
  let ?r = "send_packet config seq actual tx_ns result st'"
  obtain failed where f: "failed \<le> seq" "ss_sent st = of_nat (seq - failed)" "ss_errors st = of_nat failed"
    using assms(1) by (auto simp: send_inv_def)
  have "\<exists>failed \<le> Suc seq. ss_sent ?r = of_nat (Suc seq - failed) \<and> ss_errors ?r = of_nat failed"
  proof (cases "result = Inr (length (sender_packet config (of_nat seq) (word_of_int tx_ns)))")
    case True
    then show ?thesis using f assms(5,6)
      by (intro exI [of _ failed]) (simp add: send_packet_def Let_def Suc_diff_le)
  next
    case False
    then show ?thesis using f assms(5,6)
      by (intro exI [of _ "Suc failed"]) (simp add: send_packet_def Let_def)
  qed
  moreover have "calls_ok config base (ss_calls ?r)"
    using assms calls_ok_snoc [of config base "ss_calls st"] by (simp add: send_inv_def send_packet_def Let_def)
  moreover have "length (ss_calls ?r) = Suc seq" "ss_attempted ?r = of_nat (Suc seq)"
    "at_ns (ss_next ?r) = next_before config base (Suc seq)"
    using assms by (simp_all add: send_inv_def send_packet_def Let_def next_before_def)
  ultimately show ?thesis unfolding send_inv_def by blast
qed

lemma advance_deadline:
  assumes "send_inv config base seq st"
  shows "at_ns (ss_next (if seq \<noteq> 0 then st\<lparr>ss_next := add_ns (ss_next st) (sc_period_ns config)\<rparr> else st)) =
    base + int seq * uint (sc_period_ns config)"
  using assms
  by (cases seq) (auto simp: send_inv_def next_before_def add_ns_at_ns algebra_simps)

lemma send_step_inv:
  assumes "send_inv config base seq st"
  shows "send_step config seq t st = Some (Continue st') \<Longrightarrow> send_inv config base (Suc seq) st'"
    and "send_step config seq t st = Some (Break st') \<Longrightarrow> send_done config base (Suc seq) st'"
proof -
  let ?st = "if seq \<noteq> 0 then st\<lparr>ss_next := add_ns (ss_next st) (sc_period_ns config)\<rparr> else st"
  have frame: "ss_calls ?st = ss_calls st" "ss_attempted ?st = ss_attempted st" "ss_sent ?st = ss_sent st"
    "ss_errors ?st = ss_errors st" by simp_all
  have "send_inv config base (Suc seq) (send_packet config seq a tx r (note_timing config a ?st))" for a tx r
    by (rule send_packet_inv [OF assms]) (use advance_deadline [OF assms] frame in simp_all)
  then show "send_step config seq t st = Some (Continue st') \<Longrightarrow> send_inv config base (Suc seq) st'"
    by (auto simp: send_step_def send_fails_def Let_def simp del: not_gr_zero split: option.splits if_splits)
  show "send_step config seq t st = Some (Break st') \<Longrightarrow> send_done config base (Suc seq) st'"
    using assms
    by (auto simp: send_step_def send_fails_def Let_def send_inv_def send_done_def split: option.splits if_splits)
qed

lemma send_loop_done:
  "send_loop config env left seq st = Some st' \<Longrightarrow> send_inv config base seq st \<Longrightarrow>
     send_done config base (seq + left) st'"
proof (induction config env left seq st rule: send_loop.induct)
  case (1 config env seq st)
  then show ?case by (auto simp: send_inv_def send_done_def)
next
  case (2 config env left seq st)
  show ?case
  proof (cases "tk_stop (env seq)")
    case True
    then show ?thesis using 2(2,3) by (auto simp: send_inv_def send_done_def)
  next
    case False
    show ?thesis
    proof (cases "send_step config seq (env seq) st")
      case None
      then show ?thesis using 2(2) False by simp
    next
      case (Some x)
      show ?thesis
      proof (cases x)
        case (Continue st1)
        have "send_inv config base (Suc seq) st1" using send_step_inv(1) [OF 2(3)] Some Continue by simp
        then show ?thesis using 2(1) [OF False Some Continue] 2(2) False Some Continue by simp
      next
        case (Break st1)
        then have "st' = st1" using 2(2) False Some by simp
        then show ?thesis using send_step_inv(2) [OF 2(3)] Some Break
            send_done_mono [of config base "Suc seq" st1 "seq + Suc left"] by simp
      qed
    qed
  qed
qed

lemma send_inv_init: "send_inv config (at_ns start) 0 (send_init start)"
  by (simp add: send_inv_def send_init_def next_before_def calls_ok_def)

section \<open>The schedule\<close>

definition schedule_base :: "sender_config \<Rightarrow> int \<Rightarrow> int" where
  "schedule_base config start = (if sc_start_at_ns config \<noteq> 0 then uint (sc_start_at_ns config) else start)"

lemma unat_le_uint: "uint w \<le> int n \<Longrightarrow> unat w \<le> n" for w :: u64
  by (simp only: unat_eq_nat_uint nat_le_iff)

lemma sender_schedule_ok:
  assumes "sender_schedule config (Some start) = Inr t0" "sender_fields_ok config" "0 \<le> start" "start \<le> INT64_LIMIT"
  shows "at_ns t0 = schedule_base config start" "at_normal t0"
    and "i < unat (sc_packet_count config) \<Longrightarrow>
      schedule_base config start + int i * uint (sc_period_ns config) \<le> INT64_LIMIT"
proof -
  let ?b = "if sc_start_at_ns config \<noteq> 0 then sc_start_at_ns config else word_of_int start"
  have ub: "uint ?b = schedule_base config start"
    using assms(3,4) by (simp add: schedule_base_def uint_word_of_int)
  have t0: "t0 = \<lparr>at_sec = uint (?b div 1000000000), at_nsec = uint (?b mod 1000000000)\<rparr>"
    and le: "sc_packet_count config - 1 \<le> (INT64_MAX - ?b) div sc_period_ns config"
    using assms(1) by (auto simp: sender_schedule_def Let_def not_less split: if_splits)
  have "uint ?b = uint (?b div 1000000000) * 1000000000 + uint (?b mod 1000000000)"
    by (simp add: uint_div uint_mod)
  then show "at_ns t0 = schedule_base config start" using ub by (simp add: t0 at_ns_def)
  show "at_normal t0" by (simp add: t0 at_normal_def uint_mod)
  let ?M = "9223372036854775807 :: nat"
  have b: "unat ?b \<le> ?M"
  proof (cases "sc_start_at_ns config \<noteq> 0")
    case True
    have "unat (sc_start_at_ns config) < 2 ^ 63" using assms(2) by (simp add: sender_fields_ok_def)
    with True show ?thesis by simp
  next
    case False
    then have "uint ?b \<le> INT64_LIMIT" using ub assms(4) by (simp add: schedule_base_def)
    then show ?thesis by (intro unat_le_uint) linarith
  qed
  assume i: "i < unat (sc_packet_count config)"
  have "unat (sc_packet_count config - 1) \<le> unat ((INT64_MAX - ?b) div sc_period_ns config)"
    using le by (simp only: word_le_nat_alt)
  also have "unat (INT64_MAX - ?b) = ?M - unat ?b"
    using b by (subst unat_sub) (simp_all add: word_le_nat_alt)
  then have "unat ((INT64_MAX - ?b) div sc_period_ns config) = (?M - unat ?b) div unat (sc_period_ns config)"
    by (simp only: unat_div)
  finally have "unat (sc_packet_count config - 1) \<le> (?M - unat ?b) div unat (sc_period_ns config)" .
  moreover have "i \<le> unat (sc_packet_count config - 1)"
    using i by (subst unat_sub) (simp_all add: word_le_nat_alt)
  ultimately have "i * unat (sc_period_ns config) \<le> ?M - unat ?b"
    by (meson div_le_dividend le_trans mult_le_mono1 div_times_less_eq_dividend)
  then have "int (unat ?b + i * unat (sc_period_ns config)) \<le> INT64_LIMIT" using b by linarith
  then show "schedule_base config start + int i * uint (sc_period_ns config) \<le> INT64_LIMIT"
    using ub by simp
qed


section \<open>Properties\<close>

text \<open>
  Property C35.  The send schedule does not drift and does not overflow: whatever the clocks, the
  sleeps, the send results and the signals do, the \<open>i\<close>-th datagram handed to \<^verbatim>\<open>sendto\<close> has the
  deadline base + i * period, which fits in \<^verbatim>\<open>int64_t\<close>, and carries the header with the
  configured flow id and sequence number \<open>i\<close>, padded with zeros to the configured size; the
  attempts counted are exactly these calls and at most the configured packets.
\<close>

theorem sender_calls_exact:
  assumes "sender_fields_ok config" "0 \<le> start" "start \<le> INT64_LIMIT"
    and "sender_schedule config (Some start) = Inr t0"
    and "send_loop config env (unat (sc_packet_count config)) 0 (send_init t0) = Some st"
  shows "unat (ss_attempted st) = length (ss_calls st) \<and> length (ss_calls st) \<le> unat (sc_packet_count config) \<and>
    (\<forall>i < length (ss_calls st).
       sp_deadline (ss_calls st ! i) = schedule_base config start + int i * uint (sc_period_ns config) \<and>
       sp_deadline (ss_calls st ! i) \<le> INT64_LIMIT \<and>
       (\<exists>tx_ns. sp_bytes (ss_calls st ! i) = sender_packet config (of_nat i) tx_ns))"
proof -
  note sched = sender_schedule_ok [OF assms(4,1,2,3)]
  have d: "send_done config (schedule_base config start) (unat (sc_packet_count config)) st"
    using send_loop_done [OF assms(5) send_inv_init] sched(1) by auto
  then have len: "length (ss_calls st) \<le> unat (sc_packet_count config)" by (simp add: send_done_def)
  have "length (ss_calls st) < 2 ^ 64" using len unat_bound [of "sc_packet_count config"] by simp
  then have "unat (ss_attempted st) = length (ss_calls st)" using d by (simp add: send_done_def unat_of_nat)
  then show ?thesis using d len sched(3) by (auto simp: send_done_def calls_ok_def)
qed

text \<open>
  The sender never reports a success it did not have: if it tells the coordinator 0,
  then the stop flag was clear, no error was counted, and every configured packet was handed to
  \<^verbatim>\<open>sendto\<close> and accepted in full.
\<close>

theorem sender_success_means_all_sent:
  assumes "sender_fields_ok config" "0 \<le> start" "start \<le> INT64_LIMIT"
    and "sender_schedule config (Some start) = Inr t0"
    and "send_loop config env (unat (sc_packet_count config)) 0 (send_init t0) = Some st"
    and "sender_outcome config stop st = 0"
  shows "\<not> stop \<and> ss_errors st = 0 \<and> ss_sent st = sc_packet_count config \<and>
    length (ss_calls st) = unat (sc_packet_count config)"
proof -
  have out: "\<not> stop" "ss_errors st = 0" "ss_attempted st = sc_packet_count config"
    using assms(6) by (auto simp: sender_outcome_def split: if_splits)
  note sched = sender_schedule_ok [OF assms(4,1,2,3)]
  have d: "send_done config (schedule_base config start) (unat (sc_packet_count config)) st"
    using send_loop_done [OF assms(5) send_inv_init] sched(1) by auto
  then have len: "length (ss_calls st) \<le> unat (sc_packet_count config)" by (simp add: send_done_def)
  have "length (ss_calls st) < 2 ^ 64" using len unat_bound [of "sc_packet_count config"] by simp
  then have n: "unat (ss_attempted st) = length (ss_calls st)" using d by (simp add: send_done_def unat_of_nat)
  obtain failed where f: "failed \<le> length (ss_calls st)" "ss_sent st = of_nat (length (ss_calls st) - failed)"
    "ss_errors st = of_nat failed"
    using d out(3) n by (auto simp: send_done_def)
  have "unat (of_nat failed :: u64) = failed"
    using f(1) n unat_bound [of "ss_attempted st"] by (simp add: unat_of_nat)
  then have "failed = 0" using f(3) out(2) by simp
  then have "ss_sent st = of_nat (unat (ss_attempted st))" using f(2) n by simp
  then show ?thesis using out n by simp
qed

text \<open>
  The send loop ends: if during every wait the clock eventually passes the deadline
  or a stop request arrives, the loop returns.
\<close>

theorem sender_terminates:
  assumes "sender_fields_ok config" "0 \<le> start" "start \<le> INT64_LIMIT"
    and "sender_schedule config (Some start) = Inr t0"
    and "\<And>i. \<exists>r \<in> set (tk_rounds (env i)). sr_stop r \<or>
      (\<exists>now. sr_now r = Inr now \<and> schedule_base config start + int i * uint (sc_period_ns config) \<le> now)"
  shows "\<exists>st. send_loop config env (unat (sc_packet_count config)) 0 (send_init t0) = Some st"
proof -
  have "send_inv config (schedule_base config start) seq st \<Longrightarrow> \<exists>st'. send_loop config env left seq st = Some st'" for left seq st
  proof (induction left arbitrary: seq st)
    case 0
    then show ?case by simp
  next
    case (Suc left)
    let ?target = "schedule_base config start + int seq * uint (sc_period_ns config)"
    have "\<exists>e. fst (sleep_until ?target (tk_rounds (env seq))) = Some e"
      using assms(5) [of seq] sleep_until_ends by blast
    then have "\<exists>x. send_step config seq (env seq) st = Some x"
      using advance_deadline [OF Suc.prems]
      by (auto simp: send_step_def Let_def simp del: not_gr_zero split: option.splits if_splits)
    then obtain x where x: "send_step config seq (env seq) st = Some x" ..
    show ?case
    proof (cases x)
      case (Continue st1)
      then show ?thesis using Suc.IH [OF send_step_inv(1) [OF Suc.prems]] x by simp
    next
      case (Break st1)
      then show ?thesis using x by simp
    qed
  qed
  then show ?thesis using send_inv_init [of config t0] sender_schedule_ok(1) [OF assms(4,1,2,3)] by simp
qed

text \<open>
  What the sender sends is what the kernel classifies: the \<open>i\<close>-th datagram of a run,
  carried in an unfragmented IPv4 frame to one of the three experiment ports, is accepted by the
  classifier for the path of that port with the identity (flow id, \<open>i\<close>).
\<close>

theorem sent_datagram_is_classified:
  assumes "length macs = 12" "length ident = 2" "length rest = 10" "length ucsum = 2"
    and "sender_fields_ok config" "xdp_route port = Some path"
  shows "bpf_accepts (udp_frame macs tos ident ttl rest sport port ucsum (sender_packet config seq tx_ns) @ pad) =
    Some (path, \<lparr>pk_flow_id = sc_flow_id config, pk_reserved = 0, pk_sequence = seq\<rparr>)"
  using bpf.accepts_frame [of macs ident rest ucsum "replicate (unat (sc_payload_size config)) 0" port path
      "sender_header config seq tx_ns" tos ttl sport pad] assms
  by (simp add: sender_packet_def sender_header_def header_key_def sender_fields_ok_def)

text \<open>
  A wait for a deadline never asks the kernel to sleep past the deadline, and reports
  success only after a clock reading at or past it.
\<close>

theorem sleep_until_exact:
  assumes "sleep_until target rs = (res, wakes)" "\<forall>r \<in> set rs. sr_now r \<noteq> Inl 0"
  shows "(\<forall>w \<in> set wakes. w \<le> target) \<and>
    (res = Some 0 \<longrightarrow> (\<exists>r \<in> set rs. \<exists>now. sr_now r = Inr now \<and> target \<le> now))"
  using sleep_until_wakes [of _ target rs] sleep_until_due [of target rs] assms by auto

theorem sleep_until_exact_witness:
  "\<exists>wakes. sleep_until 50000000
       [\<lparr>sr_stop = False, sr_now = Inr 1, sr_nanosleep = 0\<rparr>, \<lparr>sr_stop = False, sr_now = Inr 50000000, sr_nanosleep = 0\<rparr>]
       = (Some 0, wakes) \<and> (\<forall>w \<in> set wakes. w \<le> 50000000)"
proof -
  let ?rs = "[\<lparr>sr_stop = False, sr_now = Inr 1, sr_nanosleep = 0\<rparr>,
    \<lparr>sr_stop = False, sr_now = Inr 50000000, sr_nanosleep = 0\<rparr>] :: sleep_round list"
  have "sleep_until 50000000 ?rs = (Some 0, [10000001])" by simp
  then show ?thesis using sleep_until_exact [of 50000000 ?rs "Some 0" "[10000001]"] by auto
qed

section \<open>A run\<close>

definition one_packet :: sender_config where
  "one_packet = sender_defaults\<lparr>sc_flow_id := 7, sc_flow_id_set := True, sc_payload_size := 4,
     sc_period_ns := 1000, sc_packet_count := 1\<rparr>"

definition calm_tick :: "nat \<Rightarrow> tick" where
  "calm_tick i = \<lparr>tk_stop = False,
     tk_rounds = [\<lparr>sr_stop = False, sr_now = Inr (5 + int i * 1000), sr_nanosleep = 0\<rparr>], tk_stop_slept = False,
     tk_mono = Some (6 + int i * 1000), tk_real = Some 99, tk_sendto = Inr 36\<rparr>"

lemma one_packet_fields [simp]:
  "sc_start_at_ns one_packet = 0" "sc_period_ns one_packet = 1000" "sc_packet_count one_packet = 1"
  "sc_payload_size one_packet = 4" "sc_flow_id one_packet = 7"
  by (simp_all add: one_packet_def sender_defaults_def)

lemma one_packet_ok: "sender_fields_ok one_packet"
  by (simp add: one_packet_def sender_fields_ok_def sender_defaults_def fd_ok_def)

lemma one_packet_schedule: "sender_schedule one_packet (Some 5) = Inr \<lparr>at_sec = 0, at_nsec = 5\<rparr>"
  by (simp add: sender_schedule_def Let_def)

lemma one_packet_loop:
  "\<exists>st. send_loop one_packet calm_tick 1 0 (send_init \<lparr>at_sec = 0, at_nsec = 5\<rparr>) = Some st \<and>
     ss_attempted st = 1 \<and> sender_outcome one_packet False st = 0"
proof -
  let ?st = "note_timing one_packet 6 (send_init \<lparr>at_sec = 0, at_nsec = 5\<rparr>)"
  have "send_step one_packet 0 (calm_tick 0) (send_init \<lparr>at_sec = 0, at_nsec = 5\<rparr>) =
      Some (Continue (send_packet one_packet 0 6 99 (Inr 36) ?st))"
    by (simp add: send_step_def calm_tick_def Let_def)
  moreover have "ss_errors (send_packet one_packet 0 6 99 (Inr 36) ?st) = 0"
    "ss_attempted (send_packet one_packet 0 6 99 (Inr 36) ?st) = 1"
    by (simp_all add: send_packet_def sender_packet_def Let_def) (simp_all add: send_init_def)
  ultimately show ?thesis by (simp add: sender_outcome_def calm_tick_def)
qed

theorem sender_calls_exact_witness:
  "\<exists>st. send_loop one_packet calm_tick 1 0 (send_init \<lparr>at_sec = 0, at_nsec = 5\<rparr>) = Some st \<and>
     length (ss_calls st) = 1 \<and> sp_deadline (ss_calls st ! 0) = 5"
proof -
  obtain st where st: "send_loop one_packet calm_tick 1 0 (send_init \<lparr>at_sec = 0, at_nsec = 5\<rparr>) = Some st"
    "ss_attempted st = 1" using one_packet_loop by blast
  have ex: "unat (ss_attempted st) = length (ss_calls st)"
    "\<forall>i < length (ss_calls st). sp_deadline (ss_calls st ! i) = schedule_base one_packet 5 + int i * 1000"
    using sender_calls_exact [OF one_packet_ok _ _ one_packet_schedule, of calm_tick st] st(1) by simp_all
  have len: "length (ss_calls st) = 1" using ex(1) st(2) by simp
  have "sp_deadline (ss_calls st ! 0) = 5" using ex(2) [rule_format, of 0] len by (simp add: schedule_base_def)
  with st(1) len show ?thesis by blast
qed

theorem sender_success_means_all_sent_witness:
  "\<exists>st. send_loop one_packet calm_tick 1 0 (send_init \<lparr>at_sec = 0, at_nsec = 5\<rparr>) = Some st \<and> ss_sent st = 1"
proof -
  obtain st where st: "send_loop one_packet calm_tick 1 0 (send_init \<lparr>at_sec = 0, at_nsec = 5\<rparr>) = Some st"
    "sender_outcome one_packet False st = 0" using one_packet_loop by blast
  then show ?thesis
    using sender_success_means_all_sent [OF one_packet_ok _ _ one_packet_schedule, of calm_tick st False] by auto
qed

theorem sender_terminates_witness:
  "\<exists>st. send_loop one_packet calm_tick (unat (sc_packet_count one_packet)) 0 (send_init \<lparr>at_sec = 0, at_nsec = 5\<rparr>) = Some st"
  by (rule sender_terminates [OF one_packet_ok _ _ one_packet_schedule])
     (simp_all add: calm_tick_def schedule_base_def)

theorem sent_datagram_is_classified_witness:
  "bpf_accepts (udp_frame (replicate 12 0) 0 [0, 0] 64 (replicate 10 0) 4000 9001 [0, 0] (sender_packet one_packet 0 99) @ []) =
     Some (ACE_PATH_CPUMAP, \<lparr>pk_flow_id = 7, pk_reserved = 0, pk_sequence = 0\<rparr>)"
  using sent_datagram_is_classified [of "replicate 12 0" "[0, 0]" "replicate 10 0" "[0, 0]" one_packet 9001
      ACE_PATH_CPUMAP 0 64 4000 0 99 "[]"] one_packet_ok
  by (simp add: xdp_route_def)

text \<open>
  A start file is accepted only with a deadline in the future that is the decimal value
  of its contents without the final line end; every other regular content is an error, and the
  sender never starts from it.
\<close>

theorem start_file_deadline:
  assumes "wait_start_file looks = Some (Inr deadline)"
  shows "\<exists>l \<in> set looks. \<exists>bytes now. sl_open l = Inr (True, Inr bytes) \<and> sl_now l = Inr now \<and>
    unat deadline = dec_val (rev (dropWhile (\<lambda>c. c = CHR 0x0A \<or> c = CHR 0x0D) (rev (take 79 bytes)))) \<and>
    1 \<le> unat deadline \<and> unat deadline < 2 ^ 63 \<and> word_of_int now < deadline"
  using assms
proof (induction looks)
  case Nil
  then show ?case by simp
next
  case (Cons l looks)
  show ?case
  proof (cases "wait_start_file looks = Some (Inr deadline)")
    case True
    then show ?thesis using Cons.IH by auto
  next
    case False
    then obtain bytes where b: "sl_open l = Inr (True, Inr bytes)"
      "start_deadline (take 79 bytes) (sl_now l) = Inr deadline"
      using Cons.prems by (auto split: if_splits sum.splits)
    let ?txt = "rev (dropWhile (\<lambda>c. c = CHR 0x0A \<or> c = CHR 0x0D) (rev (take 79 bytes)))"
    obtain now where p: "ace_parse_u64 (Some ?txt) 1 INT64_MAX = Some deadline" "sl_now l = Inr now"
      "word_of_int now < deadline"
      using b(2) unfolding start_deadline_def Let_def
      by (auto simp: not_le split: if_splits option.splits sum.splits)
    have "unat deadline = dec_val ?txt" by (rule ace_u64.parse_value [OF p(1)])
    moreover have "1 \<le> unat deadline \<and> unat deadline < 2 ^ 63" using ace_u64.parse_bounds [OF p(1)] by simp
    ultimately show ?thesis using b(1) p(2,3) by auto
  qed
qed


theorem start_file_deadline_witness:
  "\<exists>l \<in> {\<lparr>sl_stop = False, sl_open = Inr (True, Inr (show_nat 42 @ [CHR 0x0A])), sl_now = Inr 7\<rparr>}.
     wait_start_file [l] = Some (Inr 42) \<and> unat (42 :: u64) < 2 ^ 63"
proof -
  let ?l = "\<lparr>sl_stop = False, sl_open = Inr (True, Inr (show_nat 42 @ [CHR 0x0A])), sl_now = Inr 7\<rparr>"
  have "ace_parse_u64 (Some (show_nat 42)) 1 INT64_MAX = Some 42"
    using ace_u64.parse_show [of 1 "42 :: u64" INT64_MAX] by simp
  then have "wait_start_file [?l] = Some (Inr 42)"
    by (simp add: start_deadline_def show_nat_eval)
  then show ?thesis using start_file_deadline [of "[?l]" 42] by simp
qed

end
