(* ===== verification/Udp_Receiver.thy ===== *)
theory Udp_Receiver
  imports Command_Line Ace_Abi Packet_Spec Udp_Sender
begin

text \<open>
  The UDP receiver, \<^verbatim>\<open>udp_socket/src/receiver.c\<close>: the control messages with the hardware timestamp
  and the drop counter, one iteration of the receive loop with all its branches, the loop, the
  saving of the records and the verdict.  What the kernel answers in an iteration is an input of
  the iteration; times are \<open>int\<close> where C has \<^verbatim>\<open>int64_t\<close>.
\<close>

section \<open>Sample records (udp_socket/include/protocol.h)\<close>

record sample_record =
  sm_seq :: u64
  sm_tx_ns :: u64
  sm_user_rx_mono_ns :: int
  sm_user_rx_real_ns :: int
  sm_hw_rx_ns :: int
  sm_flow_id :: u32
  sm_len :: u32
  sm_flags :: u16

abbreviation ACE_SAMPLE_F_HWTS_VALID :: u16 where "ACE_SAMPLE_F_HWTS_VALID \<equiv> 1"
abbreviation ACE_SAMPLE_F_CMSG_TRUNCATED :: u16 where "ACE_SAMPLE_F_CMSG_TRUNCATED \<equiv> 2"

section \<open>Control messages\<close>

text \<open>The data of a control message; \<^verbatim>\<open>cmsg_len >= CMSG_LEN(n)\<close> says it has at least \<open>n\<close> bytes.\<close>

record cmsg =
  cm_level :: int
  cm_type :: int
  cm_data :: "byte list"

abbreviation SOL_SOCKET :: int where "SOL_SOCKET \<equiv> 1"
abbreviation SCM_TIMESTAMPING :: int where "SCM_TIMESTAMPING \<equiv> 37"
abbreviation SCM_TIMESTAMPING_NEW :: int where "SCM_TIMESTAMPING_NEW \<equiv> 65"
abbreviation SO_RXQ_OVFL :: int where "SO_RXQ_OVFL \<equiv> 40"

text \<open>\<^verbatim>\<open>struct scm_timestamping\<close> holds three pairs of 64-bit seconds and nanoseconds; \<^verbatim>\<open>ts[2]\<close> is at 32.\<close>

definition ts2_sec :: "byte list \<Rightarrow> int" where "ts2_sec d = sint (le64 (sub_bytes d 32 8))"
definition ts2_nsec :: "byte list \<Rightarrow> int" where "ts2_nsec d = sint (le64 (sub_bytes d 40 8))"

fun extract_hw_timestamp :: "cmsg list \<Rightarrow> int option" where
  "extract_hw_timestamp [] = None"
| "extract_hw_timestamp (c # cs) =
   (if \<not> (cm_level c = SOL_SOCKET \<and> (cm_type c = SCM_TIMESTAMPING \<or> cm_type c = SCM_TIMESTAMPING_NEW)) \<or>
       length (cm_data c) < 48
    then extract_hw_timestamp cs
    else (let sec = ts2_sec (cm_data c); nsec = ts2_nsec (cm_data c) in
      if sec < 0 \<or> nsec < 0 \<or> nsec \<ge> 1000000000 \<or> (sec = 0 \<and> nsec = 0) then None
      else if sec > INT64_LIMIT div 1000000000 then None
      else Some (sec * 1000000000 + nsec)))"

fun extract_rxq_overflow :: "cmsg list \<Rightarrow> u32 option" where
  "extract_rxq_overflow [] = None"
| "extract_rxq_overflow (c # cs) =
   (if cm_level c \<noteq> SOL_SOCKET \<or> cm_type c \<noteq> SO_RXQ_OVFL \<or> length (cm_data c) < 4
    then extract_rxq_overflow cs
    else Some (le32 (sub_bytes (cm_data c) 0 4)))"

section \<open>The receive loop\<close>

record recv_msg =
  mg_bytes :: "byte list"
  mg_trunc :: bool
  mg_ctrunc :: bool
  mg_cmsgs :: "cmsg list"

record rx_iter =
  it_stop :: bool
  it_now :: "int option"
  it_recv :: "errno + recv_msg"
  it_mono :: "int option"
  it_real :: "int option"

record udp_rx_state =
  rv_records :: "sample_record list"
  rv_received :: u64
  rv_invalid :: u64
  rv_truncated :: u64
  rv_missing_hwts :: u64
  rv_receive_errors :: u64
  rv_socket_drops :: u32
  rv_last_valid_ns :: int
  rv_drain_start_ns :: int
  rv_reason :: string

datatype rx_exit = Rx_continue udp_rx_state | Rx_break udp_rx_state

definition rx_fails :: "string \<Rightarrow> udp_rx_state \<Rightarrow> rx_exit" where
  "rx_fails reason st = Rx_break (st\<lparr>rv_receive_errors := rv_receive_errors st + 1, rv_reason := reason\<rparr>)"

text \<open>The test at the head of an iteration: draining after a stop, or the idle timeout.\<close>

definition rx_waiting :: "receiver_config \<Rightarrow> rx_iter \<Rightarrow> udp_rx_state \<Rightarrow> rx_exit" where
  "rx_waiting config it st =
   (if it_stop it \<or> vc_idle_timeout_ms config \<noteq> 0 then
      (case it_now it of
         None \<Rightarrow> rx_fails ''clock_error'' st
       | Some now \<Rightarrow>
           if it_stop it then
             (let st = (if rv_drain_start_ns st = 0 then st\<lparr>rv_drain_start_ns := now\<rparr> else st) in
              if (word_of_int (now - rv_drain_start_ns st) :: u64) \<ge> vc_drain_ms config * 1000000
              then Rx_break (st\<lparr>rv_reason := ''signal_drain''\<rparr>) else Rx_continue st)
           else if (word_of_int (now - rv_last_valid_ns st) :: u64) \<ge> vc_idle_timeout_ms config * 1000000
           then Rx_break (st\<lparr>rv_reason := ''idle_timeout''\<rparr>) else Rx_continue st)
    else Rx_continue st)"

definition expected_packet_size :: "receiver_config \<Rightarrow> nat" where
  "expected_packet_size config = 32 + unat (vc_payload_size config)"

definition header_accepted :: "receiver_config \<Rightarrow> ace_experiment_header \<Rightarrow> bool" where
  "header_accepted config h \<longleftrightarrow>
     eh_magic h = ACE_PACKET_MAGIC \<and> eh_version h = ACE_PACKET_VERSION \<and> eh_size h = ACE_PACKET_HEADER_SIZE \<and>
     eh_flow_id h = vc_flow_id config \<and> eh_reserved h = 0"

definition make_record ::
  "receiver_config \<Rightarrow> recv_msg \<Rightarrow> ace_experiment_header \<Rightarrow> int option \<Rightarrow> int \<Rightarrow> int \<Rightarrow> sample_record" where
  "make_record config m h hwts mono_ns real_ns =
     \<lparr>sm_seq = eh_sequence h, sm_tx_ns = eh_tx_realtime_ns h, sm_user_rx_mono_ns = mono_ns,
      sm_user_rx_real_ns = real_ns, sm_hw_rx_ns = (case hwts of None \<Rightarrow> 0 | Some t \<Rightarrow> t),
      sm_flow_id = vc_flow_id config, sm_len = of_nat (length (mg_bytes m)),
      sm_flags = (if hwts \<noteq> None then ACE_SAMPLE_F_HWTS_VALID else 0) OR
                 (if mg_ctrunc m then ACE_SAMPLE_F_CMSG_TRUNCATED else 0)\<rparr>"

text \<open>A datagram after \<^verbatim>\<open>recvmsg\<close> succeeded and both clocks were read.\<close>

definition rx_datagram :: "receiver_config \<Rightarrow> recv_msg \<Rightarrow> int \<Rightarrow> int \<Rightarrow> udp_rx_state \<Rightarrow> udp_rx_state" where
  "rx_datagram config m mono_ns real_ns st =
   (let st = (case extract_rxq_overflow (mg_cmsgs m) of None \<Rightarrow> st | Some d \<Rightarrow> st\<lparr>rv_socket_drops := d\<rparr>) in
    if mg_trunc m then st\<lparr>rv_truncated := rv_truncated st + 1, rv_invalid := rv_invalid st + 1\<rparr>
    else if length (mg_bytes m) \<noteq> expected_packet_size config then st\<lparr>rv_invalid := rv_invalid st + 1\<rparr>
    else (let h = experiment_header_of (mg_bytes m) in
      if \<not> header_accepted config h then st\<lparr>rv_invalid := rv_invalid st + 1\<rparr>
      else (let hwts = (if mg_ctrunc m then None else extract_hw_timestamp (mg_cmsgs m)) in
        st\<lparr>rv_missing_hwts := rv_missing_hwts st + (if hwts = None then 1 else 0),
           rv_records := rv_records st @ [make_record config m h hwts mono_ns real_ns],
           rv_received := rv_received st + 1, rv_last_valid_ns := mono_ns\<rparr>)))"

definition rx_step :: "receiver_config \<Rightarrow> rx_iter \<Rightarrow> udp_rx_state \<Rightarrow> rx_exit" where
  "rx_step config it st =
   (case rx_waiting config it st of
      Rx_break st' \<Rightarrow> Rx_break st'
    | Rx_continue st' \<Rightarrow>
        (case it_recv it of
           Inl e \<Rightarrow> if e = EINTR \<or> e = EAGAIN then Rx_continue st' else rx_fails ''receive_error'' st'
         | Inr m \<Rightarrow>
             (case it_mono it of
                None \<Rightarrow> rx_fails ''clock_error'' st'
              | Some mono_ns \<Rightarrow>
                  (case it_real it of
                     None \<Rightarrow> rx_fails ''clock_error'' st'
                   | Some real_ns \<Rightarrow> Rx_continue (rx_datagram config m mono_ns real_ns st')))))"

text \<open>\<open>None\<close>: the receiver is still waiting when the iterations end.\<close>

fun receive_loop :: "receiver_config \<Rightarrow> rx_iter list \<Rightarrow> udp_rx_state \<Rightarrow> udp_rx_state option" where
  "receive_loop config [] st = (if rv_received st < vc_expected_samples config then None else Some st)"
| "receive_loop config (it # its) st =
     (if rv_received st < vc_expected_samples config then
        (case rx_step config it st of
           Rx_break st' \<Rightarrow> Some st'
         | Rx_continue st' \<Rightarrow> receive_loop config its st')
      else Some st)"

definition rx_init :: "int \<Rightarrow> udp_rx_state" where
  "rx_init start_ns =
     \<lparr>rv_records = [], rv_received = 0, rv_invalid = 0, rv_truncated = 0, rv_missing_hwts = 0,
      rv_receive_errors = 0, rv_socket_drops = 0, rv_last_valid_ns = start_ns, rv_drain_start_ns = 0,
      rv_reason = ''count''\<rparr>"

text \<open>The byte for the coordinator, which is also the exit status once the records are saved.\<close>

definition receiver_outcome :: "receiver_config \<Rightarrow> udp_rx_state \<Rightarrow> nat" where
  "receiver_outcome config st =
     (if rv_receive_errors st \<noteq> 0 \<or> (vc_require_hwts config \<and> rv_missing_hwts st \<noteq> 0) then 1 else 0)"

section \<open>Saving\<close>

text \<open>
  \<open>writes\<close> are the results of the successive \<^verbatim>\<open>write\<close> calls; the answer is the return value
  (\<open>None\<close>: calls left to make when the list ends) and the bytes in the file.
\<close>

fun save_records :: "(errno + nat) list \<Rightarrow> errno + unit \<Rightarrow> byte list \<Rightarrow> byte list \<Rightarrow> ((errno + unit) \<times> byte list) option" where
  "save_records writes fsync [] dest = Some (fsync, dest)"
| "save_records [] fsync (b # bs) dest = None"
| "save_records (w # ws) fsync (b # bs) dest =
   (case w of
      Inl e \<Rightarrow> if e = EINTR then save_records ws fsync (b # bs) dest else Some (Inl e, dest)
    | Inr written \<Rightarrow>
        if written = 0 then Some (Inl EIO, dest)
        else save_records ws fsync (drop written (b # bs)) (dest @ take written (b # bs)))"

definition ensure_path_absent :: "errno + unit \<Rightarrow> errno + unit" where
  "ensure_path_absent lstat =
     (case lstat of Inr _ \<Rightarrow> Inl EEXIST | Inl e \<Rightarrow> if e = ENOENT then Inr () else Inl e)"


section \<open>What the loop records\<close>

text \<open>The record an iteration contributes, read off its inputs alone.\<close>

definition accepted :: "receiver_config \<Rightarrow> rx_iter \<Rightarrow> sample_record option" where
  "accepted config it =
   (case (it_recv it, it_mono it, it_real it) of
      (Inr m, Some mono_ns, Some real_ns) \<Rightarrow>
        if \<not> mg_trunc m \<and> length (mg_bytes m) = expected_packet_size config \<and>
           header_accepted config (experiment_header_of (mg_bytes m))
        then Some (make_record config m (experiment_header_of (mg_bytes m))
                     (if mg_ctrunc m then None else extract_hw_timestamp (mg_cmsgs m)) mono_ns real_ns)
        else None
    | _ \<Rightarrow> None)"

definition rejected :: "receiver_config \<Rightarrow> rx_iter \<Rightarrow> bool" where
  "rejected config it \<longleftrightarrow>
     (\<exists>m. it_recv it = Inr m) \<and> it_mono it \<noteq> None \<and> it_real it \<noteq> None \<and> accepted config it = None"

definition no_hwts :: "sample_record \<Rightarrow> bool" where
  "no_hwts r \<longleftrightarrow> \<not> bit (sm_flags r) 0"

text \<open>The state after an interval of iterations in which the loop went on.\<close>

definition advanced :: "receiver_config \<Rightarrow> rx_iter list \<Rightarrow> udp_rx_state \<Rightarrow> udp_rx_state \<Rightarrow> bool" where
  "advanced config its st st' \<longleftrightarrow>
     rv_records st' = rv_records st @ List.map_filter (accepted config) its \<and>
     rv_received st' = rv_received st + of_nat (length (List.map_filter (accepted config) its)) \<and>
     rv_invalid st' = rv_invalid st + of_nat (length (filter (rejected config) its)) \<and>
     rv_missing_hwts st' = rv_missing_hwts st + of_nat (length (filter no_hwts (List.map_filter (accepted config) its)))"

lemma make_record_hwts: "no_hwts (make_record config m h hwts a b) \<longleftrightarrow> hwts = None"
  by (auto simp: no_hwts_def make_record_def bit_simps)

lemma rx_waiting_frame:
  assumes "rx_waiting config it st = Rx_continue st' \<or> rx_waiting config it st = Rx_break st'"
  shows "rv_records st' = rv_records st" "rv_received st' = rv_received st" "rv_invalid st' = rv_invalid st"
    "rv_missing_hwts st' = rv_missing_hwts st"
  using assms by (auto simp: rx_waiting_def rx_fails_def Let_def split: if_splits option.splits)

lemma rx_datagram_advanced:
  assumes "it_recv it = Inr m" "it_mono it = Some a" "it_real it = Some b"
  shows "advanced config [it] st (rx_datagram config m a b st)"
  using assms
  by (auto simp: advanced_def rx_datagram_def accepted_def rejected_def map_filter_simps Let_def make_record_hwts
      split: option.splits)

lemma advanced_refl: "advanced config [] st st"
  by (simp add: advanced_def map_filter_simps)

lemma map_filter_append: "List.map_filter f (xs @ ys) = List.map_filter f xs @ List.map_filter f ys"
  by (simp add: List.map_filter_def)

lemma advanced_trans:
  "advanced config xs st st' \<Longrightarrow> advanced config ys st' st'' \<Longrightarrow> advanced config (xs @ ys) st st''"
  by (simp add: advanced_def map_filter_append)

lemma rx_step_advanced:
  assumes "rx_step config it st = Rx_continue st'"
  shows "advanced config [it] st st'"
proof -
  obtain st1 where w: "rx_waiting config it st = Rx_continue st1"
    using assms by (cases "rx_waiting config it st") (simp_all add: rx_step_def)
  note frame = rx_waiting_frame [OF disjI1, OF w]
  have adv: "advanced config [it] st1 st'"
    using assms w rx_datagram_advanced [of it]
    by (auto simp: rx_step_def rx_fails_def advanced_def accepted_def rejected_def map_filter_simps
        split: sum.splits if_splits option.splits)
  show ?thesis using adv frame by (simp add: advanced_def)
qed

lemma rx_step_break:
  assumes "rx_step config it st = Rx_break st'"
  shows "rv_records st' = rv_records st" "rv_received st' = rv_received st" "rv_invalid st' = rv_invalid st"
    "rv_missing_hwts st' = rv_missing_hwts st"
proof -
  have "\<exists>st1. (rx_waiting config it st = Rx_continue st1 \<or> rx_waiting config it st = Rx_break st1) \<and>
      rv_records st' = rv_records st1 \<and> rv_received st' = rv_received st1 \<and> rv_invalid st' = rv_invalid st1 \<and>
      rv_missing_hwts st' = rv_missing_hwts st1"
    using assms
    by (cases "rx_waiting config it st") (auto simp: rx_step_def rx_fails_def split: sum.splits if_splits option.splits)
  then show "rv_records st' = rv_records st" "rv_received st' = rv_received st" "rv_invalid st' = rv_invalid st"
    "rv_missing_hwts st' = rv_missing_hwts st"
    using rx_waiting_frame [of config it st] by metis+
qed

lemma receive_loop_advanced:
  "receive_loop config its st = Some st' \<Longrightarrow> \<exists>n \<le> length its. advanced config (take n its) st st'"
proof (induction config its st rule: receive_loop.induct)
  case (1 config st)
  then show ?case by (auto simp: advanced_refl split: if_splits)
next
  case (2 config it its st)
  show ?case
  proof (cases "rv_received st < vc_expected_samples config")
    case False
    then show ?thesis using 2(2) by (intro exI [of _ 0]) (simp add: advanced_refl)
  next
    case True
    show ?thesis
    proof (cases "rx_step config it st")
      case (Rx_continue st1)
      then obtain n where "n \<le> length its" "advanced config (take n its) st1 st'"
        using 2 True by auto
      then show ?thesis using advanced_trans [OF rx_step_advanced [OF Rx_continue]]
        by (intro exI [of _ "Suc n"]) simp
    next
      case (Rx_break st1)
      then show ?thesis using 2(2) True rx_step_break [OF Rx_break]
        by (intro exI [of _ 0]) (simp add: advanced_def map_filter_simps)
    qed
  qed
qed

lemma receive_loop_capacity:
  "receive_loop config its st = Some st' \<Longrightarrow> length (rv_records st) = unat (rv_received st) \<Longrightarrow>
     unat (rv_received st) \<le> unat (vc_expected_samples config) \<Longrightarrow>
     length (rv_records st') = unat (rv_received st') \<and> unat (rv_received st') \<le> unat (vc_expected_samples config)"
proof (induction config its st rule: receive_loop.induct)
  case (1 config st)
  then show ?case by (auto split: if_splits)
next
  case (2 config it its st)
  show ?case
  proof (cases "rv_received st < vc_expected_samples config")
    case False
    then show ?thesis using 2(2,3,4) by simp
  next
    case True
    show ?thesis
    proof (cases "rx_step config it st")
      case (Rx_continue st1)
      have "rv_records st1 = rv_records st @ List.map_filter (accepted config) [it]"
        "rv_received st1 = rv_received st + of_nat (length (List.map_filter (accepted config) [it]))"
        using rx_step_advanced [OF Rx_continue] by (simp_all add: advanced_def)
      moreover have "unat (rv_received st + 1) = Suc (unat (rv_received st))"
        using True unat_bound [of "vc_expected_samples config"] by (simp add: unat_word_ariths word_less_nat_alt)
      ultimately have "length (rv_records st1) = unat (rv_received st1) \<and>
          unat (rv_received st1) \<le> unat (vc_expected_samples config)"
        using 2(3) True by (cases "accepted config it") (auto simp: map_filter_simps word_less_nat_alt)
      then show ?thesis using 2(1) [OF True Rx_continue] 2(2) True Rx_continue by simp
    next
      case (Rx_break st1)
      then show ?thesis using 2(2,3,4) True rx_step_break [OF Rx_break] by simp
    qed
  qed
qed


section \<open>Properties\<close>

text \<open>
  Property C36.  The receiver records exactly the accepted datagrams, in the order of their arrival:
  when the loop ends after \<open>n\<close> iterations, the record array holds the records of the well-formed
  datagrams of the configured flow and size among them, never more than the configured number of
  samples (so no write leaves the array), the invalid counter is the number of the other
  datagrams, and the missing-timestamp counter the number of records without a hardware timestamp.
\<close>

theorem receiver_records_exact:
  assumes "receive_loop config its (rx_init start_ns) = Some st"
  shows "\<exists>n \<le> length its.
    rv_records st = List.map_filter (accepted config) (take n its) \<and>
    length (rv_records st) = unat (rv_received st) \<and>
    unat (rv_received st) \<le> unat (vc_expected_samples config) \<and>
    rv_invalid st = of_nat (length (filter (rejected config) (take n its))) \<and>
    rv_missing_hwts st = of_nat (length (filter no_hwts (rv_records st)))"
proof -
  obtain n where n: "n \<le> length its" "advanced config (take n its) (rx_init start_ns) st"
    using receive_loop_advanced [OF assms] by blast
  moreover have "length (rv_records st) = unat (rv_received st)"
    "unat (rv_received st) \<le> unat (vc_expected_samples config)"
    using receive_loop_capacity [OF assms] by (auto simp: rx_init_def)
  ultimately show ?thesis by (intro exI [of _ n]) (auto simp: advanced_def rx_init_def)
qed

text \<open>
  Property C37.  What the sender put on the wire is what the receiver stores.  The datagram with
  sequence number \<open>seq\<close> and send time \<open>tx_ns\<close>, delivered whole to a receiver of the same flow id
  and payload size, adds exactly one record in the iteration that receives it: with that sequence
  number, send time and flow, the receive times of this iteration, and the kernel's hardware timestamp
  unless the control data were cut off, which the flags tell.  The iteration stores nothing only when
  the test at its head ends the loop, and without a stop request and an idle timeout it does not.
\<close>

theorem sent_datagram_is_recorded:
  assumes "vc_flow_id config = sc_flow_id sender" "vc_payload_size config = sc_payload_size sender"
    and "it_recv it = Inr \<lparr>mg_bytes = sender_packet sender seq tx_ns, mg_trunc = False, mg_ctrunc = c, mg_cmsgs = cs\<rparr>"
    and "it_mono it = Some mono_ns" "it_real it = Some real_ns"
    and "hwts = (if c then None else extract_hw_timestamp cs)"
  shows "(\<forall>st'. rx_step config it st = Rx_continue st' \<longrightarrow>
      (\<exists>r. rv_records st' = rv_records st @ [r] \<and> sm_seq r = seq \<and> sm_tx_ns r = tx_ns \<and> sm_flow_id r = sc_flow_id sender \<and>
         sm_user_rx_mono_ns r = mono_ns \<and> sm_user_rx_real_ns r = real_ns \<and>
         sm_hw_rx_ns r = (case hwts of None \<Rightarrow> 0 | Some t \<Rightarrow> t) \<and>
         (bit (sm_flags r) 0 \<longleftrightarrow> hwts \<noteq> None) \<and> (bit (sm_flags r) 1 \<longleftrightarrow> c)) \<and>
      rv_received st' = rv_received st + 1 \<and> rv_invalid st' = rv_invalid st) \<and>
    (\<forall>st'. rx_step config it st = Rx_break st' \<longrightarrow> rx_waiting config it st = Rx_break st') \<and>
    (\<not> it_stop it \<and> vc_idle_timeout_ms config = 0 \<longrightarrow> (\<exists>st'. rx_step config it st = Rx_continue st'))"
proof (intro conjI allI impI)
  let ?m = "\<lparr>mg_bytes = sender_packet sender seq tx_ns, mg_trunc = False, mg_ctrunc = c, mg_cmsgs = cs\<rparr>"
  let ?r = "make_record config ?m (sender_header sender seq tx_ns) hwts mono_ns real_ns"
  have acc: "accepted config it = Some ?r"
    using assms by (simp add: accepted_def expected_packet_size_def sender_packet_def header_accepted_def sender_header_def)
  have rej: "\<not> rejected config it" by (simp add: rejected_def acc)
  fix st'
  { assume "rx_step config it st = Rx_continue st'"
    from rx_step_advanced [OF this] have a: "rv_records st' = rv_records st @ [?r]" "rv_received st' = rv_received st + 1" "rv_invalid st' = rv_invalid st"
      by (simp_all add: advanced_def map_filter_simps acc rej)
    have f: "sm_seq ?r = seq" "sm_tx_ns ?r = tx_ns" "sm_flow_id ?r = sc_flow_id sender" "sm_user_rx_mono_ns ?r = mono_ns"
      "sm_user_rx_real_ns ?r = real_ns" "sm_hw_rx_ns ?r = (case hwts of None \<Rightarrow> 0 | Some t \<Rightarrow> t)"
      "bit (sm_flags ?r) 0 \<longleftrightarrow> hwts \<noteq> None" "bit (sm_flags ?r) 1 \<longleftrightarrow> c"
      using assms(1) by (simp_all add: make_record_def sender_header_def bit_simps)
    show "\<exists>r. rv_records st' = rv_records st @ [r] \<and> sm_seq r = seq \<and> sm_tx_ns r = tx_ns \<and> sm_flow_id r = sc_flow_id sender \<and>
         sm_user_rx_mono_ns r = mono_ns \<and> sm_user_rx_real_ns r = real_ns \<and>
         sm_hw_rx_ns r = (case hwts of None \<Rightarrow> 0 | Some t \<Rightarrow> t) \<and>
         (bit (sm_flags r) 0 \<longleftrightarrow> hwts \<noteq> None) \<and> (bit (sm_flags r) 1 \<longleftrightarrow> c)"
      using a(1) f by blast
    show "rv_received st' = rv_received st + 1" "rv_invalid st' = rv_invalid st" by (fact a)+ }
  { assume "rx_step config it st = Rx_break st'"
    then show "rx_waiting config it st = Rx_break st'"
      using assms(3-5) by (auto simp: rx_step_def split: rx_exit.splits) }
next
  assume "\<not> it_stop it \<and> vc_idle_timeout_ms config = 0"
  then show "\<exists>st'. rx_step config it st = Rx_continue st'" using assms(3-5) by (simp add: rx_step_def rx_waiting_def)
qed

lemma rx_waiting_drained:
  assumes "it_stop it" "it_now it = Some now" "rv_drain_start_ns st = d" "d \<noteq> 0" "d \<le> now"
    "now - d \<ge> int (unat (vc_drain_ms config)) * 1000000" "now - d < 2 ^ 64" "receiver_fields_ok config"
  shows "\<exists>st'. rx_waiting config it st = Rx_break st'"
proof -
  have dm: "unat (vc_drain_ms config) < 4294967296" using assms(8) by (simp add: receiver_fields_ok_def)
  have "unat (vc_drain_ms config * 1000000) = unat (vc_drain_ms config) * 1000000"
    using dm by (simp add: unat_word_ariths)
  moreover have "uint (word_of_int (now - d) :: u64) = now - d"
    using assms(5,7) by (simp del: of_int_diff add: uint_word_of_int)
  then have "unat (word_of_int (now - d) :: u64) = nat (now - d)" by (simp only: unat_eq_nat_uint)
  moreover have "unat (vc_drain_ms config) * 1000000 \<le> nat (now - d)" using assms(5,6) by linarith
  ultimately have "vc_drain_ms config * 1000000 \<le> (word_of_int (now - d) :: u64)"
    by (simp only: word_le_nat_alt)
  then show ?thesis using assms(1,2,3,4) by (simp add: rx_waiting_def Let_def)
qed

lemma drain_start_kept:
  assumes "rx_step config it st = Rx_continue st'" "rv_drain_start_ns st \<noteq> 0"
  shows "rv_drain_start_ns st' = rv_drain_start_ns st"
proof -
  have w: "rx_waiting config it st = Rx_continue st1 \<Longrightarrow> rv_drain_start_ns st1 = rv_drain_start_ns st" for st1
    using assms(2) by (auto simp: rx_waiting_def rx_fails_def Let_def split: if_splits option.splits)
  have d: "rv_drain_start_ns (rx_datagram config m a b st1) = rv_drain_start_ns st1" for m a b st1
    by (simp add: rx_datagram_def Let_def split: option.splits)
  show ?thesis
    using assms(1) w d
    by (cases "rx_waiting config it st") (auto simp: rx_step_def rx_fails_def split: sum.splits if_splits option.splits)
qed

lemma draining_loop_returns:
  assumes "receiver_fields_ok config" "rv_drain_start_ns st = d" "0 < d"
    and "it \<in> set its" "it_stop it" "it_now it = Some now" "now < 2 ^ 63"
    and "d + int (unat (vc_drain_ms config)) * 1000000 \<le> now"
  shows "\<exists>st'. receive_loop config its st = Some st'"
  using assms(2,4)
proof (induction its arbitrary: st)
  case Nil
  then show ?case by simp
next
  case (Cons i its)
  show ?case
  proof (cases "rx_step config i st")
    case (Rx_break st1)
    then show ?thesis by simp
  next
    case (Rx_continue st1)
    have "it \<noteq> i"
    proof
      assume "it = i"
      then obtain st2 where "rx_waiting config i st = Rx_break st2"
        using rx_waiting_drained [of it now st d config] assms Cons.prems(1) by auto
      then show False using Rx_continue by (simp add: rx_step_def)
    qed
    then show ?thesis
      using Cons.IH [of st1] Cons.prems drain_start_kept [OF Rx_continue] Rx_continue assms(3) by simp
  qed
qed

text \<open>What one iteration does to the drain window and to the reason, once the test at its head passed.\<close>

lemma rx_step_after_waiting:
  assumes "rx_waiting config it st = Rx_continue st1"
  shows "rx_step config it st = Rx_continue st' \<Longrightarrow> rv_drain_start_ns st' = rv_drain_start_ns st1 \<and> rv_reason st' = rv_reason st1"
    and "rx_step config it st = Rx_break st' \<Longrightarrow> rv_reason st' \<noteq> ''signal_drain''"
  using assms
  by (auto simp: rx_step_def rx_fails_def rx_datagram_def Let_def split: sum.splits if_splits option.splits)

lemma rx_waiting_quiet:
  assumes "\<not> it_stop it"
  shows "rx_waiting config it st = Rx_continue st \<or> (\<exists>st'. rx_waiting config it st = Rx_break st' \<and> rv_reason st' \<noteq> ''signal_drain'')"
  using assms by (auto simp: rx_waiting_def rx_fails_def split: option.splits)

lemma rx_waiting_in_window:
  assumes "receiver_fields_ok config" "it_stop it" "it_now it = Some now" "d \<le> now" "now < d + int (unat (vc_drain_ms config)) * 1000000"
    and "d \<noteq> 0" "rv_drain_start_ns st = d \<or> rv_drain_start_ns st = 0 \<and> now = d"
  shows "rx_waiting config it st = Rx_continue (st\<lparr>rv_drain_start_ns := d\<rparr>)"
proof -
  have dm: "unat (vc_drain_ms config) < 4294967296" using assms(1) by (simp add: receiver_fields_ok_def)
  have "unat (vc_drain_ms config * 1000000) = unat (vc_drain_ms config) * 1000000" using dm by (simp add: unat_word_ariths)
  moreover have "uint (word_of_int (now - d) :: u64) = now - d" using assms(4,5) dm by (simp del: of_int_diff of_nat_unat add: uint_word_of_int)
  then have "unat (word_of_int (now - d) :: u64) = nat (now - d)" by (simp only: unat_eq_nat_uint)
  moreover have "nat (now - d) < unat (vc_drain_ms config) * 1000000" using assms(4,5) by linarith
  ultimately have "\<not> vc_drain_ms config * 1000000 \<le> (word_of_int (now - d) :: u64)" by (simp only: word_le_nat_alt not_le)
  moreover have "(if rv_drain_start_ns st = 0 then st\<lparr>rv_drain_start_ns := now\<rparr> else st) = st\<lparr>rv_drain_start_ns := d\<rparr>"
    using assms(6,7) by (cases st) auto
  ultimately show ?thesis using assms(2,3) by (simp add: rx_waiting_def Let_def)
qed

text \<open>Inside the window, and before a stop request, the loop does not report a finished drain.\<close>

definition in_window :: "receiver_config \<Rightarrow> int \<Rightarrow> rx_iter \<Rightarrow> bool" where
  "in_window config d it \<longleftrightarrow>
     (it_stop it \<longrightarrow> (\<exists>now. it_now it = Some now \<and> d \<le> now \<and> now < d + int (unat (vc_drain_ms config)) * 1000000))"

lemma window_loop_reason:
  assumes "receiver_fields_ok config" "d \<noteq> 0" "list_all (in_window config d) its"
    and "rv_drain_start_ns st = d" "rv_reason st \<noteq> ''signal_drain''" "receive_loop config its st = Some st'"
  shows "rv_reason st' \<noteq> ''signal_drain''"
  using assms(3-6)
proof (induction its arbitrary: st)
  case (Cons it its)
  show ?case
  proof (cases "rv_received st < vc_expected_samples config \<and> (\<exists>st1. rx_waiting config it st = Rx_continue st1)")
    case True
    then obtain st1 where w: "rx_waiting config it st = Rx_continue st1" by blast
    have st1: "rv_drain_start_ns st1 = d" "rv_reason st1 = rv_reason st"
      using w Cons.prems(2) assms(2) by (auto simp: rx_waiting_def rx_fails_def Let_def split: if_splits option.splits)
    show ?thesis
    proof (cases "rx_step config it st")
      case (Rx_continue st2)
      with rx_step_after_waiting(1) [OF w Rx_continue] st1 Cons.IH [of st2] Cons.prems True show ?thesis by simp
    next
      case (Rx_break st2)
      with rx_step_after_waiting(2) [OF w Rx_break] Cons.prems(4) True show ?thesis by simp
    qed
  next
    case False
    have "\<exists>st2. rx_waiting config it st = Rx_break st2 \<and> rv_reason st2 \<noteq> ''signal_drain''" if "rv_received st < vc_expected_samples config"
    proof (cases "it_stop it")
      case True
      then obtain now where "it_now it = Some now" "d \<le> now" "now < d + int (unat (vc_drain_ms config)) * 1000000"
        using Cons.prems(1) by (auto simp: in_window_def)
      from rx_waiting_in_window [OF assms(1) True this assms(2) disjI1 [OF Cons.prems(2)]] False that show ?thesis by blast
    next
      case no: False
      from rx_waiting_quiet [OF no, of config st] False that show ?thesis by blast
    qed
    then show ?thesis using Cons.prems(3,4) by (auto simp: rx_step_def split: if_splits)
  qed
qed (auto split: if_splits)

text \<open>Before the first stop request: the loop returns for another reason, or reaches the request with no window begun.\<close>

lemma quiet_prefix:
  assumes "list_all (\<lambda>it. \<not> it_stop it) pre" "rv_drain_start_ns st = 0" "rv_reason st \<noteq> ''signal_drain''"
  shows "(\<exists>st'. rv_reason st' \<noteq> ''signal_drain'' \<and> (\<forall>its. receive_loop config (pre @ its) st = Some st')) \<or>
    (\<exists>st'. rv_drain_start_ns st' = 0 \<and> rv_reason st' \<noteq> ''signal_drain'' \<and> (\<forall>its. receive_loop config (pre @ its) st = receive_loop config its st'))"
  using assms
proof (induction pre arbitrary: st)
  case Nil
  then show ?case by auto
next
  case (Cons it pre)
  show ?case
  proof (cases "rv_received st < vc_expected_samples config")
    case False
    with Cons.prems(3) show ?thesis by auto
  next
    case True
    show ?thesis
    proof (cases "rx_step config it st")
      case (Rx_break st')
      have "rv_reason st' \<noteq> ''signal_drain''"
        using rx_waiting_quiet [of it config st] rx_step_after_waiting(2) [of config it st] Rx_break Cons.prems(1) by (auto simp: rx_step_def)
      with Rx_break True show ?thesis by auto
    next
      case (Rx_continue st')
      have "rx_waiting config it st = Rx_continue st" using rx_waiting_quiet [of it config st] Rx_continue Cons.prems(1) by (auto simp: rx_step_def)
      from rx_step_after_waiting(1) [OF this Rx_continue] Cons.prems(2,3) have "rv_drain_start_ns st' = 0" "rv_reason st' \<noteq> ''signal_drain''" by simp_all
      from Cons.IH [OF _ this] Cons.prems(1) Rx_continue True show ?thesis by simp
    qed
  qed
qed

text \<open>
  Property C38.  A stop request begins the drain window and the window is kept to.  Let the capture
  run from its start, with the first stop request seen at the clock value \<open>t1\<close>.  However many datagrams
  keep arriving, the loop has returned by the first iteration after it whose clock is at or past \<open>t1\<close>
  plus the configured drain time; and as long as the clock stays before that time, the loop does not
  end for the reason of a finished drain.
\<close>

theorem receiver_stop_terminates:
  assumes "receiver_fields_ok config" "list_all (\<lambda>it. \<not> it_stop it) pre" "it_stop it1" "it_now it1 = Some t1" "0 < t1"
    and "it_stop it2" "it_now it2 = Some t2" "t2 < 2 ^ 63" "t1 + int (unat (vc_drain_ms config)) * 1000000 \<le> t2"
  shows "(\<exists>st. receive_loop config (pre @ it1 # mid @ it2 # post) (rx_init start) = Some st) \<and>
    (list_all (in_window config t1) (it1 # mid) \<longrightarrow>
      (\<forall>st. receive_loop config (pre @ it1 # mid) (rx_init start) = Some st \<longrightarrow> rv_reason st \<noteq> ''signal_drain''))"
proof -
  have "rv_drain_start_ns (rx_init start) = 0" "rv_reason (rx_init start) \<noteq> ''signal_drain''" by (simp_all add: rx_init_def)
  from quiet_prefix [OF assms(2) this, of config] show ?thesis
  proof (elim disjE exE conjE)
    fix st0 assume z: "rv_drain_start_ns st0 = 0" "rv_reason st0 \<noteq> ''signal_drain''"
      and go: "\<forall>its. receive_loop config (pre @ its) (rx_init start) = receive_loop config its st0"
    have "\<exists>st. receive_loop config (it1 # mid @ it2 # post) st0 = Some st"
    proof (cases "rx_step config it1 st0")
      case (Rx_continue st1)
      then obtain st2 where w: "rx_waiting config it1 st0 = Rx_continue st2"
        by (cases "rx_waiting config it1 st0") (simp_all add: rx_step_def)
      then have "rv_drain_start_ns st2 = t1" using assms(3,4) z(1) by (auto simp: rx_waiting_def Let_def split: if_splits)
      then have "rv_drain_start_ns st1 = t1" using rx_step_after_waiting(1) [OF w Rx_continue] by simp
      from draining_loop_returns [OF assms(1) this assms(5) _ assms(6-9), of "mid @ it2 # post"] Rx_continue show ?thesis by simp
    qed simp
    moreover have "rv_reason st \<noteq> ''signal_drain''"
      if w: "list_all (in_window config t1) (it1 # mid)" and l: "receive_loop config (it1 # mid) st0 = Some st" for st
    proof -
      have "rx_waiting config it1 st0 = Rx_continue (st0\<lparr>rv_drain_start_ns := t1\<rparr>)"
        using rx_waiting_in_window [OF assms(1,3,4), of t1 st0] w z(1) assms(3-5) by (auto simp: in_window_def)
      note after = rx_step_after_waiting [OF this]
      show ?thesis
      proof (cases "rx_step config it1 st0")
        case (Rx_continue st1)
        then have st1: "rv_drain_start_ns st1 = t1" "rv_reason st1 \<noteq> ''signal_drain''" using after(1) [OF Rx_continue] z(2) by simp_all
        have "st = st0 \<or> receive_loop config mid st1 = Some st" using l Rx_continue by (simp split: if_splits)
        then show ?thesis using z(2) window_loop_reason [OF assms(1) _ _ st1, of mid st] assms(5) w by auto
      next
        case (Rx_break st1)
        with after(2) [OF Rx_break] l z(2) show ?thesis by (simp split: if_splits)
      qed
    qed
    ultimately show ?thesis using go by simp
  qed auto
qed

lemma save_records_prefix:
  "save_records writes fsync bytes dest = Some (res, out) \<Longrightarrow>
     \<exists>k. out = dest @ take k bytes \<and> (res = Inr () \<longrightarrow> out = dest @ bytes)"
proof (induction writes fsync bytes dest rule: save_records.induct)
  case (3 w ws fsync b bs dest)
  show ?case
  proof (cases w)
    case (Inl e)
    show ?thesis
    proof (cases "e = EINTR")
      case True
      then show ?thesis using 3(1) [OF Inl True] 3(3) Inl by simp
    next
      case False
      then show ?thesis using 3(3) Inl by (intro exI [of _ 0]) auto
    qed
  next
    case (Inr n)
    show ?thesis
    proof (cases "n = 0")
      case True
      then show ?thesis using 3(3) Inr by (intro exI [of _ 0]) auto
    next
      case False
      then obtain k where k: "out = (dest @ take n (b # bs)) @ take k (drop n (b # bs))"
        "res = Inr () \<longrightarrow> out = (dest @ take n (b # bs)) @ drop n (b # bs)"
        using 3(2) [OF Inr False] 3(3) Inr by auto
      have "out = dest @ take (n + k) (b # bs)" using k(1) by (simp add: take_add)
      moreover have "res = Inr () \<longrightarrow> out = dest @ (b # bs)" using k(2) append_take_drop_id by simp
      ultimately show ?thesis by blast
    qed
  qed
qed auto

text \<open>
  Saving survives partial and interrupted writes: whatever the \<^verbatim>\<open>write\<close> calls return, the
  file holds a prefix of the records, and it holds all of them, in order, when success is reported.
\<close>

theorem save_records_complete:
  assumes "save_records writes fsync bytes [] = Some (res, out)"
  shows "(\<exists>k. out = take k bytes) \<and> (res = Inr () \<longrightarrow> out = bytes)"
  using save_records_prefix [OF assms] by auto

text \<open>
  The bound on the seconds of a hardware timestamp does not exclude every overflow: a
  control message with \<^verbatim>\<open>tv_sec\<close> = \<^verbatim>\<open>INT64_MAX / 1000000000\<close> and a large \<^verbatim>\<open>tv_nsec\<close> passes the tests,
  and the nanosecond value computed for it does not fit in \<^verbatim>\<open>int64_t\<close>.
\<close>

theorem extract_hw_timestamp_can_overflow:
  "\<exists>c v. extract_hw_timestamp [c] = Some v \<and> v > INT64_LIMIT"
proof -
  let ?d = "replicate 32 (0 :: byte) @ st64 9223372036 @ st64 999999999"
  let ?c = "\<lparr>cm_level = SOL_SOCKET, cm_type = SCM_TIMESTAMPING, cm_data = ?d\<rparr>"
  have "ts2_sec ?d = 9223372036" "ts2_nsec ?d = 999999999"
    by (simp_all add: ts2_sec_def ts2_nsec_def sub_bytes_def)
  then have "extract_hw_timestamp [?c] = Some (9223372036 * 1000000000 + 999999999)" by simp
  then show ?thesis by (intro exI [of _ ?c] exI) auto
qed


section \<open>A run\<close>

definition one_sample :: receiver_config where
  "one_sample = receiver_defaults\<lparr>vc_flow_id := 7, vc_flow_id_set := True, vc_payload_size := 4, vc_expected_samples := 1\<rparr>"

definition one_iter :: rx_iter where
  "one_iter = \<lparr>it_stop = False, it_now = None,
     it_recv = Inr \<lparr>mg_bytes = sender_packet one_packet 0 99, mg_trunc = False, mg_ctrunc = False, mg_cmsgs = []\<rparr>,
     it_mono = Some 20, it_real = Some 30\<rparr>"

lemma one_sample_fields [simp]:
  "vc_flow_id one_sample = 7" "vc_payload_size one_sample = 4" "vc_expected_samples one_sample = 1"
  "vc_idle_timeout_ms one_sample = 0" "vc_drain_ms one_sample = 100"
  by (simp_all add: one_sample_def receiver_defaults_def)

lemma one_sample_loop: "\<exists>st. receive_loop one_sample [one_iter] (rx_init 1) = Some st"
  by (simp add: rx_step_def rx_waiting_def one_iter_def rx_datagram_def rx_init_def expected_packet_size_def
      header_accepted_def sender_packet_def sender_header_def Let_def)

theorem receiver_records_exact_witness:
  "\<exists>st n. receive_loop one_sample [one_iter] (rx_init 1) = Some st \<and>
     rv_records st = List.map_filter (accepted one_sample) (take n [one_iter])"
  using one_sample_loop receiver_records_exact by blast

theorem sent_datagram_is_recorded_witness:
  "\<exists>st' r. rx_step one_sample one_iter (rx_init 1) = Rx_continue st' \<and> rv_records st' = [r] \<and> sm_seq r = 0 \<and> sm_tx_ns r = 99"
proof -
  have it: "it_recv one_iter = Inr \<lparr>mg_bytes = sender_packet one_packet 0 99, mg_trunc = False, mg_ctrunc = False, mg_cmsgs = []\<rparr>"
    "it_mono one_iter = Some 20" "it_real one_iter = Some 30" "\<not> it_stop one_iter" by (simp_all add: one_iter_def)
  have c: "vc_flow_id one_sample = sc_flow_id one_packet" "vc_payload_size one_sample = sc_payload_size one_packet" "vc_idle_timeout_ms one_sample = 0"
    by simp_all
  from sent_datagram_is_recorded [OF c(1,2) it(1-3) refl, of "rx_init 1"] it(4) c(3) show ?thesis
    by (auto simp: rx_init_def)
qed

theorem receiver_stop_terminates_witness:
  "\<exists>st. receive_loop one_sample [one_iter\<lparr>it_recv := Inl EAGAIN\<rparr>, one_iter\<lparr>it_stop := True, it_now := Some 5, it_recv := Inl EAGAIN\<rparr>,
     one_iter\<lparr>it_stop := True, it_now := Some 100000005\<rparr>] (rx_init 1) = Some st"
proof -
  have "receiver_fields_ok one_sample"
    by (simp add: one_sample_def receiver_fields_ok_def receiver_defaults_def fd_ok_def)
  from receiver_stop_terminates [OF this, of "[one_iter\<lparr>it_recv := Inl EAGAIN\<rparr>]" "one_iter\<lparr>it_stop := True, it_now := Some 5, it_recv := Inl EAGAIN\<rparr>" 5
      "one_iter\<lparr>it_stop := True, it_now := Some 100000005\<rparr>" 100000005 "[]" "[]" 1]
  show ?thesis by (simp add: one_iter_def del: receive_loop.simps)
qed

theorem save_records_complete_witness:
  "\<exists>out. save_records [Inr 2, Inl EINTR, Inr 1] (Inr ()) [1, 2, 3] [] = Some (Inr (), out) \<and> out = [1, 2, 3]"
proof -
  have "save_records [Inr 2, Inl EINTR, Inr 1] (Inr ()) [1, 2, 3] [] = Some (Inr (), [1, 2, 3])"
    by simp
  then show ?thesis using save_records_complete [of "[Inr 2, Inl EINTR, Inr 1]" "Inr ()" "[1, 2, 3]" "Inr ()" "[1, 2, 3]"]
    by blast
qed

end
