(* ===== verification/Cpu_List.thy ===== *)
theory Cpu_List
  imports Decimal_Text
begin

text \<open>
  CPU lists of \<^verbatim>\<open>experiment/run_config.c\<close>: the strict parser \<^verbatim>\<open>run_parse_cpus\<close> and the printer
  \<^verbatim>\<open>run_format_cpus\<close>.  A \<^verbatim>\<open>cpu_set_t\<close> is a set of numbers below \<^verbatim>\<open>CPU_SETSIZE\<close>.
\<close>

abbreviation CPU_SETSIZE :: nat where "CPU_SETSIZE \<equiv> 1024"
abbreviation RUN_CPU_LIST_SIZE :: nat where "RUN_CPU_LIST_SIZE \<equiv> 4096"

section \<open>Parsing\<close>

text \<open>The digit loop; \<open>None\<close> is the early return once the number reaches \<^verbatim>\<open>CPU_SETSIZE\<close>.\<close>

fun read_cpu :: "nat \<Rightarrow> string \<Rightarrow> (nat \<times> string) option" where
  "read_cpu n [] = Some (n, [])"
| "read_cpu n (c # q) =
     (if is_digit c then
        (let n' = n * 10 + digit_val c in if n' \<ge> CPU_SETSIZE then None else read_cpu n' q)
      else Some (n, c # q))"

text \<open>A number must start with a digit.\<close>

definition read_number :: "string \<Rightarrow> (nat \<times> string) option" where
  "read_number q = (case q of [] \<Rightarrow> None | c # _ \<Rightarrow> if is_digit c then read_cpu 0 q else None)"

text \<open>The loop that adds \<open>first..last\<close>, failing on a CPU that is already there.\<close>

primrec add_cpus :: "nat list \<Rightarrow> nat set \<Rightarrow> nat set option" where
  "add_cpus [] S = Some S"
| "add_cpus (n # ns) S = (if n \<in> S then None else add_cpus ns (insert n S))"

definition read_range :: "string \<Rightarrow> (nat \<times> nat \<times> string) option" where
  "read_range q =
   (case read_number q of
      None \<Rightarrow> None
    | Some (first, q) \<Rightarrow>
        if q \<noteq> [] \<and> hd q = CHR ''-'' then
          (case read_number (tl q) of None \<Rightarrow> None | Some (final, q) \<Rightarrow> Some (first, final, q))
        else Some (first, first, q))"

lemma read_cpu_length: "read_cpu n q = Some (m, q') \<Longrightarrow> length q' \<le> length q"
  by (induction n q rule: read_cpu.induct) (auto simp: Let_def split: if_splits)

lemma read_cpu_first: "is_digit c \<Longrightarrow> read_cpu n (c # q) = Some (m, q') \<Longrightarrow> length q' \<le> length q"
  by (auto simp: Let_def split: if_splits dest: read_cpu_length)

lemma read_number_length: "read_number q = Some (n, q') \<Longrightarrow> length q' < length q"
  by (auto simp: read_number_def less_Suc_eq_le split: list.splits if_splits dest: read_cpu_first simp del: read_cpu.simps)

lemma read_range_length: "read_range q = Some (a, b, q') \<Longrightarrow> length q' < length q"
  by (auto simp: read_range_def split: option.splits if_splits dest!: read_number_length)

function parse_cpus_from :: "string \<Rightarrow> nat set \<Rightarrow> nat set option" where
  "parse_cpus_from q S =
   (case read_range q of
      None \<Rightarrow> None
    | Some (first, final, q') \<Rightarrow>
        if final < first then None
        else (case add_cpus [first..<Suc final] S of
            None \<Rightarrow> None
          | Some S' \<Rightarrow>
              (case q' of
                 [] \<Rightarrow> Some S'
               | c # q'' \<Rightarrow> if c \<noteq> CHR '','' \<or> q'' = [] then None else parse_cpus_from q'' S')))"
  by pat_completeness auto
termination
  by (relation "measure (\<lambda>(q, S). length q)") (auto dest: read_range_length)

declare parse_cpus_from.simps [simp del]

definition run_parse_cpus :: "string option \<Rightarrow> nat set option" where
  "run_parse_cpus text =
     (case text of None \<Rightarrow> None | Some q \<Rightarrow> if q = [] then None else parse_cpus_from q {})"

section \<open>Printing\<close>

text \<open>The loop over the CPUs that are set; \<open>room\<close> is the size of the buffer with its final NUL.\<close>

fun format_cpus_from :: "nat list \<Rightarrow> string \<Rightarrow> nat \<Rightarrow> string option" where
  "format_cpus_from [] used room = Some used"
| "format_cpus_from (n # ns) used room =
     (let piece = (if used = [] then [] else '','') @ show_nat n in
      if length piece \<ge> room - length used then None else format_cpus_from ns (used @ piece) room)"

definition run_format_cpus :: "nat set \<Rightarrow> nat \<Rightarrow> string option" where
  "run_format_cpus S room =
     (if room = 0 then None else format_cpus_from (filter (\<lambda>n. n \<in> S) [0..<CPU_SETSIZE]) [] room)"

section \<open>What the parser accepts\<close>

lemma add_cpus_eq: "distinct ns \<Longrightarrow> add_cpus ns S = (if set ns \<inter> S = {} then Some (S \<union> set ns) else None)"
  by (induction ns arbitrary: S) auto

lemma read_cpu_bound: "n < CPU_SETSIZE \<Longrightarrow> read_cpu n q = Some (m, q') \<Longrightarrow> m < CPU_SETSIZE"
  by (induction n q rule: read_cpu.induct) (auto simp: Let_def split: if_splits)

lemma read_number_bound: "read_number q = Some (m, q') \<Longrightarrow> m < CPU_SETSIZE"
  by (auto simp: read_number_def split: list.splits if_splits dest: read_cpu_bound [rotated] simp del: read_cpu.simps)

lemma read_range_bound: "read_range q = Some (a, b, q') \<Longrightarrow> a < CPU_SETSIZE \<and> b < CPU_SETSIZE"
  by (auto simp: read_range_def split: option.splits list.splits if_splits dest!: read_number_bound)

text \<open>One round of the parser.\<close>

lemma parse_cpus_from_range:
  "read_range q = Some (a, b, q') \<Longrightarrow>
     parse_cpus_from q S =
       (if b < a \<or> {a..b} \<inter> S \<noteq> {} then None
        else (case q' of
            [] \<Rightarrow> Some (S \<union> {a..b})
          | c # q'' \<Rightarrow> if c \<noteq> CHR '','' \<or> q'' = [] then None else parse_cpus_from q'' (S \<union> {a..b})))"
  by (subst parse_cpus_from.simps) (auto simp: add_cpus_eq atLeastLessThanSuc_atLeastAtMost simp del: upt_Suc)

lemma parse_cpus_from_no_range: "read_range q = None \<Longrightarrow> parse_cpus_from q S = None"
  by (subst parse_cpus_from.simps) simp

lemma parse_cpus_from_bound:
  "parse_cpus_from q S = Some S' \<Longrightarrow> S \<subseteq> {..<CPU_SETSIZE} \<Longrightarrow> S \<subset> S' \<and> S' \<subseteq> {..<CPU_SETSIZE}"
proof (induction "length q" arbitrary: q S rule: less_induct)
  case less
  obtain a b q' where r: "read_range q = Some (a, b, q')"
    using less.prems(1) parse_cpus_from_no_range by (cases "read_range q") auto
  note eq = parse_cpus_from_range [OF r, of S]
  have ab: "a \<le> b" "{a..b} \<inter> S = {}" using less.prems(1) eq by (auto split: if_splits)
  have sub: "S \<union> {a..b} \<subseteq> {..<CPU_SETSIZE}" "S \<subset> S \<union> {a..b}"
  proof -
    show "S \<union> {a..b} \<subseteq> {..<CPU_SETSIZE}" using less.prems(2) read_range_bound [OF r] by auto
    have "a \<in> {a..b}" using ab(1) by simp
    with ab(2) show "S \<subset> S \<union> {a..b}" by blast
  qed
  show ?case
  proof (cases q')
    case Nil
    then show ?thesis using eq ab less.prems(1) sub by auto
  next
    case (Cons c q'')
    then have "parse_cpus_from q'' (S \<union> {a..b}) = Some S'"
      using eq ab less.prems(1) by (auto split: if_splits)
    moreover have "length q'' < length q" using read_range_length [OF r] Cons by simp
    ultimately show ?thesis using less.hyps sub by blast
  qed
qed

section \<open>Round trip\<close>

lemma digits_grow: "n \<le> foldl (\<lambda>n c. n * 10 + digit_val c) n ds"
proof (induction ds arbitrary: n)
  case (Cons d ds)
  have "n \<le> n * 10 + digit_val d" by simp
  also have "\<dots> \<le> foldl (\<lambda>n c. n * 10 + digit_val c) (n * 10 + digit_val d) ds" by (rule Cons.IH)
  finally show ?case by simp
qed simp

lemma read_cpu_digits:
  assumes "list_all is_digit ds" "rest = [] \<or> \<not> is_digit (hd rest)"
    "foldl (\<lambda>n c. n * 10 + digit_val c) n ds < CPU_SETSIZE"
  shows "read_cpu n (ds @ rest) = Some (foldl (\<lambda>n c. n * 10 + digit_val c) n ds, rest)"
  using assms
proof (induction ds arbitrary: n)
  case Nil
  then show ?case by (cases rest) auto
next
  case (Cons d ds)
  have "n * 10 + digit_val d < CPU_SETSIZE"
    using Cons.prems(3) digits_grow [of "n * 10 + digit_val d" ds] by simp
  then show ?case using Cons by (simp add: Let_def)
qed

lemma read_number_show:
  assumes "n < CPU_SETSIZE" "rest = [] \<or> \<not> is_digit (hd rest)"
  shows "read_number (show_nat n @ rest) = Some (n, rest)"
proof -
  obtain c q where c: "show_nat n = c # q" by (cases "show_nat n") auto
  have "is_digit c" using show_nat_digits [of n] c by simp
  moreover have "read_cpu 0 (show_nat n @ rest) = Some (n, rest)"
    using read_cpu_digits [OF show_nat_digits assms(2), of 0 n] assms(1) by (simp add: dec_val_def [symmetric])
  ultimately show ?thesis by (simp add: read_number_def c)
qed

lemma comma_not_digit [simp]: "\<not> is_digit (CHR '','')"
  by (simp add: is_digit_def char_code_def)

lemma read_range_show:
  assumes "n < CPU_SETSIZE" "rest = [] \<or> hd rest = CHR '',''"
  shows "read_range (show_nat n @ rest) = Some (n, n, rest)"
  using assms read_number_show [of n rest] by (auto simp: read_range_def)

text \<open>The text of a list of CPUs.\<close>

fun cpu_text :: "nat list \<Rightarrow> string" where
  "cpu_text [] = []"
| "cpu_text [n] = show_nat n"
| "cpu_text (n # m # ns) = show_nat n @ CHR '','' # cpu_text (m # ns)"

lemma cpu_text_Nil [simp]: "cpu_text ns = [] \<longleftrightarrow> ns = []"
  by (cases ns rule: cpu_text.cases) auto

lemma parse_cpu_text:
  "ns \<noteq> [] \<Longrightarrow> distinct ns \<Longrightarrow> set ns \<subseteq> {..<CPU_SETSIZE} \<Longrightarrow> set ns \<inter> S = {} \<Longrightarrow>
     parse_cpus_from (cpu_text ns) S = Some (S \<union> set ns)"
proof (induction ns arbitrary: S rule: cpu_text.induct)
  case (2 n)
  then show ?case using parse_cpus_from_range [of "show_nat n" n n "[]" S] read_range_show [of n "[]"] by auto
next
  case (3 n m ns)
  have "parse_cpus_from (cpu_text (n # m # ns)) S = parse_cpus_from (cpu_text (m # ns)) (S \<union> {n})"
    using 3(3-) parse_cpus_from_range [of "cpu_text (n # m # ns)" n n "CHR '','' # cpu_text (m # ns)" S]
      read_range_show [of n "CHR '','' # cpu_text (m # ns)"] by auto
  also have "\<dots> = Some (S \<union> {n} \<union> set (m # ns))" using 3(3-) by (intro "3.IH") auto
  finally show ?case by (simp add: insert_commute)
qed simp

lemma format_cpus_from_eq:
  "format_cpus_from ns used room =
     (let t = used @ (if used = [] \<or> ns = [] then cpu_text ns else CHR '','' # cpu_text ns) in
      if ns = [] \<or> length t < room then Some t else None)"
proof (induction ns arbitrary: used)
  case (Cons n ns)
  let ?piece = "(if used = [] then [] else '','') @ show_nat n"
  have t: "(used @ ?piece) @ (if ns = [] then cpu_text ns else CHR '','' # cpu_text ns) =
      used @ (if used = [] then cpu_text (n # ns) else CHR '','' # cpu_text (n # ns))"
    by (cases ns) auto
  have "length (used @ ?piece) \<le> length ((used @ ?piece) @ (if ns = [] then cpu_text ns else CHR '','' # cpu_text ns))"
    by simp
  then show ?case using Cons.IH [of "used @ ?piece"] t by (cases ns) (auto simp: Let_def)
qed simp

lemma run_format_cpus_eq:
  "run_format_cpus S room =
     (let t = cpu_text (filter (\<lambda>n. n \<in> S) [0..<CPU_SETSIZE]) in
      if length t < room then Some t else None)"
  by (auto simp: run_format_cpus_def format_cpus_from_eq Let_def)


section \<open>The buffer is always large enough\<close>

lemma length_show_nat: "n < 10 ^ Suc k \<Longrightarrow> length (show_nat n) \<le> Suc k"
proof (induction k arbitrary: n)
  case 0
  then show ?case by (subst show_nat.simps) simp
next
  case (Suc k)
  have "n div 10 < 10 ^ Suc k" using Suc.prems by (simp add: less_mult_imp_div_less mult.commute)
  then show ?case using Suc.IH [of "n div 10"] by (subst show_nat.simps) auto
qed

definition cpu_cost :: "nat \<Rightarrow> nat" where "cpu_cost n = length (show_nat n) + 1"

lemma length_cpu_text: "length (cpu_text ns) \<le> sum_list (map cpu_cost ns)"
  by (induction ns rule: cpu_text.induct) (auto simp: cpu_cost_def)

lemma sum_list_filter_le: "sum_list (map f (filter P xs)) \<le> (sum_list (map f xs) :: nat)"
  by (induction xs) auto

lemma sum_list_upt_le: "(\<And>n. n \<in> {a..<b} \<Longrightarrow> f n \<le> c) \<Longrightarrow> sum_list (map f [a..<b]) \<le> (b - a) * (c :: nat)"
  using sum_list_mono [of "[a..<b]" f "\<lambda>_. c"] by (simp add: map_replicate_const sum_list_replicate)

lemma upt_split: "a \<le> b \<Longrightarrow> b \<le> c \<Longrightarrow> [a..<c] = [a..<b] @ [b..<c]"
  using upt_add_eq_append [of a b "c - b"] by simp

lemma all_cpus_cost: "sum_list (map cpu_cost [0..<CPU_SETSIZE]) \<le> 4010"
proof -
  have c: "n < 10 \<Longrightarrow> cpu_cost n \<le> 2" "n < 100 \<Longrightarrow> cpu_cost n \<le> 3" "n < 1000 \<Longrightarrow> cpu_cost n \<le> 4"
    "n < 10000 \<Longrightarrow> cpu_cost n \<le> 5" for n
    using length_show_nat [of n 0] length_show_nat [of n 1] length_show_nat [of n 2] length_show_nat [of n 3]
    by (simp_all add: cpu_cost_def)
  have u: "[0..<CPU_SETSIZE] = [0..<10] @ [10..<CPU_SETSIZE]" "[10..<CPU_SETSIZE] = [10..<100] @ [100..<CPU_SETSIZE]"
    "[100..<CPU_SETSIZE] = [100..<1000] @ [1000..<CPU_SETSIZE]"
    by (rule upt_split; simp)+
  have "sum_list (map cpu_cost [0..<10]) \<le> (10 - 0) * 2" by (rule sum_list_upt_le) (simp add: c(1))
  moreover have "sum_list (map cpu_cost [10..<100]) \<le> (100 - 10) * 3" by (rule sum_list_upt_le) (simp add: c(2))
  moreover have "sum_list (map cpu_cost [100..<1000]) \<le> (1000 - 100) * 4" by (rule sum_list_upt_le) (simp add: c(3))
  moreover have "sum_list (map cpu_cost [1000..<CPU_SETSIZE]) \<le> (CPU_SETSIZE - 1000) * 5"
    by (rule sum_list_upt_le) (simp add: c(4))
  ultimately show ?thesis unfolding u map_append sum_list.append by linarith
qed


lemma cpu_text_fits: "length (cpu_text (filter P [0..<CPU_SETSIZE])) < RUN_CPU_LIST_SIZE"
proof -
  have "length (cpu_text (filter P [0..<CPU_SETSIZE])) \<le> sum_list (map cpu_cost (filter P [0..<CPU_SETSIZE]))"
    by (rule length_cpu_text)
  also have "\<dots> \<le> sum_list (map cpu_cost [0..<CPU_SETSIZE])" by (rule sum_list_filter_le)
  also have "\<dots> \<le> 4010" by (rule all_cpus_cost)
  finally show ?thesis by linarith
qed

section \<open>Properties\<close>

text \<open>
  Property C39.  CPU lists round trip: printing any set of CPUs into the program's 4096-byte buffers
  always succeeds, and parsing the printed text of a non-empty set gives the set back.
\<close>

theorem cpu_list_roundtrip:
  assumes "S \<subseteq> {..<CPU_SETSIZE}"
  shows "\<exists>t. run_format_cpus S RUN_CPU_LIST_SIZE = Some t \<and> (S \<noteq> {} \<longrightarrow> run_parse_cpus (Some t) = Some S)"
proof -
  let ?ns = "filter (\<lambda>n. n \<in> S) [0..<CPU_SETSIZE]"
  have f: "run_format_cpus S RUN_CPU_LIST_SIZE = Some (cpu_text ?ns)"
    using cpu_text_fits [of "\<lambda>n. n \<in> S"] by (simp add: run_format_cpus_eq Let_def)
  have ns: "set ?ns = S" "distinct ?ns" using assms by auto
  have "run_parse_cpus (Some (cpu_text ?ns)) = Some S" if "S \<noteq> {}"
  proof -
    have "?ns \<noteq> []" using that ns(1) by (metis set_empty)
    then show ?thesis using parse_cpu_text [of ?ns "{}"] ns assms by (simp add: run_parse_cpus_def)
  qed
  with f show ?thesis by blast
qed

theorem cpu_list_roundtrip_witness:
  "\<exists>t. run_format_cpus {3, 17} RUN_CPU_LIST_SIZE = Some t \<and> run_parse_cpus (Some t) = Some {3, 17}"
  using cpu_list_roundtrip [of "{3, 17}"] by simp

text \<open>
  The parser accepts only non-empty lists of CPUs below \<^verbatim>\<open>CPU_SETSIZE\<close>.
\<close>

theorem cpu_list_bounds:
  assumes "run_parse_cpus text = Some S"
  shows "S \<noteq> {} \<and> S \<subseteq> {..<CPU_SETSIZE}"
  using assms parse_cpus_from_bound [of _ "{}" S] by (auto simp: run_parse_cpus_def split: option.splits if_splits)

theorem cpu_list_bounds_witness:
  "\<exists>S. run_parse_cpus (Some (show_nat 3)) = Some S \<and> S \<subseteq> {..<CPU_SETSIZE}"
proof -
  have "run_parse_cpus (Some (show_nat 3)) = Some {3}"
    using parse_cpu_text [of "[3]" "{}"] by (simp add: run_parse_cpus_def)
  then show ?thesis using cpu_list_bounds by blast
qed

end
