(* ===== verification/Run_Config.thy ===== *)
theory Run_Config
  imports Cpu_List Command_Line Xdp_Kern
begin

text \<open>
  The experiment configuration, \<^verbatim>\<open>experiment/run_config.c\<close>: reading the key/value lines, the
  typed lookups, the validation of every field, and the functions the coordinator derives from an
  accepted configuration (paths, CPU sets, packet counts, mode order).  The parser's error flag only
  ever rises, so each block of \<^verbatim>\<open>read_run_config\<close> is a function that returns its fields together
  with whether it raised the flag.  \<^verbatim>\<open>inet_pton\<close>, \<^verbatim>\<open>readlink\<close> and the SHA-256 of the file are
  parameters.
\<close>

section \<open>Lines\<close>

type_synonym entries = "(string \<times> string) list"

definition trim_text :: "string \<Rightarrow> string" where
  "trim_text s = rev (dropWhile is_space (rev (dropWhile is_space s)))"

definition plain_keys :: "string list" where
  "plain_keys =
    [''run_id'', ''receiver_address'', ''control_port'', ''repo'', ''output_root'', ''interface'',
     ''modes'', ''repeats'', ''alternate_mode_order'', ''verify_placement'', ''duration_ms'', ''warmup_ms'',
     ''ready_timeout_ms'', ''stop_timeout_ms'', ''start_delay_ms'', ''drain_ms'', ''settle_ms'',
     ''supervisor_cpu'', ''monitor'', ''environment.governor'', ''environment.rx_irq_cpu'',
     ''environment.rx_coalesce_usecs'', ''receiver.xsk_busy'', ''measurement.phc_tracking'',
     ''receiver.supervisor_cpu'', ''sender.supervisor_cpu'', ''receiver.network_cpu'', ''sender.network_cpu'',
     ''receiver.shared_cpus'', ''receiver.cpumap_cpu'', ''load.cpu_percent'', ''load.cpu_cpus'',
     ''load.cpu_layout'', ''load.cpu_workers'', ''load.cpu_method'', ''load.memory_workers'',
     ''load.memory_bytes'', ''load.io_workers'', ''load.io_path'', ''load.network_bps'',
     ''load.network_protocol'', ''load.network_direction'', ''load.network_port'', ''load.network_parallel'',
     ''load.on_sec'', ''load.off_sec'']"

definition flow_fields :: "string list" where
  "flow_fields =
    [''enabled'', ''period_ns'', ''deadline_ns'', ''tx_cpu'', ''rx_cpu'', ''all_pass_rx_cpu'',
     ''tx_policy'', ''rx_policy'', ''tx_priority'', ''rx_priority'']"

definition allowed :: "string \<Rightarrow> bool" where
  "allowed key \<longleftrightarrow>
     key \<in> set plain_keys \<or>
     (7 \<le> length key \<and> take 4 key = ''flow'' \<and> 49 \<le> char_code (key ! 4) \<and> char_code (key ! 4) \<le> 51 \<and>
      key ! 5 = CHR ''.'' \<and> drop 6 key \<in> set flow_fields)"

text \<open>
  One result of \<^verbatim>\<open>fgets\<close> on an 8192-byte buffer, line end included.  The code reads it as a C
  string, which ends at the first zero byte: a line end behind it is not seen, and \<^verbatim>\<open>fgets\<close> stopped at
  that line end and not at the end of the file.  A line without a line end that fills the buffer did
  not reach the end of the file either.
\<close>

definition printable :: "char \<Rightarrow> bool" where
  "printable c \<longleftrightarrow> 32 \<le> char_code c \<and> char_code c \<le> 126"

datatype line_result = Line_skip | Line_bad | Line_entry string string

definition config_line :: "entries \<Rightarrow> string \<Rightarrow> line_result" where
  "config_line es line =
   (let cstr = takeWhile (\<lambda>c. c \<noteq> CHR 0x00) line in
    if CHR 0x0A \<notin> set cstr \<and> (CHR 0x0A \<in> set line \<or> length line \<ge> 8191) then Line_bad
    else (let text = trim_text cstr in
      if text = [] \<or> hd text = CHR ''#'' then Line_skip
      else if CHR ''='' \<notin> set text \<or> length es = 100 then Line_bad
      else (let key = trim_text (takeWhile (\<lambda>c. c \<noteq> CHR ''='') text);
                val = trim_text (tl (dropWhile (\<lambda>c. c \<noteq> CHR ''='') text)) in
        if \<not> allowed key \<or> length key \<ge> 80 \<or> length val \<ge> 4096 then Line_bad
        else if \<not> list_all printable val then Line_bad
        else if key \<in> fst ` set es then Line_bad
        else Line_entry key val)))"

fun config_lines :: "string list \<Rightarrow> entries \<Rightarrow> entries option" where
  "config_lines [] es = Some es"
| "config_lines (line # rest) es =
     (case config_line es line of
        Line_skip \<Rightarrow> config_lines rest es
      | Line_bad \<Rightarrow> None
      | Line_entry key value \<Rightarrow> config_lines rest (es @ [(key, value)]))"

section \<open>Typed lookups\<close>

text \<open>The value and whether the error flag was raised.\<close>

type_synonym 'a checked = "'a \<times> bool"

definition lookup :: "entries \<Rightarrow> string \<Rightarrow> string option \<Rightarrow> string checked" where
  "lookup es key fallback =
     (case map_of es key of
        Some v \<Rightarrow> (v, False)
      | None \<Rightarrow> (case fallback of None \<Rightarrow> ([], True) | Some f \<Rightarrow> (f, False)))"

definition number :: "entries \<Rightarrow> string \<Rightarrow> string option \<Rightarrow> u64 \<Rightarrow> u64 \<Rightarrow> u64 checked" where
  "number es key fallback lo hi =
     (case lookup es key fallback of (t, e) \<Rightarrow>
        (case ace_parse_u64 (Some t) lo hi of None \<Rightarrow> (0, True) | Some v \<Rightarrow> (v, e)))"

definition string_field :: "entries \<Rightarrow> string \<Rightarrow> string option \<Rightarrow> nat \<Rightarrow> string checked" where
  "string_field es key fallback room =
     (case lookup es key fallback of (t, e) \<Rightarrow> if length t \<ge> room \<or> t = [] then ([], True) else (t, e))"

definition cpu_field :: "entries \<Rightarrow> string \<Rightarrow> string option \<Rightarrow> int checked" where
  "cpu_field es key fallback =
     (case lookup es key fallback of (t, e) \<Rightarrow>
        if t = ''inherit'' then (-1, e)
        else (case ace_parse_u64 (Some t) 0 1023 of None \<Rightarrow> (-1, True) | Some n \<Rightarrow> (int (unat n), e)))"

abbreviation SCHED_OTHER :: nat where "SCHED_OTHER \<equiv> 0"
abbreviation SCHED_FIFO :: nat where "SCHED_FIFO \<equiv> 1"
abbreviation SCHED_RR :: nat where "SCHED_RR \<equiv> 2"

definition policy_field :: "entries \<Rightarrow> string \<Rightarrow> nat checked" where
  "policy_field es key =
     (case lookup es key None of (t, e) \<Rightarrow>
        if t = ''other'' then (SCHED_OTHER, e)
        else if t = ''fifo'' then (SCHED_FIFO, e)
        else if t = ''rr'' then (SCHED_RR, e)
        else (SCHED_OTHER, True))"

section \<open>Derived values\<close>

record run_flow =
  fl_enabled :: bool
  fl_tx_cpu :: int
  fl_rx_cpu :: int
  fl_tx_policy :: nat
  fl_rx_policy :: nat
  fl_tx_priority :: u64
  fl_rx_priority :: u64
  fl_all_pass_rx_cpu :: int
  fl_period_ns :: u64
  fl_deadline_ns :: u64

definition flow_count :: "run_flow \<Rightarrow> u64 \<Rightarrow> u64" where
  "flow_count f duration_ms = (duration_ms * 1000000 + fl_period_ns f - 1) div fl_period_ns f"

definition run_flow_path :: "string \<Rightarrow> nat \<Rightarrow> string" where
  "run_flow_path mode flow_index =
     (if flow_index = 2 \<and> (mode = ''mixed'' \<or> mode = ''pass-xsk'') then ''xsk''
      else if flow_index = 1 \<and> mode = ''mixed'' then ''cpumap''
      else ''pass'')"

definition run_rx_cpu :: "run_flow \<Rightarrow> string \<Rightarrow> int" where
  "run_rx_cpu f mode = (if mode = ''all-pass'' then fl_all_pass_rx_cpu f else fl_rx_cpu f)"


record run_timing =
  tm_control_port :: u64
  tm_repeats :: u64
  tm_alternate_mode_order :: u64
  tm_verify_placement :: u64
  tm_duration_ms :: u64
  tm_warmup_ms :: u64
  tm_ready_ms :: u64
  tm_stop_ms :: u64
  tm_start_delay_ms :: u64
  tm_xsk_busy :: u64
  tm_phc_tracking :: u64
  tm_rx_coalesce_usecs :: int
  tm_drain_ms :: u64
  tm_settle_ms :: u64
  tm_monitor :: u64

record run_placement =
  pl_supervisor_cpu :: int
  pl_receiver_supervisor_cpu :: int
  pl_sender_supervisor_cpu :: int
  pl_receiver_network_cpu :: int
  pl_sender_network_cpu :: int
  pl_shared_cpus :: string
  pl_shared_mask :: "nat set"
  pl_cpumap_cpu :: nat
  pl_governor :: string
  pl_rx_irq_cpu :: nat

record run_load =
  ld_cpu_percent :: u64
  ld_cpu_layout :: string
  ld_cpu_workers :: u64
  ld_cpu_cpus :: string
  ld_cpu_method :: string
  ld_memory_workers :: u64
  ld_memory_bytes :: string
  ld_io_workers :: u64
  ld_io_path :: string
  ld_network_bps :: u64
  ld_network_port :: u64
  ld_network_parallel :: u64
  ld_network_protocol :: string
  ld_network_direction :: string
  ld_on_sec :: u64
  ld_off_sec :: u64

record run_config =
  cf_run_id :: string
  cf_address :: string
  cf_interface :: string
  cf_repo :: string
  cf_output :: string
  cf_digest :: string
  cf_timing :: run_timing
  cf_placement :: run_placement
  cf_load :: run_load
  cf_modes :: "string list"
  cf_flows :: "run_flow list"

definition run_cpumap_active :: "run_config \<Rightarrow> string \<Rightarrow> bool" where
  "run_cpumap_active c mode \<longleftrightarrow>
     pl_shared_cpus (cf_placement c) \<noteq> [] \<and> mode = ''mixed'' \<and> fl_enabled (cf_flows c ! 1)"

definition run_general_cpu_set :: "run_config \<Rightarrow> string \<Rightarrow> nat set" where
  "run_general_cpu_set c mode =
     (if run_cpumap_active c mode then pl_shared_mask (cf_placement c) - {pl_cpumap_cpu (cf_placement c)}
      else pl_shared_mask (cf_placement c))"

definition run_load_cpus :: "run_config \<Rightarrow> string \<Rightarrow> nat \<Rightarrow> string option" where
  "run_load_cpus c mode room =
     (if ld_cpu_layout (cf_load c) = ''shared'' then run_format_cpus (run_general_cpu_set c mode) room
      else if length (ld_cpu_cpus (cf_load c)) \<ge> room then None
      else Some (ld_cpu_cpus (cf_load c)))"

definition run_rx_cpu_set :: "run_config \<Rightarrow> nat \<Rightarrow> string \<Rightarrow> nat set" where
  "run_rx_cpu_set c flow_index mode =
     (if pl_shared_cpus (cf_placement c) \<noteq> [] then
        if flow_index = 1 \<and> run_cpumap_active c mode then {pl_cpumap_cpu (cf_placement c)}
        else run_general_cpu_set c mode
      else (let n = run_rx_cpu (cf_flows c ! flow_index) mode in if n \<ge> 0 then {nat n} else {}))"

definition run_mode_index :: "run_config \<Rightarrow> u32 \<Rightarrow> u32 \<Rightarrow> u32" where
  "run_mode_index c repeat_no position =
     (let count = of_nat (length (cf_modes c));
          offset = (if tm_alternate_mode_order (cf_timing c) \<noteq> 0 \<and> repeat_no \<noteq> 0 then repeat_no - 1 else 0) in
      if count \<noteq> 0 then (position + offset) mod count else 0)"

section \<open>Validation\<close>

definition alnum :: "char \<Rightarrow> bool" where
  "alnum c \<longleftrightarrow>
     (let n = char_code c in 48 \<le> n \<and> n \<le> 57 \<or> 65 \<le> n \<and> n \<le> 90 \<or> 97 \<le> n \<and> n \<le> 122)"

definition word_char :: "char \<Rightarrow> bool" where
  "word_char c \<longleftrightarrow> alnum c \<or> c = CHR ''_'' \<or> c = CHR ''-''"

definition timing_block :: "entries \<Rightarrow> run_timing checked" where
  "timing_block es =
   (let port = number es ''control_port'' (Some ''49090'') 1024 65535;
        repeats = number es ''repeats'' None 1 10000;
        alternate = number es ''alternate_mode_order'' (Some ''0'') 0 1;
        verify = number es ''verify_placement'' (Some ''0'') 0 1;
        duration = number es ''duration_ms'' None 1 86400000;
        warmup = number es ''warmup_ms'' None 0 3600000;
        ready = number es ''ready_timeout_ms'' (Some ''60000'') 100 600000;
        stop = number es ''stop_timeout_ms'' (Some ''60000'') 100 600000;
        delay = number es ''start_delay_ms'' (Some ''250'') 10 60000;
        busy = number es ''receiver.xsk_busy'' (Some ''0'') 0 1;
        phc = number es ''measurement.phc_tracking'' (Some ''0'') 0 1;
        keep = (fst (lookup es ''environment.rx_coalesce_usecs'' (Some ''keep'')) = ''keep'');
        coalesce = number es ''environment.rx_coalesce_usecs'' None 0 10000;
        drain = number es ''drain_ms'' (Some ''100'') 0 60000;
        settle = number es ''settle_ms'' None 0 60000;
        monitor = number es ''monitor'' None 0 1 in
    (\<lparr>tm_control_port = fst port, tm_repeats = fst repeats, tm_alternate_mode_order = fst alternate,
      tm_verify_placement = fst verify, tm_duration_ms = fst duration, tm_warmup_ms = fst warmup,
      tm_ready_ms = fst ready, tm_stop_ms = fst stop, tm_start_delay_ms = fst delay,
      tm_xsk_busy = fst busy, tm_phc_tracking = fst phc,
      tm_rx_coalesce_usecs = (if keep then -1 else int (unat (fst coalesce))),
      tm_drain_ms = fst drain, tm_settle_ms = fst settle, tm_monitor = fst monitor\<rparr>,
     snd port \<or> snd repeats \<or> snd alternate \<or> snd verify \<or> snd duration \<or> snd warmup \<or> snd ready \<or>
     snd stop \<or> snd delay \<or> snd busy \<or> snd phc \<or> (\<not> keep \<and> snd coalesce) \<or> snd drain \<or>
     fst stop < fst drain + 100 \<or> snd settle \<or> snd monitor))"

definition placement_block :: "entries \<Rightarrow> run_placement checked" where
  "placement_block es =
   (let supervisor = cpu_field es ''supervisor_cpu'' (Some ''inherit'');
        common = Some (fst (lookup es ''supervisor_cpu'' (Some ''inherit'')));
        rx_supervisor = cpu_field es ''receiver.supervisor_cpu'' common;
        tx_supervisor = cpu_field es ''sender.supervisor_cpu'' common;
        rx_network = cpu_field es ''receiver.network_cpu'' (Some ''inherit'');
        tx_network = cpu_field es ''sender.network_cpu'' (Some ''inherit'');
        shared = fst (lookup es ''receiver.shared_cpus'' (Some []));
        cpumap = number es ''receiver.cpumap_cpu'' (Some ''3'') 0 1023;
        parsed = (if shared = [] then None else run_parse_cpus (Some shared));
        mask = (case parsed of None \<Rightarrow> {} | Some S \<Rightarrow> S);
        printed = (if parsed = None then None else run_format_cpus mask RUN_CPU_LIST_SIZE);
        shared_text = (case printed of None \<Rightarrow> [] | Some t \<Rightarrow> t);
        target = unat (fst cpumap);
        governor = string_field es ''environment.governor'' (Some ''performance'') 32;
        irq = number es ''environment.rx_irq_cpu'' (Some ''2'') 0 1023 in
    (\<lparr>pl_supervisor_cpu = fst supervisor, pl_receiver_supervisor_cpu = fst rx_supervisor,
      pl_sender_supervisor_cpu = fst tx_supervisor, pl_receiver_network_cpu = fst rx_network,
      pl_sender_network_cpu = fst tx_network, pl_shared_cpus = shared_text, pl_shared_mask = mask,
      pl_cpumap_cpu = target, pl_governor = fst governor, pl_rx_irq_cpu = unat (fst irq)\<rparr>,
     snd supervisor \<or> snd rx_supervisor \<or> snd tx_supervisor \<or> snd rx_network \<or> snd tx_network \<or> snd cpumap \<or>
     (if shared \<noteq> [] then
        parsed = None \<or> printed = None \<or>
        target \<noteq> 3 \<or> target \<notin> mask \<or> card mask < 2 \<or>
        fst rx_supervisor \<ge> 0 \<or> fst rx_network \<ge> 0
      else fst (lookup es ''receiver.cpumap_cpu'' (Some [])) \<noteq> [] \<or>
           fst (lookup es ''receiver.shared_cpus'' (Some ''absent'')) = []) \<or>
     snd governor \<or> \<not> list_all word_char (fst governor) \<or> snd irq \<or>
     (shared_text \<noteq> [] \<and> (unat (fst irq) \<notin> mask \<or> unat (fst irq) = target))))"

definition comma_misuse :: "string \<Rightarrow> bool" where
  "comma_misuse cpus \<longleftrightarrow>
     cpus \<noteq> [] \<and> (hd cpus = CHR '','' \<or> last cpus = CHR '','' \<or> (\<exists>i < length cpus - 1. cpus ! i = CHR '','' \<and> cpus ! Suc i = CHR '',''))"

definition load_block :: "entries \<Rightarrow> run_placement \<Rightarrow> run_load checked" where
  "load_block es pl =
   (let percent = number es ''load.cpu_percent'' None 0 100;
        layout = string_field es ''load.cpu_layout'' (Some ''pinned'') 16;
        shared_load = (fst layout = ''shared'');
        workers = number es ''load.cpu_workers'' (if shared_load then None else Some ''0'') (if shared_load then 1 else 0) 256;
        looked = lookup es ''load.cpu_cpus'' (if fst percent \<noteq> 0 then None else Some []);
        cpus = fst looked;
        worker_set = run_parse_cpus (Some cpus);
        method = string_field es ''load.cpu_method'' (Some ''all'') 64;
        mem = number es ''load.memory_workers'' (Some ''0'') 0 256;
        mem_bytes = string_field es ''load.memory_bytes'' (if fst mem \<noteq> 0 then None else Some ''0'') 64;
        io = number es ''load.io_workers'' (Some ''0'') 0 256;
        io_path = string_field es ''load.io_path'' (if fst io \<noteq> 0 then None else Some ''/tmp'') 4096;
        bps = number es ''load.network_bps'' None 0 10000000000;
        port = number es ''load.network_port'' (Some ''5201'') 1024 65535;
        parallel = number es ''load.network_parallel'' (Some ''1'') 1 128;
        protocol = string_field es ''load.network_protocol'' (Some ''udp'') 8;
        direction = string_field es ''load.network_direction'' (Some ''forward'') 16;
        on_sec = number es ''load.on_sec'' (Some ''0'') 0 3600;
        off_sec = number es ''load.off_sec'' (Some ''0'') 0 3600 in
    (\<lparr>ld_cpu_percent = fst percent, ld_cpu_layout = fst layout, ld_cpu_workers = fst workers,
      ld_cpu_cpus = (if length cpus \<ge> 256 then [] else cpus), ld_cpu_method = fst method,
      ld_memory_workers = fst mem, ld_memory_bytes = fst mem_bytes, ld_io_workers = fst io, ld_io_path = fst io_path,
      ld_network_bps = fst bps, ld_network_port = fst port, ld_network_parallel = fst parallel,
      ld_network_protocol = fst protocol, ld_network_direction = fst direction,
      ld_on_sec = fst on_sec, ld_off_sec = fst off_sec\<rparr>,
     snd percent \<or> snd layout \<or> (\<not> shared_load \<and> fst layout \<noteq> ''pinned'') \<or> snd workers \<or>
     (\<not> shared_load \<and> fst workers \<noteq> 0) \<or> (shared_load \<and> pl_shared_cpus pl = []) \<or>
     snd looked \<or> length cpus \<ge> 256 \<or> \<not> list_all (\<lambda>c. is_digit c \<or> c = CHR '','') cpus \<or>
     (fst percent \<noteq> 0 \<and> cpus = []) \<or> comma_misuse cpus \<or>
     (pl_shared_cpus pl \<noteq> [] \<and> fst percent \<noteq> 0 \<and>
        ((case worker_set of None \<Rightarrow> True | Some W \<Rightarrow> \<not> W \<subseteq> pl_shared_mask pl) \<or> \<not> shared_load)) \<or>
     (shared_load \<and> worker_set \<noteq> Some (pl_shared_mask pl)) \<or>
     snd method \<or> \<not> list_all word_char (fst method) \<or> snd mem \<or> snd mem_bytes \<or> snd io \<or> snd io_path \<or>
     snd bps \<or> snd port \<or> snd parallel \<or> (fst bps \<noteq> 0 \<and> fst bps < fst parallel) \<or>
     snd protocol \<or> snd direction \<or> (fst protocol \<noteq> ''udp'' \<and> fst protocol \<noteq> ''tcp'') \<or>
     (fst direction \<noteq> ''forward'' \<and> fst direction \<noteq> ''reverse'' \<and> fst direction \<noteq> ''bidir'') \<or>
     snd on_sec \<or> snd off_sec \<or> ((fst on_sec \<noteq> 0) \<noteq> (fst off_sec \<noteq> 0))))"

definition ports_clash :: "u64 \<Rightarrow> u64 \<Rightarrow> bool" where
  "ports_clash control network \<longleftrightarrow>
     control = network \<or> (control \<ge> 9000 \<and> control \<le> 9002) \<or> (network \<ge> 9000 \<and> network \<le> 9002)"

text \<open>\<^verbatim>\<open>strtok_r\<close> on commas: the non-empty pieces.\<close>

fun split_commas :: "string \<Rightarrow> string \<Rightarrow> string list" where
  "split_commas acc [] = (if acc = [] then [] else [acc])"
| "split_commas acc (c # cs) =
     (if c = CHR '','' then (if acc = [] then split_commas [] cs else acc # split_commas [] cs)
      else split_commas (acc @ [c]) cs)"

fun modes_loop :: "string list \<Rightarrow> string list \<Rightarrow> string list checked" where
  "modes_loop [] ms = (ms, False)"
| "modes_loop (m # rest) ms =
     (if length ms \<ge> 4 \<or> m \<notin> {''mixed'', ''all-pass'', ''pass-xsk'', ''socket-only''} then (ms, True)
      else (case modes_loop rest (ms @ [m]) of (ms', e) \<Rightarrow> (ms', e \<or> m \<in> set ms)))"

text \<open>
  The local buffer of the mode list is not initialised: when the field is missing, empty or too
  long, the loop runs over whatever it held (\<open>uninit\<close>).
\<close>

definition modes_block :: "string \<Rightarrow> entries \<Rightarrow> string list checked" where
  "modes_block uninit es =
   (let field = string_field es ''modes'' None 64;
        res = modes_loop (split_commas [] (if snd field then uninit else fst field)) [] in
    (fst res, snd field \<or> snd res \<or> fst res = []))"

definition flow_key :: "nat \<Rightarrow> string \<Rightarrow> string" where
  "flow_key i field = ''flow'' @ show_nat (i + 1) @ ''.'' @ field"

definition zero_flow :: run_flow where
  "zero_flow = \<lparr>fl_enabled = False, fl_tx_cpu = 0, fl_rx_cpu = 0, fl_tx_policy = 0, fl_rx_policy = 0,
     fl_tx_priority = 0, fl_rx_priority = 0, fl_all_pass_rx_cpu = 0, fl_period_ns = 0, fl_deadline_ns = 0\<rparr>"

definition flow_block :: "entries \<Rightarrow> bool \<Rightarrow> nat \<Rightarrow> run_flow checked" where
  "flow_block es shared i =
   (let enabled = number es (flow_key i ''enabled'') None 0 1;
        period = number es (flow_key i ''period_ns'') None 1 1000000000000;
        deadline = number es (flow_key i ''deadline_ns'') (Some ''0'') 0 1000000000000;
        tx_cpu = cpu_field es (flow_key i ''tx_cpu'') None;
        rx_cpu = cpu_field es (flow_key i ''rx_cpu'') None;
        inherited = (if fst rx_cpu < 0 then ''inherit'' else show_nat (nat (fst rx_cpu)));
        all_pass = cpu_field es (flow_key i ''all_pass_rx_cpu'') (Some inherited);
        tx_policy = policy_field es (flow_key i ''tx_policy'');
        rx_policy = policy_field es (flow_key i ''rx_policy'');
        tx_priority = number es (flow_key i ''tx_priority'') None
          (if fst tx_policy = SCHED_OTHER then 0 else 1) (if fst tx_policy = SCHED_OTHER then 0 else 99);
        rx_priority = number es (flow_key i ''rx_priority'') None
          (if fst rx_policy = SCHED_OTHER then 0 else 1) (if fst rx_policy = SCHED_OTHER then 0 else 99) in
    if fst enabled = 0 then (zero_flow, snd enabled)
    else (\<lparr>fl_enabled = True, fl_tx_cpu = fst tx_cpu, fl_rx_cpu = fst rx_cpu, fl_tx_policy = fst tx_policy,
           fl_rx_policy = fst rx_policy, fl_tx_priority = fst tx_priority, fl_rx_priority = fst rx_priority,
           fl_all_pass_rx_cpu = fst all_pass, fl_period_ns = fst period, fl_deadline_ns = fst deadline\<rparr>,
          snd enabled \<or> snd period \<or> snd deadline \<or> snd tx_cpu \<or> snd rx_cpu \<or> snd all_pass \<or>
          (shared \<and> (fst rx_cpu \<ge> 0 \<or> fst all_pass \<ge> 0)) \<or>
          snd tx_policy \<or> snd rx_policy \<or> snd tx_priority \<or> snd rx_priority))"

abbreviation RUN_MAX_RECORDS :: u64 where "RUN_MAX_RECORDS \<equiv> 1048576"

definition flows_total :: "run_flow list \<Rightarrow> u64 \<Rightarrow> u64" where
  "flows_total flows duration_ms =
     sum_list (map (\<lambda>f. if fl_enabled f \<and> fl_period_ns f \<noteq> 0 then flow_count f duration_ms else 0) flows)"

definition repo_of :: "string option \<Rightarrow> string \<Rightarrow> string checked" where
  "repo_of exe field =
     (if field \<noteq> ''AUTO'' then (field, False)
      else (case exe of
          None \<Rightarrow> (field, True)
        | Some path \<Rightarrow>
            (let cut = (\<lambda>p. if CHR ''/'' \<in> set p then Some (rev (tl (dropWhile (\<lambda>c. c \<noteq> CHR ''/'') (rev p)))) else None) in
             case cut path of
               None \<Rightarrow> (path, True)
             | Some dir \<Rightarrow> (case cut dir of None \<Rightarrow> (dir, True) | Some base \<Rightarrow> (base, False)))))"

definition build_config :: "string \<Rightarrow> (string \<Rightarrow> bool) \<Rightarrow> string option \<Rightarrow> entries \<Rightarrow> run_config checked" where
  "build_config uninit valid_ipv4 exe es =
   (let run_id = string_field es ''run_id'' None 65;
        address = string_field es ''receiver_address'' None 64;
        interface = string_field es ''interface'' (Some ''eth0'') 16;
        repo_field = string_field es ''repo'' (Some ''AUTO'') 4096;
        repo = repo_of exe (fst repo_field);
        output = string_field es ''output_root'' (Some ''results/experiment'') 4096;
        timing = timing_block es;
        placement = placement_block es;
        load = load_block es (fst placement);
        modes = modes_block uninit es;
        flows = map (flow_block es (pl_shared_cpus (fst placement) \<noteq> [])) [0, 1, 2];
        plan = map fst flows;
        tot = flows_total plan (tm_duration_ms (fst timing)) in
    (\<lparr>cf_run_id = fst run_id, cf_address = fst address, cf_interface = fst interface, cf_repo = fst repo,
      cf_output = fst output, cf_digest = [], cf_timing = fst timing, cf_placement = fst placement,
      cf_load = fst load, cf_modes = fst modes, cf_flows = plan\<rparr>,
     snd run_id \<or> fst run_id = [] \<or> \<not> alnum (hd (fst run_id)) \<or> \<not> list_all word_char (fst run_id) \<or>
     snd address \<or> \<not> valid_ipv4 (fst address) \<or> snd interface \<or> snd repo_field \<or> snd repo \<or> snd output \<or>
     snd timing \<or> snd placement \<or> snd load \<or>
     ports_clash (tm_control_port (fst timing)) (ld_network_port (fst load)) \<or>
     snd modes \<or> list_ex snd flows \<or>
     \<not> list_ex fl_enabled plan \<or> tot = 0 \<or> tot > RUN_MAX_RECORDS))"

definition read_run_config ::
  "string \<Rightarrow> (string \<Rightarrow> bool) \<Rightarrow> string option \<Rightarrow> string option \<Rightarrow> string list \<Rightarrow> run_config option" where
  "read_run_config uninit valid_ipv4 exe digest lines =
   (case config_lines lines [] of
      None \<Rightarrow> None
    | Some es \<Rightarrow>
        (case build_config uninit valid_ipv4 exe es of (c, bad) \<Rightarrow>
           if bad then None
           else (case digest of None \<Rightarrow> None | Some d \<Rightarrow> Some (c\<lparr>cf_digest := d\<rparr>))))"

section \<open>What acceptance means\<close>

lemma number_ok: "\<not> snd (number es k fb lo hi) \<Longrightarrow> unat lo \<le> unat (fst (number es k fb lo hi)) \<and> unat (fst (number es k fb lo hi)) \<le> unat hi"
  using ace_u64.parse_bounds [of "Some (fst (lookup es k fb))" lo hi]
  by (auto simp: number_def split: prod.splits option.splits)

lemma policy_ok: "fst (policy_field es k) \<in> {SCHED_OTHER, SCHED_FIFO, SCHED_RR}"
  by (auto simp: policy_field_def split: prod.splits)

lemma cpu_field_ok: "\<not> snd (cpu_field es k fb) \<Longrightarrow> -1 \<le> fst (cpu_field es k fb) \<and> fst (cpu_field es k fb) < int CPU_SETSIZE"
  using ace_u64.parse_bounds [of "Some (fst (lookup es k fb))" 0 1023]
  by (auto simp: cpu_field_def simp del: of_nat_unat split: prod.splits option.splits)

lemma string_field_ok: "\<not> snd (string_field es k fb room) \<Longrightarrow> fst (string_field es k fb room) \<noteq> [] \<and> length (fst (string_field es k fb room)) < room"
  by (auto simp: string_field_def split: prod.splits if_splits)

definition timing_ok :: "run_timing \<Rightarrow> bool" where
  "timing_ok t \<longleftrightarrow>
     unat (tm_control_port t) \<in> {1024..65535} \<and> unat (tm_repeats t) \<in> {1..10000} \<and>
     unat (tm_alternate_mode_order t) \<le> 1 \<and> unat (tm_verify_placement t) \<le> 1 \<and>
     unat (tm_duration_ms t) \<in> {1..86400000} \<and> unat (tm_warmup_ms t) \<le> 3600000 \<and>
     unat (tm_ready_ms t) \<in> {100..600000} \<and> unat (tm_start_delay_ms t) \<in> {10..60000} \<and>
     unat (tm_xsk_busy t) \<le> 1 \<and> unat (tm_phc_tracking t) \<le> 1 \<and> tm_rx_coalesce_usecs t \<in> {-1..10000} \<and>
     unat (tm_drain_ms t) \<le> 60000 \<and> unat (tm_drain_ms t) + 100 \<le> unat (tm_stop_ms t) \<and>
     unat (tm_stop_ms t) \<le> 600000 \<and> unat (tm_settle_ms t) \<le> 60000 \<and> unat (tm_monitor t) \<le> 1"

lemma timing_block_ok:
  assumes "\<not> snd (timing_block es)"
  shows "timing_ok (fst (timing_block es))"
proof -
  let ?stop = "number es ''stop_timeout_ms'' (Some ''60000'') 100 600000"
  let ?drain = "number es ''drain_ms'' (Some ''100'') 0 60000"
  let ?keep = "fst (lookup es ''environment.rx_coalesce_usecs'' (Some ''keep'')) = ''keep''"
  have n: "\<not> snd (number es ''control_port'' (Some ''49090'') 1024 65535)" "\<not> snd (number es ''repeats'' None 1 10000)"
    "\<not> snd (number es ''alternate_mode_order'' (Some ''0'') 0 1)" "\<not> snd (number es ''verify_placement'' (Some ''0'') 0 1)"
    "\<not> snd (number es ''duration_ms'' None 1 86400000)" "\<not> snd (number es ''warmup_ms'' None 0 3600000)"
    "\<not> snd (number es ''ready_timeout_ms'' (Some ''60000'') 100 600000)"
    "\<not> snd (number es ''start_delay_ms'' (Some ''250'') 10 60000)" "\<not> snd (number es ''receiver.xsk_busy'' (Some ''0'') 0 1)"
    "\<not> snd (number es ''measurement.phc_tracking'' (Some ''0'') 0 1)" "\<not> snd (number es ''settle_ms'' None 0 60000)"
    "\<not> snd (number es ''monitor'' None 0 1)" "\<not> snd ?stop" "\<not> snd ?drain"
    and coalesce: "\<not> ?keep \<Longrightarrow> \<not> snd (number es ''environment.rx_coalesce_usecs'' None 0 10000)"
    and room: "\<not> fst ?stop < fst ?drain + 100"
    using assms by (simp_all add: timing_block_def Let_def)
  have "unat (fst ?drain + 100) = unat (fst ?drain) + 100" using number_ok [OF n(14)] by (simp add: unat_word_ariths)
  then have "unat (fst ?drain) + 100 \<le> unat (fst ?stop)" using room by (simp add: not_less word_le_nat_alt)
  moreover have "tm_rx_coalesce_usecs (fst (timing_block es)) \<in> {-1..10000}"
    using number_ok [OF coalesce] by (cases ?keep) (simp_all add: timing_block_def Let_def del: of_nat_unat)
  moreover note n [THEN number_ok]
  ultimately show ?thesis by (simp add: timing_ok_def timing_block_def Let_def)
qed

definition placement_ok :: "run_placement \<Rightarrow> bool" where
  "placement_ok p \<longleftrightarrow>
     pl_supervisor_cpu p \<in> {-1..<int CPU_SETSIZE} \<and>
     pl_receiver_supervisor_cpu p \<in> {-1..<int CPU_SETSIZE} \<and> pl_sender_supervisor_cpu p \<in> {-1..<int CPU_SETSIZE} \<and>
     pl_receiver_network_cpu p \<in> {-1..<int CPU_SETSIZE} \<and> pl_sender_network_cpu p \<in> {-1..<int CPU_SETSIZE} \<and>
     pl_cpumap_cpu p < CPU_SETSIZE \<and> pl_rx_irq_cpu p < CPU_SETSIZE \<and>
     pl_governor p \<noteq> [] \<and> length (pl_governor p) < 32 \<and> list_all word_char (pl_governor p) \<and>
     (if pl_shared_cpus p = [] then pl_shared_mask p = {}
      else pl_cpumap_cpu p = unat ACE_XDP_RT_CPU \<and> pl_cpumap_cpu p \<in> pl_shared_mask p \<and>
        pl_shared_mask p \<subseteq> {..<CPU_SETSIZE} \<and> pl_rx_irq_cpu p \<in> pl_shared_mask p - {pl_cpumap_cpu p} \<and>
        run_parse_cpus (Some (pl_shared_cpus p)) = Some (pl_shared_mask p) \<and>
        pl_receiver_supervisor_cpu p < 0 \<and> pl_receiver_network_cpu p < 0)"

lemma format_parse:
  assumes "run_parse_cpus t = Some S" "run_format_cpus S RUN_CPU_LIST_SIZE = Some u"
  shows "run_parse_cpus (Some u) = Some S" "u \<noteq> []" "S \<subseteq> {..<CPU_SETSIZE}"
proof -
  have S: "S \<noteq> {}" "S \<subseteq> {..<CPU_SETSIZE}"
    using assms(1) parse_cpus_from_bound [of _ "{}" S] by (auto simp: run_parse_cpus_def split: option.splits if_splits)
  let ?ns = "filter (\<lambda>n. n \<in> S) [0..<CPU_SETSIZE]"
  have u: "u = cpu_text ?ns" using assms(2) by (auto simp: run_format_cpus_eq Let_def split: if_splits)
  have ns: "set ?ns = S" "distinct ?ns" "?ns \<noteq> []"
  proof -
    show "set ?ns = S" using S(2) by auto
    then show "?ns \<noteq> []" using S(1) by (metis set_empty)
    show "distinct ?ns" by simp
  qed
  show "run_parse_cpus (Some u) = Some S" "u \<noteq> []" "S \<subseteq> {..<CPU_SETSIZE}"
    using parse_cpu_text [of ?ns "{}"] ns S u by (simp_all add: run_parse_cpus_def)
qed

lemma placement_fields:
  assumes "\<not> snd (placement_block es)"
  defines "p \<equiv> fst (placement_block es)"
  shows "pl_supervisor_cpu p \<in> {-1..<int CPU_SETSIZE}"
    "pl_receiver_supervisor_cpu p \<in> {-1..<int CPU_SETSIZE}" "pl_sender_supervisor_cpu p \<in> {-1..<int CPU_SETSIZE}"
    "pl_receiver_network_cpu p \<in> {-1..<int CPU_SETSIZE}" "pl_sender_network_cpu p \<in> {-1..<int CPU_SETSIZE}"
    "pl_cpumap_cpu p < CPU_SETSIZE" "pl_rx_irq_cpu p < CPU_SETSIZE"
    "pl_governor p \<noteq> []" "length (pl_governor p) < 32" "list_all word_char (pl_governor p)"
proof -
  let ?common = "Some (fst (lookup es ''supervisor_cpu'' (Some ''inherit'')))"
  have c: "\<not> snd (cpu_field es ''supervisor_cpu'' (Some ''inherit''))" "\<not> snd (cpu_field es ''receiver.supervisor_cpu'' ?common)"
    "\<not> snd (cpu_field es ''sender.supervisor_cpu'' ?common)" "\<not> snd (cpu_field es ''receiver.network_cpu'' (Some ''inherit''))"
    "\<not> snd (cpu_field es ''sender.network_cpu'' (Some ''inherit''))"
    and n: "\<not> snd (number es ''receiver.cpumap_cpu'' (Some ''3'') 0 1023)" "\<not> snd (number es ''environment.rx_irq_cpu'' (Some ''2'') 0 1023)"
    and g: "\<not> snd (string_field es ''environment.governor'' (Some ''performance'') 32)"
    and w: "list_all word_char (fst (string_field es ''environment.governor'' (Some ''performance'') 32))"
    using assms(1) unfolding placement_block_def Let_def by simp_all
  show "pl_supervisor_cpu p \<in> {-1..<int CPU_SETSIZE}"
    "pl_receiver_supervisor_cpu p \<in> {-1..<int CPU_SETSIZE}" "pl_sender_supervisor_cpu p \<in> {-1..<int CPU_SETSIZE}"
    "pl_receiver_network_cpu p \<in> {-1..<int CPU_SETSIZE}" "pl_sender_network_cpu p \<in> {-1..<int CPU_SETSIZE}"
    "pl_cpumap_cpu p < CPU_SETSIZE" "pl_rx_irq_cpu p < CPU_SETSIZE"
    "pl_governor p \<noteq> []" "length (pl_governor p) < 32" "list_all word_char (pl_governor p)"
    using c [THEN cpu_field_ok] n [THEN number_ok] string_field_ok [OF g] w unfolding p_def placement_block_def Let_def by simp_all
qed

lemma placement_block_ok:
  assumes "\<not> snd (placement_block es)"
  shows "placement_ok (fst (placement_block es))"
proof -
  let ?p = "fst (placement_block es)"
  let ?shared = "fst (lookup es ''receiver.shared_cpus'' (Some []))"
  have "if pl_shared_cpus ?p = [] then pl_shared_mask ?p = {}
      else pl_cpumap_cpu ?p = unat ACE_XDP_RT_CPU \<and> pl_cpumap_cpu ?p \<in> pl_shared_mask ?p \<and>
        pl_shared_mask ?p \<subseteq> {..<CPU_SETSIZE} \<and> pl_rx_irq_cpu ?p \<in> pl_shared_mask ?p - {pl_cpumap_cpu ?p} \<and>
        run_parse_cpus (Some (pl_shared_cpus ?p)) = Some (pl_shared_mask ?p) \<and>
        pl_receiver_supervisor_cpu ?p < 0 \<and> pl_receiver_network_cpu ?p < 0"
  proof (cases "?shared = []")
    case True
    then show ?thesis by (simp add: placement_block_def Let_def)
  next
    case False
    obtain S where S: "run_parse_cpus (Some ?shared) = Some S"
      using assms False by (auto simp: placement_block_def Let_def)
    obtain u where u: "run_format_cpus S RUN_CPU_LIST_SIZE = Some u"
      using assms False S by (auto simp: placement_block_def Let_def)
    show ?thesis using assms False S u format_parse [OF S u] by (auto simp: placement_block_def Let_def)
  qed
  with placement_fields [OF assms] show ?thesis unfolding placement_ok_def by blast
qed

text \<open>
  The load: one of the two layouts with its worker count, a list of CPUs that stays inside the
  shared CPUs, and consistent network and duty-cycle settings.
\<close>

definition cpu_load_ok :: "run_placement \<Rightarrow> run_load \<Rightarrow> bool" where
  "cpu_load_ok p l \<longleftrightarrow>
     unat (ld_cpu_percent l) \<le> 100 \<and>
     (ld_cpu_layout l = ''pinned'' \<and> ld_cpu_workers l = 0 \<or>
      ld_cpu_layout l = ''shared'' \<and> unat (ld_cpu_workers l) \<in> {1..256} \<and> pl_shared_cpus p \<noteq> [] \<and>
      run_parse_cpus (Some (ld_cpu_cpus l)) = Some (pl_shared_mask p)) \<and>
     length (ld_cpu_cpus l) < 256 \<and> list_all (\<lambda>c. is_digit c \<or> c = CHR '','') (ld_cpu_cpus l) \<and> \<not> comma_misuse (ld_cpu_cpus l) \<and>
     (ld_cpu_percent l \<noteq> 0 \<longrightarrow> ld_cpu_cpus l \<noteq> [] \<and>
       (pl_shared_cpus p \<noteq> [] \<longrightarrow> ld_cpu_layout l = ''shared'' \<and>
         (\<exists>W. run_parse_cpus (Some (ld_cpu_cpus l)) = Some W \<and> W \<subseteq> pl_shared_mask p))) \<and>
     ld_cpu_method l \<noteq> [] \<and> length (ld_cpu_method l) < 64 \<and> list_all word_char (ld_cpu_method l)"

definition other_load_ok :: "run_load \<Rightarrow> bool" where
  "other_load_ok l \<longleftrightarrow>
     unat (ld_memory_workers l) \<le> 256 \<and> ld_memory_bytes l \<noteq> [] \<and> length (ld_memory_bytes l) < 64 \<and>
     unat (ld_io_workers l) \<le> 256 \<and> ld_io_path l \<noteq> [] \<and> length (ld_io_path l) < 4096 \<and>
     unat (ld_network_bps l) \<le> 10000000000 \<and> unat (ld_network_port l) \<in> {1024..65535} \<and>
     unat (ld_network_parallel l) \<in> {1..128} \<and>
     (ld_network_bps l \<noteq> 0 \<longrightarrow> unat (ld_network_parallel l) \<le> unat (ld_network_bps l)) \<and>
     ld_network_protocol l \<in> {''udp'', ''tcp''} \<and> ld_network_direction l \<in> {''forward'', ''reverse'', ''bidir''} \<and>
     unat (ld_on_sec l) \<le> 3600 \<and> unat (ld_off_sec l) \<le> 3600 \<and> (ld_on_sec l = 0 \<longleftrightarrow> ld_off_sec l = 0)"

lemma cpu_load_block_ok:
  assumes "\<not> snd (load_block es pl)"
  shows "cpu_load_ok pl (fst (load_block es pl))"
proof -
  let ?percent = "number es ''load.cpu_percent'' None 0 100" and ?layout = "string_field es ''load.cpu_layout'' (Some ''pinned'') 16"
  let ?shared = "fst ?layout = ''shared''"
  let ?workers = "number es ''load.cpu_workers'' (if ?shared then None else Some ''0'') (if ?shared then 1 else 0) 256"
  let ?cpus = "fst (lookup es ''load.cpu_cpus'' (if fst ?percent \<noteq> 0 then None else Some []))"
  let ?meth = "string_field es ''load.cpu_method'' (Some ''all'') 64"
  have l: "ld_cpu_percent (fst (load_block es pl)) = fst ?percent" "ld_cpu_layout (fst (load_block es pl)) = fst ?layout"
    "ld_cpu_workers (fst (load_block es pl)) = fst ?workers" "ld_cpu_method (fst (load_block es pl)) = fst ?meth"
    "ld_cpu_cpus (fst (load_block es pl)) = (if length ?cpus \<ge> 256 then [] else ?cpus)"
    unfolding load_block_def Let_def by simp_all
  have e: "\<not> snd ?percent" "\<not> snd ?workers" "\<not> snd ?meth" "list_all word_char (fst ?meth)"
    "\<not> (\<not> ?shared \<and> fst ?layout \<noteq> ''pinned'')" "\<not> (\<not> ?shared \<and> fst ?workers \<noteq> 0)" "\<not> (?shared \<and> pl_shared_cpus pl = [])"
    "\<not> (?shared \<and> run_parse_cpus (Some ?cpus) \<noteq> Some (pl_shared_mask pl))"
    "length ?cpus < 256" "list_all (\<lambda>c. is_digit c \<or> c = CHR '','') ?cpus" "\<not> comma_misuse ?cpus"
    "\<not> (fst ?percent \<noteq> 0 \<and> ?cpus = [])"
    "\<not> (pl_shared_cpus pl \<noteq> [] \<and> fst ?percent \<noteq> 0 \<and>
        ((case run_parse_cpus (Some ?cpus) of None \<Rightarrow> True | Some W \<Rightarrow> \<not> W \<subseteq> pl_shared_mask pl) \<or> \<not> ?shared))"
    using assms unfolding load_block_def Let_def snd_conv de_Morgan_disj by (simp_all only: not_le simp_thms)
  have w: "unat (fst ?workers) \<in> {1..256}" if ?shared using number_ok [OF e(2)] that by simp
  have layout: "fst ?layout = ''pinned'' \<and> fst ?workers = 0 \<or> ?shared \<and> unat (fst ?workers) \<in> {1..256} \<and> pl_shared_cpus pl \<noteq> [] \<and>
      run_parse_cpus (Some ?cpus) = Some (pl_shared_mask pl)" using e(5-8) w by blast
  have inside: "fst ?percent \<noteq> 0 \<longrightarrow> ?cpus \<noteq> [] \<and> (pl_shared_cpus pl \<noteq> [] \<longrightarrow> ?shared \<and>
      (\<exists>W. run_parse_cpus (Some ?cpus) = Some W \<and> W \<subseteq> pl_shared_mask pl))"
    using e(12,13) by (cases "run_parse_cpus (Some ?cpus)") auto
  have "unat (fst ?percent) \<le> 100" using number_ok [OF e(1)] by simp
  moreover have "(if length ?cpus \<ge> 256 then [] else ?cpus) = ?cpus" using e(9) by simp
  ultimately show ?thesis unfolding cpu_load_ok_def l using layout inside e(4,9,10,11) string_field_ok [OF e(3)] by presburger
qed

lemma other_load_block_ok:
  assumes "\<not> snd (load_block es pl)"
  shows "other_load_ok (fst (load_block es pl))"
proof -
  let ?mem = "number es ''load.memory_workers'' (Some ''0'') 0 256" and ?io = "number es ''load.io_workers'' (Some ''0'') 0 256"
  let ?bytes = "string_field es ''load.memory_bytes'' (if fst ?mem \<noteq> 0 then None else Some ''0'') 64"
  let ?path = "string_field es ''load.io_path'' (if fst ?io \<noteq> 0 then None else Some ''/tmp'') 4096"
  let ?bps = "number es ''load.network_bps'' None 0 10000000000" and ?port = "number es ''load.network_port'' (Some ''5201'') 1024 65535"
  let ?parallel = "number es ''load.network_parallel'' (Some ''1'') 1 128"
  let ?on = "number es ''load.on_sec'' (Some ''0'') 0 3600" and ?off = "number es ''load.off_sec'' (Some ''0'') 0 3600"
  let ?protocol = "fst (string_field es ''load.network_protocol'' (Some ''udp'') 8)"
  let ?direction = "fst (string_field es ''load.network_direction'' (Some ''forward'') 16)"
  have l: "ld_memory_workers (fst (load_block es pl)) = fst ?mem" "ld_memory_bytes (fst (load_block es pl)) = fst ?bytes"
    "ld_io_workers (fst (load_block es pl)) = fst ?io" "ld_io_path (fst (load_block es pl)) = fst ?path"
    "ld_network_bps (fst (load_block es pl)) = fst ?bps" "ld_network_port (fst (load_block es pl)) = fst ?port"
    "ld_network_parallel (fst (load_block es pl)) = fst ?parallel" "ld_on_sec (fst (load_block es pl)) = fst ?on"
    "ld_off_sec (fst (load_block es pl)) = fst ?off" "ld_network_protocol (fst (load_block es pl)) = ?protocol"
    "ld_network_direction (fst (load_block es pl)) = ?direction"
    unfolding load_block_def Let_def by simp_all
  have n: "\<not> snd ?mem" "\<not> snd ?io" "\<not> snd ?bps" "\<not> snd ?port" "\<not> snd ?parallel" "\<not> snd ?on" "\<not> snd ?off"
    and t: "\<not> snd ?bytes" "\<not> snd ?path"
    and c: "\<not> (fst ?bps \<noteq> 0 \<and> fst ?bps < fst ?parallel)" "?protocol \<in> {''udp'', ''tcp''}"
      "?direction \<in> {''forward'', ''reverse'', ''bidir''}" "fst ?on = 0 \<longleftrightarrow> fst ?off = 0"
    using assms unfolding load_block_def Let_def by simp_all
  have "fst ?bps \<noteq> 0 \<longrightarrow> unat (fst ?parallel) \<le> unat (fst ?bps)" using c(1) by (auto simp: not_less word_le_nat_alt)
  with c(2-4) n [THEN number_ok] t [THEN string_field_ok] show ?thesis unfolding other_load_ok_def l by simp
qed

definition flow_ok :: "bool \<Rightarrow> run_flow \<Rightarrow> bool" where
  "flow_ok shared f \<longleftrightarrow>
     (fl_enabled f \<longrightarrow>
        1 \<le> unat (fl_period_ns f) \<and> unat (fl_period_ns f) \<le> 1000000000000 \<and> unat (fl_deadline_ns f) \<le> 1000000000000 \<and>
        fl_tx_cpu f \<in> {-1..<int CPU_SETSIZE} \<and> fl_rx_cpu f \<in> {-1..<int CPU_SETSIZE} \<and> fl_all_pass_rx_cpu f \<in> {-1..<int CPU_SETSIZE} \<and>
        fl_tx_policy f \<in> {SCHED_OTHER, SCHED_FIFO, SCHED_RR} \<and> fl_rx_policy f \<in> {SCHED_OTHER, SCHED_FIFO, SCHED_RR} \<and>
        (if fl_tx_policy f = SCHED_OTHER then fl_tx_priority f = 0 else unat (fl_tx_priority f) \<in> {1..99}) \<and>
        (if fl_rx_policy f = SCHED_OTHER then fl_rx_priority f = 0 else unat (fl_rx_priority f) \<in> {1..99}) \<and>
        (shared \<longrightarrow> fl_rx_cpu f < 0 \<and> fl_all_pass_rx_cpu f < 0))"

lemma priority_ok:
  assumes "\<not> snd (number es k fb (if P then 0 else 1) (if P then 0 else 99))"
  shows "if P then fst (number es k fb (if P then 0 else 1) (if P then 0 else 99)) = 0
    else unat (fst (number es k fb (if P then 0 else 1) (if P then 0 else 99))) \<in> {1..99}"
  using number_ok [OF assms] by (auto simp: unat_eq_zero split: if_splits)

lemma flow_block_ok:
  assumes "\<not> snd (flow_block es shared i)"
  shows "flow_ok shared (fst (flow_block es shared i))"
proof (cases "fst (number es (flow_key i ''enabled'') None 0 1) = 0")
  case True
  then show ?thesis by (simp add: flow_block_def flow_ok_def zero_flow_def Let_def)
next
  case False
  let ?f = "fst (flow_block es shared i)"
  let ?tp = "fst (policy_field es (flow_key i ''tx_policy'')) = SCHED_OTHER"
  let ?rp = "fst (policy_field es (flow_key i ''rx_policy'')) = SCHED_OTHER"
  let ?rx = "cpu_field es (flow_key i ''rx_cpu'') None"
  let ?all = "cpu_field es (flow_key i ''all_pass_rx_cpu'') (Some (if fst ?rx < 0 then ''inherit'' else show_nat (nat (fst ?rx))))"
  have n: "\<not> snd (number es (flow_key i ''period_ns'') None 1 1000000000000)"
    "\<not> snd (number es (flow_key i ''deadline_ns'') (Some ''0'') 0 1000000000000)"
    "\<not> snd (number es (flow_key i ''tx_priority'') None (if ?tp then 0 else 1) (if ?tp then 0 else 99))"
    "\<not> snd (number es (flow_key i ''rx_priority'') None (if ?rp then 0 else 1) (if ?rp then 0 else 99))"
    and c: "\<not> snd (cpu_field es (flow_key i ''tx_cpu'') None)" "\<not> snd ?rx" "\<not> snd ?all"
    using assms False by (simp_all add: flow_block_def Let_def)
  have cpus: "shared \<longrightarrow> fl_rx_cpu ?f < 0 \<and> fl_all_pass_rx_cpu ?f < 0"
    using assms False by (auto simp: flow_block_def Let_def not_le)
  have eqs: "fl_period_ns ?f = fst (number es (flow_key i ''period_ns'') None 1 1000000000000)"
    "fl_deadline_ns ?f = fst (number es (flow_key i ''deadline_ns'') (Some ''0'') 0 1000000000000)"
    "fl_tx_cpu ?f = fst (cpu_field es (flow_key i ''tx_cpu'') None)" "fl_rx_cpu ?f = fst ?rx" "fl_all_pass_rx_cpu ?f = fst ?all"
    "fl_tx_policy ?f = fst (policy_field es (flow_key i ''tx_policy''))"
    "fl_rx_policy ?f = fst (policy_field es (flow_key i ''rx_policy''))"
    "fl_tx_priority ?f = fst (number es (flow_key i ''tx_priority'') None (if ?tp then 0 else 1) (if ?tp then 0 else 99))"
    "fl_rx_priority ?f = fst (number es (flow_key i ''rx_priority'') None (if ?rp then 0 else 1) (if ?rp then 0 else 99))"
    using False by (simp_all add: flow_block_def Let_def)
  have bounds: "1 \<le> unat (fl_period_ns ?f) \<and> unat (fl_period_ns ?f) \<le> 1000000000000 \<and> unat (fl_deadline_ns ?f) \<le> 1000000000000"
    unfolding eqs using number_ok [OF n(1)] number_ok [OF n(2)] by simp
  have ranges: "fl_tx_cpu ?f \<in> {-1..<int CPU_SETSIZE} \<and> fl_rx_cpu ?f \<in> {-1..<int CPU_SETSIZE} \<and> fl_all_pass_rx_cpu ?f \<in> {-1..<int CPU_SETSIZE}"
    unfolding eqs using c [THEN cpu_field_ok] by simp
  show ?thesis unfolding flow_ok_def using bounds ranges cpus priority_ok [OF n(3)] priority_ok [OF n(4)] policy_ok
    unfolding eqs by blast
qed

lemma modes_loop_ok:
  "\<not> snd (modes_loop ms acc) \<Longrightarrow> distinct acc \<Longrightarrow> length acc \<le> 4 \<Longrightarrow>
     set acc \<subseteq> {''mixed'', ''all-pass'', ''pass-xsk'', ''socket-only''} \<Longrightarrow>
     distinct (fst (modes_loop ms acc)) \<and> length (fst (modes_loop ms acc)) \<le> 4 \<and>
     set (fst (modes_loop ms acc)) \<subseteq> {''mixed'', ''all-pass'', ''pass-xsk'', ''socket-only''}"
  by (induction ms acc rule: modes_loop.induct) (auto split: prod.splits if_splits)

definition modes_ok :: "string list \<Rightarrow> bool" where
  "modes_ok ms \<longleftrightarrow> ms \<noteq> [] \<and> distinct ms \<and> length ms \<le> 4 \<and>
     set ms \<subseteq> {''mixed'', ''all-pass'', ''pass-xsk'', ''socket-only''}"

lemma modes_block_ok: "\<not> snd (modes_block uninit es) \<Longrightarrow> modes_ok (fst (modes_block uninit es))"
  using modes_loop_ok [of "split_commas [] (fst (string_field es ''modes'' None 64))" "[]"]
  by (auto simp: modes_block_def Let_def modes_ok_def)

text \<open>What the coordinator may rely on.\<close>

definition names_ok :: "run_config \<Rightarrow> bool" where
  "names_ok c \<longleftrightarrow>
     cf_run_id c \<noteq> [] \<and> length (cf_run_id c) < 65 \<and> alnum (hd (cf_run_id c)) \<and> list_all word_char (cf_run_id c) \<and>
     cf_address c \<noteq> [] \<and> length (cf_address c) < 64 \<and> cf_interface c \<noteq> [] \<and> length (cf_interface c) < 16 \<and>
     cf_output c \<noteq> [] \<and> length (cf_output c) < 4096"

definition run_config_ok :: "run_config \<Rightarrow> bool" where
  "run_config_ok c \<longleftrightarrow>
     names_ok c \<and> timing_ok (cf_timing c) \<and> placement_ok (cf_placement c) \<and>
     cpu_load_ok (cf_placement c) (cf_load c) \<and> other_load_ok (cf_load c) \<and> modes_ok (cf_modes c) \<and>
     length (cf_flows c) = 3 \<and> list_ex fl_enabled (cf_flows c) \<and>
     list_all (flow_ok (pl_shared_cpus (cf_placement c) \<noteq> [])) (cf_flows c) \<and>
     0 < flows_total (cf_flows c) (tm_duration_ms (cf_timing c)) \<and>
     flows_total (cf_flows c) (tm_duration_ms (cf_timing c)) \<le> RUN_MAX_RECORDS \<and>
     \<not> ports_clash (tm_control_port (cf_timing c)) (ld_network_port (cf_load c))"

lemma build_names_ok:
  assumes "\<not> snd (build_config uninit valid_ipv4 exe es)"
  defines "c \<equiv> fst (build_config uninit valid_ipv4 exe es)"
  shows "names_ok c" "valid_ipv4 (cf_address c)"
proof -
  let ?id = "string_field es ''run_id'' None 65" and ?address = "string_field es ''receiver_address'' None 64"
  let ?interface = "string_field es ''interface'' (Some ''eth0'') 16"
  let ?output = "string_field es ''output_root'' (Some ''results/experiment'') 4096"
  have c: "cf_run_id c = fst ?id" "cf_address c = fst ?address" "cf_interface c = fst ?interface" "cf_output c = fst ?output"
    unfolding c_def build_config_def Let_def by simp_all
  have e: "\<not> snd ?id" "\<not> snd ?address" "\<not> snd ?interface" "\<not> snd ?output"
    and v: "alnum (hd (fst ?id))" "list_all word_char (fst ?id)" "valid_ipv4 (fst ?address)"
    using assms(1) unfolding build_config_def Let_def snd_conv de_Morgan_disj by simp_all
  show "names_ok c" "valid_ipv4 (cf_address c)"
    unfolding names_ok_def c using e [THEN string_field_ok] v by blast+
qed

lemma build_config_ok:
  assumes "build_config uninit valid_ipv4 exe es = (c, False)"
  shows "run_config_ok c"
proof -
  let ?pl = "placement_block es" and ?tm = "timing_block es"
  let ?fl = "\<lambda>i. flow_block es (pl_shared_cpus (fst ?pl) \<noteq> []) i"
  have c: "c = fst (build_config uninit valid_ipv4 exe es)" and ne: "\<not> snd (build_config uninit valid_ipv4 exe es)"
    using assms by simp_all
  have e: "\<not> snd ?tm" "\<not> snd ?pl" "\<not> snd (modes_block uninit es)" "\<not> snd (?fl 0)" "\<not> snd (?fl 1)" "\<not> snd (?fl 2)"
    "\<not> snd (load_block es (fst ?pl))"
    using ne unfolding build_config_def Let_def by simp_all
  note ok = timing_block_ok [OF e(1)] placement_block_ok [OF e(2)] modes_block_ok [OF e(3)]
    flow_block_ok [OF e(4)] flow_block_ok [OF e(5)] flow_block_ok [OF e(6)] cpu_load_block_ok [OF e(7)] other_load_block_ok [OF e(7)]
  have f: "cf_timing c = fst ?tm" "cf_placement c = fst ?pl" "cf_modes c = fst (modes_block uninit es)"
    "cf_flows c = [fst (?fl 0), fst (?fl 1), fst (?fl 2)]" "cf_load c = fst (load_block es (fst ?pl))"
    unfolding c build_config_def Let_def by simp_all
  have g: "list_ex fl_enabled (cf_flows c)" "flows_total (cf_flows c) (tm_duration_ms (cf_timing c)) \<noteq> 0"
    "flows_total (cf_flows c) (tm_duration_ms (cf_timing c)) \<le> RUN_MAX_RECORDS"
    "\<not> ports_clash (tm_control_port (cf_timing c)) (ld_network_port (cf_load c))"
    using ne unfolding c build_config_def Let_def by (simp_all add: not_less)
  have "list_all (flow_ok (pl_shared_cpus (cf_placement c) \<noteq> [])) (cf_flows c)" "length (cf_flows c) = 3"
    unfolding f(2,4) using ok(4,5,6) by simp_all
  with g ok(1,2,3,7,8) build_names_ok(1) [OF ne, folded c] show ?thesis
    unfolding run_config_ok_def f(1,2,3,5) by (simp only: word_gt_0) simp
qed

lemma read_run_config_ok:
  assumes "read_run_config uninit valid_ipv4 exe digest lines = Some c"
  shows "run_config_ok c" "valid_ipv4 (cf_address c)"
proof -
  obtain es c0 d where b: "build_config uninit valid_ipv4 exe es = (c0, False)" "c = c0\<lparr>cf_digest := d\<rparr>"
    using assms by (auto simp: read_run_config_def split: option.splits prod.splits if_splits)
  then show "run_config_ok c" using build_config_ok [of uninit valid_ipv4 exe es c0] by (simp add: run_config_ok_def names_ok_def)
  show "valid_ipv4 (cf_address c)" using b build_names_ok(2) [of uninit valid_ipv4 exe es] by simp
qed

definition sample_lines :: "string list" where
  "sample_lines =
    [''run_id = r1'', ''receiver_address=10.0.0.2'', ''repeats=2'', ''modes=mixed,all-pass'', ''repo=/r'',
     ''duration_ms=10'', ''warmup_ms=0'', ''settle_ms=0'', ''monitor=0'', ''load.cpu_percent=0'', ''load.network_bps=0'',
     ''flow1.enabled=1'', ''flow1.period_ns=1000000'', ''flow1.tx_cpu=inherit'', ''flow1.rx_cpu=1'',
     ''flow1.tx_policy=fifo'', ''flow1.rx_policy=other'', ''flow1.tx_priority=10'', ''flow1.rx_priority=0'',
     ''flow2.enabled=0'', ''flow3.enabled=0'']"

definition sample_entries :: entries where
  "sample_entries =
    [(''run_id'', ''r1''), (''receiver_address'', ''10.0.0.2''), (''repeats'', ''2''), (''modes'', ''mixed,all-pass''),
     (''repo'', ''/r''), (''duration_ms'', ''10''), (''warmup_ms'', ''0''), (''settle_ms'', ''0''), (''monitor'', ''0''),
     (''load.cpu_percent'', ''0''), (''load.network_bps'', ''0''),
     (''flow1.enabled'', ''1''), (''flow1.period_ns'', ''1000000''), (''flow1.tx_cpu'', ''inherit''), (''flow1.rx_cpu'', ''1''),
     (''flow1.tx_policy'', ''fifo''), (''flow1.rx_policy'', ''other''), (''flow1.tx_priority'', ''10''), (''flow1.rx_priority'', ''0''),
     (''flow2.enabled'', ''0''), (''flow3.enabled'', ''0'')]"

lemma sample_lines_read: "config_lines sample_lines [] = Some sample_entries"
  by code_simp

text \<open>Evaluating numbers on concrete text.\<close>

lemma number_eval:
  "number es k fb lo hi =
     (case lookup es k fb of (t, e) \<Rightarrow>
        (case dec_accepts (Some t) (unat lo) (unat hi) of None \<Rightarrow> (0, True) | Some n \<Rightarrow> (of_nat n, e)))"
  by (simp add: number_def ace_u64.parse_exact split: prod.splits option.splits)

lemma cpu_field_eval:
  "cpu_field es k fb =
     (case lookup es k fb of (t, e) \<Rightarrow>
        if t = ''inherit'' then (-1, e)
        else (case dec_accepts (Some t) 0 1023 of None \<Rightarrow> (-1, True) | Some n \<Rightarrow> (int (unat (of_nat n :: u64)), e)))"
  by (simp add: cpu_field_def ace_u64.parse_exact split: prod.splits option.splits)

lemmas config_eval = number_eval cpu_field_eval policy_field_def string_field_def lookup_def dec_accepts_def dec_val_def
  digit_val_def is_digit_def char_code_def

lemma sample_timing:
  "\<not> snd (timing_block sample_entries)" "tm_duration_ms (fst (timing_block sample_entries)) = 10"
  "tm_control_port (fst (timing_block sample_entries)) = 49090"
  by (simp_all add: timing_block_def sample_entries_def config_eval)


lemma sample_placement:
  "\<not> snd (placement_block sample_entries)" "pl_shared_cpus (fst (placement_block sample_entries)) = []"
  by (simp_all add: placement_block_def sample_entries_def config_eval word_char_def alnum_def)

lemma sample_load:
  assumes "pl_shared_cpus pl = []"
  shows "\<not> snd (load_block sample_entries pl)" "ld_network_port (fst (load_block sample_entries pl)) = 5201"
  using assms by (simp_all add: load_block_def sample_entries_def config_eval word_char_def alnum_def comma_misuse_def)

lemma sample_modes: "\<not> snd (modes_block [] sample_entries)"
  by (simp add: modes_block_def sample_entries_def config_eval)

lemma sample_flows:
  "\<not> snd (flow_block sample_entries False 0)" "\<not> snd (flow_block sample_entries False 1)" "\<not> snd (flow_block sample_entries False 2)"
  "fl_enabled (fst (flow_block sample_entries False 0))" "fl_period_ns (fst (flow_block sample_entries False 0)) = 1000000"
  "fst (flow_block sample_entries False 1) = zero_flow" "fst (flow_block sample_entries False 2) = zero_flow"
  by (simp_all add: flow_block_def flow_key_def show_nat_eval sample_entries_def config_eval)

lemma sample_total:
  "flows_total (map fst (map (flow_block sample_entries False) [0, 1, 2])) 10 = 10"
  using sample_flows(4,5,6,7) by (simp add: flows_total_def flow_count_def zero_flow_def)

lemma sample_strings:
  "string_field sample_entries ''run_id'' None 65 = (''r1'', False)"
  "string_field sample_entries ''receiver_address'' None 64 = (''10.0.0.2'', False)"
  "string_field sample_entries ''interface'' (Some ''eth0'') 16 = (''eth0'', False)"
  "string_field sample_entries ''repo'' (Some ''AUTO'') 4096 = (''/r'', False)"
  "string_field sample_entries ''output_root'' (Some ''results/experiment'') 4096 = (''results/experiment'', False)"
  by (simp_all add: sample_entries_def string_field_def lookup_def)

definition dotted :: "string \<Rightarrow> bool" where
  "dotted s \<longleftrightarrow> s = ''10.0.0.2''"

lemma sample_accepted: "\<exists>c. read_run_config [] dotted None (Some []) sample_lines = Some c"
proof -
  have "\<not> snd (build_config [] dotted None sample_entries)"
    using sample_timing sample_placement sample_load [OF sample_placement(2)] sample_modes sample_flows sample_total
    unfolding build_config_def Let_def
    by (simp add: sample_strings word_char_def alnum_def char_code_def repo_of_def ports_clash_def dotted_def)
  then obtain c where "build_config [] dotted None sample_entries = (c, False)"
    by (metis prod.collapse)
  then show ?thesis by (simp add: read_run_config_def sample_lines_read)
qed

section \<open>Properties\<close>

text \<open>
  Property C40.  A configuration file that is accepted satisfies every bound and consistency condition of the
  reader: names and texts that fit their fields, a valid receiver address; bounded times with the stop
  timeout at least 100 ms beyond the drain window; one to four distinct known modes; three flows with
  at least one enabled, each with a positive period, CPUs in range and a priority that fits its
  scheduling policy; a total packet count between one and the record capacity; when the receiver's
  CPUs are shared, a mask that holds the CPU the BPF program redirects to, an interrupt CPU elsewhere
  in the mask, and no pinned receiver; a CPU load whose layout, worker count and CPU list agree with
  the shared CPUs; a network load with known protocol and direction and at least one bit per second
  and stream; on and off times of the load both set or both absent; and no two ports that clash.
\<close>

theorem accepted_config_ok:
  assumes "read_run_config uninit valid_ipv4 exe digest lines = Some c"
  shows "run_config_ok c \<and> valid_ipv4 (cf_address c)"
  using read_run_config_ok [OF assms] by blast

theorem accepted_config_ok_witness:
  "\<exists>c. read_run_config [] dotted None (Some []) sample_lines = Some c \<and> run_config_ok c \<and> dotted (cf_address c)"
  using sample_accepted accepted_config_ok by blast

lemma flow_count_nat:
  assumes "1 \<le> unat (fl_period_ns f)" "unat (fl_period_ns f) \<le> 1000000000000" "unat duration \<le> 86400000"
  shows "unat (flow_count f duration) = (unat duration * 1000000 + unat (fl_period_ns f) - 1) div unat (fl_period_ns f)"
proof -
  have "unat (duration * 1000000) = unat duration * 1000000" using assms(3) by (simp add: unat_word_ariths)
  moreover have "unat (duration * 1000000 + fl_period_ns f) = unat (duration * 1000000) + unat (fl_period_ns f)"
    using assms calculation by (simp add: unat_word_ariths)
  moreover have "unat (duration * 1000000 + fl_period_ns f - 1) = unat (duration * 1000000 + fl_period_ns f) - 1"
    using assms(1) calculation by (subst unat_sub) (simp_all add: word_le_nat_alt)
  ultimately show ?thesis by (simp add: flow_count_def unat_div)
qed

text \<open>
  The packet count of an enabled flow of an accepted configuration is computed without
  wrap-around and is the number of send times that fall into the run: count - 1 periods are shorter
  than the duration, count periods are not.
\<close>

theorem flow_count_covers_run:
  assumes "run_config_ok c" "f \<in> set (cf_flows c)" "fl_enabled f"
  shows "let n = unat (flow_count f (tm_duration_ms (cf_timing c)));
             run_ns = unat (tm_duration_ms (cf_timing c)) * 1000000 in
    1 \<le> n \<and> (n - 1) * unat (fl_period_ns f) < run_ns \<and> run_ns \<le> n * unat (fl_period_ns f)"
proof -
  let ?p = "unat (fl_period_ns f)" and ?d = "unat (tm_duration_ms (cf_timing c)) * 1000000"
  have p: "1 \<le> ?p" "?p \<le> 1000000000000"
    using assms by (auto simp: run_config_ok_def list_all_iff flow_ok_def)
  have d: "unat (tm_duration_ms (cf_timing c)) \<le> 86400000" "1 \<le> ?d"
    using assms(1) by (auto simp: run_config_ok_def timing_ok_def)
  have n: "unat (flow_count f (tm_duration_ms (cf_timing c))) = (?d + ?p - 1) div ?p"
    by (rule flow_count_nat [OF p d(1)])
  let ?q = "(?d + ?p - 1) div ?p"
  have m: "?d + ?p - 1 = ?q * ?p + (?d + ?p - 1) mod ?p" by simp
  have r: "(?d + ?p - 1) mod ?p < ?p" using p(1) by simp
  have q: "1 \<le> ?q" using p(1) d(2) by (simp add: Suc_le_eq div_greater_zero_iff)
  have "?d \<le> ?q * ?p" using m r by linarith
  moreover have "(?q - 1) * ?p = ?q * ?p - ?p" by (simp add: diff_mult_distrib)
  then have "(?q - 1) * ?p < ?d" using m r q p(1) d(2) by linarith
  ultimately show ?thesis using q by (simp add: n Let_def)
qed


lemma sample_config_flow:
  assumes "read_run_config [] dotted None (Some []) sample_lines = Some c"
  shows "fl_enabled (cf_flows c ! 0)" "cf_flows c ! 0 \<in> set (cf_flows c)"
proof -
  have "cf_flows c = map fst (map (flow_block sample_entries (pl_shared_cpus (fst (placement_block sample_entries)) \<noteq> [])) [0, 1, 2])"
    using assms by (auto simp: read_run_config_def sample_lines_read build_config_def Let_def split: if_splits)
  then have f: "cf_flows c = [fst (flow_block sample_entries False 0), fst (flow_block sample_entries False 1),
      fst (flow_block sample_entries False 2)]" by (simp add: sample_placement(2))
  show "fl_enabled (cf_flows c ! 0)" "cf_flows c ! 0 \<in> set (cf_flows c)" using sample_flows(4) by (simp_all add: f)
qed

theorem flow_count_covers_run_witness:
  "\<exists>c. read_run_config [] dotted None (Some []) sample_lines = Some c \<and>
     1 \<le> unat (flow_count (cf_flows c ! 0) (tm_duration_ms (cf_timing c)))"
proof -
  obtain c where c: "read_run_config [] dotted None (Some []) sample_lines = Some c" using sample_accepted by blast
  have "run_config_ok c" by (rule read_run_config_ok [OF c])
  then show ?thesis using flow_count_covers_run [OF _ sample_config_flow(2) sample_config_flow(1), OF _ c c] c
    by (auto simp: Let_def)
qed

text \<open>The name the coordinator writes for a path of the classifier.\<close>

definition path_name :: "u16 \<Rightarrow> string" where
  "path_name path = (if path = ACE_PATH_XSK then ''xsk'' else if path = ACE_PATH_CPUMAP then ''cpumap'' else ''pass'')"

text \<open>
  The coordinator and the kernel agree on the path of every flow: for each mode the
  loader accepts, the path the coordinator writes for flow \<open>i\<close> is the one the classifier requests for
  packets to port 9000 + i in the forwarding mode the loader was given.
\<close>

theorem run_flow_path_agrees_with_classifier:
  assumes "loader_option (L_mode mode) opts = Cli_ok opts'" "i < 3"
  shows "\<exists>classified. xdp_route (9000 + of_nat i) = Some classified \<and>
    run_flow_path mode i = path_name (ace_effective_requested_path (lo_mode opts') classified)"
proof -
  have "mode = ''mixed'' \<and> lo_mode opts' = ACE_FORWARD_MIXED \<or> mode = ''all-pass'' \<and> lo_mode opts' = ACE_FORWARD_ALL_PASS \<or>
      mode = ''pass-xsk'' \<and> lo_mode opts' = ACE_FORWARD_PASS_XSK"
    using assms(1) by (auto split: if_splits)
  moreover have "i = 0 \<or> i = 1 \<or> i = 2" using assms(2) by arith
  ultimately show ?thesis
    by (elim disjE conjE) (simp_all add: run_flow_path_def path_name_def ace_effective_requested_path_def xdp_route_def)
qed

theorem run_flow_path_agrees_with_classifier_witness:
  "run_flow_path ''pass-xsk'' 1 = path_name (ace_effective_requested_path ACE_FORWARD_PASS_XSK ACE_PATH_CPUMAP)"
  using run_flow_path_agrees_with_classifier [of "''pass-xsk''" loader_defaults "loader_defaults\<lparr>lo_mode := ACE_FORWARD_PASS_XSK\<rparr>" 1]
  by (auto simp: xdp_route_def)

text \<open>
  CPU placement of a shared receiver: in a mode in which the CPUMAP path is active, the
  CPUMAP flow's receiver runs on exactly the CPU the BPF program redirects to, while all general
  receivers and loads keep away from it and still have a CPU, the one of the interrupt.
\<close>

theorem cpumap_cpu_reserved:
  assumes "run_config_ok c" "run_cpumap_active c mode" "i \<noteq> 1"
  shows "run_rx_cpu_set c 1 mode = {unat ACE_XDP_RT_CPU} \<and> unat ACE_XDP_RT_CPU \<notin> run_rx_cpu_set c i mode \<and>
    pl_rx_irq_cpu (cf_placement c) \<in> run_rx_cpu_set c i mode \<and>
    run_rx_cpu_set c 1 mode \<union> run_rx_cpu_set c i mode = pl_shared_mask (cf_placement c)"
proof -
  have sh: "pl_shared_cpus (cf_placement c) \<noteq> []" using assms(2) by (simp add: run_cpumap_active_def)
  then have p: "pl_cpumap_cpu (cf_placement c) = unat ACE_XDP_RT_CPU"
    "pl_cpumap_cpu (cf_placement c) \<in> pl_shared_mask (cf_placement c)"
    "pl_rx_irq_cpu (cf_placement c) \<in> pl_shared_mask (cf_placement c) - {pl_cpumap_cpu (cf_placement c)}"
    using assms(1) by (auto simp: run_config_ok_def placement_ok_def)
  then show ?thesis using sh assms(2,3) by (auto simp: run_rx_cpu_set_def run_general_cpu_set_def)
qed

definition sample_shared :: run_config where
  "sample_shared = \<lparr>cf_run_id = ''r'', cf_address = ''10.0.0.2'', cf_interface = ''eth0'', cf_repo = [], cf_output = ''o'', cf_digest = [],
     cf_timing = \<lparr>tm_control_port = 49090, tm_repeats = 1, tm_alternate_mode_order = 0, tm_verify_placement = 0,
       tm_duration_ms = 10, tm_warmup_ms = 0, tm_ready_ms = 100, tm_stop_ms = 200, tm_start_delay_ms = 10,
       tm_xsk_busy = 0, tm_phc_tracking = 0, tm_rx_coalesce_usecs = -1, tm_drain_ms = 100, tm_settle_ms = 0, tm_monitor = 0\<rparr>,
     cf_placement = \<lparr>pl_supervisor_cpu = -1, pl_receiver_supervisor_cpu = -1, pl_sender_supervisor_cpu = -1,
       pl_receiver_network_cpu = -1, pl_sender_network_cpu = -1, pl_shared_cpus = cpu_text [2, 3],
       pl_shared_mask = {2, 3}, pl_cpumap_cpu = 3, pl_governor = ''g'', pl_rx_irq_cpu = 2\<rparr>,
     cf_load = \<lparr>ld_cpu_percent = 0, ld_cpu_layout = ''pinned'', ld_cpu_workers = 0, ld_cpu_cpus = [], ld_cpu_method = ''all'',
       ld_memory_workers = 0, ld_memory_bytes = ''0'', ld_io_workers = 0, ld_io_path = ''/tmp'', ld_network_bps = 0,
       ld_network_port = 5201, ld_network_parallel = 1, ld_network_protocol = ''udp'', ld_network_direction = ''forward'',
       ld_on_sec = 0, ld_off_sec = 0\<rparr>,
     cf_modes = [''mixed'', ''all-pass''],
     cf_flows = [zero_flow, zero_flow\<lparr>fl_enabled := True, fl_period_ns := 1000000, fl_rx_cpu := -1, fl_all_pass_rx_cpu := -1\<rparr>, zero_flow]\<rparr>"

lemma sample_shared_ok: "run_config_ok sample_shared" "run_cpumap_active sample_shared ''mixed''"
proof -
  have "run_parse_cpus (Some (cpu_text [2, 3])) = Some {2, 3}"
    using parse_cpu_text [of "[2, 3]" "{}"] by (simp add: run_parse_cpus_def)
  then show "run_config_ok sample_shared"
    unfolding run_config_ok_def sample_shared_def
    by (simp add: names_ok_def timing_ok_def placement_ok_def cpu_load_ok_def other_load_ok_def comma_misuse_def modes_ok_def flow_ok_def zero_flow_def
        flows_total_def flow_count_def word_char_def alnum_def char_code_def ports_clash_def)
  show "run_cpumap_active sample_shared ''mixed''"
    by (simp add: run_cpumap_active_def sample_shared_def)
qed

theorem cpumap_cpu_reserved_witness:
  "run_rx_cpu_set sample_shared 1 ''mixed'' = {3} \<and> 3 \<notin> run_rx_cpu_set sample_shared 0 ''mixed''"
  using cpumap_cpu_reserved [OF sample_shared_ok, of 0] by simp

lemma inj_on_shift_mod: "inj_on (\<lambda>p. (p + k) mod n) {..<n :: nat}"
proof (rule linorder_inj_onI)
  fix x y assume "x < y" and y: "y \<in> {..<n}"
  then have "\<not> n dvd y - x" by (simp add: nat_dvd_not_less)
  then show "(x + k) mod n \<noteq> (y + k) mod n"
    using mod_eq_dvd_iff_nat [of "x + k" "y + k" n] \<open>x < y\<close> by auto
qed auto

text \<open>
  The mode order of every repetition visits each configured mode exactly once, also
  when the order rotates between repetitions.
\<close>

theorem mode_order_is_permutation:
  assumes "run_config_ok c" "unat r \<le> unat (tm_repeats (cf_timing c))"
  shows "bij_betw (\<lambda>p. unat (run_mode_index c r (of_nat p))) {..<length (cf_modes c)} {..<length (cf_modes c)}"
proof -
  let ?n = "length (cf_modes c)"
  let ?off = "if tm_alternate_mode_order (cf_timing c) \<noteq> 0 \<and> r \<noteq> 0 then r - 1 else 0"
  have n: "0 < ?n" "?n \<le> 4" using assms(1) by (auto simp: run_config_ok_def modes_ok_def)
  have r: "unat r \<le> 10000" using assms by (auto simp: run_config_ok_def timing_ok_def)
  have off: "unat ?off \<le> 10000"
  proof (cases "r = 0")
    case False
    then have "unat (r - 1) = unat r - 1" by (subst unat_sub) (simp_all add: word_le_nat_alt unat_gt_0 Suc_le_eq)
    then have "unat (r - 1) \<le> 10000" using r by linarith
    then show ?thesis by (simp del: One_nat_def)
  qed simp
  have eq: "unat (run_mode_index c r (of_nat p)) = (p + unat ?off) mod ?n" if "p < ?n" for p
  proof -
    have "unat (of_nat p :: u32) = p" "unat (of_nat ?n :: u32) = ?n"
      using that n(2) by (simp_all add: unat_of_nat)
    moreover have "unat (of_nat p + ?off :: u32) = p + unat ?off"
      using calculation(1) that n(2) off by (simp add: unat_word_ariths del: of_nat_add)
    moreover have "(of_nat ?n :: u32) \<noteq> 0" using n calculation(2) by auto
    ultimately show ?thesis by (simp add: run_mode_index_def Let_def unat_mod)
  qed
  have inj: "inj_on (\<lambda>p. (p + k) mod ?n) {..<?n}" for k by (rule inj_on_shift_mod)
  have "inj_on (\<lambda>p. unat (run_mode_index c r (of_nat p))) {..<?n}"
    using inj [of "unat ?off"] by (simp add: inj_on_def eq)
  moreover have "(\<lambda>p. unat (run_mode_index c r (of_nat p))) ` {..<?n} \<subseteq> {..<?n}" using n by (auto simp: eq)
  ultimately show ?thesis by (simp add: bij_betw_def endo_inj_surj)
qed

theorem mode_order_is_permutation_witness:
  "bij_betw (\<lambda>p. unat (run_mode_index sample_shared 1 (of_nat p))) {..<2} {..<2}"
proof -
  have "length (cf_modes sample_shared) = 2" "unat (1 :: u32) \<le> unat (tm_repeats (cf_timing sample_shared))"
    by (simp_all add: sample_shared_def)
  then show ?thesis using mode_order_is_permutation [OF sample_shared_ok(1), of 1] by simp
qed

end
