(* ===== verification/Csv_Export.thy ===== *)
theory Csv_Export
  imports Drain Command_Line
begin

text \<open>
  The measurement files.  \<^verbatim>\<open>BPF/xdp_loader.c\<close> writes the two record maps and the statistics to
  CSV files once the data path is quiet; \<^verbatim>\<open>BPF/afxdp_recv.c\<close> writes the records of its socket.
  The file system is a map from paths to contents and the results of the file calls are parameters.
  Each CSV format is an instance of the contract \<open>csv_format\<close>: what is written can be read back.
  The last section composes the export with the data path: the rows of the files are the records
  of the maps, and their number is what the statistics file says.
\<close>

section \<open>CSV text\<close>

text \<open>\<^verbatim>\<open>%u\<close>, \<^verbatim>\<open>PRIu64\<close> and \<^verbatim>\<open>%d\<close>, \<^verbatim>\<open>PRId64\<close>.\<close>

definition show_word :: "'a::len word \<Rightarrow> string" where "show_word w = show_nat (unat w)"

definition show_signed :: "'a::len word \<Rightarrow> string" where
  "show_signed w = (if sint w < 0 then CHR ''-'' # show_nat (nat (- sint w)) else show_nat (nat (sint w)))"

abbreviation NL :: char where "NL \<equiv> CHR 0x0A"

fun join_fields :: "string list \<Rightarrow> string" where
  "join_fields [] = []"
| "join_fields [f] = f"
| "join_fields (f # g # fs) = f @ CHR '','' # join_fields (g # fs)"

definition csv_line :: "string list \<Rightarrow> string" where "csv_line fs = join_fields fs @ [NL]"

text \<open>The reader: lines, then fields.\<close>

fun split_at :: "char \<Rightarrow> string \<Rightarrow> string list" where
  "split_at c [] = [[]]"
| "split_at c (x # xs) = (if x = c then [] # split_at c xs else (x # hd (split_at c xs)) # tl (split_at c xs))"

definition read_word :: "string \<Rightarrow> 'a::len word" where "read_word s = of_nat (dec_val s)"

definition read_signed :: "string \<Rightarrow> 'a::len word" where
  "read_signed s = (case s of
     [] \<Rightarrow> 0
   | c # cs \<Rightarrow> if c = CHR ''-'' then - of_nat (dec_val cs) else of_nat (dec_val s))"

definition read_csv :: "(string list \<Rightarrow> 'r option) \<Rightarrow> string \<Rightarrow> 'r list option" where
  "read_csv rd text = those (map (rd \<circ> split_at (CHR '','')) (butlast (tl (split_at NL text))))"

definition plain_text :: "string \<Rightarrow> bool" where
  "plain_text s \<longleftrightarrow> CHR '','' \<notin> set s \<and> NL \<notin> set s"

lemma split_at_not_Nil [simp]: "split_at c s \<noteq> []"
  by (cases s) auto

lemma split_at_sep: "c \<notin> set s \<Longrightarrow> split_at c (s @ c # t) = s # split_at c t"
  by (induction s) auto

lemma split_at_plain: "c \<notin> set s \<Longrightarrow> split_at c s = [s]"
  by (induction s) auto

lemma split_join: "fs \<noteq> [] \<Longrightarrow> list_all plain_text fs \<Longrightarrow> split_at (CHR '','') (join_fields fs) = fs"
  by (induction fs rule: join_fields.induct) (auto simp: plain_text_def split_at_sep split_at_plain)

lemma join_no_newline: "list_all plain_text fs \<Longrightarrow> NL \<notin> set (join_fields fs)"
  by (induction fs rule: join_fields.induct) (auto simp: plain_text_def)

lemma split_lines:
  "\<forall>l \<in> set ls. NL \<notin> set l \<Longrightarrow> split_at NL (concat (map (\<lambda>l. l @ [NL]) ls)) = ls @ [[]]"
  by (induction ls) (auto simp: split_at_sep)

lemma those_map_Some: "(\<And>x. x \<in> set xs \<Longrightarrow> f x = Some (g x)) \<Longrightarrow> those (map f xs) = Some (map g xs)"
  by (induction xs) auto

lemma plain_digits: "list_all is_digit s \<Longrightarrow> plain_text s"
  unfolding plain_text_def
  by (auto simp: list_all_iff is_digit_def char_code_def)

lemma plain_show_word [simp]: "plain_text (show_word w)"
  by (simp add: show_word_def plain_digits show_nat_digits)

lemma plain_show_signed [simp]: "plain_text (show_signed w)"
  using plain_digits [OF show_nat_digits] by (auto simp: show_signed_def plain_text_def)

lemma read_show_word [simp]: "read_word (show_word w) = w"
  by (simp add: read_word_def show_word_def)

lemma show_nat_hd: "show_nat n = c # cs \<Longrightarrow> c \<noteq> CHR ''-''"
  using show_nat_digits [of n] by (auto simp: is_digit_def char_code_def)

lemma read_show_signed [simp]: "read_signed (show_signed w) = w"
proof (cases "sint w < 0")
  case True
  then have "of_nat (nat (- sint w)) = - w" by (simp add: of_nat_nat)
  with True show ?thesis by (simp add: read_signed_def show_signed_def)
next
  case False
  then have w: "of_nat (dec_val (show_nat (nat (sint w)))) = w" by (simp add: of_nat_nat)
  obtain c cs where c: "show_nat (nat (sint w)) = c # cs" by (cases "show_nat (nat (sint w))") auto
  show ?thesis using False w show_nat_hd [OF c] by (simp add: read_signed_def show_signed_def c)
qed

section \<open>The contract of a CSV format\<close>

locale csv_format =
  fixes header :: string
    and fields :: "'r \<Rightarrow> string list"
    and reader :: "string list \<Rightarrow> 'r option"
    and well_formed :: "'r \<Rightarrow> bool"
  assumes header_line: "NL \<notin> set header"
    and fields_plain: "well_formed r \<Longrightarrow> fields r \<noteq> [] \<and> list_all plain_text (fields r)"
    and reader_fields: "well_formed r \<Longrightarrow> reader (fields r) = Some r"
begin

lemma split_fields: "well_formed r \<Longrightarrow> split_at (CHR '','') (join_fields (fields r)) = fields r"
  using fields_plain [of r] by (simp add: split_join)

lemma file_readable:
  assumes "list_all well_formed rs"
  shows "read_csv reader (header @ NL # concat (map (csv_line \<circ> fields) rs)) = Some rs"
proof -
  let ?ls = "map (join_fields \<circ> fields) rs"
  have eq: "header @ NL # concat (map (csv_line \<circ> fields) rs) = concat (map (\<lambda>l. l @ [NL]) (header # ?ls))"
    by (simp add: csv_line_def comp_def)
  have "split_at NL (concat (map (\<lambda>l. l @ [NL]) (header # ?ls))) = (header # ?ls) @ [[]]"
    using header_line fields_plain assms by (intro split_lines) (auto simp: join_no_newline list_all_iff)
  then have "read_csv reader (header @ NL # concat (map (csv_line \<circ> fields) rs)) =
    those (map (\<lambda>r. reader (split_at (CHR '','') (join_fields (fields r)))) rs)"
    unfolding read_csv_def eq by (simp add: butlast_append comp_def)
  also have "\<dots> = those (map (\<lambda>r. reader (fields r)) rs)"
    using assms split_fields by (auto simp: list_all_iff intro!: arg_cong [where f = those] map_cong)
  also have "\<dots> = Some (map id rs)"
    using assms reader_fields by (intro those_map_Some) (auto simp: list_all_iff)
  finally show ?thesis by simp
qed

lemma files_determine_records:
  assumes "list_all well_formed rs" "list_all well_formed rs'"
    "header @ NL # concat (map (csv_line \<circ> fields) rs) = header @ NL # concat (map (csv_line \<circ> fields) rs')"
  shows "rs = rs'"
  using file_readable [OF assms(1)] unfolding assms(3) file_readable [OF assms(2)] by simp

end

section \<open>The formats\<close>

definition ingress_header :: string where
  "ingress_header =
     ''flow_id,sequence,rx_queue,hw_rx_ns,initial_xdp_ns,flags,requested_path,timestamp_error''"

definition ingress_fields :: "ace_packet_key \<times> ace_ingress_record \<Rightarrow> string list" where
  "ingress_fields = (\<lambda>(current, record).
     [show_word (pk_flow_id current), show_word (pk_sequence current), show_word (ir_rx_queue record),
      show_word (ir_hw_rx_ns record), show_word (ir_initial_xdp_ns record), show_word (ir_flags record),
      show_word (ir_requested_path record), show_signed (ir_timestamp_error record)])"

definition read_ingress :: "string list \<Rightarrow> (ace_packet_key \<times> ace_ingress_record) option" where
  "read_ingress fs = (case fs of
     [flow, seq, queue, hw, xdp, flags, path, err] \<Rightarrow>
       Some (\<lparr>pk_flow_id = read_word flow, pk_reserved = 0, pk_sequence = read_word seq\<rparr>,
         \<lparr>ir_flow_id = read_word flow, ir_rx_queue = read_word queue, ir_sequence = read_word seq,
          ir_hw_rx_ns = read_word hw, ir_initial_xdp_ns = read_word xdp, ir_flags = read_word flags,
          ir_requested_path = read_word path, ir_timestamp_error = read_signed err\<rparr>)
   | _ \<Rightarrow> None)"

definition ingress_identity :: "ace_packet_key \<times> ace_ingress_record \<Rightarrow> bool" where
  "ingress_identity = (\<lambda>(k, r). pk_reserved k = 0 \<and> ir_flow_id r = pk_flow_id k \<and> ir_sequence r = pk_sequence k)"

interpretation ingress_csv: csv_format ingress_header ingress_fields read_ingress ingress_identity
proof
  fix r show "ingress_fields r \<noteq> [] \<and> list_all plain_text (ingress_fields r)"
    by (cases r) (simp add: ingress_fields_def)
next
  fix r assume "ingress_identity r"
  then show "read_ingress (ingress_fields r) = Some r"
    by (cases r) (auto simp: ingress_identity_def read_ingress_def ingress_fields_def)
qed (simp add: ingress_header_def)

definition cpumap_header :: string where
  "cpumap_header = ''flow_id,sequence,cpu,cpumap_ns,flags,requested_path''"

definition cpumap_fields :: "ace_packet_key \<times> ace_cpumap_record \<Rightarrow> string list" where
  "cpumap_fields = (\<lambda>(current, record).
     [show_word (pk_flow_id current), show_word (pk_sequence current), show_word (cr_cpu record),
      show_word (cr_cpumap_ns record), show_word (cr_flags record), show_word (cr_requested_path record)])"

definition read_cpumap :: "string list \<Rightarrow> (ace_packet_key \<times> ace_cpumap_record) option" where
  "read_cpumap fs = (case fs of
     [flow, seq, cpu, ns, flags, path] \<Rightarrow>
       Some (\<lparr>pk_flow_id = read_word flow, pk_reserved = 0, pk_sequence = read_word seq\<rparr>,
         \<lparr>cr_flow_id = read_word flow, cr_cpu = read_word cpu, cr_sequence = read_word seq,
          cr_cpumap_ns = read_word ns, cr_flags = read_word flags, cr_requested_path = read_word path,
          cr_reserved = 0\<rparr>)
   | _ \<Rightarrow> None)"

definition cpumap_identity :: "ace_packet_key \<times> ace_cpumap_record \<Rightarrow> bool" where
  "cpumap_identity = (\<lambda>(k, r). pk_reserved k = 0 \<and> cr_flow_id r = pk_flow_id k \<and>
     cr_sequence r = pk_sequence k \<and> cr_reserved r = 0)"

interpretation cpumap_csv: csv_format cpumap_header cpumap_fields read_cpumap cpumap_identity
proof
  fix r show "cpumap_fields r \<noteq> [] \<and> list_all plain_text (cpumap_fields r)"
    by (cases r) (simp add: cpumap_fields_def)
next
  fix r assume "cpumap_identity r"
  then show "read_cpumap (cpumap_fields r) = Some r"
    by (cases r) (auto simp: cpumap_identity_def read_cpumap_def cpumap_fields_def)
qed (simp add: cpumap_header_def)

definition user_header :: string where
  "user_header = ''flow_id,sequence,rx_queue,tx_realtime_ns,user_rx_mono_ns,'' @
     ''user_rx_real_ns,hw_rx_ns,'' @
     ''initial_xdp_ns,meta_flags,requested_path,timestamp_error,'' @
     ''packet_length,validation_flags''"

definition user_fields :: "ace_xsk_user_record \<Rightarrow> string list" where
  "user_fields record =
     [show_word (xr_flow_id record), show_word (xr_sequence record), show_word (xr_rx_queue record),
      show_signed (xr_tx_realtime_ns record), show_word (xr_user_rx_mono_ns record),
      show_signed (xr_user_rx_real_ns record), show_word (xr_hw_rx_ns record),
      show_word (xr_initial_xdp_ns record), show_word (xr_meta_flags record),
      show_word (xr_requested_path record), show_signed (xr_timestamp_error record),
      show_word (xr_packet_length record), show_word (xr_validation_flags record)]"

definition read_user :: "string list \<Rightarrow> ace_xsk_user_record option" where
  "read_user fs = (case fs of
     [flow, seq, queue, tx, mn, rt, hw, xdp, flags, path, err, len, valid] \<Rightarrow>
       Some \<lparr>xr_flow_id = read_word flow, xr_rx_queue = read_word queue, xr_sequence = read_word seq,
         xr_tx_realtime_ns = read_signed tx, xr_user_rx_mono_ns = read_word mn,
         xr_user_rx_real_ns = read_signed rt, xr_hw_rx_ns = read_word hw, xr_initial_xdp_ns = read_word xdp,
         xr_meta_flags = read_word flags, xr_requested_path = read_word path,
         xr_timestamp_error = read_signed err, xr_packet_length = read_word len,
         xr_validation_flags = read_word valid\<rparr>
   | _ \<Rightarrow> None)"

interpretation user_csv: csv_format user_header user_fields read_user "\<lambda>_. True"
  by unfold_locales (simp_all add: user_fields_def user_header_def read_user_def)

section \<open>Files\<close>

type_synonym files = "string \<rightharpoonup> string"

text \<open>
  The results of the calls on one file: the errno with which \<^verbatim>\<open>open\<close>, \<^verbatim>\<open>fdopen\<close>, the flush (a
  stream error may leave errno 0), \<^verbatim>\<open>fsync\<close> and \<^verbatim>\<open>fclose\<close> fail, and what a failed write leaves
  of the text.
\<close>

record file_io =
  io_open :: "errno option"
  io_fdopen :: "errno option"
  io_flush :: "errno option"
  io_fsync :: "errno option"
  io_fclose :: "errno option"
  io_left :: "string \<Rightarrow> string"

definition io_ok :: file_io where
  "io_ok = \<lparr>io_open = None, io_fdopen = None, io_flush = None, io_fsync = None, io_fclose = None, io_left = id\<rparr>"

definition create_csv :: "file_io \<Rightarrow> string \<Rightarrow> files \<Rightarrow> (errno + unit) \<times> files" where
  "create_csv io path fs =
     (if path \<in> dom fs then (Inl EEXIST, fs)
      else (case io_open io of
          Some e \<Rightarrow> (Inl e, fs)
        | None \<Rightarrow>
            (case io_fdopen io of
               Some e \<Rightarrow> (Inl e, fs(path \<mapsto> []))
             | None \<Rightarrow> (Inr (), fs(path \<mapsto> [])))))"

definition finish_csv :: "file_io \<Rightarrow> string \<Rightarrow> string \<Rightarrow> files \<Rightarrow> (errno + unit) \<times> files" where
  "finish_csv io path text fs =
     (case io_flush io of
        Some e \<Rightarrow> (Inl (if e \<noteq> 0 then e else EIO), fs(path \<mapsto> io_left io text))
      | None \<Rightarrow>
          (case io_fsync io of
             Some e \<Rightarrow> (Inl e, fs(path \<mapsto> io_left io text))
           | None \<Rightarrow>
               (case io_fclose io of
                  Some e \<Rightarrow> (Inl e, fs(path \<mapsto> io_left io text))
                | None \<Rightarrow> (Inr (), fs(path \<mapsto> text)))))"

text \<open>
  The loop over a map.  \<open>next\<close> is \<^verbatim>\<open>bpf_map_get_next_key\<close>, \<open>look\<close> is \<^verbatim>\<open>bpf_map_lookup_elem\<close>; the
  first argument bounds the rounds and \<open>None\<close> means that the bound was exceeded.
\<close>

fun csv_rows ::
  "nat \<Rightarrow> ('k option \<Rightarrow> errno + 'k) \<Rightarrow> ('k \<Rightarrow> errno + 'v) \<Rightarrow> ('k \<times> 'v \<Rightarrow> string list) \<Rightarrow> 'k option \<Rightarrow> string \<Rightarrow>
     ((errno + unit) \<times> string) option" where
  "csv_rows 0 next look row previous text = None"
| "csv_rows (Suc fuel) next look row previous text =
     (case next previous of
        Inl e \<Rightarrow> Some (if e \<noteq> ENOENT then Inl e else Inr (), text)
      | Inr current \<Rightarrow>
          (case look current of
             Inl e \<Rightarrow> Some (Inl e, text)
           | Inr record \<Rightarrow> csv_rows fuel next look row (Some current) (text @ csv_line (row (current, record)))))"

definition export_rows ::
  "string \<Rightarrow> ('k \<times> 'v \<Rightarrow> string list) \<Rightarrow> nat \<Rightarrow> file_io \<Rightarrow> ('k option \<Rightarrow> errno + 'k) \<Rightarrow> ('k \<Rightarrow> errno + 'v) \<Rightarrow>
     string \<Rightarrow> files \<Rightarrow> ((errno + unit) \<times> files) option" where
  "export_rows header row fuel io next look path fs =
     (case create_csv io path fs of
        (Inl e, fs) \<Rightarrow> Some (Inl e, fs)
      | (Inr _, fs) \<Rightarrow>
          (case csv_rows fuel next look row None (header @ [NL]) of
             None \<Rightarrow> None
           | Some (Inl e, text) \<Rightarrow> Some (Inl e, fs(path \<mapsto> io_left io text))
           | Some (Inr _, text) \<Rightarrow> Some (finish_csv io path text fs)))"

definition export_ingress_records ::
  "nat \<Rightarrow> file_io \<Rightarrow> (ace_packet_key option \<Rightarrow> errno + ace_packet_key) \<Rightarrow>
     (ace_packet_key \<Rightarrow> errno + ace_ingress_record) \<Rightarrow> string \<Rightarrow> files \<Rightarrow> ((errno + unit) \<times> files) option" where
  "export_ingress_records = export_rows ingress_header ingress_fields"

definition export_cpumap_records ::
  "nat \<Rightarrow> file_io \<Rightarrow> (ace_packet_key option \<Rightarrow> errno + ace_packet_key) \<Rightarrow>
     (ace_packet_key \<Rightarrow> errno + ace_cpumap_record) \<Rightarrow> string \<Rightarrow> files \<Rightarrow> ((errno + unit) \<times> files) option" where
  "export_cpumap_records = export_rows cpumap_header cpumap_fields"

fun count_records :: "nat \<Rightarrow> ('k option \<Rightarrow> errno + 'k) \<Rightarrow> 'k option \<Rightarrow> nat \<Rightarrow> nat option" where
  "count_records 0 next previous n = None"
| "count_records (Suc fuel) next previous n =
     (case next previous of Inl e \<Rightarrow> Some n | Inr current \<Rightarrow> count_records fuel next (Some current) (n + 1))"

section \<open>Statistics\<close>

definition stat_ids :: "ace_xdp_stat_id list" where
  "stat_ids =
    [STAT_PASS, STAT_CPUMAP, STAT_XSK, STAT_TOTAL, STAT_EXPERIMENT_PASS, STAT_IPV4_INVALID,
     STAT_IPV4_FRAGMENT, STAT_PACKET_HEADER_INVALID, STAT_META_ADJUST_ERROR, STAT_META_BOUNDS_ERROR,
     STAT_HWTS_VALID, STAT_HWTS_ERROR, STAT_INGRESS_RECORDED, STAT_INGRESS_DUPLICATE,
     STAT_INGRESS_UPDATE_ERROR, STAT_CPUMAP_META_INVALID, STAT_CPUMAP_RECORDED, STAT_CPUMAP_DUPLICATE,
     STAT_CPUMAP_UPDATE_ERROR, STAT_CPUMAP_FALLBACK, STAT_XSK_FALLBACK]"

fun stat_names :: "ace_xdp_stat_id \<Rightarrow> string" where
  "stat_names STAT_PASS = ''pass''"
| "stat_names STAT_CPUMAP = ''cpumap_redirect_requested''"
| "stat_names STAT_XSK = ''xsk_redirect_requested''"
| "stat_names STAT_TOTAL = ''total''"
| "stat_names STAT_EXPERIMENT_PASS = ''experiment_pass_requested''"
| "stat_names STAT_IPV4_INVALID = ''ipv4_invalid''"
| "stat_names STAT_IPV4_FRAGMENT = ''ipv4_fragment_passed''"
| "stat_names STAT_PACKET_HEADER_INVALID = ''packet_header_invalid''"
| "stat_names STAT_META_ADJUST_ERROR = ''metadata_adjust_error''"
| "stat_names STAT_META_BOUNDS_ERROR = ''metadata_bounds_error''"
| "stat_names STAT_HWTS_VALID = ''hw_timestamp_valid''"
| "stat_names STAT_HWTS_ERROR = ''hw_timestamp_error''"
| "stat_names STAT_INGRESS_RECORDED = ''ingress_recorded''"
| "stat_names STAT_INGRESS_DUPLICATE = ''ingress_duplicate''"
| "stat_names STAT_INGRESS_UPDATE_ERROR = ''ingress_update_error''"
| "stat_names STAT_CPUMAP_META_INVALID = ''cpumap_metadata_invalid''"
| "stat_names STAT_CPUMAP_RECORDED = ''cpumap_recorded''"
| "stat_names STAT_CPUMAP_DUPLICATE = ''cpumap_duplicate''"
| "stat_names STAT_CPUMAP_UPDATE_ERROR = ''cpumap_update_error''"
| "stat_names STAT_CPUMAP_FALLBACK = ''cpumap_redirect_fallback''"
| "stat_names STAT_XSK_FALLBACK = ''xsk_redirect_fallback''"

definition stat_header :: string where "stat_header = ''stat_id,name,value''"

definition stat_fields :: "ace_xdp_stat_id \<times> u64 \<Rightarrow> string list" where
  "stat_fields = (\<lambda>(s, v). [show_nat (stat_index s), stat_names s, show_word v])"

definition read_stat_row :: "string list \<Rightarrow> (ace_xdp_stat_id \<times> u64) option" where
  "read_stat_row fs = (case fs of
     [i, name, v] \<Rightarrow> if dec_val i < length stat_ids then Some (stat_ids ! dec_val i, read_word v) else None
   | _ \<Rightarrow> None)"

lemma stat_ids_index: "stat_ids ! stat_index s = s" "stat_index s < length stat_ids"
  by (cases s, simp_all add: stat_ids_def)+

interpretation stat_csv: csv_format stat_header stat_fields read_stat_row "\<lambda>_. True"
proof
  fix r show "stat_fields r \<noteq> [] \<and> list_all plain_text (stat_fields r)"
  proof (cases r)
    case (Pair s v)
    have "plain_text (stat_names s)" by (cases s) (simp_all add: plain_text_def)
    with Pair show ?thesis by (simp add: stat_fields_def plain_digits show_nat_digits)
  qed
next
  fix r show "read_stat_row (stat_fields r) = Some r"
    by (cases r) (simp add: read_stat_row_def stat_fields_def stat_ids_index)
qed (simp add: stat_header_def)

fun stat_rows :: "(ace_xdp_stat_id \<Rightarrow> errno + u64 list) \<Rightarrow> ace_xdp_stat_id list \<Rightarrow> string \<Rightarrow> (errno + unit) \<times> string" where
  "stat_rows look [] text = (Inr (), text)"
| "stat_rows look (i # ids) text =
     (case lookup_stat_total (look i) of
        Inl e \<Rightarrow> (Inl e, text)
      | Inr v \<Rightarrow> stat_rows look ids (text @ csv_line (stat_fields (i, v))))"

definition export_stats ::
  "int \<Rightarrow> bool \<Rightarrow> file_io \<Rightarrow> (ace_xdp_stat_id \<Rightarrow> errno + u64 list) \<Rightarrow> string \<Rightarrow> files \<Rightarrow> (errno + unit) \<times> files" where
  "export_stats ncpu allocated io look path fs =
     (if ncpu < 1 then (Inl EINVAL, fs)
      else if \<not> allocated then (Inl ENOMEM, fs)
      else (case create_csv io path fs of
          (Inl e, fs) \<Rightarrow> (Inl e, fs)
        | (Inr _, fs) \<Rightarrow>
            (case stat_rows look stat_ids (stat_header @ [NL]) of
               (Inl e, text) \<Rightarrow> (Inl e, fs(path \<mapsto> io_left io text))
             | (Inr _, text) \<Rightarrow> finish_csv io path text fs)))"

section \<open>The three files of a run\<close>

abbreviation PATH_MAX :: nat where "PATH_MAX \<equiv> 4096"

text \<open>The answers about the output directory and the three paths (\<^verbatim>\<open>lstat\<close> failing with other than ENOENT).\<close>

record dir_io =
  di_stat :: "errno + bool"
  di_access :: "errno + unit"
  di_lstat :: "string \<Rightarrow> errno option"

definition validate_output_dir :: "dir_io \<Rightarrow> errno + unit" where
  "validate_output_dir io =
     (case di_stat io of
        Inl e \<Rightarrow> Inl e
      | Inr is_dir \<Rightarrow> if \<not> is_dir then Inl ENOTDIR else di_access io)"

definition make_output_path :: "nat \<Rightarrow> loader_options \<Rightarrow> string \<Rightarrow> errno + string" where
  "make_output_path path_size options suffix =
     (let path = (case lo_output_dir options of None \<Rightarrow> [] | Some d \<Rightarrow> d) @ ''/'' @ lo_output_prefix options @ suffix in
      if length path \<ge> path_size then Inl ENAMETOOLONG else Inr path)"

definition require_absent :: "dir_io \<Rightarrow> files \<Rightarrow> string \<Rightarrow> errno + unit" where
  "require_absent io fs path =
     (if path \<in> dom fs then Inl EEXIST
      else (case di_lstat io path of Some e \<Rightarrow> Inl e | None \<Rightarrow> Inr ()))"

definition prepare_measurement_paths ::
  "dir_io \<Rightarrow> loader_options \<Rightarrow> files \<Rightarrow> errno + string \<times> string \<times> string" where
  "prepare_measurement_paths io options fs =
   (case validate_output_dir io of Inl e \<Rightarrow> Inl e | Inr _ \<Rightarrow>
    case make_output_path PATH_MAX options ''ingress_records.csv'' of Inl e \<Rightarrow> Inl e | Inr ingress_path \<Rightarrow>
    case make_output_path PATH_MAX options ''cpumap_records.csv'' of Inl e \<Rightarrow> Inl e | Inr cpumap_path \<Rightarrow>
    case make_output_path PATH_MAX options ''xdp_stats.csv'' of Inl e \<Rightarrow> Inl e | Inr stats_path \<Rightarrow>
    case require_absent io fs ingress_path of Inl e \<Rightarrow> Inl e | Inr _ \<Rightarrow>
    case require_absent io fs cpumap_path of Inl e \<Rightarrow> Inl e | Inr _ \<Rightarrow>
    case require_absent io fs stats_path of Inl e \<Rightarrow> Inl e | Inr _ \<Rightarrow>
      Inr (ingress_path, cpumap_path, stats_path))"

record export_io =
  ex_dir :: dir_io
  ex_ingress_io :: file_io
  ex_cpumap_io :: file_io
  ex_stats_io :: file_io
  ex_next_ingress :: "ace_packet_key option \<Rightarrow> errno + ace_packet_key"
  ex_look_ingress :: "ace_packet_key \<Rightarrow> errno + ace_ingress_record"
  ex_next_cpumap :: "ace_packet_key option \<Rightarrow> errno + ace_packet_key"
  ex_look_cpumap :: "ace_packet_key \<Rightarrow> errno + ace_cpumap_record"
  ex_ncpu :: int
  ex_allocated :: bool
  ex_look_stats :: "ace_xdp_stat_id \<Rightarrow> errno + u64 list"

definition export_measurement_files ::
  "nat \<Rightarrow> export_io \<Rightarrow> loader_options \<Rightarrow> files \<Rightarrow> ((errno + unit) \<times> files) option" where
  "export_measurement_files fuel io options fs =
   (case prepare_measurement_paths (ex_dir io) options fs of
      Inl e \<Rightarrow> Some (Inl e, fs)
    | Inr (ingress_path, cpumap_path, stats_path) \<Rightarrow>
        (case export_ingress_records fuel (ex_ingress_io io) (ex_next_ingress io) (ex_look_ingress io) ingress_path fs of
           None \<Rightarrow> None
         | Some (Inl e, fs) \<Rightarrow> Some (Inl e, fs)
         | Some (Inr _, fs) \<Rightarrow>
             (case export_cpumap_records fuel (ex_cpumap_io io) (ex_next_cpumap io) (ex_look_cpumap io) cpumap_path fs of
                None \<Rightarrow> None
              | Some (Inl e, fs) \<Rightarrow> Some (Inl e, fs)
              | Some (Inr _, fs) \<Rightarrow>
                  Some (export_stats (ex_ncpu io) (ex_allocated io) (ex_stats_io io) (ex_look_stats io) stats_path fs))))"

section \<open>The receiver's file\<close>

text \<open>
  \<^verbatim>\<open>save_user_records\<close>: the file exists since startup; the array is read from index 0 to \<open>count\<close>,
  and a read outside of it is \<open>None\<close>.
\<close>

definition save_user_records ::
  "file_io \<Rightarrow> string \<Rightarrow> ace_xsk_user_record list \<Rightarrow> nat \<Rightarrow> files \<Rightarrow> ((errno + unit) \<times> files) option" where
  "save_user_records io path records count fs =
     (case io_fdopen io of
        Some e \<Rightarrow> Some (Inl e, fs)
      | None \<Rightarrow>
          if count > length records then None
          else Some (finish_csv io path
            (user_header @ [NL] @ concat (map (csv_line \<circ> user_fields) (take count records))) fs))"

section \<open>What an export does\<close>

text \<open>A map that nobody changes is enumerated by \<^verbatim>\<open>bpf_map_get_next_key\<close>, each key once.\<close>

definition iterates :: "('k option \<Rightarrow> errno + 'k) \<Rightarrow> 'k list \<Rightarrow> bool" where
  "iterates next ks \<longleftrightarrow>
     distinct ks \<and>
     (\<forall>i \<le> length ks. next (if i = 0 then None else Some (ks ! (i - 1))) =
        (if i < length ks then Inr (ks ! i) else Inl ENOENT))"

lemma iterates_next:
  assumes "iterates next ks" "i \<le> length ks"
  shows "next (if i = 0 then None else Some (ks ! (i - 1))) = (if i < length ks then Inr (ks ! i) else Inl ENOENT)"
  using assms unfolding iterates_def by blast

lemma csv_rows_iterates:
  assumes "iterates next ks" "\<And>k. k \<in> set ks \<Longrightarrow> look k = Inr (v k)" "i \<le> length ks"
    "csv_rows fuel next look row (if i = 0 then None else Some (ks ! (i - 1))) w = Some (r, w')"
  shows "r = Inr () \<and> w' = w @ concat (map (csv_line \<circ> row) (map (\<lambda>k. (k, v k)) (drop i ks)))"
  using assms(3,4)
proof (induction fuel arbitrary: i w)
  case (Suc fuel)
  show ?case
  proof (cases "i < length ks")
    case True
    then have "look (ks ! i) = Inr (v (ks ! i))" using assms(2) by simp
    with Suc.prems iterates_next [OF assms(1), of i] True
    have "csv_rows fuel next look row (if Suc i = 0 then None else Some (ks ! (Suc i - 1)))
      (w @ csv_line (row (ks ! i, v (ks ! i)))) = Some (r, w')" by simp
    from Suc.IH [OF _ this] True show ?thesis by (simp add: Cons_nth_drop_Suc [symmetric])
  next
    case False
    with Suc.prems iterates_next [OF assms(1), of i] show ?thesis by simp
  qed
qed simp

lemma csv_rows_returns:
  assumes "iterates next ks" "\<And>k. k \<in> set ks \<Longrightarrow> \<exists>r. look k = Inr r" "i \<le> length ks" "length ks < i + fuel"
  shows "csv_rows fuel next look row (if i = 0 then None else Some (ks ! (i - 1))) w \<noteq> None"
  using assms(3,4)
proof (induction fuel arbitrary: i w)
  case (Suc fuel)
  show ?case
  proof (cases "i < length ks")
    case True
    then obtain r where "look (ks ! i) = Inr r" using assms(2) nth_mem by blast
    with Suc.IH [of "Suc i"] Suc.prems iterates_next [OF assms(1), of i] True show ?thesis by simp
  next
    case False
    with Suc.prems iterates_next [OF assms(1), of i] show ?thesis by simp
  qed
qed simp

lemma count_records_iterates:
  assumes "iterates next ks" "i \<le> length ks" "length ks < i + fuel"
  shows "count_records fuel next (if i = 0 then None else Some (ks ! (i - 1))) n = Some (n + (length ks - i))"
  using assms(2,3)
proof (induction fuel arbitrary: i n)
  case (Suc fuel)
  show ?case
  proof (cases "i < length ks")
    case True
    with Suc.IH [of "Suc i"] Suc.prems iterates_next [OF assms(1), of i] show ?thesis by simp
  next
    case False
    with Suc.prems iterates_next [OF assms(1), of i] show ?thesis by simp
  qed
qed simp

text \<open>Success means that the whole w is in a new file; a file that existed is never changed.\<close>

lemma create_csv_fresh: "create_csv io path fs = (Inr (), fs') \<Longrightarrow> path \<notin> dom fs \<and> fs' = fs(path \<mapsto> [])"
  by (auto simp: create_csv_def split: if_splits option.splits)

lemma finish_csv_written: "finish_csv io path w fs = (Inr (), fs') \<Longrightarrow> fs' = fs(path \<mapsto> w)"
  by (auto simp: finish_csv_def split: option.splits)

lemma export_rows_written:
  assumes "export_rows header row fuel io next look path fs = Some (Inr (), fs')"
    "iterates next ks" "\<And>k. k \<in> set ks \<Longrightarrow> look k = Inr (v k)"
  shows "path \<notin> dom fs \<and> fs' = fs(path \<mapsto> header @ NL # concat (map (csv_line \<circ> row) (map (\<lambda>k. (k, v k)) ks)))"
proof -
  obtain fs1 w where f: "create_csv io path fs = (Inr (), fs1)"
    "csv_rows fuel next look row None (header @ [NL]) = Some (Inr (), w)"
    "finish_csv io path w fs1 = (Inr (), fs')"
    using assms(1) by (auto simp: export_rows_def split: prod.splits sum.splits option.splits)
  have "(Inr () :: errno + unit) = Inr () \<and>
    w = (header @ [NL]) @ concat (map (csv_line \<circ> row) (map (\<lambda>k. (k, v k)) (drop 0 ks)))"
    by (rule csv_rows_iterates [where look = look and v = v and fuel = fuel, OF assms(2)]) (use assms(3) f(2) in simp_all)
  with create_csv_fresh [OF f(1)] finish_csv_written [OF f(3)] show ?thesis by simp
qed

lemma stat_rows_all:
  assumes "\<And>i. lookup_stat_total (look i) = Inr (v i)"
  shows "stat_rows look ids w = (Inr (), w @ concat (map (csv_line \<circ> stat_fields) (map (\<lambda>i. (i, v i)) ids)))"
  using assms by (induction ids arbitrary: w) simp_all

lemma export_stats_written:
  assumes "export_stats ncpu allocated io look path fs = (Inr (), fs')"
    "\<And>i. lookup_stat_total (look i) = Inr (v i)"
  shows "path \<notin> dom fs \<and>
    fs' = fs(path \<mapsto> stat_header @ NL # concat (map (csv_line \<circ> stat_fields) (map (\<lambda>i. (i, v i)) stat_ids)))"
proof -
  have rows: "stat_rows look stat_ids w = (Inr (), w @ concat (map (csv_line \<circ> stat_fields) (map (\<lambda>i. (i, v i)) stat_ids)))" for w
    by (rule stat_rows_all) (rule assms(2))
  obtain r1 fs1 where c: "create_csv io path fs = (r1, fs1)" by fastforce
  have r: "r1 = Inr ()" using assms(1) c by (cases r1) (simp_all add: export_stats_def split: if_splits)
  have "finish_csv io path ((stat_header @ [NL]) @ concat (map (csv_line \<circ> stat_fields) (map (\<lambda>i. (i, v i)) stat_ids))) fs1 =
      (Inr (), fs')"
    using assms(1) by (simp add: export_stats_def c r rows del: map_map split: if_splits)
  from create_csv_fresh [OF c [unfolded r]] finish_csv_written [OF this] show ?thesis by simp
qed

lemma create_csv_keeps: "create_csv io path fs = (r, fs') \<Longrightarrow> fs \<subseteq>\<^sub>m fs'"
  by (auto simp: create_csv_def map_le_def split: if_splits option.splits)

lemma finish_csv_keeps: "finish_csv io path w fs = (r, fs') \<Longrightarrow> fs' = fs(path := fs' path)"
  by (auto simp: finish_csv_def split: option.splits)

lemma export_rows_keeps:
  assumes "export_rows header row fuel io next look path fs = Some (r, fs')"
  shows "fs \<subseteq>\<^sub>m fs'"
proof (cases "path \<in> dom fs")
  case True
  with assms show ?thesis by (auto simp: export_rows_def create_csv_def)
next
  case False
  obtain r1 fs1 where c: "create_csv io path fs = (r1, fs1)" by fastforce
  have k: "fs \<subseteq>\<^sub>m fs1(path := t)" for t
    using create_csv_keeps [OF c] False by (auto simp: map_le_def)
  from c assms finish_csv_keeps k create_csv_keeps [OF c] show ?thesis
    by (auto simp: export_rows_def split: sum.splits option.splits prod.splits) (metis k)+
qed

lemma export_stats_keeps:
  assumes "export_stats ncpu allocated io look path fs = (r, fs')"
  shows "fs \<subseteq>\<^sub>m fs'"
proof (cases "path \<in> dom fs")
  case True
  with assms show ?thesis by (auto simp: export_stats_def create_csv_def split: if_splits)
next
  case False
  obtain r1 fs1 where c: "create_csv io path fs = (r1, fs1)" by fastforce
  obtain r2 w where s: "stat_rows look stat_ids (stat_header @ [NL]) = (r2, w)" by fastforce
  have k: "fs \<subseteq>\<^sub>m fs1(path := t)" for t
    using create_csv_keeps [OF c] False by (auto simp: map_le_def)
  obtain r3 fs3 where f: "finish_csv io path w fs1 = (r3, fs3)" by fastforce
  have "fs' = fs \<or> fs' = fs1 \<or> fs' = fs1(path \<mapsto> io_left io w) \<or> fs' = fs3"
    using assms c s f by (auto simp: export_stats_def split: if_splits sum.splits)
  with k create_csv_keeps [OF c] finish_csv_keeps [OF f] show ?thesis by (metis map_le_refl)
qed

lemma export_measurement_cases:
  assumes "export_measurement_files fuel io options fs = Some (r, fs')"
  obtains (stopped) "fs \<subseteq>\<^sub>m fs'" "r \<noteq> Inr ()"
  | (finished) ip cp sp fs1 fs2 where
      "prepare_measurement_paths (ex_dir io) options fs = Inr (ip, cp, sp)"
      "export_ingress_records fuel (ex_ingress_io io) (ex_next_ingress io) (ex_look_ingress io) ip fs = Some (Inr (), fs1)"
      "export_cpumap_records fuel (ex_cpumap_io io) (ex_next_cpumap io) (ex_look_cpumap io) cp fs1 = Some (Inr (), fs2)"
      "export_stats (ex_ncpu io) (ex_allocated io) (ex_stats_io io) (ex_look_stats io) sp fs2 = (r, fs')"
proof (cases "prepare_measurement_paths (ex_dir io) options fs")
  case (Inl e)
  with assms stopped show ?thesis by (auto simp: export_measurement_files_def)
next
  case (Inr paths)
  obtain ip cp sp where paths: "paths = (ip, cp, sp)" by (cases paths)
  obtain r1 fs1 where i: "export_ingress_records fuel (ex_ingress_io io) (ex_next_ingress io) (ex_look_ingress io) ip fs = Some (r1, fs1)"
    using assms Inr paths by (cases "export_ingress_records fuel (ex_ingress_io io) (ex_next_ingress io) (ex_look_ingress io) ip fs")
      (auto simp: export_measurement_files_def)
  have k1: "fs \<subseteq>\<^sub>m fs1" using i export_rows_keeps by (auto simp: export_ingress_records_def)
  show ?thesis
  proof (cases r1)
    case (Inl e)
    with assms Inr paths i k1 stopped show ?thesis by (auto simp: export_measurement_files_def)
  next
    case (Inr u)
    note r1 = this
    obtain r2 fs2 where c: "export_cpumap_records fuel (ex_cpumap_io io) (ex_next_cpumap io) (ex_look_cpumap io) cp fs1 = Some (r2, fs2)"
      using assms \<open>prepare_measurement_paths (ex_dir io) options fs = Inr paths\<close> paths i r1
      by (cases "export_cpumap_records fuel (ex_cpumap_io io) (ex_next_cpumap io) (ex_look_cpumap io) cp fs1")
        (auto simp: export_measurement_files_def)
    have k2: "fs \<subseteq>\<^sub>m fs2" using k1 c export_rows_keeps map_le_trans by (fastforce simp: export_cpumap_records_def)
    show ?thesis
      using assms \<open>prepare_measurement_paths (ex_dir io) options fs = Inr paths\<close> paths i r1 c k2 stopped finished
      by (cases r2) (auto simp: export_measurement_files_def)
  qed
qed

text \<open>
  The answers of the kernel when the maps do not change any more: \<open>ks\<close> and \<open>cs\<close> are the orders in
  which the two record maps are enumerated, \<open>cpus\<close> the possible CPUs.
\<close>

definition map_answer :: "('k \<rightharpoonup> 'v) \<Rightarrow> 'k \<Rightarrow> errno + 'v" where
  "map_answer m k = (case m k of None \<Rightarrow> Inl ENOENT | Some v \<Rightarrow> Inr v)"

definition quiet_answers ::
  "bpf_maps \<Rightarrow> u32 list \<Rightarrow> ace_packet_key list \<Rightarrow> ace_packet_key list \<Rightarrow> export_io \<Rightarrow> bool" where
  "quiet_answers m cpus ks cs io \<longleftrightarrow>
     iterates (ex_next_ingress io) ks \<and> set ks = dom (ingress_records m) \<and>
     ex_look_ingress io = map_answer (ingress_records m) \<and>
     iterates (ex_next_cpumap io) cs \<and> set cs = dom (cpumap_records m) \<and>
     ex_look_cpumap io = map_answer (cpumap_records m) \<and>
     distinct cpus \<and> (\<forall>c s. c \<notin> set cpus \<longrightarrow> stats m c s = 0) \<and> ex_look_stats io = maps_lookup cpus m"

text \<open>The rows of a file are the map: no record is missing, doubled or altered.\<close>

definition rows_are_map :: "('k \<times> 'v) list \<Rightarrow> ('k \<rightharpoonup> 'v) \<Rightarrow> bool" where
  "rows_are_map rows m \<longleftrightarrow> distinct (map fst rows) \<and> map_of rows = m"

lemma rows_are_map_keys:
  assumes "distinct ks" "set ks = dom m"
  shows "rows_are_map (map (\<lambda>k. (k, the (m k))) ks) m"
proof -
  have "map_of (map (\<lambda>k. (k, the (m k))) ks) x = m x" for x
    using assms(2) by (cases "x \<in> set ks") (auto simp: map_of_map_restrict restrict_map_def domIff)
  then show ?thesis using assms(1) by (auto simp: rows_are_map_def comp_def)
qed

lemma map_answer_dom: "k \<in> dom m \<Longrightarrow> map_answer m k = Inr (the (m k))"
  by (auto simp: map_answer_def)

text \<open>
  Property C17.  A reported export is a complete one.  Whatever the file calls do, if the loader
  reports success after the data path has become quiet, then three new files exist, no other file
  changed, and reading them back gives exactly the ingress records, the CPUMAP records and the
  totals of all statistics; moreover the number of rows of each record file is the recorded count
  that the statistics file shows (modulo 2^64).
\<close>

theorem exported_files_are_the_measurement:
  assumes "reachable mode p" "quiet_answers (pl_maps p) cpus ks cs io"
    "export_measurement_files fuel io options fs = Some (Inr (), fs')"
  shows "\<exists>ip cp sp it ct st irows crows.
    ip \<notin> dom fs \<and> cp \<notin> dom fs \<and> sp \<notin> dom fs \<and> fs' = fs(ip \<mapsto> it, cp \<mapsto> ct, sp \<mapsto> st) \<and>
    read_csv read_ingress it = Some irows \<and> rows_are_map irows (ingress_records (pl_maps p)) \<and>
    read_csv read_cpumap ct = Some crows \<and> rows_are_map crows (cpumap_records (pl_maps p)) \<and>
    read_csv read_stat_row st = Some (map (\<lambda>s. (s, stat_total (pl_maps p) s)) stat_ids) \<and>
    stat_total (pl_maps p) STAT_INGRESS_RECORDED = of_nat (length irows) \<and>
    stat_total (pl_maps p) STAT_CPUMAP_RECORDED = of_nat (length crows)"
  using assms(3)
proof (cases rule: export_measurement_cases)
  case (finished ip cp sp fs1 fs2)
  let ?m = "pl_maps p"
  let ?irows = "map (\<lambda>k. (k, the (ingress_records ?m k))) ks"
  let ?crows = "map (\<lambda>k. (k, the (cpumap_records ?m k))) cs"
  have q: "iterates (ex_next_ingress io) ks" "set ks = dom (ingress_records ?m)" "ex_look_ingress io = map_answer (ingress_records ?m)"
    "iterates (ex_next_cpumap io) cs" "set cs = dom (cpumap_records ?m)" "ex_look_cpumap io = map_answer (cpumap_records ?m)"
    "distinct cpus" "\<And>c s. c \<notin> set cpus \<Longrightarrow> stats ?m c s = 0" "ex_look_stats io = maps_lookup cpus ?m"
    using assms(2) unfolding quiet_answers_def by blast+
  have d: "distinct ks" "distinct cs" using q(1,4) by (simp_all add: iterates_def)
  have inv: "record_inv mode p" "card_inv ?m" using reachable_inv [OF assms(1)] by (simp_all add: pipeline_inv_def)
  have i: "ip \<notin> dom fs \<and> fs1 = fs(ip \<mapsto> ingress_header @ NL # concat (map (csv_line \<circ> ingress_fields) ?irows))"
    by (rule export_rows_written [where look = "ex_look_ingress io", OF _ q(1)])
      (use finished(2) q(2,3) in \<open>simp_all add: export_ingress_records_def map_answer_dom\<close>)
  have c: "cp \<notin> dom fs1 \<and> fs2 = fs1(cp \<mapsto> cpumap_header @ NL # concat (map (csv_line \<circ> cpumap_fields) ?crows))"
    by (rule export_rows_written [where look = "ex_look_cpumap io", OF _ q(4)])
      (use finished(3) q(5,6) in \<open>simp_all add: export_cpumap_records_def map_answer_dom\<close>)
  have t: "lookup_stat_total (ex_look_stats io s) = Inr (stat_total ?m s)" for s
    unfolding q(9) by (rule lookup_stat_total_maps) (use q(7,8) in auto)
  have s: "sp \<notin> dom fs2 \<and> fs' = fs2(sp \<mapsto> stat_header @ NL # concat (map (csv_line \<circ> stat_fields)
      (map (\<lambda>s. (s, stat_total ?m s)) stat_ids)))"
    by (rule export_stats_written [OF finished(4)]) (rule t)
  have wi: "list_all ingress_identity ?irows"
    using inv(1) q(2) by (auto simp: list_all_iff ingress_identity_def record_inv_def ingress_record_ok_def domIff)
  have wc: "list_all cpumap_identity ?crows"
    using inv(1) q(5) by (auto simp: list_all_iff cpumap_identity_def record_inv_def cpumap_record_ok_def domIff)
  have ws: "list_all (\<lambda>_. True) (map (\<lambda>s. (s, stat_total ?m s)) stat_ids)" by (simp add: list_all_iff)
  have n: "stat_total ?m STAT_INGRESS_RECORDED = of_nat (length ?irows)"
    "stat_total ?m STAT_CPUMAP_RECORDED = of_nat (length ?crows)"
    using inv(2) distinct_card [OF d(1)] distinct_card [OF d(2)] q(2,5) by (simp_all add: card_inv_def)
  note rd = ingress_csv.file_readable [OF wi] cpumap_csv.file_readable [OF wc] stat_csv.file_readable [OF ws]
  have "cp \<notin> dom fs" "sp \<notin> dom fs" using i c s by auto
  moreover have "fs' = fs(ip \<mapsto> ingress_header @ NL # concat (map (csv_line \<circ> ingress_fields) ?irows),
      cp \<mapsto> cpumap_header @ NL # concat (map (csv_line \<circ> cpumap_fields) ?crows),
      sp \<mapsto> stat_header @ NL # concat (map (csv_line \<circ> stat_fields) (map (\<lambda>s. (s, stat_total ?m s)) stat_ids)))"
    using i c s by (simp del: map_map)
  ultimately show ?thesis
    using i n rd rows_are_map_keys [OF d(1) q(2)] rows_are_map_keys [OF d(2) q(5)] by blast
qed simp

lemma export_rows_succeeds:
  assumes "iterates next ks" "\<And>k. k \<in> set ks \<Longrightarrow> look k = Inr (v k)" "length ks < fuel" "path \<notin> dom fs"
    "io_open io = None" "io_fdopen io = None" "io_flush io = None" "io_fsync io = None" "io_fclose io = None"
  shows "\<exists>fs'. export_rows header row fuel io next look path fs = Some (Inr (), fs') \<and> dom fs' = insert path (dom fs)"
proof -
  have "csv_rows fuel next look row (if (0 :: nat) = 0 then None else Some (ks ! (0 - 1))) (header @ [NL]) \<noteq> None"
    by (rule csv_rows_returns [OF assms(1)]) (use assms(2,3) in auto)
  then obtain r w where c: "csv_rows fuel next look row None (header @ [NL]) = Some (r, w)" by auto
  have "r = Inr () \<and> w = (header @ [NL]) @ concat (map (csv_line \<circ> row) (map (\<lambda>k. (k, v k)) (drop 0 ks)))"
    by (rule csv_rows_iterates [where look = look and v = v and fuel = fuel, OF assms(1)]) (use assms(2) c in simp_all)
  then show ?thesis using c assms(4-) by (simp add: export_rows_def create_csv_def finish_csv_def)
qed

lemma prepared_paths:
  assumes "prepare_measurement_paths io options fs = Inr (ip, cp, sp)"
  shows "distinct [ip, cp, sp] \<and> ip \<notin> dom fs \<and> cp \<notin> dom fs \<and> sp \<notin> dom fs"
  using assms
  by (auto simp: prepare_measurement_paths_def make_output_path_def require_absent_def Let_def
      split: sum.splits if_splits option.splits)

definition no_faults :: "export_io \<Rightarrow> bool" where
  "no_faults io \<longleftrightarrow>
     (\<forall>f \<in> {ex_ingress_io io, ex_cpumap_io io, ex_stats_io io}. io_open f = None \<and> io_fdopen f = None \<and>
        io_flush f = None \<and> io_fsync f = None \<and> io_fclose f = None) \<and> 1 \<le> ex_ncpu io \<and> ex_allocated io"

lemma export_completes:
  assumes "quiet_answers m cpus ks cs io" "no_faults io"
    "prepare_measurement_paths (ex_dir io) options fs = Inr paths" "length ks < fuel" "length cs < fuel"
  shows "\<exists>fs'. export_measurement_files fuel io options fs = Some (Inr (), fs')"
proof -
  obtain ip cp sp where paths: "paths = (ip, cp, sp)" by (cases paths)
  have pp: "ip \<notin> dom fs" "cp \<notin> insert ip (dom fs)" "sp \<notin> insert cp (insert ip (dom fs))"
    using prepared_paths [OF assms(3) [unfolded paths]] by auto
  have q: "iterates (ex_next_ingress io) ks" "set ks = dom (ingress_records m)" "ex_look_ingress io = map_answer (ingress_records m)"
    "iterates (ex_next_cpumap io) cs" "set cs = dom (cpumap_records m)" "ex_look_cpumap io = map_answer (cpumap_records m)"
    "ex_look_stats io = maps_lookup cpus m"
    using assms(1) unfolding quiet_answers_def by blast+
  have nf: "io_open f = None" "io_fdopen f = None" "io_flush f = None" "io_fsync f = None" "io_fclose f = None"
    if "f = ex_ingress_io io \<or> f = ex_cpumap_io io \<or> f = ex_stats_io io" for f
    using assms(2) that by (auto simp: no_faults_def)
  have "\<exists>fs1. export_rows ingress_header ingress_fields fuel (ex_ingress_io io) (ex_next_ingress io) (ex_look_ingress io) ip fs =
      Some (Inr (), fs1) \<and> dom fs1 = insert ip (dom fs)"
    by (rule export_rows_succeeds [OF q(1), where v = "\<lambda>k. the (ingress_records m k)"])
      (use assms(4) pp(1) q(2,3) nf in \<open>simp_all only: map_answer_dom simp_thms\<close>)
  then obtain fs1 where i: "export_ingress_records fuel (ex_ingress_io io) (ex_next_ingress io) (ex_look_ingress io) ip fs =
      Some (Inr (), fs1)" "dom fs1 = insert ip (dom fs)"
    unfolding export_ingress_records_def by blast
  have "\<exists>fs2. export_rows cpumap_header cpumap_fields fuel (ex_cpumap_io io) (ex_next_cpumap io) (ex_look_cpumap io) cp fs1 =
      Some (Inr (), fs2) \<and> dom fs2 = insert cp (dom fs1)"
    by (rule export_rows_succeeds [OF q(4), where v = "\<lambda>k. the (cpumap_records m k)"])
      (use assms(5) pp(2) i(2) q(5,6) nf in \<open>simp_all only: map_answer_dom simp_thms\<close>)
  then obtain fs2 where c: "export_cpumap_records fuel (ex_cpumap_io io) (ex_next_cpumap io) (ex_look_cpumap io) cp fs1 =
      Some (Inr (), fs2)" "dom fs2 = insert cp (dom fs1)"
    unfolding export_cpumap_records_def by blast
  have "\<exists>v. \<forall>s. lookup_stat_total (ex_look_stats io s) = Inr (v s)" unfolding q(7)
    by (rule exI [of _ "\<lambda>s. foldl (+) 0 (map (\<lambda>c. stats m c s) cpus)"]) (simp add: lookup_stat_total_def maps_lookup_def)
  then obtain v where v: "\<And>s. lookup_stat_total (ex_look_stats io s) = Inr (v s)" by blast
  have rows: "stat_rows (ex_look_stats io) stat_ids w =
      (Inr (), w @ concat (map (csv_line \<circ> stat_fields) (map (\<lambda>i. (i, v i)) stat_ids)))" for w
    by (rule stat_rows_all) (rule v)
  have "sp \<notin> dom fs2" using pp(3) i(2) c(2) by simp
  then have "\<exists>fs'. export_stats (ex_ncpu io) (ex_allocated io) (ex_stats_io io) (ex_look_stats io) sp fs2 = (Inr (), fs')"
    using assms(2) by (simp add: export_stats_def create_csv_def finish_csv_def no_faults_def rows del: map_map)
  with assms(3) paths i(1) c(1) show ?thesis by (auto simp: export_measurement_files_def)
qed

text \<open>
  Exporting terminates and succeeds when nothing fails: on maps that do not change any
  more, with usable paths and no failing file call, the loops over the maps end after one round per
  record and the export reports success.
\<close>

theorem export_succeeds:
  assumes "quiet_answers m cpus ks cs io" "no_faults io"
    "prepare_measurement_paths (ex_dir io) options fs = Inr paths" "length ks < fuel" "length cs < fuel"
  shows "\<exists>fs'. export_measurement_files fuel io options fs = Some (Inr (), fs')"
  by (rule export_completes [OF assms])

text \<open>
  Property C18.  An export never changes a file that existed before, whether it succeeds, fails at
  any call, or is refused.
\<close>

theorem export_never_overwrites:
  assumes "export_measurement_files fuel io options fs = Some (r, fs')"
  shows "fs \<subseteq>\<^sub>m fs'"
  using assms
proof (cases rule: export_measurement_cases)
  case (finished ip cp sp fs1 fs2)
  then have "fs \<subseteq>\<^sub>m fs1" "fs1 \<subseteq>\<^sub>m fs2" "fs2 \<subseteq>\<^sub>m fs'"
    using export_rows_keeps export_stats_keeps by (auto simp: export_ingress_records_def export_cpumap_records_def)
  then show ?thesis using map_le_trans by blast
qed

text \<open>
  The AF_XDP receiver's file is complete when saving it succeeds: reading it back gives
  the records of the capture, bit for bit and in order.
\<close>

theorem saved_user_records_read_back:
  assumes "save_user_records io path records count fs = Some (Inr (), fs')"
  shows "\<exists>t. fs' = fs(path \<mapsto> t) \<and> read_csv read_user t = Some (take count records)"
proof -
  have "finish_csv io path (user_header @ [NL] @ concat (map (csv_line \<circ> user_fields) (take count records))) fs = (Inr (), fs')"
    using assms by (auto simp: save_user_records_def split: option.splits if_splits)
  from finish_csv_written [OF this] user_csv.file_readable [of "take count records"]
  show ?thesis by (intro exI conjI) (simp_all add: list_all_iff)
qed

section \<open>Witnesses\<close>

definition sample_export :: export_io where
  "sample_export = \<lparr>ex_dir = \<lparr>di_stat = Inr True, di_access = Inr (), di_lstat = (\<lambda>_. None)\<rparr>,
     ex_ingress_io = io_ok, ex_cpumap_io = io_ok, ex_stats_io = io_ok,
     ex_next_ingress = (\<lambda>k. if k = None then Inr sample_id else Inl ENOENT),
     ex_look_ingress = map_answer (ingress_records sample_maps),
     ex_next_cpumap = (\<lambda>_. Inl ENOENT), ex_look_cpumap = map_answer (cpumap_records sample_maps),
     ex_ncpu = 4, ex_allocated = True, ex_look_stats = maps_lookup [0, 1, 2, 3] sample_maps\<rparr>"

definition sample_output :: loader_options where
  "sample_output = loader_defaults\<lparr>lo_output_dir := Some ''out''\<rparr>"

lemma sample_quiet: "quiet_answers (pl_maps sample_pipeline) [0, 1, 2, 3] [sample_id] [] sample_export"
  unfolding quiet_answers_def sample_export_def
  by (auto simp: iterates_def sample_pipeline_def sample_maps_def init_maps_def le_Suc_eq count_all_def count_stat_def)

lemma sample_prepared: "\<exists>paths. prepare_measurement_paths (ex_dir sample_export) sample_output Map.empty = Inr paths"
  by (simp add: prepare_measurement_paths_def validate_output_dir_def make_output_path_def require_absent_def
      sample_export_def sample_output_def loader_defaults_def Let_def)

lemma sample_no_faults: "no_faults sample_export"
  by (simp add: no_faults_def sample_export_def io_ok_def)

lemma sample_export_success:
  "prepare_measurement_paths (ex_dir sample_export) sample_output fs = Inr paths \<Longrightarrow>
     \<exists>fs'. export_measurement_files 2 sample_export sample_output fs = Some (Inr (), fs')"
  by (rule export_completes [OF sample_quiet sample_no_faults]) simp_all

theorem export_succeeds_witness:
  "\<exists>fs'. export_measurement_files 2 sample_export sample_output Map.empty = Some (Inr (), fs')"
proof -
  obtain paths where "prepare_measurement_paths (ex_dir sample_export) sample_output Map.empty = Inr paths"
    using sample_prepared by blast
  from export_succeeds [OF sample_quiet sample_no_faults this, of 2] show ?thesis by simp
qed

theorem exported_files_are_the_measurement_witness:
  "\<exists>fs' ip it irows. export_measurement_files 2 sample_export sample_output Map.empty = Some (Inr (), fs') \<and>
     fs' ip \<noteq> None \<and> read_csv read_ingress it = Some irows \<and> rows_are_map irows (ingress_records sample_maps) \<and>
     irows \<noteq> []"
proof -
  obtain paths where "prepare_measurement_paths (ex_dir sample_export) sample_output Map.empty = Inr paths"
    using sample_prepared by blast
  then obtain fs' where f: "export_measurement_files 2 sample_export sample_output Map.empty = Some (Inr (), fs')"
    using sample_export_success by blast
  from exported_files_are_the_measurement [OF sample_reachable sample_quiet f]
  obtain ip cp sp it ct st irows where x: "fs' = [ip \<mapsto> it, cp \<mapsto> ct, sp \<mapsto> st]"
    "read_csv read_ingress it = Some irows" "rows_are_map irows (ingress_records sample_maps)"
    by (auto simp: sample_pipeline_def)
  have "irows \<noteq> []" using x(3) by (auto simp: rows_are_map_def sample_maps_def dest: fun_cong [of _ _ sample_id])
  moreover have "fs' ip \<noteq> None" using x(1) by auto
  ultimately show ?thesis using f x by blast
qed

theorem export_never_overwrites_witness:
  "\<exists>fs'. export_measurement_files 2 sample_export sample_output [''log'' \<mapsto> ''kept''] = Some (Inr (), fs') \<and>
     fs' ''log'' = Some ''kept''"
proof -
  have "\<exists>paths. prepare_measurement_paths (ex_dir sample_export) sample_output [''log'' \<mapsto> ''kept''] = Inr paths"
    by (simp add: prepare_measurement_paths_def validate_output_dir_def make_output_path_def require_absent_def
      sample_export_def sample_output_def loader_defaults_def Let_def)
  then obtain fs' where f: "export_measurement_files 2 sample_export sample_output [''log'' \<mapsto> ''kept''] = Some (Inr (), fs')"
    using sample_export_success by blast
  from export_never_overwrites [OF f] have "fs' ''log'' = Some ''kept''" by (auto simp: map_le_def)
  with f show ?thesis by blast
qed

definition sample_user_record :: ace_xsk_user_record where
  "sample_user_record = \<lparr>xr_flow_id = 3, xr_rx_queue = 0, xr_sequence = 9, xr_tx_realtime_ns = - 5,
     xr_user_rx_mono_ns = 100, xr_user_rx_real_ns = 7, xr_hw_rx_ns = 50, xr_initial_xdp_ns = 60, xr_meta_flags = 19,
     xr_requested_path = 2, xr_timestamp_error = - 95, xr_packet_length = 200, xr_validation_flags = 3\<rparr>"

theorem saved_user_records_read_back_witness:
  "\<exists>fs' t. save_user_records io_ok ''u.csv'' [sample_user_record] 1 [''u.csv'' \<mapsto> []] = Some (Inr (), fs') \<and>
     fs' ''u.csv'' = Some t \<and> read_csv read_user t = Some [sample_user_record]"
proof -
  obtain fs' where f: "save_user_records io_ok ''u.csv'' [sample_user_record] 1 [''u.csv'' \<mapsto> []] = Some (Inr (), fs')"
    by (simp add: save_user_records_def io_ok_def finish_csv_def)
  from saved_user_records_read_back [OF f] obtain t where "fs' = [''u.csv'' \<mapsto> [], ''u.csv'' \<mapsto> t]"
    "read_csv read_user t = Some (take 1 [sample_user_record])" by blast
  with f show ?thesis by auto
qed

end
