(* ===== verification/Hwtstamp.thy ===== *)
theory Hwtstamp
  imports Ace_Abi
begin

text \<open>
  The netdevice timestamp configuration (\<^verbatim>\<open>include/ace_hwtstamp.h\<close>) and its persistence in the
  loader's runtime map (\<^verbatim>\<open>BPF/xdp_loader.c\<close>).  The device is a parameter: its state has any type,
  the two ioctls are functions on it, and what the code relies on is \<open>hwtstamp_law\<close>.
\<close>

unbundle bit_operations_syntax

section \<open>State\<close>

record hwtstamp_config =
  hc_flags :: u32
  hc_tx_type :: u32
  hc_rx_filter :: u32

abbreviation HWTSTAMP_FILTER_ALL :: u32 where "HWTSTAMP_FILTER_ALL \<equiv> 1"

record ace_hwtstamp_state =
  hs_saved :: hwtstamp_config
  hs_effective :: hwtstamp_config
  hs_interface_name :: string
  hs_active :: bool
  hs_changed :: bool

text \<open>\<^verbatim>\<open>SIOCGHWTSTAMP\<close> and \<^verbatim>\<open>SIOCSHWTSTAMP\<close>; the latter writes the adopted configuration back.\<close>

record 'd hwtstamp_dev =
  dev_get :: "'d \<Rightarrow> errno + hwtstamp_config"
  dev_set :: "'d \<Rightarrow> hwtstamp_config \<Rightarrow> (errno + hwtstamp_config) \<times> 'd"

definition zero_config :: hwtstamp_config where
  "zero_config = \<lparr>hc_flags = 0, hc_tx_type = 0, hc_rx_filter = 0\<rparr>"

definition zero_state :: ace_hwtstamp_state where
  "zero_state = \<lparr>hs_saved = zero_config, hs_effective = zero_config, hs_interface_name = [],
     hs_active = False, hs_changed = False\<rparr>"

section \<open>Operations\<close>

definition ace_hwtstamp_config_equal :: "hwtstamp_config \<Rightarrow> hwtstamp_config \<Rightarrow> bool" where
  "ace_hwtstamp_config_equal left right \<longleftrightarrow>
     hc_flags left = hc_flags right \<and> hc_tx_type left = hc_tx_type right \<and>
     hc_rx_filter left = hc_rx_filter right"

definition ace_hwtstamp_query :: "'d hwtstamp_dev \<Rightarrow> 'd \<Rightarrow> string option \<Rightarrow> errno + hwtstamp_config" where
  "ace_hwtstamp_query dev d interface_name =
     (case interface_name of
        None \<Rightarrow> Inl EINVAL
      | Some name \<Rightarrow>
          if name = [] then Inl EINVAL
          else if length name \<ge> IFNAMSIZ then Inl ENAMETOOLONG
          else dev_get dev d)"

text \<open>Result and the new state (which is cleared before the name is checked).\<close>

definition ace_hwtstamp_capture ::
  "'d hwtstamp_dev \<Rightarrow> 'd \<Rightarrow> string option \<Rightarrow> ace_hwtstamp_state \<Rightarrow> (errno + unit) \<times> ace_hwtstamp_state" where
  "ace_hwtstamp_capture dev d interface_name state =
     (case interface_name of
        None \<Rightarrow> (Inl EINVAL, state)
      | Some name \<Rightarrow>
          if name = [] then (Inl EINVAL, state)
          else if length name \<ge> IFNAMSIZ then (Inl ENAMETOOLONG, zero_state)
          else (let state = zero_state\<lparr>hs_interface_name := name\<rparr> in
            case ace_hwtstamp_query dev d interface_name of
              Inl e \<Rightarrow> (Inl e, state)
            | Inr cfg \<Rightarrow>
                (Inr (), state\<lparr>hs_saved := cfg, hs_effective := cfg, hs_active := True\<rparr>)))"

definition ace_hwtstamp_prepare_rx_all :: "ace_hwtstamp_state \<Rightarrow> (errno + unit) \<times> ace_hwtstamp_state" where
  "ace_hwtstamp_prepare_rx_all state =
     (if \<not> hs_active state then (Inl EINVAL, state)
      else (let effective = (hs_saved state)\<lparr>hc_flags := 0, hc_rx_filter := HWTSTAMP_FILTER_ALL\<rparr> in
        (Inr (), state\<lparr>hs_effective := effective,
                       hs_changed := \<not> ace_hwtstamp_config_equal (hs_saved state) effective\<rparr>)))"

definition ace_hwtstamp_apply_prepared_rx_all ::
  "'d hwtstamp_dev \<Rightarrow> 'd \<Rightarrow> ace_hwtstamp_state \<Rightarrow> (errno + unit) \<times> ace_hwtstamp_state \<times> 'd" where
  "ace_hwtstamp_apply_prepared_rx_all dev d state =
     (if \<not> hs_active state \<or> hc_rx_filter (hs_effective state) \<noteq> HWTSTAMP_FILTER_ALL
      then (Inl EINVAL, state, d)
      else (case ace_hwtstamp_query dev d (Some (hs_interface_name state)) of
          Inl e \<Rightarrow> (Inl e, state, d)
        | Inr current \<Rightarrow>
            if \<not> ace_hwtstamp_config_equal current (hs_saved state) then (Inl ESTALE, state, d)
            else (case dev_set dev d (hs_effective state) of
                (Inl e, d) \<Rightarrow> (Inl e, state, d)
              | (Inr desired, d) \<Rightarrow>
                  (let state = state\<lparr>hs_effective := desired,
                         hs_changed := \<not> ace_hwtstamp_config_equal (hs_saved state) desired\<rparr> in
                   if hc_rx_filter desired \<noteq> HWTSTAMP_FILTER_ALL
                   then (case dev_set dev d (hs_saved state) of
                       (Inl e, d) \<Rightarrow> (Inl e, state, d)
                     | (Inr saved, d) \<Rightarrow>
                         (Inl EOPNOTSUPP,
                          state\<lparr>hs_saved := saved, hs_changed := False, hs_effective := saved\<rparr>, d))
                   else (Inr (), state, d)))))"

definition ace_hwtstamp_apply_rx_all ::
  "'d hwtstamp_dev \<Rightarrow> 'd \<Rightarrow> ace_hwtstamp_state \<Rightarrow> (errno + unit) \<times> ace_hwtstamp_state \<times> 'd" where
  "ace_hwtstamp_apply_rx_all dev d state =
     (case ace_hwtstamp_prepare_rx_all state of
        (Inl e, state) \<Rightarrow> (Inl e, state, d)
      | (Inr _, state) \<Rightarrow> ace_hwtstamp_apply_prepared_rx_all dev d state)"

definition ace_hwtstamp_enable ::
  "'d hwtstamp_dev \<Rightarrow> 'd \<Rightarrow> string option \<Rightarrow> ace_hwtstamp_state \<Rightarrow>
     (errno + unit) \<times> ace_hwtstamp_state \<times> 'd" where
  "ace_hwtstamp_enable dev d interface_name state =
     (case ace_hwtstamp_capture dev d interface_name state of
        (Inl e, state) \<Rightarrow> (Inl e, state, d)
      | (Inr _, state) \<Rightarrow> ace_hwtstamp_apply_rx_all dev d state)"

text \<open>\<open>Inr True\<close> is the return value 1 (restoration skipped), \<open>Inr False\<close> is 0.\<close>

definition ace_hwtstamp_restore_allow_saved ::
  "'d hwtstamp_dev \<Rightarrow> 'd \<Rightarrow> ace_hwtstamp_state \<Rightarrow> bool \<Rightarrow> (errno + bool) \<times> ace_hwtstamp_state \<times> 'd" where
  "ace_hwtstamp_restore_allow_saved dev d state allow_saved =
     (if \<not> hs_active state then (Inr False, state, d)
      else (case dev_get dev d of
          Inl e \<Rightarrow> (Inl e, state, d)
        | Inr current \<Rightarrow>
            if \<not> ace_hwtstamp_config_equal current (hs_effective state) \<and>
               \<not> (allow_saved \<and> ace_hwtstamp_config_equal current (hs_saved state))
            then (Inr True, state, d)
            else (case dev_set dev d (hs_saved state) of
                (Inl e, d) \<Rightarrow> (Inl e, state, d)
              | (Inr saved, d) \<Rightarrow>
                  (Inr False, state\<lparr>hs_saved := saved, hs_effective := saved, hs_changed := False,
                                    hs_active := False\<rparr>, d))))"

definition ace_hwtstamp_restore ::
  "'d hwtstamp_dev \<Rightarrow> 'd \<Rightarrow> ace_hwtstamp_state \<Rightarrow> (errno + bool) \<times> ace_hwtstamp_state \<times> 'd" where
  "ace_hwtstamp_restore dev d state = ace_hwtstamp_restore_allow_saved dev d state False"

section \<open>Persistence in the runtime map (BPF/xdp_loader.c)\<close>

definition runtime_set_hwtstamp ::
  "ace_runtime_config \<Rightarrow> ace_hwtstamp_state \<Rightarrow> bool \<Rightarrow> ace_runtime_config" where
  "runtime_set_hwtstamp runtime state applied =
   (let runtime = runtime\<lparr>rc_saved_hwtstamp_flags := hc_flags (hs_saved state),
          rc_saved_hwtstamp_tx_type := hc_tx_type (hs_saved state),
          rc_saved_hwtstamp_rx_filter := hc_rx_filter (hs_saved state),
          rc_effective_hwtstamp_flags := hc_flags (hs_effective state),
          rc_effective_hwtstamp_tx_type := hc_tx_type (hs_effective state),
          rc_effective_hwtstamp_rx_filter := hc_rx_filter (hs_effective state)\<rparr>;
        flags = rc_flags runtime OR ACE_RUNTIME_F_HWTSTAMP_CAPTURED;
        flags = flags AND NOT (ACE_RUNTIME_F_HWTSTAMP_APPLYING OR ACE_RUNTIME_F_HWTSTAMP_APPLIED);
        flags = (if applied then flags OR ACE_RUNTIME_F_HWTSTAMP_APPLIED else flags)
    in runtime\<lparr>rc_flags := flags\<rparr>)"

definition runtime_set_hwtstamp_applying ::
  "ace_runtime_config \<Rightarrow> ace_hwtstamp_state \<Rightarrow> ace_runtime_config" where
  "runtime_set_hwtstamp_applying runtime state =
   (let runtime = runtime_set_hwtstamp runtime state False
    in runtime\<lparr>rc_flags := rc_flags runtime OR ACE_RUNTIME_F_HWTSTAMP_APPLYING\<rparr>)"

definition hwtstamp_state_from_runtime :: "ace_runtime_config \<Rightarrow> string \<Rightarrow> errno + ace_hwtstamp_state" where
  "hwtstamp_state_from_runtime runtime ifname =
   (if rc_flags runtime AND ACE_RUNTIME_F_HWTSTAMP_CAPTURED = 0 then Inl ENODATA
    else if length ifname \<ge> IFNAMSIZ then Inl ENAMETOOLONG
    else (let saved = \<lparr>hc_flags = rc_saved_hwtstamp_flags runtime,
                       hc_tx_type = rc_saved_hwtstamp_tx_type runtime,
                       hc_rx_filter = rc_saved_hwtstamp_rx_filter runtime\<rparr>;
              effective = \<lparr>hc_flags = rc_effective_hwtstamp_flags runtime,
                           hc_tx_type = rc_effective_hwtstamp_tx_type runtime,
                           hc_rx_filter = rc_effective_hwtstamp_rx_filter runtime\<rparr>
          in Inr \<lparr>hs_saved = saved, hs_effective = effective, hs_interface_name = ifname,
                  hs_active = True, hs_changed = \<not> ace_hwtstamp_config_equal saved effective\<rparr>))"

text \<open>
  The part of the loader's \<^verbatim>\<open>main\<close> between attach and the ready message: verify that the device
  still has the captured configuration, publish APPLYING, change the device, publish APPLIED.
  \<open>published i\<close> says whether the \<open>i\<close>-th \<^verbatim>\<open>update_runtime_config\<close> succeeded.  The result is
  whether the start goes on, the state, the loader's copy of the runtime record, the device, and
  the trace: the runtime record in the map and the device after each action, that is, what a
  crash at that point leaves behind.
\<close>

definition loader_enable_hwtstamp ::
  "'d hwtstamp_dev \<Rightarrow> (nat \<Rightarrow> bool) \<Rightarrow> string \<Rightarrow> 'd \<Rightarrow> ace_runtime_config \<Rightarrow> ace_hwtstamp_state \<Rightarrow>
     bool \<times> ace_hwtstamp_state \<times> ace_runtime_config \<times> 'd \<times> (ace_runtime_config \<times> 'd) list" where
  "loader_enable_hwtstamp dev published ifname d runtime state =
   (let in_map = runtime in
    case ace_hwtstamp_query dev d (Some ifname) of
      Inl e \<Rightarrow> (False, state, runtime, d, [(in_map, d)])
    | Inr current \<Rightarrow>
        if \<not> ace_hwtstamp_config_equal current (hs_saved state)
        then (let state = state\<lparr>hs_saved := current, hs_effective := current, hs_changed := False\<rparr>;
                  runtime = runtime_set_hwtstamp runtime state False in
              (False, state, runtime, d,
               [(in_map, d), (if published 0 then runtime else in_map, d)]))
        else (case ace_hwtstamp_prepare_rx_all state of
            (Inl e, state) \<Rightarrow> (False, state, runtime, d, [(in_map, d)])
          | (Inr _, state) \<Rightarrow>
              (let runtime = runtime_set_hwtstamp_applying runtime state in
               if \<not> published 1 then (False, state, runtime, d, [(in_map, d)])
               else (case ace_hwtstamp_apply_prepared_rx_all dev d state of
                   (Inl e, state, d') \<Rightarrow>
                     (False, state, runtime, d', [(in_map, d), (runtime, d), (runtime, d')])
                 | (Inr _, state, d') \<Rightarrow>
                     (let applying = runtime; runtime = runtime_set_hwtstamp runtime state True in
                      if \<not> published 2
                      then (False, state, runtime, d', [(in_map, d), (applying, d), (applying, d')])
                      else (True, state, runtime, d',
                            [(in_map, d), (applying, d), (applying, d'), (runtime, d')]))))))"

section \<open>Laws of the device\<close>

lemma ace_hwtstamp_config_equal_iff [simp]: "ace_hwtstamp_config_equal a b \<longleftrightarrow> a = b"
  by (cases a, cases b) (simp add: ace_hwtstamp_config_equal_def)

text \<open>
  A successful set is what a later get reports, a failed one changes nothing, and the driver takes
  back a configuration it has itself reported.
\<close>

definition hwtstamp_law :: "'d hwtstamp_dev \<Rightarrow> bool" where
  "hwtstamp_law dev \<longleftrightarrow>
     (\<forall>d c. case dev_set dev d c of
        (Inl _, d') \<Rightarrow> dev_get dev d' = dev_get dev d
      | (Inr c', d') \<Rightarrow> dev_get dev d' = Inr c' \<and> ((\<exists>d0. dev_get dev d0 = Inr c) \<longrightarrow> c' = c))"

lemma hwtstamp_set_cases:
  assumes "hwtstamp_law dev"
  obtains (failed) e d' where "dev_set dev d c = (Inl e, d')" "dev_get dev d' = dev_get dev d"
  | (adopted) c' d' where "dev_set dev d c = (Inr c', d')" "dev_get dev d' = Inr c'"
      "\<And>d0. dev_get dev d0 = Inr c \<Longrightarrow> c' = c"
proof -
  obtain r d' where s: "dev_set dev d c = (r, d')" by fastforce
  have "case (r, d') of (Inl _, d') \<Rightarrow> dev_get dev d' = dev_get dev d
      | (Inr c', d') \<Rightarrow> dev_get dev d' = Inr c' \<and> ((\<exists>d0. dev_get dev d0 = Inr c) \<longrightarrow> c' = c)"
    using assms [unfolded hwtstamp_law_def, rule_format, of d c] s by simp
  with s that show ?thesis by (cases r) auto
qed

lemma restore_saved:
  assumes "hwtstamp_law dev" "hs_active st" "dev_get dev d1 = Inr cur"
    "cur = hs_effective st \<or> cur = hs_saved st" "dev_get dev d0 = Inr (hs_saved st)"
    "ace_hwtstamp_restore_allow_saved dev d1 st True = (r, st', d2)"
  shows "(\<exists>e. r = Inl e \<and> dev_get dev d2 = dev_get dev d1) \<or>
    (r = Inr False \<and> dev_get dev d2 = Inr (hs_saved st))"
  using assms(1)
proof (cases rule: hwtstamp_set_cases [where d = d1 and c = "hs_saved st"])
  case (failed e d')
  with assms show ?thesis by (auto simp: ace_hwtstamp_restore_allow_saved_def)
next
  case (adopted c' d')
  with assms show ?thesis by (auto simp: ace_hwtstamp_restore_allow_saved_def)
qed

lemma apply_prepared_outcome:
  assumes law: "hwtstamp_law dev" and "dev_get dev d = Inr (hs_saved st)"
    and "ace_hwtstamp_apply_prepared_rx_all dev d st = (r, st1, d1)"
  shows "hs_saved st1 = hs_saved st \<and> hs_active st1 = hs_active st \<and>
    (\<exists>cur. dev_get dev d1 = Inr cur \<and> (cur = hs_effective st1 \<or> cur = hs_saved st1))"
  using law
proof (cases rule: hwtstamp_set_cases [where d = d and c = "hs_effective st"])
  case (failed e d')
  then show ?thesis using assms(2,3)
    by (auto simp: ace_hwtstamp_apply_prepared_rx_all_def ace_hwtstamp_query_def split: if_splits)
next
  case (adopted c' d')
  note first = this
  show ?thesis
    using law
  proof (cases rule: hwtstamp_set_cases [where d = d' and c = "hs_saved st"])
    case (failed e d'')
    then show ?thesis using first assms(2,3)
      by (auto simp: ace_hwtstamp_apply_prepared_rx_all_def ace_hwtstamp_query_def Let_def split: if_splits)
  next
    case (adopted c'' d'')
    have "c'' = hs_saved st" using adopted(3) [OF assms(2)] .
    then show ?thesis using first adopted assms(2,3)
      by (auto simp: ace_hwtstamp_apply_prepared_rx_all_def ace_hwtstamp_query_def Let_def split: if_splits)
  qed
qed

lemma state_from_runtime:
  assumes "length ifname < IFNAMSIZ"
  shows "hwtstamp_state_from_runtime (runtime_set_hwtstamp rt st applied) ifname =
      Inr \<lparr>hs_saved = hs_saved st, hs_effective = hs_effective st, hs_interface_name = ifname,
           hs_active = True, hs_changed = (hs_saved st \<noteq> hs_effective st)\<rparr>"
    and "hwtstamp_state_from_runtime (runtime_set_hwtstamp_applying rt st) ifname =
      Inr \<lparr>hs_saved = hs_saved st, hs_effective = hs_effective st, hs_interface_name = ifname,
           hs_active = True, hs_changed = (hs_saved st \<noteq> hs_effective st)\<rparr>"
proof -
  have f: "((x OR 1) AND NOT 6) AND 1 \<noteq> (0 :: u32)" "((x OR 1) AND NOT 6 OR 4) AND 1 \<noteq> (0 :: u32)"
    "((x OR 1) AND NOT 6 OR 2) AND 1 \<noteq> (0 :: u32)" for x
    by (rule notI, drule arg_cong [where f = "\<lambda>w. bit w 0"], simp add: bit_simps)+
  show "hwtstamp_state_from_runtime (runtime_set_hwtstamp rt st applied) ifname =
      Inr \<lparr>hs_saved = hs_saved st, hs_effective = hs_effective st, hs_interface_name = ifname,
           hs_active = True, hs_changed = (hs_saved st \<noteq> hs_effective st)\<rparr>"
    using assms f by (cases "hs_saved st"; cases "hs_effective st")
      (simp add: hwtstamp_state_from_runtime_def runtime_set_hwtstamp_def Let_def)
  show "hwtstamp_state_from_runtime (runtime_set_hwtstamp_applying rt st) ifname =
      Inr \<lparr>hs_saved = hs_saved st, hs_effective = hs_effective st, hs_interface_name = ifname,
           hs_active = True, hs_changed = (hs_saved st \<noteq> hs_effective st)\<rparr>"
    using assms f by (cases "hs_saved st"; cases "hs_effective st")
      (simp add: hwtstamp_state_from_runtime_def runtime_set_hwtstamp_applying_def
        runtime_set_hwtstamp_def Let_def)
qed

section \<open>Crash points of the loader\<close>

definition exact_set :: "'d hwtstamp_dev \<Rightarrow> bool" where
  "exact_set dev \<longleftrightarrow> (\<forall>d c. case dev_set dev d c of (Inl _, _) \<Rightarrow> True | (Inr c', _) \<Rightarrow> c' = c)"

lemma apply_prepared_exact:
  assumes law: "hwtstamp_law dev" and "exact_set dev" and "dev_get dev d = Inr (hs_saved st)"
    and "ace_hwtstamp_apply_prepared_rx_all dev d st = (r, st1, d1)"
  shows "(dev_get dev d1 = Inr (hs_saved st) \<or> dev_get dev d1 = Inr (hs_effective st)) \<and>
    (r = Inr () \<longrightarrow> st1 = st\<lparr>hs_changed := (hs_saved st \<noteq> hs_effective st)\<rparr>)"
  using law
proof (cases rule: hwtstamp_set_cases [where d = d and c = "hs_effective st"])
  case (failed e d')
  then show ?thesis using assms(3,4)
    by (auto simp: ace_hwtstamp_apply_prepared_rx_all_def ace_hwtstamp_query_def split: if_splits)
next
  case (adopted c' d')
  have "case dev_set dev d (hs_effective st) of (Inl _, _) \<Rightarrow> True | (Inr c', _) \<Rightarrow> c' = hs_effective st"
    by (rule assms(2) [unfolded exact_set_def, THEN spec, THEN spec])
  then have "c' = hs_effective st" using adopted(1) by simp
  with adopted assms(3,4) show ?thesis
    by (auto simp: ace_hwtstamp_apply_prepared_rx_all_def ace_hwtstamp_query_def Let_def split: if_splits)
qed

text \<open>What recovery needs to find at a crash point: our saved configuration, and the device in it or in the effective one.\<close>

definition recoverable :: "'d hwtstamp_dev \<Rightarrow> string \<Rightarrow> hwtstamp_config \<Rightarrow> ace_runtime_config \<times> 'd \<Rightarrow> bool" where
  "recoverable dev ifname saved point \<longleftrightarrow>
     (\<exists>s cur. hwtstamp_state_from_runtime (fst point) ifname = Inr s \<and> hs_active s \<and> hs_saved s = saved \<and>
        dev_get dev (snd point) = Inr cur \<and> (cur = hs_effective s \<or> cur = saved))"

lemma recoverable_restores:
  assumes "recoverable dev ifname saved (m, dc)" "hwtstamp_law dev" "dev_get dev d = Inr saved"
  shows "\<exists>s. hwtstamp_state_from_runtime m ifname = Inr s \<and>
    (\<forall>r s' d2. ace_hwtstamp_restore_allow_saved dev dc s True = (r, s', d2) \<longrightarrow>
       (\<exists>e. r = Inl e \<and> dev_get dev d2 = dev_get dev dc) \<or> (r = Inr False \<and> dev_get dev d2 = dev_get dev d))"
proof -
  obtain s cur where s: "hwtstamp_state_from_runtime m ifname = Inr s" "hs_active s" "hs_saved s = saved"
    "dev_get dev dc = Inr cur" "cur = hs_effective s \<or> cur = hs_saved s"
    using assms(1) by (auto simp: recoverable_def)
  have "dev_get dev d = Inr (hs_saved s)" using s(3) assms(3) by simp
  with s restore_saved [OF assms(2) s(2,4,5)] show ?thesis by auto
qed

lemma loader_enable_recoverable:
  assumes law: "hwtstamp_law dev" and ex: "exact_set dev" and g: "dev_get dev d = Inr (hs_saved st)"
    and act: "hs_active st" and len: "length ifname < IFNAMSIZ" "ifname \<noteq> []"
    and run: "loader_enable_hwtstamp dev pub ifname d (runtime_set_hwtstamp rt st False) st = (ok, st', rt', d', trace)"
    and pt: "point \<in> set trace"
  shows "recoverable dev ifname (hs_saved st) point"
proof -
  let ?rt = "runtime_set_hwtstamp rt st False"
  define ps where "ps = snd (ace_hwtstamp_prepare_rx_all st)"
  have q: "ace_hwtstamp_query dev d (Some ifname) = Inr (hs_saved st)"
    using g len by (simp add: ace_hwtstamp_query_def)
  have p: "ace_hwtstamp_prepare_rx_all st = (Inr (), ps)" "hs_saved ps = hs_saved st"
    using act by (simp_all add: ps_def ace_hwtstamp_prepare_rx_all_def Let_def)
  let ?a = "runtime_set_hwtstamp_applying ?rt ps"
  obtain r st1 d1 where a: "ace_hwtstamp_apply_prepared_rx_all dev d ps = (r, st1, d1)"
    by (cases "ace_hwtstamp_apply_prepared_rx_all dev d ps") auto
  have out: "dev_get dev d1 = Inr (hs_saved st) \<or> dev_get dev d1 = Inr (hs_effective ps)"
    "r = Inr () \<Longrightarrow> st1 = ps\<lparr>hs_changed := (hs_saved st \<noteq> hs_effective ps)\<rparr>"
    using apply_prepared_exact [OF law ex _ a] g p by auto
  have pts: "recoverable dev ifname (hs_saved st) (?rt, d)" "recoverable dev ifname (hs_saved st) (?a, d)"
    "recoverable dev ifname (hs_saved st) (?a, d1)"
    "r = Inr () \<Longrightarrow> recoverable dev ifname (hs_saved st) (runtime_set_hwtstamp ?a st1 True, d1)"
    using g out p(2) by (auto simp: recoverable_def state_from_runtime [OF len(1)])
  have "set trace \<subseteq> {(?rt, d), (?a, d), (?a, d1)} \<union> {x. r = Inr () \<and> x = (runtime_set_hwtstamp ?a st1 True, d1)}"
    using run q p(1) a by (auto simp: loader_enable_hwtstamp_def Let_def split: sum.splits if_splits)
  with pt pts show ?thesis by auto
qed

section \<open>Properties\<close>

text \<open>A successful application leaves the device in the effective configuration.\<close>

lemma apply_prepared_success:
  assumes "hwtstamp_law dev" "ace_hwtstamp_apply_prepared_rx_all dev d st = (Inr (), st1, d1)"
  shows "dev_get dev d1 = Inr (hs_effective st1)"
  using assms(1)
proof (cases rule: hwtstamp_set_cases [where d = d and c = "hs_effective st"])
  case (adopted c' d')
  then show ?thesis using assms(2)
    by (auto simp: ace_hwtstamp_apply_prepared_rx_all_def ace_hwtstamp_query_def Let_def split: if_splits sum.splits prod.splits)
qed (use assms(2) in \<open>auto simp: ace_hwtstamp_apply_prepared_rx_all_def split: if_splits sum.splits\<close>)

text \<open>What enabling leaves behind: nothing, or a saved configuration that is the one of the device before.\<close>

lemma enable_outcome:
  assumes "hwtstamp_law dev" "\<not> hs_active st0" "ace_hwtstamp_enable dev d name st0 = (r, st1, d1)"
  obtains (refused) "\<not> hs_active st1" "d1 = d" "r \<noteq> Inr ()"
  | (captured) cur where "hs_active st1" "dev_get dev d = Inr (hs_saved st1)" "dev_get dev d1 = Inr cur"
      "cur = hs_effective st1 \<or> cur = hs_saved st1" "r = Inr () \<longrightarrow> cur = hs_effective st1"
proof -
  obtain rc st where cap: "ace_hwtstamp_capture dev d name st0 = (rc, st)" by fastforce
  show ?thesis
  proof (cases rc)
    case (Inl e)
    then have "\<not> hs_active st"
      using cap assms(2) by (auto simp: ace_hwtstamp_capture_def zero_state_def Let_def split: option.splits if_splits sum.splits)
    then show ?thesis using refused assms(3) cap Inl by (auto simp: ace_hwtstamp_enable_def)
  next
    case (Inr u)
    then have st: "dev_get dev d = Inr (hs_saved st)" "hs_active st"
      using cap by (auto simp: ace_hwtstamp_capture_def ace_hwtstamp_query_def Let_def split: option.splits if_splits sum.splits)
    let ?p = "snd (ace_hwtstamp_prepare_rx_all st)"
    have p: "hs_saved ?p = hs_saved st" "hs_active ?p" and a: "ace_hwtstamp_apply_prepared_rx_all dev d ?p = (r, st1, d1)"
      using st(2) assms(3) cap Inr
      by (auto simp: ace_hwtstamp_enable_def ace_hwtstamp_prepare_rx_all_def ace_hwtstamp_apply_rx_all_def Let_def)
    have "dev_get dev d = Inr (hs_saved ?p)" using st(1) p(1) by simp
    with apply_prepared_outcome [OF assms(1) _ a] p(2) apply_prepared_success [OF assms(1)] a captured show ?thesis by (metis sum.inject(2))
  qed
qed

lemma restore_outcome:
  assumes "hwtstamp_law dev" "hs_active st" "dev_get dev d1 = Inr cur" "cur = hs_effective st \<or> cur = hs_saved st"
    and "dev_get dev d = Inr (hs_saved st)" "ace_hwtstamp_restore_allow_saved dev d1 st allow = (r, st', d2)"
  shows "case r of Inl e \<Rightarrow> fst (dev_set dev d1 (hs_saved st)) = Inl e \<and> dev_get dev d2 = dev_get dev d1
    | Inr skipped \<Rightarrow> dev_get dev d2 = dev_get dev d \<and> (skipped \<longrightarrow> \<not> allow \<and> cur \<noteq> hs_effective st)"
  using assms(1)
proof (cases rule: hwtstamp_set_cases [where d = d1 and c = "hs_saved st"])
  case (failed e d')
  with assms(2-6) show ?thesis by (auto simp: ace_hwtstamp_restore_allow_saved_def split: if_splits)
next
  case (adopted c' d')
  with assms(2-6) show ?thesis by (auto simp: ace_hwtstamp_restore_allow_saved_def split: if_splits)
qed

text \<open>
  Property C8.  A timestamping session leaves no trace.  Enable RX timestamps with a cleared state,
  with success or with a failure at any point, and let nobody else configure the device.  Then
  \<^verbatim>\<open>ace_hwtstamp_restore\<close>, and likewise the variant that accepts the saved configuration, either returns
  the error of the ioctl that sets the saved configuration and changes nothing, or the device
  has the configuration it had before.  The return value that says that restoring was skipped occurs
  only after a failed enabling, and never in the accepting variant.
\<close>

theorem hwtstamp_session_restores:
  assumes "hwtstamp_law dev" "\<not> hs_active st0"
    and "ace_hwtstamp_enable dev d name st0 = (r, st1, d1)"
    and "ace_hwtstamp_restore dev d1 st1 = (r2, st2, d2)"
    and "ace_hwtstamp_restore_allow_saved dev d1 st1 True = (r3, st3, d3)"
  shows "(case r2 of Inl e \<Rightarrow> fst (dev_set dev d1 (hs_saved st1)) = Inl e \<and> dev_get dev d2 = dev_get dev d1
      | Inr skipped \<Rightarrow> dev_get dev d2 = dev_get dev d \<and> (skipped \<longrightarrow> r \<noteq> Inr ())) \<and>
    (case r3 of Inl e \<Rightarrow> fst (dev_set dev d1 (hs_saved st1)) = Inl e \<and> dev_get dev d3 = dev_get dev d1
      | Inr skipped \<Rightarrow> dev_get dev d3 = dev_get dev d \<and> \<not> skipped)"
  using assms(1-3)
proof (cases rule: enable_outcome)
  case refused
  then show ?thesis using assms(4,5) by (auto simp: ace_hwtstamp_restore_def ace_hwtstamp_restore_allow_saved_def)
next
  case (captured cur)
  note out = restore_outcome [OF assms(1) captured(1,3,4,2)]
  from out [OF assms(4) [unfolded ace_hwtstamp_restore_def]] out [OF assms(5)] captured(5) show ?thesis
    by (auto split: sum.splits)
qed

definition exact_dev :: "hwtstamp_config hwtstamp_dev" where
  "exact_dev = \<lparr>dev_get = Inr, dev_set = (\<lambda>_ c. (Inr c, c))\<rparr>"

lemma exact_dev_law: "hwtstamp_law exact_dev"
  by (simp add: hwtstamp_law_def exact_dev_def)

abbreviation ptp_config :: hwtstamp_config where
  "ptp_config \<equiv> \<lparr>hc_flags = 0, hc_tx_type = 1, hc_rx_filter = 12\<rparr>"

theorem hwtstamp_session_restores_witness:
  "\<exists>st1 d1 r2 st2 d2. ace_hwtstamp_enable exact_dev ptp_config (Some ''eth0'') zero_state = (Inr (), st1, d1) \<and> d1 \<noteq> ptp_config \<and>
      ace_hwtstamp_restore exact_dev d1 st1 = (r2, st2, d2) \<and> dev_get exact_dev d2 = dev_get exact_dev ptp_config"
proof -
  obtain st1 d1 where a: "ace_hwtstamp_enable exact_dev ptp_config (Some ''eth0'') zero_state = (Inr (), st1, d1)" "d1 \<noteq> ptp_config"
    by (simp add: ace_hwtstamp_enable_def ace_hwtstamp_capture_def ace_hwtstamp_apply_rx_all_def ace_hwtstamp_prepare_rx_all_def Let_def
        ace_hwtstamp_apply_prepared_rx_all_def ace_hwtstamp_query_def exact_dev_def zero_state_def)
  obtain r2 st2 d2 where r: "ace_hwtstamp_restore exact_dev d1 st1 = (r2, st2, d2)" by (cases "ace_hwtstamp_restore exact_dev d1 st1")
  obtain r3 st3 d3 where r3: "ace_hwtstamp_restore_allow_saved exact_dev d1 st1 True = (r3, st3, d3)"
    by (cases "ace_hwtstamp_restore_allow_saved exact_dev d1 st1 True")
  have "\<not> hs_active zero_state" by (simp add: zero_state_def)
  from hwtstamp_session_restores [OF exact_dev_law this a(1) r r3] have "dev_get exact_dev d2 = dev_get exact_dev ptp_config"
    by (cases r2) (simp_all add: exact_dev_def)
  with a r show ?thesis by blast
qed

text \<open>
  A configuration somebody else installed is never overwritten: when the device
  holds neither our effective nor our saved configuration, restoring reports the skip and leaves
  the device alone, and applying refuses with ESTALE and leaves it alone.
\<close>

theorem hwtstamp_foreign_config_untouched:
  assumes "dev_get dev d = Inr cur" "hs_active st" "cur \<noteq> hs_saved st"
    and "length (hs_interface_name st) < IFNAMSIZ" "hs_interface_name st \<noteq> []"
  shows "(cur \<noteq> hs_effective st \<longrightarrow> ace_hwtstamp_restore_allow_saved dev d st allow = (Inr True, st, d)) \<and>
    (hc_rx_filter (hs_effective st) = HWTSTAMP_FILTER_ALL \<longrightarrow>
       ace_hwtstamp_apply_prepared_rx_all dev d st = (Inl ESTALE, st, d))"
  using assms
  by (simp add: ace_hwtstamp_restore_allow_saved_def ace_hwtstamp_apply_prepared_rx_all_def
      ace_hwtstamp_query_def)

theorem hwtstamp_foreign_config_untouched_witness:
  "ace_hwtstamp_restore_allow_saved exact_dev ptp_config
     (zero_state\<lparr>hs_interface_name := ''eth0'', hs_active := True\<rparr>) True =
   (Inr True, zero_state\<lparr>hs_interface_name := ''eth0'', hs_active := True\<rparr>, ptp_config)"
  using hwtstamp_foreign_config_untouched [of exact_dev ptp_config ptp_config
      "zero_state\<lparr>hs_interface_name := ''eth0'', hs_active := True\<rparr>" True]
  by (simp add: exact_dev_def zero_state_def zero_config_def)

text \<open>
  The loader can crash anywhere while it enables timestamping.  With a driver that
  adopts a requested configuration unchanged or refuses it, whatever pair of pinned runtime record
  and device state a crash leaves, recovery reads back the saved configuration and restores the
  device to it, or reports an error; it never takes the half-applied state for foreign.
\<close>

theorem loader_crash_recoverable:
  assumes "hwtstamp_law dev" "exact_set dev" "dev_get dev d = Inr (hs_saved st)" "hs_active st"
    and "length ifname < IFNAMSIZ" "ifname \<noteq> []"
    and "loader_enable_hwtstamp dev pub ifname d (runtime_set_hwtstamp rt st False) st = (ok, st', rt', d', trace)"
    and "(m, dc) \<in> set trace"
  shows "\<exists>s. hwtstamp_state_from_runtime m ifname = Inr s \<and>
    (\<forall>r s' d2. ace_hwtstamp_restore_allow_saved dev dc s True = (r, s', d2) \<longrightarrow>
       (\<exists>e. r = Inl e \<and> dev_get dev d2 = dev_get dev dc) \<or> (r = Inr False \<and> dev_get dev d2 = dev_get dev d))"
  by (rule recoverable_restores [OF loader_enable_recoverable [OF assms(1-7)] assms(1,3)]) (rule assms(8))

abbreviation captured_ptp :: ace_hwtstamp_state where
  "captured_ptp \<equiv> zero_state\<lparr>hs_interface_name := ''eth0'', hs_saved := ptp_config, hs_effective := ptp_config,
     hs_active := True\<rparr>"

definition zero_runtime :: ace_runtime_config where
  "zero_runtime = \<lparr>rc_abi_version = 5, rc_ifindex = 2, rc_record_capacity = 16, rc_xdp_program_id = 9,
     rc_owner_start_ticks = 77, rc_owner_pid = 1000, rc_flags = 0, rc_saved_hwtstamp_flags = 0,
     rc_saved_hwtstamp_tx_type = 0, rc_saved_hwtstamp_rx_filter = 0, rc_effective_hwtstamp_flags = 0,
     rc_effective_hwtstamp_tx_type = 0, rc_effective_hwtstamp_rx_filter = 0\<rparr>"

theorem loader_crash_recoverable_witness:
  "\<exists>ok st' rt' d' trace. loader_enable_hwtstamp exact_dev (\<lambda>_. True) ''eth0'' ptp_config
      (runtime_set_hwtstamp zero_runtime captured_ptp False) captured_ptp = (ok, st', rt', d', trace) \<and>
     (\<forall>(m, dc) \<in> set trace. \<exists>s. hwtstamp_state_from_runtime m ''eth0'' = Inr s)"
proof -
  obtain ok st' rt' d' trace where r: "loader_enable_hwtstamp exact_dev (\<lambda>_. True) ''eth0'' ptp_config
      (runtime_set_hwtstamp zero_runtime captured_ptp False) captured_ptp = (ok, st', rt', d', trace)"
    by (cases "loader_enable_hwtstamp exact_dev (\<lambda>_. True) ''eth0'' ptp_config
      (runtime_set_hwtstamp zero_runtime captured_ptp False) captured_ptp") auto
  have ex: "exact_set exact_dev" by (simp add: exact_set_def exact_dev_def)
  have "\<exists>s. hwtstamp_state_from_runtime m ''eth0'' = Inr s" if "(m, dc) \<in> set trace" for m dc
    using loader_crash_recoverable [OF exact_dev_law ex _ _ _ _ r that]
    by (auto simp: exact_dev_def)
  with r show ?thesis by blast
qed

definition normal_config :: hwtstamp_config where
  "normal_config = \<lparr>hc_flags = 0, hc_tx_type = 0, hc_rx_filter = HWTSTAMP_FILTER_ALL\<rparr>"

definition normalising_dev :: "bool hwtstamp_dev" where
  "normalising_dev = \<lparr>dev_get = (\<lambda>ptp. Inr (if ptp then ptp_config else normal_config)),
     dev_set = (\<lambda>_ c. if c = ptp_config then (Inr ptp_config, True) else (Inr normal_config, False))\<rparr>"

text \<open>
  The crash window stays open for a driver that normalises the requested
  configuration (here: it knows RX timestamps for all packets only with TX timestamping off):
  after the ioctl and before APPLIED is published, the pinned record names a configuration the
  device does not have, and recovery skips the restoration as if a third party had changed it.
\<close>

theorem normalising_driver_keeps_crash_window:
  "hwtstamp_law normalising_dev \<and>
   (\<exists>ok st' rt' d' trace m s. loader_enable_hwtstamp normalising_dev (\<lambda>_. True) ''eth0'' True
        (runtime_set_hwtstamp zero_runtime captured_ptp False) captured_ptp = (ok, st', rt', d', trace) \<and>
      (m, False) \<in> set trace \<and> hwtstamp_state_from_runtime m ''eth0'' = Inr s \<and>
      ace_hwtstamp_restore_allow_saved normalising_dev False s True = (Inr True, s, False) \<and>
      dev_get normalising_dev False \<noteq> dev_get normalising_dev True)"
proof -
  let ?p = "captured_ptp\<lparr>hs_effective := ptp_config\<lparr>hc_rx_filter := HWTSTAMP_FILTER_ALL\<rparr>, hs_changed := True\<rparr>"
  let ?rt = "runtime_set_hwtstamp zero_runtime captured_ptp False"
  let ?m = "runtime_set_hwtstamp_applying ?rt ?p"
  have law: "hwtstamp_law normalising_dev"
    by (auto simp: hwtstamp_law_def normalising_dev_def)
  have pr: "ace_hwtstamp_prepare_rx_all captured_ptp = (Inr (), ?p)"
    by (simp add: ace_hwtstamp_prepare_rx_all_def Let_def)
  obtain st1 where ap: "ace_hwtstamp_apply_prepared_rx_all normalising_dev True ?p = (Inr (), st1, False)"
    by (simp add: ace_hwtstamp_apply_prepared_rx_all_def ace_hwtstamp_query_def normalising_dev_def normal_config_def Let_def)
  have q: "ace_hwtstamp_query normalising_dev True (Some ''eth0'') = Inr (hs_saved captured_ptp)"
    by (simp add: ace_hwtstamp_query_def normalising_dev_def)
  note run = loader_enable_hwtstamp_def [of normalising_dev "\<lambda>_. True" "''eth0''" True ?rt captured_ptp,
      unfolded q pr Let_def, simplified, unfolded ap [simplified], simplified]
  let ?s = "\<lparr>hs_saved = ptp_config, hs_effective = ptp_config\<lparr>hc_rx_filter := HWTSTAMP_FILTER_ALL\<rparr>,
    hs_interface_name = ''eth0'', hs_active = True, hs_changed = True\<rparr>"
  have "hwtstamp_state_from_runtime ?m ''eth0'' = Inr ?s"
    by (simp add: state_from_runtime)
  moreover have "ace_hwtstamp_restore_allow_saved normalising_dev False ?s True = (Inr True, ?s, False)"
    by (simp add: ace_hwtstamp_restore_allow_saved_def normalising_dev_def normal_config_def)
  moreover have "dev_get normalising_dev False \<noteq> dev_get normalising_dev True"
    by (simp add: normalising_dev_def normal_config_def)
  ultimately show ?thesis using law run by fastforce
qed

end
