(* ===== verification/Ace_Process.thy ===== *)
theory Ace_Process
  imports Decimal_Text
begin

text \<open>
  Process identity (\<^verbatim>\<open>include/ace_process.h\<close>): the start time of a process is field 22 of
  \<^verbatim>\<open>/proc/PID/stat\<close>, and a process is the one that wrote a record only when its pid and its
  start time both match.  What the kernel's file holds is a parameter.
\<close>

section \<open>The parser of /proc/PID/stat\<close>

abbreviation is_blank :: "char \<Rightarrow> bool" where "is_blank c \<equiv> c = CHR '' ''"
abbreviation ends_field :: "char \<Rightarrow> bool" where "ends_field c \<equiv> c = CHR '' '' \<or> c = CHR 0x0A"

function stat_field_loop :: "nat \<Rightarrow> string \<Rightarrow> errno + u64" where
  "stat_field_loop field cursor =
   (if field > 22 then Inl EINVAL
    else (let cursor = dropWhile is_blank cursor in
      if cursor = [] then Inl EINVAL
      else (let end = dropWhile (\<lambda>c. \<not> ends_field c) cursor in
        if field = 22 then
          (let (parsed, parsed_end, err) = strtoull cursor in
           if err \<or> parsed_end \<noteq> end then Inl EINVAL else Inr parsed)
        else stat_field_loop (field + 1) end)))"
  by pat_completeness auto
termination by (relation "measure (\<lambda>(field, _). 23 - field)") auto

declare stat_field_loop.simps [simp del]

text \<open>The text after the last occurrence of a character (\<^verbatim>\<open>strrchr\<close>).\<close>

definition after_last :: "char \<Rightarrow> string \<Rightarrow> string option" where
  "after_last c s = (if c \<in> set s then Some (rev (takeWhile (\<lambda>x. x \<noteq> c) (rev s))) else None)"

text \<open>
  \<open>read_stat path\<close> is the outcome of opening, reading (at most 4095 bytes) and closing the file.
\<close>

definition ace_process_start_ticks :: "(string \<Rightarrow> errno + string) \<Rightarrow> int \<Rightarrow> errno + u64" where
  "ace_process_start_ticks read_stat pid =
   (if pid \<le> 0 then Inl EINVAL
    else (let path = ''/proc/'' @ show_nat (nat pid) @ ''/stat'' in
      if length path \<ge> 64 then Inl ENAMETOOLONG
      else (case read_stat path of
          Inl e \<Rightarrow> Inl e
        | Inr buffer \<Rightarrow>
            if length buffer = 0 \<or> length buffer = 4095 then Inl EOVERFLOW
            else (case after_last (CHR '')'') (takeWhile (\<lambda>c. c \<noteq> CHR 0x00) buffer) of
                None \<Rightarrow> Inl EINVAL
              | Some cursor \<Rightarrow> stat_field_loop 3 cursor))))"

definition ace_process_identity_is_alive ::
  "(string \<Rightarrow> errno + string) \<Rightarrow> int \<Rightarrow> u64 \<Rightarrow> errno + bool" where
  "ace_process_identity_is_alive read_stat pid expected_start_ticks =
   (if pid \<le> 0 \<or> expected_start_ticks = 0 then Inl EINVAL
    else (case ace_process_start_ticks read_stat pid of
        Inl e \<Rightarrow> if e = ENOENT \<or> e = ESRCH then Inr False else Inl e
      | Inr actual \<Rightarrow> Inr (actual = expected_start_ticks)))"

section \<open>Reading the fields\<close>

definition plain_field :: "string \<Rightarrow> bool" where
  "plain_field t \<longleftrightarrow> t \<noteq> [] \<and> list_all (\<lambda>c. \<not> ends_field c \<and> c \<noteq> CHR '')'' \<and> c \<noteq> CHR 0x00) t"

definition stat_tail :: "string list \<Rightarrow> u64 \<Rightarrow> string \<Rightarrow> string" where
  "stat_tail fields ticks rest = concat (map (\<lambda>t. CHR '' '' # t) fields) @ CHR '' '' # show_nat (unat ticks) @ rest"

lemma after_last_append:
  assumes "c \<notin> set t"
  shows "after_last c (s @ c # t) = Some t"
proof -
  have "takeWhile (\<lambda>x. x \<noteq> c) (rev t @ c # rev s) = rev t"
    using assms by (subst takeWhile_append2) auto
  then show ?thesis by (simp add: after_last_def)
qed

lemma digit_plain: "is_digit c \<Longrightarrow> \<not> ends_field c \<and> c \<noteq> CHR '')'' \<and> c \<noteq> CHR 0x00"
  by (auto simp: is_digit_def char_code_def)

lemma plain_field_show_nat [simp]: "plain_field (show_nat n)"
  using show_nat_digits [of n] digit_plain
  by (auto simp: plain_field_def list_all_iff)

lemma dropWhile_field:
  assumes "plain_field t" "rest = [] \<or> ends_field (hd rest)"
  shows "dropWhile (\<lambda>c. \<not> ends_field c) (t @ rest) = rest"
  using assms by (cases rest) (auto simp: plain_field_def list_all_iff dropWhile_append2)

lemma dropWhile_blank_field: "plain_field t \<Longrightarrow> dropWhile is_blank (t @ rest) = t @ rest"
  by (cases t) (auto simp: plain_field_def)

lemma stat_field_loop_tail:
  assumes "length fields = 22 - n" "n \<le> 22" "list_all plain_field fields"
    and rest: "rest = [] \<or> ends_field (hd rest)"
  shows "stat_field_loop n (stat_tail fields ticks rest) = Inr ticks"
  using assms(1-3)
proof (induction fields arbitrary: n)
  case Nil
  then have n: "n = 22" by simp
  have nd: "rest = [] \<or> \<not> is_digit (hd rest)" using rest digit_plain by blast
  let ?s = "show_nat (unat ticks) @ rest"
  have "strtoull ?s = (ticks, rest, False)"
    using strtoull_prefix [OF show_nat_not_Nil show_nat_digits nd] unat_bound [of ticks] by simp
  then show ?case
    using dropWhile_field [OF plain_field_show_nat rest] dropWhile_blank_field [OF plain_field_show_nat]
    by (subst stat_field_loop.simps) (simp add: n stat_tail_def Let_def)
next
  case (Cons t ts)
  let ?r = "stat_tail ts ticks rest"
  have r: "?r = [] \<or> ends_field (hd ?r)" by (cases ts) (auto simp: stat_tail_def)
  have e: "stat_tail (t # ts) ticks rest = CHR '' '' # t @ ?r" by (simp add: stat_tail_def)
  have n: "n < 22" using Cons(2) by simp
  have t: "plain_field t" "t \<noteq> []" using Cons(4) by (auto simp: plain_field_def)
  have "stat_field_loop n (stat_tail (t # ts) ticks rest) = stat_field_loop (n + 1) ?r"
    unfolding e using n t dropWhile_field [OF t(1) r] dropWhile_blank_field [OF t(1)]
    by (subst stat_field_loop.simps) (simp add: Let_def)
  also have "\<dots> = Inr ticks" using Cons by simp
  finally show ?case .
qed

section \<open>Properties\<close>

text \<open>
  The start time is read correctly whatever the command name of the process holds
  (blanks and closing parentheses included): for a stat line \<^verbatim>\<open>pid (comm) f3 .. f21 ticks ..\<close>
  that fits the buffer, the function returns field 22.
\<close>

theorem start_ticks_any_comm:
  assumes "0 < pid" "length (''/proc/'' @ show_nat (nat pid) @ ''/stat'') < 64"
    and "length fields = 19" "list_all plain_field fields" "CHR 0x00 \<notin> set comm"
    and "rest = [] \<or> ends_field (hd rest)" "CHR '')'' \<notin> set rest" "CHR 0x00 \<notin> set rest"
    and line: "line = show_nat (nat pid) @ '' ('' @ comm @ CHR '')'' # stat_tail fields ticks rest"
    and "length line < 4095"
    and read: "read_stat (''/proc/'' @ show_nat (nat pid) @ ''/stat'') = Inr line"
  shows "ace_process_start_ticks read_stat pid = Inr ticks"
proof -
  let ?t = "stat_tail fields ticks rest"
  have pl: "c \<in> set (show_nat n) \<Longrightarrow> c \<noteq> CHR 0x00 \<and> c \<noteq> CHR '')''" for c n
    using plain_field_show_nat [of n] by (auto simp: plain_field_def list_all_iff)
  have fl: "c \<in> set t \<Longrightarrow> t \<in> set fields \<Longrightarrow> c \<noteq> CHR 0x00 \<and> c \<noteq> CHR '')''" for c t
    using assms(4) by (auto simp: plain_field_def list_all_iff)
  have t: "CHR '')'' \<notin> set ?t" "CHR 0x00 \<notin> set ?t"
    using assms(7,8) pl fl by (auto simp: stat_tail_def)
  have nul: "takeWhile (\<lambda>c. c \<noteq> CHR 0x00) line = line"
    using assms(5) t pl by (auto simp: takeWhile_eq_all_conv line)
  have "after_last (CHR '')'') line = Some ?t"
    using after_last_append [OF t(1), of "show_nat (nat pid) @ '' ('' @ comm"] by (simp add: line)
  moreover have "stat_field_loop 3 ?t = Inr ticks"
    by (rule stat_field_loop_tail) (use assms in auto)
  moreover have "line \<noteq> []" by (simp add: line)
  ultimately show ?thesis
    using assms(1,2) \<open>length line < 4095\<close> read by (simp add: ace_process_start_ticks_def Let_def nul)
qed


theorem start_ticks_any_comm_witness:
  "ace_process_start_ticks (\<lambda>_. Inr (show_nat (nat 7) @ '' ('' @ ''a) b'' @ CHR '')'' #
     stat_tail (replicate 19 ''0'') 4242 [CHR 0x0A])) 7 = Inr 4242"
proof -
  have "show_nat 7 = ''7''" "show_nat 4242 = ''4242''" by (simp_all add: show_nat_eval)
  then show ?thesis
    by (intro start_ticks_any_comm [where fields = "replicate 19 ''0''" and comm = "''a) b''" and rest = "[CHR 0x0A]"])
      (simp_all add: list_all_iff plain_field_def stat_tail_def length_concat sum_list_replicate)
qed

text \<open>
  A recorded owner is reported alive exactly when the process with its pid exists
  and has the recorded start time, so a pid reused by a later process is not taken for the owner;
  an error other than a missing process is passed on and never read as "dead".
\<close>

theorem identity_detects_pid_reuse:
  assumes "0 < pid" "ticks \<noteq> 0"
  shows "ace_process_identity_is_alive read_stat pid ticks = Inr alive \<longleftrightarrow>
    (case ace_process_start_ticks read_stat pid of
       Inr t \<Rightarrow> alive = (t = ticks)
     | Inl e \<Rightarrow> \<not> alive \<and> (e = ENOENT \<or> e = ESRCH))"
  using assms by (auto simp: ace_process_identity_is_alive_def split: sum.splits)

theorem identity_detects_pid_reuse_witness:
  "ace_process_identity_is_alive (\<lambda>_. Inl ENOENT) 7 4242 = Inr False"
  using identity_detects_pid_reuse [of 7 4242 "\<lambda>_. Inl ENOENT" False]
  by (simp add: ace_process_start_ticks_def show_nat.simps)

end
