(* ===== verification/Xsk_Handshake.thy ===== *)
theory Xsk_Handshake
  imports Ace_Process Xdp_Machine
begin

text \<open>
  The handshake between the loader and the AF_XDP receivers.  A receiver claims its queue in
  \<^verbatim>\<open>xsk_owners\<close>, re-reads the runtime record and only then registers in the XSKMAP
  (\<^verbatim>\<open>BPF/afxdp_recv.c\<close>, \<^verbatim>\<open>main\<close>); the loader publishes STOPPING, scans the claims and only then
  detaches XDP (\<^verbatim>\<open>BPF/xdp_loader.c\<close>, \<^verbatim>\<open>main\<close> and \<^verbatim>\<open>recover_pinned_measurement\<close>).  The functions
  are modelled first; then the loader and any number of receivers, one per queue, form an
  interleaving step relation in which receivers may be killed at any point.
\<close>

unbundle bit_operations_syntax

section \<open>Receiver side\<close>

type_synonym owner_map = "u32 \<rightharpoonup> ace_xsk_owner"

definition xsk_owner_equal :: "ace_xsk_owner \<Rightarrow> ace_xsk_owner \<Rightarrow> bool" where
  "xsk_owner_equal left right \<longleftrightarrow>
     xo_process_start_ticks left = xo_process_start_ticks right \<and> xo_pid left = xo_pid right \<and>
     xo_reserved left = xo_reserved right"

text \<open>\<open>update\<close> is the kernel's \<^verbatim>\<open>bpf_map_update_elem(.., BPF_NOEXIST)\<close> on the owner map.\<close>

definition claim_xsk_queue ::
  "(owner_map \<Rightarrow> u32 \<Rightarrow> ace_xsk_owner \<Rightarrow> int \<times> owner_map) \<Rightarrow> owner_map \<Rightarrow> u32 \<Rightarrow> ace_xsk_owner \<Rightarrow>
     (errno + unit) \<times> owner_map" where
  "claim_xsk_queue update owners queue_id owner =
     (case update owners queue_id owner of
        (err, owners') \<Rightarrow> (if err \<noteq> 0 then Inl (- err) else Inr (), owners'))"

text \<open>\<open>lookup\<close> and \<open>delete\<close> are the results of the two map calls.\<close>

definition release_xsk_queue ::
  "errno + ace_xsk_owner \<Rightarrow> errno + unit \<Rightarrow> owner_map \<Rightarrow> u32 \<Rightarrow> ace_xsk_owner \<Rightarrow> (errno + unit) \<times> owner_map" where
  "release_xsk_queue lookup delete owners queue_id owner =
     (case lookup of
        Inl e \<Rightarrow> (Inl (if e = ENOENT then ESTALE else e), owners)
      | Inr current \<Rightarrow>
          if \<not> xsk_owner_equal current owner then (Inl ESTALE, owners)
          else (case delete of
              Inl e \<Rightarrow> (Inl e, owners)
            | Inr _ \<Rightarrow> (Inr (), owners(queue_id := None))))"

text \<open>The acceptance test of the runtime record in the receiver's \<^verbatim>\<open>main\<close>.\<close>

definition receiver_runtime_check :: "u32 \<Rightarrow> ace_runtime_config \<Rightarrow> errno + unit" where
  "receiver_runtime_check ifindex runtime =
   (let all_flags = ACE_RUNTIME_F_HWTSTAMP_CAPTURED OR ACE_RUNTIME_F_HWTSTAMP_APPLYING OR
          ACE_RUNTIME_F_HWTSTAMP_APPLIED OR ACE_RUNTIME_F_STOPPING OR ACE_RUNTIME_F_ALL_PASS OR
          ACE_RUNTIME_F_PASS_XSK in
    if rc_abi_version runtime \<noteq> ACE_XDP_RUNTIME_ABI_VERSION \<or> rc_ifindex runtime \<noteq> ifindex \<or>
       rc_record_capacity runtime = 0 \<or> unat (rc_record_capacity runtime) > ACE_XDP_RECORD_MAX_ENTRIES \<or>
       rc_xdp_program_id runtime = 0 \<or> rc_owner_pid runtime = 0 \<or> rc_owner_start_ticks runtime = 0 \<or>
       rc_flags runtime AND (ACE_RUNTIME_F_HWTSTAMP_CAPTURED OR ACE_RUNTIME_F_HWTSTAMP_APPLIED) \<noteq>
         (ACE_RUNTIME_F_HWTSTAMP_CAPTURED OR ACE_RUNTIME_F_HWTSTAMP_APPLIED) \<or>
       rc_flags runtime AND (ACE_RUNTIME_F_HWTSTAMP_APPLYING OR ACE_RUNTIME_F_STOPPING) \<noteq> 0 \<or>
       rc_flags runtime AND NOT all_flags \<noteq> 0 \<or> rc_effective_hwtstamp_rx_filter runtime \<noteq> 1
    then Inl EXDEV
    else if rc_flags runtime AND ACE_RUNTIME_F_ALL_PASS \<noteq> 0 then Inl EINVAL
    else Inr ())"

definition require_live_loader_owner ::
  "(string \<Rightarrow> errno + string) \<Rightarrow> ace_runtime_config \<Rightarrow> errno + unit" where
  "require_live_loader_owner read_stat runtime =
     (if unat (rc_owner_pid runtime) > INT_MAX then Inl EINVAL
      else (case ace_process_identity_is_alive read_stat (int (unat (rc_owner_pid runtime)))
                   (rc_owner_start_ticks runtime) of
          Inl e \<Rightarrow> Inl e
        | Inr alive \<Rightarrow> if alive then Inr () else Inl ESRCH))"

text \<open>
  The schema test of a pinned map, shared in form by the loader (\<open>validate_map\<close>) and the receiver
  (\<open>validate_pinned_map\<close>, which also returns the map id); \<open>info\<close> is the kernel's answer.
\<close>

record bpf_map_info =
  mi_type :: u32
  mi_id :: u32
  mi_key_size :: u32
  mi_value_size :: u32
  mi_max_entries :: u32
  mi_name :: string

definition validate_pinned_map ::
  "errno + bpf_map_info \<Rightarrow> u32 \<Rightarrow> u32 \<Rightarrow> u32 \<Rightarrow> u32 \<Rightarrow> string \<Rightarrow> errno + u32" where
  "validate_pinned_map info expected_type expected_key_size expected_value_size expected_max_entries expected_name =
     (case info of
        Inl e \<Rightarrow> Inl e
      | Inr i \<Rightarrow>
          if mi_type i \<noteq> expected_type \<or> mi_key_size i \<noteq> expected_key_size \<or>
             mi_value_size i \<noteq> expected_value_size \<or> mi_max_entries i \<noteq> expected_max_entries \<or>
             mi_name i \<noteq> expected_name
          then Inl EINVAL else Inr (mi_id i))"

text \<open>The search reads \<open>count\<close> entries of the array; \<open>None\<close> is a read outside of it.\<close>

fun program_uses_map_loop :: "u32 list \<Rightarrow> nat \<Rightarrow> nat \<Rightarrow> u32 \<Rightarrow> bool option" where
  "program_uses_map_loop map_ids i 0 map_id = Some False"
| "program_uses_map_loop map_ids i (Suc left) map_id =
     (if i < length map_ids then
        if map_ids ! i = map_id then Some True else program_uses_map_loop map_ids (Suc i) left map_id
      else None)"

definition program_uses_map :: "u32 list \<Rightarrow> u32 \<Rightarrow> u32 \<Rightarrow> bool option" where
  "program_uses_map map_ids count map_id = program_uses_map_loop map_ids 0 (unat count) map_id"

lemma program_uses_map_loop_eq:
  "i + left \<le> length map_ids \<Longrightarrow>
     program_uses_map_loop map_ids i left map_id = Some (map_id \<in> set (take left (drop i map_ids)))"
proof (induction map_ids i left map_id rule: program_uses_map_loop.induct)
  case (2 map_ids i left map_id)
  have "take (Suc left) (drop i map_ids) = map_ids ! i # take left (drop (Suc i) map_ids)"
    using 2(2) by (simp add: Cons_nth_drop_Suc [symmetric])
  then show ?case using 2 by auto
qed simp

text \<open>
  The program checks of the receiver.  The arguments are the answers of the kernel: the query
  (\<open>prog_id\<close>, \<open>drv_prog_id\<close>), opening the program, its type and number of maps, the allocation of
  the id array, and the second query (the reported count and the filled array).
\<close>

record program_answers =
  pa_query :: "errno + u32 \<times> u32"
  pa_open :: "errno + unit"
  pa_info :: "errno + u32 \<times> u32"
  pa_alloc :: bool
  pa_map_ids :: "errno + u32 \<times> u32 list"

abbreviation BPF_PROG_TYPE_XDP :: u32 where "BPF_PROG_TYPE_XDP \<equiv> 6"

definition validate_attached_program ::
  "program_answers \<Rightarrow> u32 \<Rightarrow> u32 \<Rightarrow> u32 \<Rightarrow> (errno + unit) option" where
  "validate_attached_program k xsk_map_id stats_map_id expected_program_id =
   (case pa_query k of
      Inl e \<Rightarrow> Some (Inl e)
    | Inr (prog_id, drv_prog_id) \<Rightarrow>
      (let program_id = (if prog_id \<noteq> 0 then prog_id else drv_prog_id) in
       if program_id = 0 then Some (Inl ENOENT)
       else if program_id \<noteq> expected_program_id then Some (Inl EXDEV)
       else (case pa_open k of
          Inl e \<Rightarrow> Some (Inl e)
        | Inr _ \<Rightarrow>
          (case pa_info k of
             Inl e \<Rightarrow> Some (Inl e)
           | Inr (prog_type, nr_map_ids) \<Rightarrow>
             if prog_type \<noteq> BPF_PROG_TYPE_XDP \<or> nr_map_ids = 0 then Some (Inl EINVAL)
             else if \<not> pa_alloc k then Some (Inl ENOMEM)
             else (case pa_map_ids k of
                Inl e \<Rightarrow> Some (Inl e)
              | Inr (count, map_ids) \<Rightarrow>
                (case program_uses_map map_ids count xsk_map_id of
                   None \<Rightarrow> None
                 | Some False \<Rightarrow> Some (Inl EXDEV)
                 | Some True \<Rightarrow>
                   (case program_uses_map map_ids count stats_map_id of
                      None \<Rightarrow> None
                    | Some uses \<Rightarrow> Some (if uses then Inr () else Inl EXDEV))))))))"

lemma program_uses_map_eq:
  "unat count \<le> length map_ids \<Longrightarrow> program_uses_map map_ids count m = Some (m \<in> set (take (unat count) map_ids))"
  by (simp add: program_uses_map_def program_uses_map_loop_eq)

section \<open>Loader side\<close>

definition owner_alive :: "(string \<Rightarrow> errno + string) \<Rightarrow> ace_xsk_owner \<Rightarrow> errno + bool" where
  "owner_alive read_stat owner =
     ace_process_identity_is_alive read_stat (int (unat (xo_pid owner))) (xo_process_start_ticks owner)"

text \<open>
  The kernel calls of the scan.  Each takes and returns the whole world \<open>'w\<close>, which other processes
  may change between two calls.
\<close>

record 'w owner_calls =
  get_next_key :: "'w \<Rightarrow> (errno + u32) \<times> 'w"
  lookup_elem :: "u32 \<Rightarrow> 'w \<Rightarrow> (errno + ace_xsk_owner) \<times> 'w"
  delete_elem :: "u32 \<Rightarrow> 'w \<Rightarrow> (errno + unit) \<times> 'w"
  proc_stat :: "'w \<Rightarrow> string \<Rightarrow> errno + string"

definition owner_malformed :: "ace_xsk_owner \<Rightarrow> bool" where
  "owner_malformed owner \<longleftrightarrow>
     xo_pid owner = 0 \<or> unat (xo_pid owner) > INT_MAX \<or> xo_process_start_ticks owner = 0 \<or> xo_reserved owner \<noteq> 0"

text \<open>The loop of the scan; the first argument bounds its rounds and \<open>None\<close> means it was exceeded.\<close>

fun xsk_owners_have_live_claim :: "nat \<Rightarrow> 'w owner_calls \<Rightarrow> 'w \<Rightarrow> ((errno + bool) \<times> 'w) option" where
  "xsk_owners_have_live_claim 0 calls w = None"
| "xsk_owners_have_live_claim (Suc fuel) calls w =
   (case get_next_key calls w of
      (Inl e, w) \<Rightarrow> Some (if e \<noteq> ENOENT then Inl e else Inr False, w)
    | (Inr key, w) \<Rightarrow>
        (case lookup_elem calls key w of
           (Inl e, w) \<Rightarrow> if e = ENOENT then xsk_owners_have_live_claim fuel calls w else Some (Inl e, w)
         | (Inr owner, w) \<Rightarrow>
             if owner_malformed owner then Some (Inl EINVAL, w)
             else (case owner_alive (proc_stat calls w) owner of
                 Inl e \<Rightarrow> Some (Inl e, w)
               | Inr alive \<Rightarrow>
                   if alive then
                     (case lookup_elem calls key w of
                        (Inl e, w) \<Rightarrow> if e = ENOENT then xsk_owners_have_live_claim fuel calls w else Some (Inl e, w)
                      | (Inr latest, w) \<Rightarrow> Some (Inr True, w))
                   else
                     (case delete_elem calls key w of
                        (Inl e, w) \<Rightarrow> if e \<noteq> ENOENT then Some (Inl e, w) else xsk_owners_have_live_claim fuel calls w
                      | (Inr _, w) \<Rightarrow> xsk_owners_have_live_claim fuel calls w))))"

text \<open>\<open>query\<close> is the attached driver-mode program id, \<open>detach\<close> the result of the detach call.\<close>

definition detach_if_owned :: "errno + u32 \<Rightarrow> errno + unit \<Rightarrow> u32 \<Rightarrow> u32 \<Rightarrow> (errno + unit) \<times> u32" where
  "detach_if_owned query detach owned_id attached =
     (case query of
        Inl e \<Rightarrow> (Inl e, attached)
      | Inr current_id \<Rightarrow>
          if current_id = 0 then (Inr (), attached)
          else if current_id \<noteq> owned_id then (Inl ESTALE, attached)
          else (case detach of Inl e \<Rightarrow> (Inl e, attached) | Inr _ \<Rightarrow> (Inr (), 0)))"

section \<open>The scan\<close>

text \<open>
  Whatever other processes do in between, the verdict "no live claim" is given exactly at a moment
  when the kernel found the claim map empty.
\<close>

lemma scan_clear_only_when_empty:
  "xsk_owners_have_live_claim fuel calls w = Some (Inr False, w') \<Longrightarrow>
     \<exists>v. get_next_key calls v = (Inl ENOENT, w')"
  by (induction fuel calls w rule: xsk_owners_have_live_claim.induct)
     (auto split: prod.splits sum.splits if_splits)

text \<open>The kernel calls on a claim map that nobody else changes.\<close>

definition quiet_calls :: "(owner_map \<Rightarrow> u32 option) \<Rightarrow> (string \<Rightarrow> errno + string) \<Rightarrow> owner_map owner_calls" where
  "quiet_calls first_key read_stat =
     \<lparr>get_next_key = (\<lambda>m. (case first_key m of None \<Rightarrow> Inl ENOENT | Some k \<Rightarrow> Inr k, m)),
      lookup_elem = (\<lambda>k m. (case m k of None \<Rightarrow> Inl ENOENT | Some v \<Rightarrow> Inr v, m)),
      delete_elem = (\<lambda>k m. (if m k = None then Inl ENOENT else Inr (), m(k := None))),
      proc_stat = (\<lambda>_. read_stat)\<rparr>"

definition first_key_law :: "(owner_map \<Rightarrow> u32 option) \<Rightarrow> bool" where
  "first_key_law first_key \<longleftrightarrow>
     (\<forall>m. case first_key m of None \<Rightarrow> m = Map.empty | Some k \<Rightarrow> k \<in> dom m)"

lemma first_key_cases:
  assumes "first_key_law first_key"
  obtains (empty) "first_key m = None" "m = Map.empty" | (key) k owner where "first_key m = Some k" "m k = Some owner"
  using assms [unfolded first_key_law_def, THEN spec, of m] by (auto split: option.splits)

text \<open>What a scan may do to the claims: remove those of dead processes, nothing else.\<close>

definition only_dead_removed :: "(string \<Rightarrow> errno + string) \<Rightarrow> owner_map \<Rightarrow> owner_map \<Rightarrow> bool" where
  "only_dead_removed read_stat m m' \<longleftrightarrow>
     (\<forall>k. m' k = m k \<or> m' k = None \<and> (\<exists>owner. m k = Some owner \<and> owner_alive read_stat owner = Inr False))"

lemma only_dead_removed_step:
  assumes "m k = Some owner" "owner_alive read_stat owner = Inr False"
    "only_dead_removed read_stat (m(k := None)) m'"
  shows "only_dead_removed read_stat m m'"
  unfolding only_dead_removed_def
proof
  fix j
  show "m' j = m j \<or> m' j = None \<and> (\<exists>owner. m j = Some owner \<and> owner_alive read_stat owner = Inr False)"
    using assms(3) [unfolded only_dead_removed_def, THEN spec, of j] assms(1,2)
    by (cases "j = k") auto
qed

definition scan_verdict ::
  "(string \<Rightarrow> errno + string) \<Rightarrow> owner_map \<Rightarrow> (errno + bool) \<times> owner_map \<Rightarrow> bool" where
  "scan_verdict read_stat m res \<longleftrightarrow>
     (case res of (r, m') \<Rightarrow> only_dead_removed read_stat m m' \<and>
        (case r of
           Inl e \<Rightarrow> \<exists>k owner. m' k = Some owner \<and>
             (owner_malformed owner \<and> e = EINVAL \<or> owner_alive read_stat owner = Inl e)
         | Inr live \<Rightarrow> if live then \<exists>k owner. m' k = Some owner \<and> owner_alive read_stat owner = Inr True
             else m' = Map.empty))"

lemma quiet_scan_stops:
  assumes "first_key m = Some k" "m k = Some owner" "owner_malformed owner \<or> owner_alive read_stat owner \<noteq> Inr False"
  shows "\<exists>r. xsk_owners_have_live_claim (Suc fuel) (quiet_calls first_key read_stat) m = Some (r, m) \<and>
    scan_verdict read_stat m (r, m)"
proof (cases "owner_malformed owner")
  case True
  then have "xsk_owners_have_live_claim (Suc fuel) (quiet_calls first_key read_stat) m = Some (Inl EINVAL, m)"
    using assms(1,2) by (simp add: quiet_calls_def)
  moreover have "scan_verdict read_stat m (Inl EINVAL, m)"
    using assms(2) True by (auto simp: scan_verdict_def only_dead_removed_def)
  ultimately show ?thesis by blast
next
  case False
  show ?thesis
  proof (cases "owner_alive read_stat owner")
    case (Inl e)
    then have "xsk_owners_have_live_claim (Suc fuel) (quiet_calls first_key read_stat) m = Some (Inl e, m)"
      using assms(1,2) False by (simp add: quiet_calls_def)
    moreover have "scan_verdict read_stat m (Inl e, m)"
      using assms(2) Inl by (auto simp: scan_verdict_def only_dead_removed_def)
    ultimately show ?thesis by blast
  next
    case (Inr alive)
    then have "xsk_owners_have_live_claim (Suc fuel) (quiet_calls first_key read_stat) m = Some (Inr True, m)"
      using assms False by (simp add: quiet_calls_def)
    moreover have "scan_verdict read_stat m (Inr True, m)"
      using assms(2,3) Inr False by (auto simp: scan_verdict_def only_dead_removed_def)
    ultimately show ?thesis by blast
  qed
qed

lemma quiet_scan:
  assumes "first_key_law first_key" "finite (dom m)" "card (dom m) < fuel"
  shows "\<exists>res. xsk_owners_have_live_claim fuel (quiet_calls first_key read_stat) m = Some res \<and>
    scan_verdict read_stat m res"
  using assms(2,3)
proof (induction fuel arbitrary: m)
  case 0
  then show ?case by simp
next
  case (Suc fuel)
  show ?case
    using assms(1)
  proof (cases rule: first_key_cases [where m = m])
    case empty
    then show ?thesis by (simp add: quiet_calls_def scan_verdict_def only_dead_removed_def)
  next
    case (key k owner)
    show ?thesis
    proof (cases "owner_malformed owner \<or> owner_alive read_stat owner \<noteq> Inr False")
      case True
      show ?thesis using quiet_scan_stops [where first_key = first_key and m = m, OF key True] by blast
    next
      case False
      have c: "card (dom (m(k := None))) < fuel"
        using Suc.prems key(2) card_gt_0_iff [of "dom m"] by (auto simp: card_Diff_singleton domI)
      obtain res where ih: "xsk_owners_have_live_claim fuel (quiet_calls first_key read_stat) (m(k := None)) = Some res"
        "scan_verdict read_stat (m(k := None)) res"
        using Suc.IH [OF _ c] Suc.prems(1) by (auto simp del: fun_upd_apply)
      have "xsk_owners_have_live_claim (Suc fuel) (quiet_calls first_key read_stat) m = Some res"
        using ih(1) key False by (simp add: quiet_calls_def)
      moreover have "scan_verdict read_stat m res"
        using ih(2) only_dead_removed_step [where m = m, OF key(2)] False
        by (cases res) (simp add: scan_verdict_def)
      ultimately show ?thesis by blast
    qed
  qed
qed


section \<open>Interleavings of the loader and the receivers\<close>

text \<open>
  A receiver between two points of its \<^verbatim>\<open>main\<close>: before the first look at the runtime record; with
  the accepted record in hand; after claiming its queue; after the record was read again and found unchanged; after the
  program check; registered in the
  XSKMAP; with its socket closed and the claim still held; gone.
\<close>

datatype rx_pc =
    Starting | Validated ace_runtime_config | Claimed ace_runtime_config | Reread ace_runtime_config | Rechecked | Registered
  | Socket_Closed | Gone

text \<open>
  The shutdown, by the loader itself or by \<^verbatim>\<open>--recover\<close> once the loader is dead: measuring;
  STOPPING published and the claims being scanned; a live claim was found (nothing is detached);
  the scan found no claim; detached.
\<close>

datatype shutdown_pc = Measuring | Scanning | Refused | Clear | Detached

record handshake =
  hk_runtime :: ace_runtime_config
  hk_owners :: owner_map
  hk_xskmap :: "u32 \<rightharpoonup> ace_xsk_owner"
  hk_attached :: u32
  hk_rx :: "ace_xsk_owner \<Rightarrow> rx_pc"
  hk_shutdown :: shutdown_pc

text \<open>The kernel's \<^verbatim>\<open>bpf_map_update_elem\<close> with \<^verbatim>\<open>BPF_NOEXIST\<close>: the error number negated, or 0.\<close>

definition update_noexist :: "('k \<rightharpoonup> 'v) \<Rightarrow> 'k \<Rightarrow> 'v \<Rightarrow> int \<times> ('k \<rightharpoonup> 'v)" where
  "update_noexist m k v = (if m k = None then (0, m(k \<mapsto> v)) else (- EEXIST, m))"

definition register_socket ::
  "((u32 \<rightharpoonup> 's) \<Rightarrow> u32 \<Rightarrow> 's \<Rightarrow> int \<times> (u32 \<rightharpoonup> 's)) \<Rightarrow> (u32 \<rightharpoonup> 's) \<Rightarrow> u32 \<Rightarrow> 's \<Rightarrow> (errno + unit) \<times> (u32 \<rightharpoonup> 's)" where
  "register_socket update xskmap queue_id socket =
     (case update xskmap queue_id socket of
        (err, xskmap') \<Rightarrow> (if err < 0 then Inl (- err) else Inr (), xskmap'))"

text \<open>
  \<open>hs_step queue ifindex s s'\<close>: receiver \<open>o\<close> works on \<open>queue o\<close>.  Every failing branch of the receiver
  after the claim leads to its cleanup; \<open>killed\<close> is SIGKILL at any point, where the kernel closes the
  socket and so removes the XSKMAP entry but leaves the claim.
\<close>

inductive hs_step ::
  "(ace_xsk_owner \<Rightarrow> u32) \<Rightarrow> u32 \<Rightarrow> handshake \<Rightarrow> handshake \<Rightarrow> bool" for queue ifindex where
  validate: "hk_rx s r = Starting \<Longrightarrow> receiver_runtime_check ifindex (hk_runtime s) = Inr () \<Longrightarrow>
     hs_step queue ifindex s (s\<lparr>hk_rx := (hk_rx s)(r := Validated (hk_runtime s))\<rparr>)"
| claim: "hk_rx s r = Validated rt \<Longrightarrow> claim_xsk_queue update_noexist (hk_owners s) (queue r) r = (Inr (), owners') \<Longrightarrow>
     hs_step queue ifindex s (s\<lparr>hk_owners := owners', hk_rx := (hk_rx s)(r := Claimed rt)\<rparr>)"
| claim_fails: "hk_rx s r = Validated rt \<Longrightarrow> claim_xsk_queue update_noexist (hk_owners s) (queue r) r = (Inl e, owners') \<Longrightarrow>
     hs_step queue ifindex s (s\<lparr>hk_owners := owners', hk_rx := (hk_rx s)(r := Gone)\<rparr>)"
| reread: "hk_rx s r = Claimed rt \<Longrightarrow> hk_runtime s = rt \<Longrightarrow>
     hs_step queue ifindex s (s\<lparr>hk_rx := (hk_rx s)(r := Reread rt)\<rparr>)"
| recheck: "hk_rx s r = Reread rt \<Longrightarrow> hk_attached s = rc_xdp_program_id rt \<Longrightarrow> hk_attached s \<noteq> 0 \<Longrightarrow>
     hs_step queue ifindex s (s\<lparr>hk_rx := (hk_rx s)(r := Rechecked)\<rparr>)"
| register: "hk_rx s r = Rechecked \<Longrightarrow> register_socket update_noexist (hk_xskmap s) (queue r) r = (Inr (), xskmap') \<Longrightarrow>
     hs_step queue ifindex s (s\<lparr>hk_xskmap := xskmap', hk_rx := (hk_rx s)(r := Registered)\<rparr>)"
| close_socket: "hk_rx s r \<in> {Claimed rt, Reread rt, Rechecked, Registered} \<Longrightarrow>
     hs_step queue ifindex s
       (s\<lparr>hk_xskmap := (\<lambda>q. if hk_xskmap s q = Some r then None else hk_xskmap s q),
          hk_rx := (hk_rx s)(r := Socket_Closed)\<rparr>)"
| release: "hk_rx s r = Socket_Closed \<Longrightarrow>
     release_xsk_queue (case hk_owners s (queue r) of None \<Rightarrow> Inl ENOENT | Some v \<Rightarrow> Inr v) (Inr ())
       (hk_owners s) (queue r) r = (res, owners') \<Longrightarrow>
     hs_step queue ifindex s (s\<lparr>hk_owners := owners', hk_rx := (hk_rx s)(r := Gone)\<rparr>)"
| killed: "hs_step queue ifindex s
     (s\<lparr>hk_xskmap := (\<lambda>q. if hk_xskmap s q = Some r then None else hk_xskmap s q),
        hk_rx := (hk_rx s)(r := Gone)\<rparr>)"
| stopping: "hk_shutdown s \<in> {Measuring, Scanning, Refused, Clear} \<Longrightarrow>
     hs_step queue ifindex s
       (s\<lparr>hk_runtime := hk_runtime s\<lparr>rc_flags := rc_flags (hk_runtime s) OR ACE_RUNTIME_F_STOPPING\<rparr>,
          hk_shutdown := Scanning\<rparr>)"
| scan_removes: "hk_shutdown s = Scanning \<Longrightarrow> hk_owners s q = Some r \<Longrightarrow> hk_rx s r = Gone \<Longrightarrow>
     hs_step queue ifindex s (s\<lparr>hk_owners := (hk_owners s)(q := None)\<rparr>)"
| scan_refuses: "hk_shutdown s = Scanning \<Longrightarrow>
     hs_step queue ifindex s (s\<lparr>hk_shutdown := Refused\<rparr>)"
| scan_clear: "hk_shutdown s = Scanning \<Longrightarrow> hk_owners s = Map.empty \<Longrightarrow>
     hs_step queue ifindex s (s\<lparr>hk_shutdown := Clear\<rparr>)"
| detach: "hk_shutdown s = Clear \<Longrightarrow>
     detach_if_owned (Inr (hk_attached s)) (Inr ()) (rc_xdp_program_id (hk_runtime s)) (hk_attached s) = (Inr (), attached') \<Longrightarrow>
     hs_step queue ifindex s (s\<lparr>hk_attached := attached', hk_shutdown := Detached\<rparr>)"
| detach_fails: "hk_shutdown s = Clear \<Longrightarrow> hs_step queue ifindex s (s\<lparr>hk_shutdown := Refused\<rparr>)"

inductive hs_reachable ::
  "(ace_xsk_owner \<Rightarrow> u32) \<Rightarrow> u32 \<Rightarrow> handshake \<Rightarrow> handshake \<Rightarrow> bool" for queue ifindex s0 where
  start: "hs_reachable queue ifindex s0 s0"
| step: "hs_reachable queue ifindex s0 s \<Longrightarrow> hs_step queue ifindex s s' \<Longrightarrow> hs_reachable queue ifindex s0 s'"

text \<open>The state once the loader has attached and published the runtime record, with no receiver yet.\<close>

definition hs_initial :: "ace_runtime_config \<Rightarrow> handshake" where
  "hs_initial runtime =
     \<lparr>hk_runtime = runtime, hk_owners = Map.empty, hk_xskmap = Map.empty,
      hk_attached = rc_xdp_program_id runtime, hk_rx = (\<lambda>_. Starting), hk_shutdown = Measuring\<rparr>"

definition stopping_flag :: "ace_runtime_config \<Rightarrow> bool" where
  "stopping_flag runtime \<longleftrightarrow> rc_flags runtime AND ACE_RUNTIME_F_STOPPING \<noteq> 0"

definition rx_inv :: "(ace_xsk_owner \<Rightarrow> u32) \<Rightarrow> handshake \<Rightarrow> ace_xsk_owner \<Rightarrow> bool" where
  "rx_inv queue s r \<longleftrightarrow>
     (case hk_rx s r of
        Starting \<Rightarrow> True
      | Validated rt \<Rightarrow> \<not> stopping_flag rt
      | Claimed rt \<Rightarrow> \<not> stopping_flag rt \<and> hk_owners s (queue r) = Some r
      | Socket_Closed \<Rightarrow> hk_owners s (queue r) = Some r
      | Gone \<Rightarrow> True
      | _ \<Rightarrow> hk_owners s (queue r) = Some r \<and> hk_shutdown s \<notin> {Clear, Detached})"

definition hs_inv :: "(ace_xsk_owner \<Rightarrow> u32) \<Rightarrow> u32 \<Rightarrow> handshake \<Rightarrow> bool" where
  "hs_inv queue prog s \<longleftrightarrow>
     (\<forall>r. rx_inv queue s r) \<and>
     (\<forall>q r. hk_xskmap s q = Some r \<longrightarrow> hk_rx s r = Registered \<and> queue r = q) \<and>
     (hk_shutdown s \<noteq> Measuring \<longrightarrow> stopping_flag (hk_runtime s)) \<and>
     rc_xdp_program_id (hk_runtime s) = prog \<and>
     (hk_shutdown s \<noteq> Detached \<longrightarrow> hk_attached s = prog)"

lemma validated_not_stopping:
  assumes "receiver_runtime_check ifindex rt = Inr ()"
  shows "\<not> stopping_flag rt"
proof -
  have a: "rc_flags rt AND (ACE_RUNTIME_F_HWTSTAMP_APPLYING OR ACE_RUNTIME_F_STOPPING) = 0"
    using assms unfolding receiver_runtime_check_def Let_def by (metis sum.distinct(1))
  have "rc_flags rt AND ACE_RUNTIME_F_STOPPING =
      (rc_flags rt AND (ACE_RUNTIME_F_HWTSTAMP_APPLYING OR ACE_RUNTIME_F_STOPPING)) AND ACE_RUNTIME_F_STOPPING"
    by (simp add: and.assoc)
  then show ?thesis by (simp only: a stopping_flag_def) simp
qed

lemma stopping_flag_set [simp]: "stopping_flag (rt\<lparr>rc_flags := f OR ACE_RUNTIME_F_STOPPING\<rparr>)"
proof -
  have "(f OR ACE_RUNTIME_F_STOPPING) AND ACE_RUNTIME_F_STOPPING = ACE_RUNTIME_F_STOPPING"
    by (rule bit_word_eqI) (auto simp: bit_simps)
  then show ?thesis by (simp add: stopping_flag_def)
qed

lemma claim_succeeds:
  "claim_xsk_queue update_noexist m q r = (Inr (), m') \<longleftrightarrow> m q = None \<and> m' = m(q \<mapsto> r)"
  by (auto simp: claim_xsk_queue_def update_noexist_def)

lemma claim_refused: "claim_xsk_queue update_noexist m q r = (Inl e, m') \<Longrightarrow> m' = m"
  by (auto simp: claim_xsk_queue_def update_noexist_def split: if_splits)

lemma register_succeeds:
  "register_socket update_noexist m q r = (Inr (), m') \<longleftrightarrow> m q = None \<and> m' = m(q \<mapsto> r)"
  by (auto simp: register_socket_def update_noexist_def)

lemma release_effect:
  assumes "m q = Some r"
  shows "release_xsk_queue (case m q of None \<Rightarrow> Inl ENOENT | Some v \<Rightarrow> Inr v) (Inr ()) m q r = (res, m') \<longleftrightarrow>
     res = Inr () \<and> m' = m(q := None)"
  using assms by (auto simp: release_xsk_queue_def xsk_owner_equal_def)

lemma hs_inv_initial: "hs_inv queue (rc_xdp_program_id rt) (hs_initial rt)"
  by (simp add: hs_inv_def hs_initial_def rx_inv_def)

lemma rx_inv_step:
  assumes "hs_step queue ifindex s s'" "rx_inv queue s r'"
    and sd: "hk_shutdown s \<noteq> Measuring \<longrightarrow> stopping_flag (hk_runtime s)"
    and closed: "\<And>r. hk_rx s r = Socket_Closed \<Longrightarrow> hk_owners s (queue r) = Some r"
  shows "rx_inv queue s' r'"
  using assms(1)
proof cases
  case (validate r)
  then show ?thesis using assms(2) validated_not_stopping [OF validate(3)]
    by (cases "r' = r") (auto simp: rx_inv_def split: rx_pc.splits)
next
  case (claim_fails r rt e owners')
  then show ?thesis using assms(2) claim_refused [OF claim_fails(3)]
    by (cases "r' = r") (auto simp: rx_inv_def split: rx_pc.splits)
next
  case (release r res owners')
  moreover have "hk_owners s (queue r) = Some r" by (rule closed [OF release(2)])
  moreover have "owners' = (hk_owners s)(queue r := None)"
    using release(3) release_effect [of "hk_owners s", OF calculation(4)] by simp
  ultimately show ?thesis using assms(2)
    by (cases "r' = r") (auto simp: rx_inv_def split: rx_pc.splits)
qed (use assms(2) sd in \<open>auto simp: rx_inv_def claim_succeeds split: rx_pc.splits if_splits\<close>)

lemma xskmap_step:
  assumes "hs_step queue ifindex s s'" "\<And>q r. hk_xskmap s q = Some r \<Longrightarrow> hk_rx s r = Registered \<and> queue r = q"
    "hk_xskmap s' q = Some r"
  shows "hk_rx s' r = Registered \<and> queue r = q"
  using assms(1)
proof cases
  case (register r' xskmap')
  then show ?thesis using assms(3) assms(2) [of q r] by (auto simp: register_succeeds split: if_splits)
qed (use assms(3) assms(2) [of q r] in \<open>auto split: if_splits\<close>)

lemma shutdown_step:
  assumes "hs_step queue ifindex s s'"
  shows "rc_xdp_program_id (hk_runtime s') = rc_xdp_program_id (hk_runtime s)"
    and "(hk_shutdown s \<noteq> Measuring \<longrightarrow> stopping_flag (hk_runtime s)) \<Longrightarrow>
           hk_shutdown s' \<noteq> Measuring \<longrightarrow> stopping_flag (hk_runtime s')"
    and "(hk_shutdown s \<noteq> Detached \<longrightarrow> hk_attached s = prog) \<Longrightarrow>
           hk_shutdown s' \<noteq> Detached \<longrightarrow> hk_attached s' = prog"
proof -
  show "rc_xdp_program_id (hk_runtime s') = rc_xdp_program_id (hk_runtime s)"
    using assms by cases simp_all
  show "(hk_shutdown s \<noteq> Measuring \<longrightarrow> stopping_flag (hk_runtime s)) \<Longrightarrow>
      hk_shutdown s' \<noteq> Measuring \<longrightarrow> stopping_flag (hk_runtime s')"
    using assms by cases simp_all
  show "(hk_shutdown s \<noteq> Detached \<longrightarrow> hk_attached s = prog) \<Longrightarrow>
      hk_shutdown s' \<noteq> Detached \<longrightarrow> hk_attached s' = prog"
    using assms by cases auto
qed

lemma hs_inv_step:
  assumes "hs_step queue ifindex s s'" "hs_inv queue prog s"
  shows "hs_inv queue prog s'"
proof -
  have closed: "hk_rx s r = Socket_Closed \<Longrightarrow> hk_owners s (queue r) = Some r" for r
    using assms(2) by (auto simp: hs_inv_def rx_inv_def split: rx_pc.splits)
  have "rx_inv queue s' r" for r
    using assms(2) by (intro rx_inv_step [OF assms(1)] closed) (simp_all add: hs_inv_def)
  moreover have "hk_xskmap s' q = Some r \<Longrightarrow> hk_rx s' r = Registered \<and> queue r = q" for q r
    using assms(2) by (intro xskmap_step [OF assms(1)]) (simp_all add: hs_inv_def)
  ultimately show ?thesis
    using assms(2) shutdown_step [OF assms(1)] by (simp add: hs_inv_def)
qed


lemma hs_inv_reachable:
  "hs_reachable queue ifindex (hs_initial rt) s \<Longrightarrow> hs_inv queue (rc_xdp_program_id rt) s"
  by (induction rule: hs_reachable.induct) (auto intro: hs_inv_initial hs_inv_step)

text \<open>
  Property C1.  In every interleaving of any number of receivers with the shutdown (receivers killed
  at any point, the shutdown repeated by recovery), a socket that is registered in the XSKMAP holds
  the claim of its queue and the loader's program is still attached: XDP is never detached under a
  registered receiver, and no receiver registers once the claims were found empty.
\<close>

theorem registered_socket_keeps_xdp:
  assumes "hs_reachable queue ifindex (hs_initial rt) s" "hk_xskmap s q = Some r"
  shows "hk_attached s = rc_xdp_program_id rt \<and> hk_owners s q = Some r \<and> hk_shutdown s \<notin> {Clear, Detached}"
proof -
  have inv: "hs_inv queue (rc_xdp_program_id rt) s" by (rule hs_inv_reachable [OF assms(1)])
  have "hk_rx s r = Registered" "queue r = q" using inv assms(2) by (auto simp: hs_inv_def)
  moreover have "rx_inv queue s r" using inv by (simp add: hs_inv_def)
  ultimately show ?thesis using inv by (auto simp: rx_inv_def hs_inv_def)
qed

definition sample_rt :: ace_runtime_config where
  "sample_rt = \<lparr>rc_abi_version = 5, rc_ifindex = 7, rc_record_capacity = 4, rc_xdp_program_id = 42,
     rc_owner_start_ticks = 9, rc_owner_pid = 100, rc_flags = 5, rc_saved_hwtstamp_flags = 0,
     rc_saved_hwtstamp_tx_type = 0, rc_saved_hwtstamp_rx_filter = 0, rc_effective_hwtstamp_flags = 0,
     rc_effective_hwtstamp_tx_type = 0, rc_effective_hwtstamp_rx_filter = 1\<rparr>"

definition sample_owner :: ace_xsk_owner where
  "sample_owner = \<lparr>xo_process_start_ticks = 11, xo_pid = 200, xo_reserved = 0\<rparr>"

lemma sample_rt_accepted: "receiver_runtime_check 7 sample_rt = Inr ()"
  by (simp add: receiver_runtime_check_def sample_rt_def)

text \<open>One receiver registers on queue 3; then the loader publishes STOPPING and its scan refuses.\<close>

definition sample_state ::
  "ace_runtime_config \<Rightarrow> owner_map \<Rightarrow> owner_map \<Rightarrow> rx_pc \<Rightarrow> shutdown_pc \<Rightarrow> handshake" where
  "sample_state rt owners xskmap pc shutdown =
     \<lparr>hk_runtime = rt, hk_owners = owners, hk_xskmap = xskmap, hk_attached = 42,
      hk_rx = (\<lambda>_. Starting)(sample_owner := pc), hk_shutdown = shutdown\<rparr>"

lemma hs_sample_step:
  "hs_reachable queue ifindex s0 s \<Longrightarrow> hs_step queue ifindex s t \<Longrightarrow> t = s' \<Longrightarrow> hs_reachable queue ifindex s0 s'"
  by (blast intro: hs_reachable.step)

lemma sample_registered:
  "\<exists>rt. hs_reachable (\<lambda>_. 3) 7 (hs_initial sample_rt)
     (sample_state rt [3 \<mapsto> sample_owner] [3 \<mapsto> sample_owner] Registered Refused)"
proof -
  let ?reach = "hs_reachable (\<lambda>_. 3) 7 (hs_initial sample_rt)"
  let ?own = "[3 \<mapsto> sample_owner]"
  let ?rt = "sample_rt\<lparr>rc_flags := rc_flags sample_rt OR ACE_RUNTIME_F_STOPPING\<rparr>"
  have "sample_state sample_rt Map.empty Map.empty Starting Measuring = hs_initial sample_rt"
    by (simp add: sample_state_def hs_initial_def sample_rt_def fun_upd_idem)
  then have "?reach (sample_state sample_rt Map.empty Map.empty Starting Measuring)"
    by (simp add: hs_reachable.start)
  then have "?reach (sample_state sample_rt Map.empty Map.empty (Validated sample_rt) Measuring)"
    by (rule hs_sample_step [OF _ hs_step.validate [where r = sample_owner]])
       (simp_all add: sample_state_def sample_rt_accepted)
  then have "?reach (sample_state sample_rt ?own Map.empty (Claimed sample_rt) Measuring)"
    by (rule hs_sample_step [OF _ hs_step.claim [where r = sample_owner and rt = sample_rt and owners' = ?own]])
       (simp_all add: sample_state_def claim_succeeds)
  then have "?reach (sample_state sample_rt ?own Map.empty (Reread sample_rt) Measuring)"
    by (rule hs_sample_step [OF _ hs_step.reread [where r = sample_owner and rt = sample_rt]])
       (simp_all add: sample_state_def)
  then have "?reach (sample_state sample_rt ?own Map.empty Rechecked Measuring)"
    by (rule hs_sample_step [OF _ hs_step.recheck [where r = sample_owner and rt = sample_rt]])
       (simp_all add: sample_state_def sample_rt_def)
  then have "?reach (sample_state sample_rt ?own ?own Registered Measuring)"
    by (rule hs_sample_step [OF _ hs_step.register [where r = sample_owner and xskmap' = ?own]])
       (simp_all add: sample_state_def register_succeeds)
  then have "?reach (sample_state ?rt ?own ?own Registered Scanning)"
    by (rule hs_sample_step [OF _ hs_step.stopping]) (simp_all add: sample_state_def)
  then have "?reach (sample_state ?rt ?own ?own Registered Refused)"
    by (rule hs_sample_step [OF _ hs_step.scan_refuses]) (simp_all add: sample_state_def)
  then show ?thesis by (rule exI)
qed

theorem registered_socket_keeps_xdp_witness:
  "\<exists>s. hs_reachable (\<lambda>_. 3) 7 (hs_initial sample_rt) s \<and> hk_xskmap s 3 = Some sample_owner \<and>
     hk_shutdown s = Refused \<and> hk_attached s = 42 \<and> hk_owners s 3 = Some sample_owner"
proof -
  obtain s where s: "hs_reachable (\<lambda>_. 3) 7 (hs_initial sample_rt) s" "hk_xskmap s 3 = Some sample_owner"
    "hk_shutdown s = Refused"
    using sample_registered by (auto simp: sample_state_def)
  show ?thesis using registered_socket_keeps_xdp [OF s(1,2)] s by (auto simp: sample_rt_def)
qed

text \<open>
  On a quiet claim map the scan terminates within one round per claim plus one; it
  removes only claims of dead processes, and its verdict is right: an error names a claim that is
  malformed or whose process cannot be examined, \<open>True\<close> a claim of a live process, \<open>False\<close> an empty map.
\<close>

theorem xsk_owner_scan_verdict:
  assumes "first_key_law first_key" "finite (dom m)" "card (dom m) < fuel"
  shows "\<exists>res. xsk_owners_have_live_claim fuel (quiet_calls first_key read_stat) m = Some res \<and>
    scan_verdict read_stat m res"
  by (rule quiet_scan [OF assms])

lemma first_key_law_some:
  "first_key_law (\<lambda>m. if m = Map.empty then None else if m 3 \<noteq> None then Some 3 else Some (SOME k. k \<in> dom m))"
proof -
  have "k \<in> dom m \<Longrightarrow> (SOME k. k \<in> dom m) \<in> dom m" for k and m :: owner_map by (rule someI)
  then show ?thesis by (fastforce simp: first_key_law_def)
qed

theorem xsk_owner_scan_verdict_witness:
  "\<exists>first_key res. first_key_law first_key \<and>
     xsk_owners_have_live_claim 2 (quiet_calls first_key (\<lambda>_. Inl ENOENT)) [3 \<mapsto> sample_owner] = Some res \<and>
     scan_verdict (\<lambda>_. Inl ENOENT) [3 \<mapsto> sample_owner] res"
  using xsk_owner_scan_verdict [OF first_key_law_some, of "[3 \<mapsto> sample_owner]" 2 "\<lambda>_. Inl ENOENT"] first_key_law_some
  by auto

text \<open>
  Whatever other processes do between the kernel calls of the scan, the verdict "no live
  claim" is given only at a moment at which the kernel found the claim map empty, which is the
  moment the interleaving model above takes as \<open>scan_clear\<close>.
\<close>

theorem xsk_owner_scan_linearises:
  assumes "xsk_owners_have_live_claim fuel calls w = Some (Inr False, w')"
  shows "\<exists>v. get_next_key calls v = (Inl ENOENT, w')"
  by (rule scan_clear_only_when_empty [OF assms])

theorem xsk_owner_scan_linearises_witness:
  "\<exists>v. get_next_key (quiet_calls (\<lambda>_. None) (\<lambda>_. Inl ENOENT)) v = (Inl ENOENT, Map.empty)"
  by (rule xsk_owner_scan_linearises [of 1 _ Map.empty]) (simp add: quiet_calls_def)

text \<open>
  The receiver accepts the attached program exactly when the driver-mode program is
  the one the runtime record names, it is an XDP program, and both pinned maps are among its maps;
  and the check reads no entry outside the id array.
\<close>

theorem validate_attached_program_accepts:
  assumes "\<And>count map_ids. pa_map_ids k = Inr (count, map_ids) \<Longrightarrow> unat count \<le> length map_ids"
  shows "\<exists>r. validate_attached_program k xsk_id stats_id expected = Some r \<and>
    (r = Inr () \<longleftrightarrow>
      (\<exists>prog_id drv_id nr count map_ids.
         pa_query k = Inr (prog_id, drv_id) \<and> expected = (if prog_id \<noteq> 0 then prog_id else drv_id) \<and> expected \<noteq> 0 \<and>
         pa_open k = Inr () \<and> pa_info k = Inr (BPF_PROG_TYPE_XDP, nr) \<and> nr \<noteq> 0 \<and> pa_alloc k \<and>
         pa_map_ids k = Inr (count, map_ids) \<and> {xsk_id, stats_id} \<subseteq> set (take (unat count) map_ids)))"
  using assms
  by (auto simp: validate_attached_program_def Let_def program_uses_map_eq split: sum.splits option.splits bool.splits)

definition sample_answers :: program_answers where
  "sample_answers = \<lparr>pa_query = Inr (0, 42), pa_open = Inr (), pa_info = Inr (6, 3), pa_alloc = True,
     pa_map_ids = Inr (3, [5, 6, 7])\<rparr>"

theorem validate_attached_program_accepts_witness:
  "validate_attached_program sample_answers 5 7 42 = Some (Inr ())"
proof -
  have a: "\<And>count map_ids. pa_map_ids sample_answers = Inr (count, map_ids) \<Longrightarrow> unat count \<le> length map_ids"
    by (auto simp: sample_answers_def)
  show ?thesis
    using validate_attached_program_accepts [where k = sample_answers and xsk_id = 5 and stats_id = 7 and expected = 42, OF a]
    by (auto simp: sample_answers_def)
qed

end
