(* ===== verification/Loader_Lifecycle.thy ===== *)
theory Loader_Lifecycle
  imports Csv_Export Hwtstamp Xsk_Handshake
begin

text \<open>
  The life of a measurement in \<^verbatim>\<open>BPF/xdp_loader.c\<close>: the pin directory, the checks of the maps, the
  shutdown path of \<^verbatim>\<open>main\<close> (publish STOPPING, scan the claims, detach, drain, export, restore the
  device, unpin) and \<^verbatim>\<open>--recover\<close>.  The world the loader acts on is one record; the results of the
  kernel calls are parameters.  The operations of the other components are composed as the code
  composes them: the claim scan and the detach (\<open>Xsk_Handshake\<close>), the drain (\<open>Drain\<close>), the export
  (\<open>Csv_Export\<close>) and the timestamp restoration (\<open>Hwtstamp\<close>).
\<close>

unbundle bit_operations_syntax

section \<open>Pins\<close>

definition pin_dir :: string where "pin_dir = ''/sys/fs/bpf/ace_xdp''"

definition pin_paths :: "string list" where
  "pin_paths = map (\<lambda>name. pin_dir @ ''/'' @ name)
     [''cpu_map'', ''xsk_map'', ''xsk_owners'', ''stats'', ''ingress_records'', ''cpumap_records'', ''runtime_config'']"

text \<open>
  \<^verbatim>\<open>pin_measurement_maps\<close>.  \<open>pin_fault\<close> and \<open>unpin_fault\<close> give the error of \<^verbatim>\<open>bpf_map__pin\<close> and
  \<^verbatim>\<open>bpf_map__unpin\<close> on a path; the pins are the paths present.
\<close>

primrec unpin_back :: "(string \<Rightarrow> errno option) \<Rightarrow> string list \<Rightarrow> string set \<Rightarrow> string set" where
  "unpin_back unpin_fault [] pins = pins"
| "unpin_back unpin_fault (path # created) pins =
     unpin_back unpin_fault created (if unpin_fault path = None then pins - {path} else pins)"

fun pin_maps :: "(string \<Rightarrow> errno option) \<Rightarrow> (string \<Rightarrow> errno option) \<Rightarrow> string list \<Rightarrow> string list \<Rightarrow> string set \<Rightarrow>
    (errno + unit) \<times> string set" where
  "pin_maps pin_fault unpin_fault created [] pins = (Inr (), pins)"
| "pin_maps pin_fault unpin_fault created (path # paths) pins =
     (case pin_fault path of
        None \<Rightarrow> pin_maps pin_fault unpin_fault (path # created) paths (insert path pins)
      | Some e \<Rightarrow> (Inl e, unpin_back unpin_fault created pins))"

fun unpin_maps :: "(string \<Rightarrow> errno option) \<Rightarrow> string list \<Rightarrow> errno + unit \<Rightarrow> string set \<Rightarrow> (errno + unit) \<times> string set" where
  "unpin_maps unpin_fault [] result pins = (result, pins)"
| "unpin_maps unpin_fault (path # paths) result pins =
     (case unpin_fault path of
        None \<Rightarrow> unpin_maps unpin_fault paths result (pins - {path})
      | Some e \<Rightarrow> unpin_maps unpin_fault paths (if result = Inr () then Inl e else result) pins)"

definition pin_measurement_maps ::
  "(string \<Rightarrow> errno option) \<Rightarrow> (string \<Rightarrow> errno option) \<Rightarrow> bool \<Rightarrow> string set \<Rightarrow> (errno + unit) \<times> string set" where
  "pin_measurement_maps pin_fault unpin_fault pin pins =
     (if pin then pin_maps pin_fault unpin_fault [] pin_paths pins
      else unpin_maps unpin_fault pin_paths (Inr ()) pins)"

text \<open>
  \<^verbatim>\<open>ensure_empty_pin_dir\<close>: \<open>mk\<close> is the error of \<^verbatim>\<open>mkdir\<close>, \<open>st\<close> the answer of \<^verbatim>\<open>stat\<close>, \<open>entries\<close> what
  \<^verbatim>\<open>opendir\<close> and \<^verbatim>\<open>readdir\<close> deliver.
\<close>

definition ensure_empty_pin_dir :: "errno option \<Rightarrow> errno + bool \<Rightarrow> errno + string list \<Rightarrow> errno + unit" where
  "ensure_empty_pin_dir mk st entries =
     (if mk \<noteq> None \<and> mk \<noteq> Some EEXIST then Inl (the mk)
      else (case st of
          Inl e \<Rightarrow> Inl e
        | Inr is_dir \<Rightarrow>
            if \<not> is_dir then Inl ENOTDIR
            else (case entries of
                Inl e \<Rightarrow> Inl e
              | Inr names \<Rightarrow> if list_all (\<lambda>n. n = ''.'' \<or> n = ''..'') names then Inr () else Inl EEXIST)))"

text \<open>\<^verbatim>\<open>cleanup_recovery_pins\<close>; \<open>unlink_fault\<close> and \<open>rm\<close> are the errors of \<^verbatim>\<open>unlink\<close> and \<^verbatim>\<open>rmdir\<close>.\<close>

fun unlink_pins :: "(string \<Rightarrow> errno option) \<Rightarrow> string list \<Rightarrow> string set \<Rightarrow> (errno + unit) \<times> string set" where
  "unlink_pins unlink_fault [] pins = (Inr (), pins)"
| "unlink_pins unlink_fault (path # paths) pins =
     (case unlink_fault path of
        None \<Rightarrow> unlink_pins unlink_fault paths (pins - {path})
      | Some e \<Rightarrow> if e \<noteq> ENOENT then (Inl e, pins) else unlink_pins unlink_fault paths pins)"

definition cleanup_recovery_pins ::
  "(string \<Rightarrow> errno option) \<Rightarrow> errno option \<Rightarrow> string set \<Rightarrow> (errno + unit) \<times> string set" where
  "cleanup_recovery_pins unlink_fault rm pins =
     (case unlink_pins unlink_fault pin_paths pins of
        (Inl e, pins) \<Rightarrow> (Inl e, pins)
      | (Inr _, pins) \<Rightarrow>
          (case rm of None \<Rightarrow> (Inr (), pins) | Some e \<Rightarrow> (if e \<noteq> ENOENT then Inl e else Inr (), pins)))"

section \<open>The maps\<close>

definition validate_map :: "errno + bpf_map_info \<Rightarrow> string \<Rightarrow> u32 \<Rightarrow> u32 \<Rightarrow> u32 \<Rightarrow> u32 \<Rightarrow> errno + unit" where
  "validate_map info name map_type key_size value_size max_entries =
     (case info of
        Inl e \<Rightarrow> Inl e
      | Inr i \<Rightarrow>
          if mi_name i \<noteq> name \<or> mi_type i \<noteq> map_type \<or> mi_key_size i \<noteq> key_size \<or>
             mi_value_size i \<noteq> value_size \<or> mi_max_entries i \<noteq> max_entries
          then Inl EINVAL else Inr ())"

abbreviation BPF_MAP_TYPE_HASH :: u32 where "BPF_MAP_TYPE_HASH \<equiv> 1"
abbreviation BPF_MAP_TYPE_ARRAY :: u32 where "BPF_MAP_TYPE_ARRAY \<equiv> 2"
abbreviation BPF_MAP_TYPE_PERCPU_ARRAY :: u32 where "BPF_MAP_TYPE_PERCPU_ARRAY \<equiv> 6"
abbreviation BPF_MAP_TYPE_CPUMAP :: u32 where "BPF_MAP_TYPE_CPUMAP \<equiv> 16"
abbreviation BPF_MAP_TYPE_XSKMAP :: u32 where "BPF_MAP_TYPE_XSKMAP \<equiv> 17"

text \<open>
  The schema of a map: name, type, key size, value size, entries.  The sizes are those of the
  structures of \<^verbatim>\<open>metadata.h\<close>; \<^verbatim>\<open>struct bpf_cpumap_val\<close> has 8 bytes.
\<close>

type_synonym map_schema = "string \<times> u32 \<times> u32 \<times> u32 \<times> u32"

definition map_schemas :: "u32 \<Rightarrow> map_schema list" where
  "map_schemas record_capacity =
    [(''cpu_map'', BPF_MAP_TYPE_CPUMAP, 4, 8, 4),
     (''xsk_map'', BPF_MAP_TYPE_XSKMAP, 4, 4, 64),
     (''xsk_owners'', BPF_MAP_TYPE_HASH, 4, 16, 64),
     (''stats'', BPF_MAP_TYPE_PERCPU_ARRAY, 4, 8, 21),
     (''ingress_records'', BPF_MAP_TYPE_HASH, 16, 40, record_capacity),
     (''cpumap_records'', BPF_MAP_TYPE_HASH, 16, 32, record_capacity),
     (''runtime_config'', BPF_MAP_TYPE_ARRAY, 4, 56, 1)]"

fun validate_schemas :: "(string \<Rightarrow> errno + bpf_map_info) \<Rightarrow> map_schema list \<Rightarrow> errno + unit" where
  "validate_schemas info [] = Inr ()"
| "validate_schemas info ((name, map_type, key_size, value_size, max_entries) # rest) =
     (case validate_map (info name) name map_type key_size value_size max_entries of
        Inl e \<Rightarrow> Inl e
      | Inr _ \<Rightarrow> validate_schemas info rest)"

definition validate_maps :: "(string \<Rightarrow> errno + bpf_map_info) \<Rightarrow> u32 \<Rightarrow> errno + unit" where
  "validate_maps info record_capacity = validate_schemas info (map_schemas record_capacity)"

text \<open>\<^verbatim>\<open>configure_maps\<close>: only the mixed mode creates a CPUMAP entry; then the runtime record is published.\<close>

abbreviation ACE_XDP_CPU_MAP_QUEUE_SIZE :: u32 where "ACE_XDP_CPU_MAP_QUEUE_SIZE \<equiv> 256"

type_synonym cpu_map = "u32 \<rightharpoonup> u32 \<times> int"

definition configure_maps ::
  "int \<Rightarrow> errno option \<Rightarrow> errno option \<Rightarrow> ace_runtime_config \<Rightarrow> cpu_map \<times> ace_runtime_config \<Rightarrow>
     (errno + unit) \<times> cpu_map \<times> ace_runtime_config" where
  "configure_maps remote_fd cpu_fault runtime_fault runtime maps =
   (case maps of (cpus, published) \<Rightarrow>
    let publish = (\<lambda>cpus. case runtime_fault of Some e \<Rightarrow> (Inl e, cpus, published) | None \<Rightarrow> (Inr (), cpus, runtime)) in
    if rc_flags runtime AND (ACE_RUNTIME_F_ALL_PASS OR ACE_RUNTIME_F_PASS_XSK) = 0
    then (if remote_fd < 0 then (Inl EINVAL, cpus, published)
          else (case cpu_fault of
              Some e \<Rightarrow> (Inl e, cpus, published)
            | None \<Rightarrow> publish (cpus(ACE_XDP_RT_CPU \<mapsto> (ACE_XDP_CPU_MAP_QUEUE_SIZE, remote_fd)))))
    else publish cpus)"

section \<open>Shutdown\<close>

text \<open>
  The world: what is in the runtime map and the claim map, the driver-mode program of the interface,
  the timestamp configuration of the device, the pins and the files.
\<close>

record 'd loader_world =
  lw_runtime :: ace_runtime_config
  lw_owners :: owner_map
  lw_driver_id :: u32
  lw_device :: 'd
  lw_pins :: "string set"
  lw_files :: files

text \<open>The variables of \<^verbatim>\<open>main\<close> that the label \<^verbatim>\<open>out\<close> uses.\<close>

record loader_vars =
  lv_result :: nat
  lv_attached :: bool
  lv_maps_pinned :: bool
  lv_measurement_complete :: bool
  lv_preserve_pins :: bool
  lv_hwtstamp_fd :: bool
  lv_hwtstamp :: ace_hwtstamp_state
  lv_runtime :: ace_runtime_config
  lv_owned_id :: u32

text \<open>The results of the calls, in the order of the source.\<close>

record shutdown_io =
  sd_publish_stopping :: "errno option"
  sd_owner_calls :: "owner_map owner_calls"
  sd_query :: "errno option"
  sd_detach :: "errno option"
  sd_ncpu :: int
  sd_allocated :: bool
  sd_look :: "nat \<Rightarrow> ace_xdp_stat_id \<Rightarrow> errno + u64 list"
  sd_export :: export_io
  sd_publish_restored :: "errno option"
  sd_unpin :: "string \<Rightarrow> errno option"

definition failed :: "loader_vars \<Rightarrow> loader_vars" where
  "failed v = v\<lparr>lv_result := 1, lv_preserve_pins := lv_maps_pinned v\<rparr>"

text \<open>\<open>result_of fault ok\<close> is a call that fails with \<open>fault\<close> or else answers \<open>ok\<close>.\<close>

definition result_of :: "errno option \<Rightarrow> 'a \<Rightarrow> errno + 'a" where
  "result_of fault ok = (case fault of None \<Rightarrow> Inr ok | Some e \<Rightarrow> Inl e)"

definition shutdown_detach ::
  "nat \<Rightarrow> shutdown_io \<Rightarrow> loader_vars \<Rightarrow> 'd loader_world \<Rightarrow> (loader_vars \<times> 'd loader_world) option" where
  "shutdown_detach fuel io v w =
   (if \<not> lv_attached v then Some (v, w)
    else
     (let runtime = (lv_runtime v)\<lparr>rc_flags := rc_flags (lv_runtime v) OR ACE_RUNTIME_F_STOPPING\<rparr>;
          v = v\<lparr>lv_runtime := runtime\<rparr> in
      case sd_publish_stopping io of
        Some e \<Rightarrow> Some (failed v, w)
      | None \<Rightarrow>
          (let w = w\<lparr>lw_runtime := runtime\<rparr> in
           case xsk_owners_have_live_claim fuel (sd_owner_calls io) (lw_owners w) of
             None \<Rightarrow> None
           | Some (scan, owners) \<Rightarrow>
               (let w = w\<lparr>lw_owners := owners\<rparr> in
                case scan of
                  Inl e \<Rightarrow> Some (failed v, w)
                | Inr xsk_active \<Rightarrow>
                    if xsk_active then Some (failed v, w)
                    else (case detach_if_owned (result_of (sd_query io) (lw_driver_id w)) (result_of (sd_detach io) ())
                                 (lv_owned_id v) (lw_driver_id w) of
                        (Inl e, driver_id) \<Rightarrow> Some (failed v, w\<lparr>lw_driver_id := driver_id\<rparr>)
                      | (Inr _, driver_id) \<Rightarrow>
                          Some (v\<lparr>lv_attached := False\<rparr>, w\<lparr>lw_driver_id := driver_id\<rparr>))))))"

definition shutdown_export ::
  "nat \<Rightarrow> shutdown_io \<Rightarrow> loader_options \<Rightarrow> loader_vars \<Rightarrow> 'd loader_world \<Rightarrow> (loader_vars \<times> 'd loader_world) option" where
  "shutdown_export fuel io options v w =
   (if lv_measurement_complete v \<and> \<not> lv_attached v
    then (case wait_for_cpumap_records (sd_ncpu io) (sd_allocated io) (sd_look io) of
        Inl e \<Rightarrow> Some (failed v, w)
      | Inr report \<Rightarrow>
          (case export_measurement_files fuel (sd_export io) options (lw_files w) of
             None \<Rightarrow> None
           | Some (Inl e, files) \<Rightarrow> Some (failed v, w\<lparr>lw_files := files\<rparr>)
           | Some (Inr _, files) \<Rightarrow> Some (v, w\<lparr>lw_files := files\<rparr>)))
    else Some (v, w))"

definition shutdown_restore ::
  "'d hwtstamp_dev \<Rightarrow> shutdown_io \<Rightarrow> loader_vars \<Rightarrow> 'd loader_world \<Rightarrow> loader_vars \<times> 'd loader_world" where
  "shutdown_restore dev io v w =
   (if lv_hwtstamp_fd v \<and> \<not> lv_attached v
    then (case ace_hwtstamp_restore_allow_saved dev (lw_device w) (lv_hwtstamp v) True of
        (r, state, d) \<Rightarrow>
          (let v = v\<lparr>lv_hwtstamp := state\<rparr>; w = w\<lparr>lw_device := d\<rparr> in
           case r of
             Inl e \<Rightarrow> (failed v, w)
           | Inr skipped \<Rightarrow>
               if skipped then (failed v, w)
               else if lv_preserve_pins v
               then (let runtime = runtime_set_hwtstamp (lv_runtime v) state False; v = v\<lparr>lv_runtime := runtime\<rparr> in
                     case sd_publish_restored io of
                       Some e \<Rightarrow> (v\<lparr>lv_result := 1\<rparr>, w)
                     | None \<Rightarrow> (v, w\<lparr>lw_runtime := runtime\<rparr>))
               else (v, w)))
    else (v, w))"

definition shutdown_unpin :: "shutdown_io \<Rightarrow> loader_vars \<Rightarrow> 'd loader_world \<Rightarrow> loader_vars \<times> 'd loader_world" where
  "shutdown_unpin io v w =
   (if lv_maps_pinned v \<and> \<not> lv_preserve_pins v
    then (case pin_measurement_maps (\<lambda>_. None) (sd_unpin io) False (lw_pins w) of
        (Inl e, pins) \<Rightarrow> (v\<lparr>lv_result := 1, lv_preserve_pins := True\<rparr>, w\<lparr>lw_pins := pins\<rparr>)
      | (Inr _, pins) \<Rightarrow> (v, w\<lparr>lw_pins := pins\<rparr>))
    else (v, w))"

text \<open>
  The whole of label \<^verbatim>\<open>out\<close>.  A failing \<^verbatim>\<open>rmdir\<close> of the pin directory is only reported, and closing
  descriptors changes nothing of the world.
\<close>

definition loader_shutdown ::
  "nat \<Rightarrow> 'd hwtstamp_dev \<Rightarrow> shutdown_io \<Rightarrow> loader_options \<Rightarrow> loader_vars \<Rightarrow> 'd loader_world \<Rightarrow>
     (loader_vars \<times> 'd loader_world) option" where
  "loader_shutdown fuel dev io options v w =
   (case shutdown_detach fuel io v w of
      None \<Rightarrow> None
    | Some (v, w) \<Rightarrow>
        (case shutdown_export fuel io options v w of
           None \<Rightarrow> None
         | Some (v, w) \<Rightarrow>
             (case shutdown_restore dev io v w of (v, w) \<Rightarrow> Some (shutdown_unpin io v w))))"

section \<open>Recovery\<close>

text \<open>The acceptance test of the pinned runtime record.\<close>

definition runtime_recoverable :: "u32 \<Rightarrow> ace_runtime_config \<Rightarrow> bool" where
  "runtime_recoverable ifindex runtime \<longleftrightarrow>
     rc_abi_version runtime = ACE_XDP_RUNTIME_ABI_VERSION \<and> rc_ifindex runtime = ifindex \<and>
     rc_record_capacity runtime \<noteq> 0 \<and> unat (rc_record_capacity runtime) \<le> ACE_XDP_RECORD_MAX_ENTRIES \<and>
     rc_xdp_program_id runtime \<noteq> 0 \<and> rc_owner_pid runtime \<noteq> 0 \<and> rc_owner_start_ticks runtime \<noteq> 0 \<and>
     rc_flags runtime AND ACE_RUNTIME_F_HWTSTAMP_CAPTURED \<noteq> 0 \<and>
     rc_flags runtime AND (ACE_RUNTIME_F_HWTSTAMP_APPLYING OR ACE_RUNTIME_F_HWTSTAMP_APPLIED) \<noteq>
       (ACE_RUNTIME_F_HWTSTAMP_APPLYING OR ACE_RUNTIME_F_HWTSTAMP_APPLIED) \<and>
     rc_flags runtime AND NOT (ACE_RUNTIME_F_HWTSTAMP_CAPTURED OR ACE_RUNTIME_F_HWTSTAMP_APPLYING OR
       ACE_RUNTIME_F_HWTSTAMP_APPLIED OR ACE_RUNTIME_F_STOPPING OR ACE_RUNTIME_F_ALL_PASS OR
       ACE_RUNTIME_F_PASS_XSK) = 0 \<and>
     rc_flags runtime AND (ACE_RUNTIME_F_ALL_PASS OR ACE_RUNTIME_F_PASS_XSK) \<noteq>
       (ACE_RUNTIME_F_ALL_PASS OR ACE_RUNTIME_F_PASS_XSK)"

record recover_io =
  rv_ifindex :: u32
  rv_info :: "string \<Rightarrow> errno + bpf_map_info"
  rv_lookup_runtime :: "errno option"
  rv_proc_stat :: "string \<Rightarrow> errno + string"
  rv_open_pin :: "string \<Rightarrow> errno option"
  rv_prog_fd :: "errno option"
  rv_requery :: "errno option"
  rv_socket :: "errno option"
  rv_unlink :: "string \<Rightarrow> errno option"
  rv_rmdir :: "errno option"
  rv_calls :: shutdown_io

definition pin_path :: "string \<Rightarrow> string" where "pin_path name = pin_dir @ ''/'' @ name"

definition open_pin :: "recover_io \<Rightarrow> 'd loader_world \<Rightarrow> string \<Rightarrow> bool" where
  "open_pin io w name \<longleftrightarrow> pin_path name \<in> lw_pins w \<and> rv_open_pin io (pin_path name) = None"

text \<open>The timestamp restoration of recovery: whether it left an error, and the world.\<close>

definition recover_hwtstamp ::
  "'d hwtstamp_dev \<Rightarrow> recover_io \<Rightarrow> string \<Rightarrow> ace_runtime_config \<Rightarrow> 'd loader_world \<Rightarrow> bool \<times> 'd loader_world" where
  "recover_hwtstamp dev io ifname runtime w =
   (case rv_socket io of
      Some e \<Rightarrow> (True, w)
    | None \<Rightarrow>
        (case hwtstamp_state_from_runtime runtime ifname of
           Inl e \<Rightarrow> (True, w)
         | Inr state \<Rightarrow>
             (case ace_hwtstamp_restore_allow_saved dev (lw_device w) state True of
                (Inl e, _, d) \<Rightarrow> (True, w\<lparr>lw_device := d\<rparr>)
              | (Inr True, _, d) \<Rightarrow> (True, w\<lparr>lw_device := d\<rparr>)
              | (Inr False, _, d) \<Rightarrow>
                  (let runtime = runtime\<lparr>rc_effective_hwtstamp_flags := rc_saved_hwtstamp_flags runtime,
                         rc_effective_hwtstamp_tx_type := rc_saved_hwtstamp_tx_type runtime,
                         rc_effective_hwtstamp_rx_filter := rc_saved_hwtstamp_rx_filter runtime,
                         rc_flags := rc_flags runtime AND
                           NOT (ACE_RUNTIME_F_HWTSTAMP_APPLYING OR ACE_RUNTIME_F_HWTSTAMP_APPLIED)\<rparr>;
                       w = w\<lparr>lw_device := d\<rparr> in
                   case sd_publish_restored (rv_calls io) of
                     Some e \<Rightarrow> (True, w)
                   | None \<Rightarrow> (False, w\<lparr>lw_runtime := runtime\<rparr>)))))"

text \<open>From the stopped data path on: drain, export, and the pins.\<close>

definition recover_data ::
  "nat \<Rightarrow> recover_io \<Rightarrow> loader_options \<Rightarrow> bool \<Rightarrow> 'd loader_world \<Rightarrow> (nat \<times> 'd loader_world) option" where
  "recover_data fuel io options state_error w =
   (case wait_for_cpumap_records (sd_ncpu (rv_calls io)) (sd_allocated (rv_calls io)) (sd_look (rv_calls io)) of
      Inl e \<Rightarrow> Some (1, w)
    | Inr report \<Rightarrow>
        (case export_measurement_files fuel (sd_export (rv_calls io)) options (lw_files w) of
           None \<Rightarrow> None
         | Some (Inl e, files) \<Rightarrow> Some (1, w\<lparr>lw_files := files\<rparr>)
         | Some (Inr _, files) \<Rightarrow>
             (let w = w\<lparr>lw_files := files\<rparr> in
              if lo_cleanup_pins options \<and> \<not> state_error
              then (case cleanup_recovery_pins (rv_unlink io) (rv_rmdir io) (lw_pins w) of
                  (Inl e, pins) \<Rightarrow> Some (1, w\<lparr>lw_pins := pins\<rparr>)
                | (Inr _, pins) \<Rightarrow> Some (if state_error then 1 else 0, w\<lparr>lw_pins := pins\<rparr>))
              else Some (if state_error then 1 else 0, w))))"

text \<open>From the closed claim map on: the driver program, then the device and the data.\<close>

definition recover_stopped ::
  "nat \<Rightarrow> 'd hwtstamp_dev \<Rightarrow> recover_io \<Rightarrow> loader_options \<Rightarrow> ace_runtime_config \<Rightarrow> 'd loader_world \<Rightarrow>
     (nat \<times> 'd loader_world) option" where
  "recover_stopped fuel dev io options runtime w =
   (let finish = (\<lambda>w. case recover_hwtstamp dev io (lo_ifname options) runtime w of
          (state_error, w) \<Rightarrow> recover_data fuel io options state_error w) in
    case result_of (sd_query (rv_calls io)) (lw_driver_id w) of
      Inl e \<Rightarrow> Some (1, w)
    | Inr current_id \<Rightarrow>
        if current_id \<noteq> 0 \<and> current_id \<noteq> rc_xdp_program_id runtime then Some (1, w)
        else if current_id = 0 then finish w
        else (case rv_prog_fd io of
            Some e \<Rightarrow> Some (1, w)
          | None \<Rightarrow>
              (case detach_if_owned (result_of (rv_requery io) (lw_driver_id w)) (result_of (sd_detach (rv_calls io)) ())
                      (rc_xdp_program_id runtime) (lw_driver_id w) of
                 (Inl e, driver_id) \<Rightarrow> Some (1, w\<lparr>lw_driver_id := driver_id\<rparr>)
               | (Inr _, driver_id) \<Rightarrow> finish (w\<lparr>lw_driver_id := driver_id\<rparr>))))"

text \<open>
  Everything before the first change: the runtime record is readable and acceptable, and the loader
  that wrote it is dead.
\<close>

definition recovery_admitted :: "recover_io \<Rightarrow> 'd loader_world \<Rightarrow> bool" where
  "recovery_admitted io w \<longleftrightarrow>
     rv_ifindex io \<noteq> 0 \<and> open_pin io w ''runtime_config'' \<and>
     validate_map (rv_info io ''runtime_config'') ''runtime_config'' BPF_MAP_TYPE_ARRAY 4 56 1 = Inr () \<and>
     rv_lookup_runtime io = None \<and> runtime_recoverable (rv_ifindex io) (lw_runtime w) \<and>
     ace_process_identity_is_alive (rv_proc_stat io) (sint (rc_owner_pid (lw_runtime w)))
       (rc_owner_start_ticks (lw_runtime w)) = Inr False"

definition recover_pinned_measurement ::
  "nat \<Rightarrow> 'd hwtstamp_dev \<Rightarrow> recover_io \<Rightarrow> loader_options \<Rightarrow> 'd loader_world \<Rightarrow> (nat \<times> 'd loader_world) option" where
  "recover_pinned_measurement fuel dev io options w =
   (if \<not> recovery_admitted io w then Some (1, w)
    else
     (let runtime = (lw_runtime w)\<lparr>rc_flags := rc_flags (lw_runtime w) OR ACE_RUNTIME_F_STOPPING\<rparr> in
      if sd_publish_stopping (rv_calls io) \<noteq> None then Some (1, w)
      else
       (let w = w\<lparr>lw_runtime := runtime\<rparr> in
        if \<not> list_all (open_pin io w)
              [''cpu_map'', ''xsk_map'', ''xsk_owners'', ''stats'', ''ingress_records'', ''cpumap_records''] \<or>
           validate_schemas (rv_info io) (butlast (map_schemas (rc_record_capacity runtime))) \<noteq> Inr ()
        then Some (1, w)
        else
         (case xsk_owners_have_live_claim fuel (sd_owner_calls (rv_calls io)) (lw_owners w) of
            None \<Rightarrow> None
          | Some (scan, owners) \<Rightarrow>
              (let w = w\<lparr>lw_owners := owners\<rparr> in
               if scan \<noteq> Inr False then Some (1, w)
               else recover_stopped fuel dev io options runtime w)))))"

section \<open>Pins: all or nothing\<close>

lemma unpin_back_left: "pins \<subseteq> set created \<union> Q \<Longrightarrow> unpin_back uf created pins \<subseteq> {p \<in> set created. uf p \<noteq> None} \<union> Q"
proof (induction created arbitrary: pins Q)
  case (Cons path created)
  let ?pins = "if uf path = None then pins - {path} else pins"
  have "?pins \<subseteq> set created \<union> (Q \<union> (if uf path = None then {} else {path}))" using Cons.prems by (auto split: if_splits)
  from Cons.IH [OF this] show ?case by (auto split: if_splits)
qed simp

lemma pin_maps_outcome:
  "pin_maps pf uf created paths pins = (r, pins') \<Longrightarrow> pins = set created \<union> Q \<Longrightarrow>
     (r = Inr () \<longrightarrow> pins' = set created \<union> set paths \<union> Q) \<and>
     (r \<noteq> Inr () \<longrightarrow> pins' \<subseteq> {p \<in> set created \<union> set paths. uf p \<noteq> None} \<union> Q)"
proof (induction paths arbitrary: created pins)
  case (Cons path paths)
  show ?case
  proof (cases "pf path")
    case None
    then show ?thesis using Cons.IH [of "path # created" "insert path pins"] Cons.prems by auto
  next
    case (Some e)
    then show ?thesis using Cons.prems unpin_back_left [of pins created Q uf] by auto
  qed
qed simp

lemma unpin_maps_outcome:
  "unpin_maps uf paths result pins = (r, pins') \<Longrightarrow>
     (r = Inr () \<longrightarrow> pins' = pins - set paths \<and> result = Inr ())"
  by (induction paths arbitrary: result pins) (auto split: option.splits if_splits)

lemma unlink_pins_outcome:
  "unlink_pins uf paths pins = (r, pins') \<Longrightarrow> (\<And>p. uf p = Some ENOENT \<Longrightarrow> p \<notin> pins) \<Longrightarrow>
     r = Inr () \<longrightarrow> pins' = pins - set paths"
proof (induction paths arbitrary: pins)
  case (Cons path paths)
  show ?case
  proof (cases "uf path")
    case None
    have "p \<notin> pins - {path}" if "uf p = Some ENOENT" for p using Cons.prems(2) that by simp
    then show ?thesis using Cons.IH [of "pins - {path}"] Cons.prems(1) None by auto
  next
    case (Some e)
    then show ?thesis using Cons.IH [of pins] Cons.prems by (auto split: if_splits)
  qed
qed simp

text \<open>
  Property C16.  Pinning is all or nothing: on an empty directory it either creates all seven pins, or
  fails and takes back every pin it created (a pin can only stay if removing it failed as well).
\<close>

theorem pinning_all_or_nothing:
  assumes "pin_measurement_maps pin_fault unpin_fault True {} = (r, pins)"
  shows "(r = Inr () \<longrightarrow> pins = set pin_paths) \<and>
    (r \<noteq> Inr () \<longrightarrow> pins \<subseteq> {p \<in> set pin_paths. unpin_fault p \<noteq> None})"
  using pin_maps_outcome [of pin_fault unpin_fault "[]" pin_paths "{}" r pins "{}"] assms
  by (simp add: pin_measurement_maps_def)

theorem pinning_all_or_nothing_witness:
  "snd (pin_measurement_maps (\<lambda>p. if p = pin_path ''stats'' then Some ENOSPC else None) (\<lambda>_. None) True {}) = {}"
proof -
  let ?pf = "\<lambda>p. if p = pin_path ''stats'' then Some ENOSPC else None"
  obtain r pins where p: "pin_measurement_maps ?pf (\<lambda>_. None) True {} = (r, pins)" by fastforce
  moreover have "r \<noteq> Inr ()" using p by (auto simp: pin_measurement_maps_def pin_paths_def pin_path_def)
  ultimately show ?thesis using pinning_all_or_nothing [OF p] by simp
qed

section \<open>Shutdown never loses a measurement\<close>

lemma failed_simps [simp]:
  "lv_result (failed v) = 1" "lv_preserve_pins (failed v) = lv_maps_pinned v" "lv_attached (failed v) = lv_attached v"
  "lv_maps_pinned (failed v) = lv_maps_pinned v" "lv_measurement_complete (failed v) = lv_measurement_complete v"
  "lv_hwtstamp_fd (failed v) = lv_hwtstamp_fd v" "lv_hwtstamp (failed v) = lv_hwtstamp v"
  "lv_runtime (failed v) = lv_runtime v" "lv_owned_id (failed v) = lv_owned_id v"
  by (simp_all add: failed_def)

lemma result_of_Inr [simp]: "result_of fault ok = Inr x \<longleftrightarrow> fault = None \<and> x = ok"
  by (auto simp: result_of_def split: option.splits)

lemma detach_if_owned_outcome:
  assumes "detach_if_owned (result_of query driver_id) (result_of detach ()) owned driver_id = (r, driver_id')"
  shows "(\<exists>e. r = Inl e) \<and> driver_id' = driver_id \<or> r = Inr () \<and> driver_id' = 0 \<and> (driver_id = owned \<or> driver_id = 0)"
  using assms by (auto simp: detach_if_owned_def result_of_def split: sum.splits if_splits option.splits)

text \<open>What the first phase does: it fails and stays attached, or it detaches an idle program of its own.\<close>

lemma shutdown_detach_cases:
  assumes "shutdown_detach fuel io v w = Some (v', w')" "lv_attached v"
  obtains (kept) rt where "lv_attached v'" "v' = failed (v\<lparr>lv_runtime := rt\<rparr>)"
      "lw_pins w' = lw_pins w" "lw_files w' = lw_files w" "lw_driver_id w' = lw_driver_id w" "lw_device w' = lw_device w"
  | (detached) rt where "rt = (lv_runtime v)\<lparr>rc_flags := rc_flags (lv_runtime v) OR ACE_RUNTIME_F_STOPPING\<rparr>"
      "v' = v\<lparr>lv_runtime := rt, lv_attached := False\<rparr>"
      "lw_pins w' = lw_pins w" "lw_files w' = lw_files w" "lw_driver_id w' = 0" "lw_device w' = lw_device w"
      "lw_runtime w' = rt" "lw_driver_id w = lv_owned_id v \<or> lw_driver_id w = 0"
      "xsk_owners_have_live_claim fuel (sd_owner_calls io) (lw_owners w) = Some (Inr False, lw_owners w')"
proof -
  let ?rt = "(lv_runtime v)\<lparr>rc_flags := rc_flags (lv_runtime v) OR ACE_RUNTIME_F_STOPPING\<rparr>"
  let ?v = "v\<lparr>lv_runtime := ?rt\<rparr>"
  obtain r driver_id where d: "detach_if_owned (result_of (sd_query io) (lw_driver_id w)) (result_of (sd_detach io) ())
      (lv_owned_id v) (lw_driver_id w) = (r, driver_id)" by fastforce
  consider (stop) "v' = failed ?v" "w' = w"
    | (refused) owners where "v' = failed ?v" "w' = w\<lparr>lw_runtime := ?rt, lw_owners := owners\<rparr>"
    | (idle) owners where "xsk_owners_have_live_claim fuel (sd_owner_calls io) (lw_owners w) = Some (Inr False, owners)"
        "v' = (case r of Inl _ \<Rightarrow> failed ?v | Inr _ \<Rightarrow> ?v\<lparr>lv_attached := False\<rparr>)"
        "w' = w\<lparr>lw_runtime := ?rt, lw_owners := owners, lw_driver_id := driver_id\<rparr>"
  proof (cases "sd_publish_stopping io")
    case (Some e)
    then show ?thesis using assms stop by (simp add: shutdown_detach_def Let_def)
  next
    case None
    then obtain scan owners where sc: "xsk_owners_have_live_claim fuel (sd_owner_calls io) (lw_owners w) = Some (scan, owners)"
      using assms by (auto simp: shutdown_detach_def Let_def split: option.splits)
    show ?thesis
    proof (cases "scan = Inr False")
      case True
      show ?thesis by (rule idle [of owners]) (use assms None sc True d in \<open>auto simp: shutdown_detach_def Let_def split: sum.splits\<close>)
    next
      case False
      then show ?thesis using assms None sc
        by (intro refused [of owners]) (auto simp: shutdown_detach_def Let_def split: sum.splits if_splits)
    qed
  qed
  then show ?thesis
  proof cases
    case idle
    from detach_if_owned_outcome [OF d] show ?thesis
    proof
      assume "(\<exists>e. r = Inl e) \<and> driver_id = lw_driver_id w"
      then show ?thesis using idle(2,3) assms(2) by (intro kept [of ?rt]) auto
    next
      assume "r = Inr () \<and> driver_id = 0 \<and> (lw_driver_id w = lv_owned_id v \<or> lw_driver_id w = 0)"
      then show ?thesis using idle by (intro detached [of ?rt]) simp_all
    qed
  qed (use kept [of ?rt] assms(2) in simp_all)
qed

lemma shutdown_detach_success:
  assumes "shutdown_detach fuel io v w = Some (v', w')" "lv_result v' = 0"
  shows "(\<exists>rt. v' = v\<lparr>lv_runtime := rt, lv_attached := False\<rparr>) \<and> lw_pins w' = lw_pins w \<and> lw_files w' = lw_files w \<and>
    lw_driver_id w' = (if lv_attached v then 0 else lw_driver_id w) \<and> lw_device w' = lw_device w"
proof (cases "lv_attached v")
  case True
  from assms(1) True show ?thesis by (cases rule: shutdown_detach_cases) (use assms(2) True in auto)
next
  case False
  then have "v' = v" "w' = w" using assms(1) by (simp_all add: shutdown_detach_def)
  moreover have "\<exists>rt. v = v\<lparr>lv_runtime := rt, lv_attached := False\<rparr>"
    by (rule exI [of _ "lv_runtime v"]) (use False in \<open>cases v; simp\<close>)
  ultimately show ?thesis using False by simp
qed

text \<open>The second phase: nothing, a failure that keeps the pins, or a complete export.\<close>

lemma shutdown_export_cases:
  assumes "shutdown_export fuel io options v w = Some (v', w')"
  obtains (skipped) "\<not> (lv_measurement_complete v \<and> \<not> lv_attached v)" "v' = v" "w' = w"
  | (kept) "v' = failed v" "lw_pins w' = lw_pins w" "lw_driver_id w' = lw_driver_id w" "lw_device w' = lw_device w"
  | (exported) files where "v' = v" "w' = w\<lparr>lw_files := files\<rparr>"
      "export_measurement_files fuel (sd_export io) options (lw_files w) = Some (Inr (), files)"
  using assms
  by (cases "lv_measurement_complete v \<and> \<not> lv_attached v")
    (auto simp: shutdown_export_def split: sum.splits option.splits prod.splits)

lemma shutdown_restore_frame:
  assumes "shutdown_restore dev io v w = (v', w')"
  shows "lw_pins w' = lw_pins w \<and> lw_files w' = lw_files w \<and> lw_driver_id w' = lw_driver_id w \<and> lv_attached v' = lv_attached v \<and>
    lv_maps_pinned v' = lv_maps_pinned v \<and>
    (lv_preserve_pins v' = lv_preserve_pins v \<or> lv_preserve_pins v' = lv_maps_pinned v \<and> lv_result v' = 1) \<and>
    (lv_result v' = lv_result v \<or> lv_result v' = 1)"
  using assms
  by (auto simp: shutdown_restore_def Let_def split: if_splits prod.splits sum.splits option.splits)

lemma shutdown_unpin_frame:
  assumes "shutdown_unpin io v w = (v', w')"
  shows "lw_files w' = lw_files w \<and> lw_driver_id w' = lw_driver_id w \<and> lw_device w' = lw_device w \<and>
    lw_runtime w' = lw_runtime w \<and> (lv_preserve_pins v \<longrightarrow> v' = v \<and> w' = w) \<and>
    (lv_result v' = 0 \<longrightarrow> v' = v \<and> (lv_maps_pinned v \<and> \<not> lv_preserve_pins v \<longrightarrow> lw_pins w' = lw_pins w - set pin_paths))"
proof -
  obtain r pins where u: "unpin_maps (sd_unpin io) pin_paths (Inr ()) (lw_pins w) = (r, pins)" by fastforce
  with assms unpin_maps_outcome [OF u] show ?thesis
    by (cases r) (auto simp: shutdown_unpin_def pin_measurement_maps_def split: if_splits)
qed

lemma loader_shutdown_phases:
  assumes "loader_shutdown fuel dev io options v w = Some (v', w')"
  obtains v1 w1 v2 w2 v3 w3 where "shutdown_detach fuel io v w = Some (v1, w1)"
    "shutdown_export fuel io options v1 w1 = Some (v2, w2)"
    "shutdown_restore dev io v2 w2 = (v3, w3)" "shutdown_unpin io v3 w3 = (v', w')"
proof -
  obtain v1 w1 where a: "shutdown_detach fuel io v w = Some (v1, w1)"
    using assms by (cases "shutdown_detach fuel io v w") (auto simp: loader_shutdown_def)
  obtain v2 w2 where b: "shutdown_export fuel io options v1 w1 = Some (v2, w2)"
    using assms a by (cases "shutdown_export fuel io options v1 w1") (auto simp: loader_shutdown_def)
  obtain v3 w3 where c: "shutdown_restore dev io v2 w2 = (v3, w3)" by fastforce
  show ?thesis using that [OF a b c] assms a b c by (simp add: loader_shutdown_def)
qed

text \<open>
  Property C4.  Shutdown never loses a measurement.  When a complete measurement ends, whatever calls
  fail, either all seven pins are still there, so that \<^verbatim>\<open>--recover\<close> can save it, or the three
  measurement files were exported successfully.
\<close>

theorem shutdown_keeps_measurement:
  assumes "loader_shutdown fuel dev io options v w = Some (v', w')"
    "lv_attached v" "lv_measurement_complete v" "lv_maps_pinned v"
  shows "lw_pins w' = lw_pins w \<or>
    export_measurement_files fuel (sd_export io) options (lw_files w) = Some (Inr (), lw_files w')"
  using assms(1)
proof (cases rule: loader_shutdown_phases)
  case (1 v1 w1 v2 w2 v3 w3)
  note r = shutdown_restore_frame [OF 1(3)] and u = shutdown_unpin_frame [OF 1(4)]
  have keep: "lw_pins w' = lw_pins w" if "lv_preserve_pins v2" "lv_maps_pinned v2" "lw_pins w2 = lw_pins w"
    using r u that by auto
  have d: "lv_attached v1 \<and> lv_preserve_pins v1 \<and> lv_maps_pinned v1 \<or>
      \<not> lv_attached v1 \<and> lv_measurement_complete v1 \<and> lv_maps_pinned v1"
    "lw_pins w1 = lw_pins w" "lw_files w1 = lw_files w"
    using 1(1) assms(2-) by (cases rule: shutdown_detach_cases; simp)+
  show ?thesis
    using 1(2)
  proof (cases rule: shutdown_export_cases)
    case skipped
    with d keep show ?thesis by auto
  next
    case kept
    with d keep show ?thesis by auto
  next
    case exported
    with r u d show ?thesis by auto
  qed
qed

lemma shutdown_result:
  assumes "loader_shutdown fuel dev io options v w = Some (v', w')" "lv_result v' = 0"
  shows "lv_result v = 0"
  using assms(1)
proof (cases rule: loader_shutdown_phases)
  case (1 v1 w1 v2 w2 v3 w3)
  have "v' = v3" using shutdown_unpin_frame [OF 1(4)] assms(2) by blast
  then have "lv_result v2 = 0" using shutdown_restore_frame [OF 1(3)] assms(2) by (metis zero_neq_one)
  with 1(2) have "lv_result v1 = 0" by (cases rule: shutdown_export_cases) auto
  with shutdown_detach_success [OF 1(1)] show ?thesis by auto
qed

text \<open>
  What exit code 0 means, for a run that was attached and for one that was stopped before attaching.
\<close>

lemma shutdown_clean:
  assumes "loader_shutdown fuel dev io options v w = Some (v', w')" "lv_result v' = 0"
    "lv_maps_pinned v" "\<not> lv_preserve_pins v" "lv_hwtstamp_fd v" "lv_attached v = lv_measurement_complete v"
    and dev: "hwtstamp_law dev" "hs_active (lv_hwtstamp v)" "dev_get dev (lw_device w) = Inr cur"
      "cur = hs_effective (lv_hwtstamp v) \<or> cur = hs_saved (lv_hwtstamp v)" "dev_get dev d0 = Inr (hs_saved (lv_hwtstamp v))"
  shows "lw_driver_id w' = (if lv_attached v then 0 else lw_driver_id w) \<and>
    (lv_attached v \<longrightarrow> export_measurement_files fuel (sd_export io) options (lw_files w) = Some (Inr (), lw_files w')) \<and>
    dev_get dev (lw_device w') = Inr (hs_saved (lv_hwtstamp v)) \<and> lw_pins w' = lw_pins w - set pin_paths"
  using assms(1)
proof (cases rule: loader_shutdown_phases)
  case (1 v1 w1 v2 w2 v3 w3)
  note r = shutdown_restore_frame [OF 1(3)] and u = shutdown_unpin_frame [OF 1(4)]
  have v': "v' = v3" using u assms(2) by blast
  then have res: "lv_result v3 = 0" using assms(2) by simp
  then have res2: "lv_result v2 = 0" using r by (metis zero_neq_one)
  have v1: "lv_result v1 = 0" using 1(2) res2 by (cases rule: shutdown_export_cases) auto
  have d: "\<exists>rt. v1 = v\<lparr>lv_runtime := rt, lv_attached := False\<rparr>" "lw_pins w1 = lw_pins w" "lw_files w1 = lw_files w"
    "lw_driver_id w1 = (if lv_attached v then 0 else lw_driver_id w)" "lw_device w1 = lw_device w"
    using shutdown_detach_success [OF 1(1) v1] by simp_all
  then obtain rt where rt: "v1 = v\<lparr>lv_runtime := rt, lv_attached := False\<rparr>" by blast
  have e: "v2 = v1" "lw_pins w2 = lw_pins w1" "lw_device w2 = lw_device w1" "lw_driver_id w2 = lw_driver_id w1"
    "lv_attached v \<longrightarrow> export_measurement_files fuel (sd_export io) options (lw_files w1) = Some (Inr (), lw_files w2)"
    using 1(2) by (cases rule: shutdown_export_cases; use rt assms(6) res2 in simp)+
  obtain rr st dd where a: "ace_hwtstamp_restore_allow_saved dev (lw_device w) (lv_hwtstamp v) True = (rr, st, dd)"
    by (cases "ace_hwtstamp_restore_allow_saved dev (lw_device w) (lv_hwtstamp v) True")
  have p: "rr = Inr False" "lw_device w3 = dd" "\<not> lv_preserve_pins v3" "lv_maps_pinned v3"
    using 1(3) res a assms(3-5) d e rt
    by (auto simp: shutdown_restore_def Let_def split: sum.splits if_splits)
  have "dev_get dev dd = Inr (hs_saved (lv_hwtstamp v))"
    using restore_saved [OF dev a] p(1) by simp
  moreover have "lw_device w' = lw_device w3" "lw_files w' = lw_files w3" "lw_driver_id w' = lw_driver_id w3"
    "lw_pins w' = lw_pins w3 - set pin_paths" using u assms(2) p(3,4) by blast+
  ultimately show ?thesis using e d r p(2) by simp
qed

text \<open>
  The exit code 0 of a completed run means that nothing is left over: the interface has no
  driver-mode program, the measurement files were exported, the device has its configuration from
  before the run again, and no pin remains.
\<close>

theorem shutdown_success_is_clean:
  assumes "loader_shutdown fuel dev io options v w = Some (v', w')" "lv_result v' = 0"
    "lv_attached v" "lv_measurement_complete v" "lv_maps_pinned v" "\<not> lv_preserve_pins v" "lv_hwtstamp_fd v"
    and dev: "hwtstamp_law dev" "hs_active (lv_hwtstamp v)" "dev_get dev (lw_device w) = Inr cur"
      "cur = hs_effective (lv_hwtstamp v) \<or> cur = hs_saved (lv_hwtstamp v)" "dev_get dev d0 = Inr (hs_saved (lv_hwtstamp v))"
  shows "lw_driver_id w' = 0 \<and>
    export_measurement_files fuel (sd_export io) options (lw_files w) = Some (Inr (), lw_files w') \<and>
    dev_get dev (lw_device w') = Inr (hs_saved (lv_hwtstamp v)) \<and> lw_pins w' = lw_pins w - set pin_paths"
  using shutdown_clean [OF assms(1,2,5,6,7) _ dev] assms(3,4) by simp

text \<open>
  Property C14.  The loader takes its program off the interface only when that is safe: the driver-mode
  program changes during shutdown only if it was the loader's own, STOPPING had been published, and a
  scan of the claim map had ended at a moment at which the kernel found no claim in it.
\<close>

theorem shutdown_detaches_safely:
  assumes "loader_shutdown fuel dev io options v w = Some (v', w')" "lw_driver_id w' \<noteq> lw_driver_id w"
  shows "lv_attached v \<and> lw_driver_id w = lv_owned_id v \<and> lw_driver_id w' = 0 \<and>
    (\<exists>owners owners'. xsk_owners_have_live_claim fuel (sd_owner_calls io) (lw_owners w) = Some (Inr False, owners') \<and>
       get_next_key (sd_owner_calls io) owners = (Inl ENOENT, owners')) \<and>
    sd_publish_stopping io = None"
  using assms(1)
proof (cases rule: loader_shutdown_phases)
  case (1 v1 w1 v2 w2 v3 w3)
  note r = shutdown_restore_frame [OF 1(3)] and u = shutdown_unpin_frame [OF 1(4)]
  have "lw_driver_id w2 = lw_driver_id w1" using 1(2) by (cases rule: shutdown_export_cases) auto
  then have ch: "lw_driver_id w1 \<noteq> lw_driver_id w" "lw_driver_id w' = lw_driver_id w1" using r u assms(2) by auto
  then have at: "lv_attached v" using 1(1) by (cases "lv_attached v") (simp_all add: shutdown_detach_def)
  have "sd_publish_stopping io = None" using 1(1) at ch(1) by (auto simp: shutdown_detach_def Let_def split: option.splits)
  with 1(1) at show ?thesis
    by (cases rule: shutdown_detach_cases) (use at ch scan_clear_only_when_empty in auto)
qed

section \<open>Recovery\<close>

lemma recover_cases:
  assumes "recover_pinned_measurement fuel dev io options w = Some (r, w')"
  obtains (refused) "r = 1" "lw_pins w' = lw_pins w" "lw_files w' = lw_files w" "lw_driver_id w' = lw_driver_id w"
      "lw_device w' = lw_device w" "w' \<noteq> w \<longrightarrow> recovery_admitted io w"
  | (stopped) rt owners where "recovery_admitted io w"
      "rt = (lw_runtime w)\<lparr>rc_flags := rc_flags (lw_runtime w) OR ACE_RUNTIME_F_STOPPING\<rparr>"
      "xsk_owners_have_live_claim fuel (sd_owner_calls (rv_calls io)) (lw_owners w) = Some (Inr False, owners)"
      "recover_stopped fuel dev io options rt (w\<lparr>lw_runtime := rt, lw_owners := owners\<rparr>) = Some (r, w')"
proof (cases "xsk_owners_have_live_claim fuel (sd_owner_calls (rv_calls io)) (lw_owners w)")
  case None
  with assms refused show ?thesis
    by (auto simp: recover_pinned_measurement_def Let_def split: if_splits)
next
  case (Some sc)
  obtain scan owners where sc: "sc = (scan, owners)" by (cases sc)
  show ?thesis
  proof (cases "recovery_admitted io w \<and> scan = Inr False")
    case True
    with assms refused stopped [of _ owners] Some sc show ?thesis
      by (auto simp: recover_pinned_measurement_def Let_def split: if_splits)
  next
    case False
    with assms refused Some sc show ?thesis
      by (auto simp: recover_pinned_measurement_def Let_def split: if_splits)
  qed
qed

lemma recover_hwtstamp_frame:
  assumes "recover_hwtstamp dev io ifname rt w = (err, w')"
  shows "lw_pins w' = lw_pins w \<and> lw_files w' = lw_files w \<and> lw_driver_id w' = lw_driver_id w"
  using assms by (auto simp: recover_hwtstamp_def Let_def split: option.splits sum.splits prod.splits bool.splits)




lemma recover_data_outcome:
  assumes "recover_data fuel io options err w = Some (r, w')"
  shows "lw_driver_id w' = lw_driver_id w \<and> lw_device w' = lw_device w \<and>
    (r = 0 \<or> lw_pins w' \<noteq> lw_pins w \<longrightarrow>
       \<not> err \<and> export_measurement_files fuel (sd_export (rv_calls io)) options (lw_files w) = Some (Inr (), lw_files w')) \<and>
    (\<not> lo_cleanup_pins options \<longrightarrow> lw_pins w' = lw_pins w)"
  using assms
  by (auto simp: recover_data_def Let_def split: sum.splits option.splits prod.splits if_splits)

lemma recover_stopped_cases:
  assumes "recover_stopped fuel dev io options rt w = Some (r, w')"
  obtains (refused) "r = 1" "lw_pins w' = lw_pins w" "lw_files w' = lw_files w" "lw_driver_id w' = lw_driver_id w"
      "lw_device w' = lw_device w"
  | (finished) w1 err where "recover_hwtstamp dev io (lo_ifname options) rt (w\<lparr>lw_driver_id := 0\<rparr>) = (err, w1)"
      "recover_data fuel io options err w1 = Some (r, w')" "lw_driver_id w = 0 \<or> lw_driver_id w = rc_xdp_program_id rt"
proof -
  obtain dr driver_id where d: "detach_if_owned (result_of (rv_requery io) (lw_driver_id w)) (result_of (sd_detach (rv_calls io)) ())
      (rc_xdp_program_id rt) (lw_driver_id w) = (dr, driver_id)" by fastforce
  obtain err w1 where h: "recover_hwtstamp dev io (lo_ifname options) rt (w\<lparr>lw_driver_id := 0\<rparr>) = (err, w1)" by fastforce
  show ?thesis
  proof (cases "lw_driver_id w = 0")
    case True
    then have "w\<lparr>lw_driver_id := 0\<rparr> = w" by (cases w) simp
    with h have "recover_hwtstamp dev io (lo_ifname options) rt w = (err, w1)" by simp
    then show ?thesis using assms True refused finished [OF h]
      by (auto simp: recover_stopped_def result_of_def Let_def split: option.splits)
  next
    case False
    from detach_if_owned_outcome [OF d] show ?thesis
    proof
      assume "(\<exists>e. dr = Inl e) \<and> driver_id = lw_driver_id w"
      then show ?thesis using assms d False refused
        by (auto simp: recover_stopped_def Let_def split: option.splits if_splits sum.splits)
    next
      assume "dr = Inr () \<and> driver_id = 0 \<and> (lw_driver_id w = rc_xdp_program_id rt \<or> lw_driver_id w = 0)"
      then show ?thesis using assms d h False refused finished [OF h]
        by (auto simp: recover_stopped_def Let_def split: option.splits if_splits sum.splits)
    qed
  qed
qed

lemma stopping_keeps_state:
  "hwtstamp_state_from_runtime (rt\<lparr>rc_flags := rc_flags rt OR ACE_RUNTIME_F_STOPPING\<rparr>) ifname =
     hwtstamp_state_from_runtime rt ifname"
proof -
  have "(x OR 8) AND 1 = x AND (1 :: u32)" for x by (simp add: bit.conj_disj_distrib2)
  then show ?thesis by (simp add: hwtstamp_state_from_runtime_def Let_def)
qed

text \<open>
  Property C6.  Recovery touches nothing that is still in use.  If it changes anything at all, the
  runtime record and the claims included, then the pinned record was acceptable and the loader that
  wrote it is dead; and if it changes the driver-mode program, the device, a file or a pin, then a scan
  of the claims ended without a live receiver before.
\<close>

theorem recovery_acts_only_on_dead_runs:
  assumes "recover_pinned_measurement fuel dev io options w = Some (r, w')"
  shows "(w' \<noteq> w \<longrightarrow> runtime_recoverable (rv_ifindex io) (lw_runtime w) \<and>
      ace_process_identity_is_alive (rv_proc_stat io) (sint (rc_owner_pid (lw_runtime w)))
        (rc_owner_start_ticks (lw_runtime w)) = Inr False) \<and>
    (lw_driver_id w' \<noteq> lw_driver_id w \<or> lw_device w' \<noteq> lw_device w \<or> lw_files w' \<noteq> lw_files w \<or> lw_pins w' \<noteq> lw_pins w \<longrightarrow>
      (\<exists>owners owners'. xsk_owners_have_live_claim fuel (sd_owner_calls (rv_calls io)) (lw_owners w) = Some (Inr False, owners') \<and>
         get_next_key (sd_owner_calls (rv_calls io)) owners = (Inl ENOENT, owners')))"
  using assms
proof (cases rule: recover_cases)
  case (stopped rt owners)
  with scan_clear_only_when_empty [OF stopped(3)] show ?thesis unfolding recovery_admitted_def by blast
qed (auto simp: recovery_admitted_def)

text \<open>
  Recovery removes pins only after it has exported the measurement and restored the
  device, and only when asked to; on every other path all pins stay for another attempt.
\<close>

theorem recovery_keeps_measurement:
  assumes "recover_pinned_measurement fuel dev io options w = Some (r, w')"
  shows "lw_pins w' = lw_pins w \<or> lo_cleanup_pins options \<and>
    export_measurement_files fuel (sd_export (rv_calls io)) options (lw_files w) = Some (Inr (), lw_files w')"
  using assms
proof (cases rule: recover_cases)
  case (stopped rt owners)
  from stopped(4) show ?thesis
  proof (cases rule: recover_stopped_cases)
    case (finished w1 err)
    from recover_hwtstamp_frame [OF finished(1)] recover_data_outcome [OF finished(2)] show ?thesis by auto
  qed simp
qed simp



section \<open>Witnesses\<close>

definition sample_world :: "hwtstamp_config loader_world" where
  "sample_world = \<lparr>lw_runtime = runtime_set_hwtstamp zero_runtime captured_ptp False, lw_owners = Map.empty,
     lw_driver_id = 9, lw_device = ptp_config, lw_pins = set pin_paths, lw_files = Map.empty\<rparr>"

definition sample_calls :: shutdown_io where
  "sample_calls = \<lparr>sd_publish_stopping = None, sd_owner_calls = quiet_calls (\<lambda>_. None) (\<lambda>_. Inl ENOENT),
     sd_query = None, sd_detach = None, sd_ncpu = 4, sd_allocated = True,
     sd_look = (\<lambda>_. maps_lookup [0, 1, 2, 3] sample_maps), sd_export = sample_export,
     sd_publish_restored = None, sd_unpin = (\<lambda>_. None)\<rparr>"

definition sample_vars :: loader_vars where
  "sample_vars = \<lparr>lv_result = 0, lv_attached = True, lv_maps_pinned = True, lv_measurement_complete = True,
     lv_preserve_pins = False, lv_hwtstamp_fd = True, lv_hwtstamp = captured_ptp,
     lv_runtime = runtime_set_hwtstamp zero_runtime captured_ptp False, lv_owned_id = 9\<rparr>"

lemma sample_drained: "\<exists>rep. wait_for_cpumap_records 4 True (\<lambda>_. maps_lookup [0, 1, 2, 3] sample_maps) = Inr rep"
proof -
  let ?look = "\<lambda>_ :: nat. maps_lookup [0, 1, 2, 3] sample_maps"
  have s: "drain_snapshot (?look i) = Inr (1, 0)" for i
    by (simp add: drain_snapshot_def lookup_stat_total_def maps_lookup_def sample_maps_def count_all_def count_stat_def init_maps_def)
  have "drain_loop ?look (10 * 0) (- 1) (- 1) 0 0 =
      (if (1 :: u64) = 0 \<or> (0 :: u64) < 1 then Inr (Some \<lparr>dr_requested = 1, dr_terminal = 0, dr_unobserved = 1 - 0\<rparr>) else Inl ETIMEDOUT)"
    by (rule drain_loop_constant) (use s in simp_all)
  then show ?thesis by (simp add: wait_for_cpumap_records_def)
qed

lemma sample_files: "\<exists>fs'. export_measurement_files 2 sample_export sample_output Map.empty = Some (Inr (), fs')"
  using sample_prepared sample_export_success by blast

lemma sample_scan: "xsk_owners_have_live_claim 2 (quiet_calls (\<lambda>_. None) read_stat) Map.empty = Some (Inr False, Map.empty)"
  by (simp add: numeral_2_eq_2 quiet_calls_def)

lemma sample_shutdown:
  obtains v' w' where "loader_shutdown 2 exact_dev sample_calls sample_output sample_vars sample_world = Some (v', w')"
    "lv_result v' = 0" "lw_driver_id w' \<noteq> lw_driver_id sample_world"
proof -
  obtain rep where d: "wait_for_cpumap_records 4 True (\<lambda>_. maps_lookup [0, 1, 2, 3] sample_maps) = Inr rep"
    using sample_drained by blast
  obtain fs' where f: "export_measurement_files 2 sample_export sample_output Map.empty = Some (Inr (), fs')"
    using sample_files by blast
  have "\<exists>v' w'. loader_shutdown 2 exact_dev sample_calls sample_output sample_vars sample_world = Some (v', w') \<and>
    lv_result v' = 0 \<and> lw_driver_id w' \<noteq> lw_driver_id sample_world"
    by (simp add: loader_shutdown_def shutdown_detach_def shutdown_export_def shutdown_restore_def shutdown_unpin_def
        sample_calls_def sample_vars_def sample_world_def Let_def sample_scan detach_if_owned_def result_of_def d f ace_hwtstamp_restore_allow_saved_def exact_dev_def pin_measurement_maps_def
        pin_paths_def zero_state_def)
  then show ?thesis using that by blast
qed

theorem shutdown_keeps_measurement_witness:
  "\<exists>v' w'. loader_shutdown 2 exact_dev sample_calls sample_output sample_vars sample_world = Some (v', w') \<and>
     (lw_pins w' = set pin_paths \<or> export_measurement_files 2 sample_export sample_output Map.empty = Some (Inr (), lw_files w'))"
proof (rule sample_shutdown)
  fix v' w' assume r: "loader_shutdown 2 exact_dev sample_calls sample_output sample_vars sample_world = Some (v', w')"
  show ?thesis using shutdown_keeps_measurement [OF r] r by (simp add: sample_vars_def sample_calls_def sample_world_def)
qed

theorem shutdown_success_is_clean_witness:
  "\<exists>v' w'. loader_shutdown 2 exact_dev sample_calls sample_output sample_vars sample_world = Some (v', w') \<and>
     lw_driver_id w' = 0 \<and> dev_get exact_dev (lw_device w') = Inr ptp_config \<and> lw_pins w' = {}"
proof (rule sample_shutdown)
  fix v' w' assume r: "loader_shutdown 2 exact_dev sample_calls sample_output sample_vars sample_world = Some (v', w')" "lv_result v' = 0"
  have "lw_driver_id w' = 0 \<and> dev_get exact_dev (lw_device w') = Inr ptp_config \<and> lw_pins w' = {}"
    using shutdown_success_is_clean [OF r, of ptp_config ptp_config] exact_dev_law
    by (simp add: sample_vars_def sample_calls_def sample_world_def exact_dev_def)
  with r show ?thesis by blast
qed

theorem shutdown_detaches_safely_witness:
  "\<exists>v' w'. loader_shutdown 2 exact_dev sample_calls sample_output sample_vars sample_world = Some (v', w') \<and> lw_driver_id w' = 0"
proof (rule sample_shutdown)
  fix v' w' assume r: "loader_shutdown 2 exact_dev sample_calls sample_output sample_vars sample_world = Some (v', w')"
    "lw_driver_id w' \<noteq> lw_driver_id sample_world"
  show ?thesis using shutdown_detaches_safely [OF r] r(1) by blast
qed

definition sample_recovery :: recover_io where
  "sample_recovery = \<lparr>rv_ifindex = 2,
     rv_info = (\<lambda>name. case map_of (map_schemas 16) name of
        None \<Rightarrow> Inl ENOENT
      | Some (t, k, v, n) \<Rightarrow> Inr \<lparr>mi_type = t, mi_id = 1, mi_key_size = k, mi_value_size = v, mi_max_entries = n, mi_name = name\<rparr>),
     rv_lookup_runtime = None, rv_proc_stat = (\<lambda>_. Inl ENOENT), rv_open_pin = (\<lambda>_. None), rv_prog_fd = None,
     rv_requery = None, rv_socket = None, rv_unlink = (\<lambda>_. None), rv_rmdir = None, rv_calls = sample_calls\<rparr>"

abbreviation recover_output :: loader_options where
  "recover_output \<equiv> sample_output\<lparr>lo_recover := True, lo_cleanup_pins := True\<rparr>"

lemma sample_admitted: "recovery_admitted sample_recovery sample_world"
  by (simp add: recovery_admitted_def sample_recovery_def sample_world_def open_pin_def pin_path_def pin_paths_def
      validate_map_def map_schemas_def runtime_recoverable_def runtime_set_hwtstamp_def zero_runtime_def Let_def
      ace_process_identity_is_alive_def ace_process_start_ticks_def show_nat_eval)

lemma sample_sel:
  "rv_socket sample_recovery = None" "rv_unlink sample_recovery = (\<lambda>_. None)" "rv_rmdir sample_recovery = None"
  "rv_requery sample_recovery = None" "rv_prog_fd sample_recovery = None"
  "sd_publish_restored (rv_calls sample_recovery) = None" "sd_publish_stopping (rv_calls sample_recovery) = None"
  "sd_ncpu (rv_calls sample_recovery) = 4" "sd_allocated (rv_calls sample_recovery) = True"
  "sd_look (rv_calls sample_recovery) = (\<lambda>_. maps_lookup [0, 1, 2, 3] sample_maps)"
  "sd_export (rv_calls sample_recovery) = sample_export" "sd_query (rv_calls sample_recovery) = None"
  "sd_detach (rv_calls sample_recovery) = None"
  "sd_owner_calls (rv_calls sample_recovery) = quiet_calls (\<lambda>_. None) (\<lambda>_. Inl ENOENT)"
  by (simp_all add: sample_recovery_def sample_calls_def)

lemma sample_recovered:
  obtains w' where "recover_pinned_measurement 2 exact_dev sample_recovery recover_output sample_world = Some (0, w')"
    "lw_driver_id w' = 0"
proof -
  let ?rt = "(lw_runtime sample_world)\<lparr>rc_flags := rc_flags (lw_runtime sample_world) OR ACE_RUNTIME_F_STOPPING\<rparr>"
  let ?w = "sample_world\<lparr>lw_runtime := ?rt\<rparr>"
  obtain rep where d: "wait_for_cpumap_records 4 True (\<lambda>_. maps_lookup [0, 1, 2, 3] sample_maps) = Inr rep"
    using sample_drained by blast
  have m: "make_output_path n recover_output x = make_output_path n sample_output x" for n x
    by (simp add: make_output_path_def)
  have "prepare_measurement_paths (ex_dir sample_export) recover_output Map.empty =
    prepare_measurement_paths (ex_dir sample_export) sample_output Map.empty"
    unfolding prepare_measurement_paths_def m ..
  then have "export_measurement_files 2 sample_export recover_output Map.empty =
    export_measurement_files 2 sample_export sample_output Map.empty" unfolding export_measurement_files_def by simp
  then obtain fs' where f: "export_measurement_files 2 sample_export recover_output Map.empty = Some (Inr (), fs')"
    using sample_files by auto
  have st: "hwtstamp_state_from_runtime ?rt ''eth0'' = Inr captured_ptp"
    unfolding stopping_keeps_state using state_from_runtime(1) [of "''eth0''" zero_runtime captured_ptp False]
    by (simp add: sample_world_def zero_state_def)
  have pins: "list_all (open_pin sample_recovery ?w)
      [''cpu_map'', ''xsk_map'', ''xsk_owners'', ''stats'', ''ingress_records'', ''cpumap_records'']"
    by (simp add: open_pin_def sample_recovery_def sample_world_def pin_path_def pin_paths_def)
  have schemas: "validate_schemas (rv_info sample_recovery) (butlast (map_schemas (rc_record_capacity ?rt))) = Inr ()"
    by (simp add: sample_recovery_def sample_world_def map_schemas_def validate_map_def runtime_set_hwtstamp_def zero_runtime_def Let_def)
  have clean: "cleanup_recovery_pins (\<lambda>_. None) None (set pin_paths) = (Inr (), {})"
    by (simp add: cleanup_recovery_pins_def pin_paths_def)
  let ?w2 = "?w\<lparr>lw_owners := Map.empty, lw_driver_id := 0\<rparr>"
  obtain w3 where hw: "recover_hwtstamp exact_dev sample_recovery ''eth0'' ?rt ?w2 = (False, w3)" "lw_files w3 = Map.empty"
    "lw_pins w3 = set pin_paths" "lw_driver_id w3 = 0"
    unfolding recover_hwtstamp_def sample_sel st
    by (simp add: ace_hwtstamp_restore_allow_saved_def exact_dev_def sample_world_def zero_state_def Let_def)
  have "recover_data 2 sample_recovery recover_output False w3 = Some (0, w3\<lparr>lw_files := fs', lw_pins := {}\<rparr>)"
    unfolding recover_data_def sample_sel d hw(2) f by (simp add: Let_def clean hw(3))
  then have rest: "recover_stopped 2 exact_dev sample_recovery recover_output ?rt (?w\<lparr>lw_owners := Map.empty\<rparr>) =
      Some (0, w3\<lparr>lw_files := fs', lw_pins := {}\<rparr>)"
    using hw(1) unfolding recover_stopped_def sample_sel Let_def
    by (simp add: detach_if_owned_def result_of_def sample_world_def sample_output_def loader_defaults_def
        runtime_set_hwtstamp_def zero_runtime_def Let_def)
  have "lw_owners ?w = Map.empty" by (simp add: sample_world_def)
  then have "recover_pinned_measurement 2 exact_dev sample_recovery recover_output sample_world =
      Some (0, w3\<lparr>lw_files := fs', lw_pins := {}\<rparr>)"
    using rest sample_admitted pins schemas unfolding recover_pinned_measurement_def Let_def sample_sel
    by (simp add: sample_scan)
  then show ?thesis using that hw(4) by simp
qed

theorem recovery_acts_only_on_dead_runs_witness:
  "\<exists>w'. recover_pinned_measurement 2 exact_dev sample_recovery recover_output sample_world = Some (0, w') \<and>
     runtime_recoverable 2 (lw_runtime sample_world)"
proof (rule sample_recovered)
  fix w' assume r: "recover_pinned_measurement 2 exact_dev sample_recovery recover_output sample_world = Some (0, w')" "lw_driver_id w' = 0"
  then have "lw_driver_id w' \<noteq> lw_driver_id sample_world" by (simp add: sample_world_def)
  moreover from this have "w' \<noteq> sample_world" by blast
  ultimately show ?thesis using recovery_acts_only_on_dead_runs [OF r(1)] r(1) by (auto simp: sample_recovery_def)
qed

theorem recovery_keeps_measurement_witness:
  "\<exists>w'. recover_pinned_measurement 2 exact_dev sample_recovery recover_output sample_world = Some (0, w') \<and>
     (lw_pins w' = set pin_paths \<or> export_measurement_files 2 sample_export recover_output Map.empty = Some (Inr (), lw_files w'))"
proof (rule sample_recovered)
  fix w' assume r: "recover_pinned_measurement 2 exact_dev sample_recovery recover_output sample_world = Some (0, w')"
  have "lw_pins sample_world = set pin_paths" "lw_files sample_world = Map.empty" by (simp_all add: sample_world_def)
  with recovery_keeps_measurement [OF r] r show ?thesis unfolding sample_sel by auto
qed


end
