(* ===== verification/Loader_Main.thy ===== *)
theory Loader_Main
  imports Loader_Lifecycle
begin

text \<open>
  The loader's \<^verbatim>\<open>main\<close> (\<^verbatim>\<open>BPF/xdp_loader.c\<close>) from the first query of the interface to the exit code:
  the guards of the start, the runtime record it publishes, pinning, attaching and enabling
  timestamps, followed by the shutdown path of \<open>Loader_Lifecycle\<close>.  The theorems span the whole
  program: what a run leaves behind, and that the record it publishes is the one the AF_XDP
  receiver and the recovery accept.
\<close>

unbundle bit_operations_syntax

section \<open>Start\<close>

text \<open>The results of the calls, in the order of the source; a fault is the errno of a failing call.\<close>

record start_io =
  st_query :: "errno option"
  st_mkdir :: "errno option"
  st_stat :: "errno + bool"
  st_entries :: "errno + string list"
  st_socket :: "errno option"
  st_open :: bool
  st_capacity :: bool
  st_flags :: "errno option"
  st_load :: "errno option"
  st_info :: "string \<Rightarrow> errno + bpf_map_info"
  st_program_id :: "errno + u32"
  st_ifindex :: u32
  st_pid :: u32
  st_ticks :: "errno + u64"
  st_remote_fd :: int
  st_cpu_fault :: "errno option"
  st_runtime_fault :: "errno option"
  st_pin :: "string \<Rightarrow> errno option"
  st_unpin :: "string \<Rightarrow> errno option"
  st_stop :: bool
  st_attach :: "errno option"
  st_published :: "nat \<Rightarrow> bool"
  st_ready :: "errno option"

datatype 'd start_result = Refused | Out loader_vars "'d loader_world"

definition blank_runtime :: ace_runtime_config where
  "blank_runtime = \<lparr>rc_abi_version = 0, rc_ifindex = 0, rc_record_capacity = 0, rc_xdp_program_id = 0,
     rc_owner_start_ticks = 0, rc_owner_pid = 0, rc_flags = 0, rc_saved_hwtstamp_flags = 0,
     rc_saved_hwtstamp_tx_type = 0, rc_saved_hwtstamp_rx_filter = 0, rc_effective_hwtstamp_flags = 0,
     rc_effective_hwtstamp_tx_type = 0, rc_effective_hwtstamp_rx_filter = 0\<rparr>"

definition initial_vars :: loader_vars where
  "initial_vars = \<lparr>lv_result = 1, lv_attached = False, lv_maps_pinned = False, lv_measurement_complete = False,
     lv_preserve_pins = False, lv_hwtstamp_fd = False, lv_hwtstamp = zero_state, lv_runtime = blank_runtime,
     lv_owned_id = 0\<rparr>"

definition loader_runtime :: "start_io \<Rightarrow> loader_options \<Rightarrow> u32 \<Rightarrow> u64 \<Rightarrow> ace_runtime_config" where
  "loader_runtime io options owned_id ticks =
     blank_runtime\<lparr>rc_abi_version := ACE_XDP_RUNTIME_ABI_VERSION,
       rc_flags := (if lo_mode options = ACE_FORWARD_ALL_PASS then ACE_RUNTIME_F_ALL_PASS
         else if lo_mode options = ACE_FORWARD_PASS_XSK then ACE_RUNTIME_F_PASS_XSK else 0),
       rc_ifindex := st_ifindex io, rc_record_capacity := lo_record_capacity options,
       rc_xdp_program_id := owned_id, rc_owner_pid := st_pid io, rc_owner_start_ticks := ticks\<rparr>"

text \<open>From the pinned maps to the end of the measurement.\<close>

definition start_attach ::
  "'d hwtstamp_dev \<Rightarrow> start_io \<Rightarrow> loader_options \<Rightarrow> loader_vars \<Rightarrow> 'd loader_world \<Rightarrow> loader_vars \<times> 'd loader_world" where
  "start_attach dev io options v w =
   (if st_stop io then (v\<lparr>lv_result := 0\<rparr>, w)
    else (case st_attach io of
        Some e \<Rightarrow> (v, w)
      | None \<Rightarrow>
          (case loader_enable_hwtstamp dev (st_published io) (lo_ifname options) (lw_device w) (lv_runtime v) (lv_hwtstamp v) of
             (ok, state, runtime, d, trace) \<Rightarrow>
               (let v = v\<lparr>lv_attached := True, lv_hwtstamp := state, lv_runtime := runtime\<rparr>;
                    w = w\<lparr>lw_driver_id := lv_owned_id v, lw_device := d, lw_runtime := fst (last trace)\<rparr> in
                if \<not> ok \<or> st_ready io \<noteq> None then (v, w)
                else (v\<lparr>lv_measurement_complete := True, lv_result := 0\<rparr>, w)))))"

text \<open>From the loaded object to the pinned maps.\<close>

definition start_maps ::
  "'d hwtstamp_dev \<Rightarrow> start_io \<Rightarrow> loader_options \<Rightarrow> loader_vars \<Rightarrow> 'd loader_world \<Rightarrow> loader_vars \<times> 'd loader_world" where
  "start_maps dev io options v w =
   (if \<not> st_open io \<or> \<not> st_capacity io \<or> st_flags io \<noteq> None \<or> st_load io \<noteq> None then (v, w)
    else (case validate_maps (st_info io) (lo_record_capacity options) of
        Inl e \<Rightarrow> (v, w)
      | Inr _ \<Rightarrow>
          (case st_program_id io of
             Inl e \<Rightarrow> (v, w)
           | Inr owned_id \<Rightarrow>
               (let v = v\<lparr>lv_owned_id := owned_id\<rparr> in
                case st_ticks io of
                  Inl e \<Rightarrow> (v, w)
                | Inr ticks \<Rightarrow>
                    (let runtime = runtime_set_hwtstamp (loader_runtime io options owned_id ticks) (lv_hwtstamp v) False;
                         v = v\<lparr>lv_runtime := runtime\<rparr> in
                     case configure_maps (st_remote_fd io) (st_cpu_fault io) (st_runtime_fault io) runtime
                            (Map.empty, blank_runtime) of
                       (Inl e, cpus, published) \<Rightarrow> (v, w)
                     | (Inr _, cpus, published) \<Rightarrow>
                         (let w = w\<lparr>lw_runtime := published\<rparr> in
                          case pin_measurement_maps (st_pin io) (st_unpin io) True (lw_pins w) of
                            (Inl e, pins) \<Rightarrow> (v, w\<lparr>lw_pins := pins\<rparr>)
                          | (Inr _, pins) \<Rightarrow>
                              start_attach dev io options (v\<lparr>lv_maps_pinned := True\<rparr>) (w\<lparr>lw_pins := pins\<rparr>)))))))"

definition loader_start ::
  "'d hwtstamp_dev \<Rightarrow> start_io \<Rightarrow> loader_options \<Rightarrow> 'd loader_world \<Rightarrow> 'd start_result" where
  "loader_start dev io options w =
   (if st_ifindex io = 0 \<or> st_query io \<noteq> None \<or> lw_driver_id w \<noteq> 0 then Refused
    else (case ensure_empty_pin_dir (st_mkdir io) (st_stat io) (st_entries io) of
        Inl e \<Rightarrow> Refused
      | Inr _ \<Rightarrow>
          if st_socket io \<noteq> None then Out initial_vars w
          else (case ace_hwtstamp_capture dev (lw_device w) (Some (lo_ifname options)) zero_state of
              (r, state) \<Rightarrow>
                (let v = initial_vars\<lparr>lv_hwtstamp_fd := True, lv_hwtstamp := state\<rparr> in
                 case r of
                   Inl e \<Rightarrow> Out v w
                 | Inr _ \<Rightarrow> (case start_maps dev io options v w of (v, w) \<Rightarrow> Out v w)))))"

text \<open>The exit code and the world after the run.\<close>

definition loader_main ::
  "nat \<Rightarrow> 'd hwtstamp_dev \<Rightarrow> start_io \<Rightarrow> shutdown_io \<Rightarrow> loader_options \<Rightarrow> 'd loader_world \<Rightarrow> (nat \<times> 'd loader_world) option" where
  "loader_main fuel dev sio dio options w =
   (case loader_start dev sio options w of
      Refused \<Rightarrow> Some (1, w)
    | Out v w \<Rightarrow>
        (case loader_shutdown fuel dev dio options v w of
           None \<Rightarrow> None
         | Some (v, w) \<Rightarrow> Some (lv_result v, w)))"

section \<open>What a successful start has done\<close>

lemma capture_ok:
  assumes "ace_hwtstamp_capture dev d name st = (Inr u, st')"
  shows "\<exists>cfg. dev_get dev d = Inr cfg \<and> hs_saved st' = cfg \<and> hs_effective st' = cfg \<and> hs_active st'"
  using assms
  by (auto simp: ace_hwtstamp_capture_def ace_hwtstamp_query_def Let_def split: option.splits if_splits sum.splits)

lemma enable_ok:
  assumes "loader_enable_hwtstamp dev pub ifname d rt st = (True, st', rt', d', trace)"
  obtains p where "ace_hwtstamp_prepare_rx_all st = (Inr (), p)" "dev_get dev d = Inr (hs_saved st)"
    "ace_hwtstamp_apply_prepared_rx_all dev d p = (Inr (), st', d')"
    "rt' = runtime_set_hwtstamp (runtime_set_hwtstamp_applying rt p) st' True" "last trace = (rt', d')"
  using assms
  by (auto simp: loader_enable_hwtstamp_def ace_hwtstamp_query_def Let_def split: sum.splits prod.splits if_splits option.splits)

lemma enable_ok_state:
  assumes "hwtstamp_law dev" "loader_enable_hwtstamp dev pub ifname d rt st = (True, st', rt', d', trace)" "hs_active st"
  shows "hs_saved st' = hs_saved st \<and> hs_active st' \<and> dev_get dev d = Inr (hs_saved st) \<and>
    (\<exists>cur. dev_get dev d' = Inr cur \<and> (cur = hs_effective st' \<or> cur = hs_saved st'))"
  using assms(2)
proof (cases rule: enable_ok)
  case (1 p)
  have "hs_saved p = hs_saved st" "hs_active p"
    using 1(1) assms(3) by (auto simp: ace_hwtstamp_prepare_rx_all_def Let_def)
  with apply_prepared_outcome [OF assms(1) _ 1(3)] 1(2) show ?thesis by auto
qed

lemma start_attach_success:
  assumes "start_attach dev io options v w = (v', w')" "lv_result v' = 0" "lv_result v = 1" "hwtstamp_law dev"
    and st: "hs_active (lv_hwtstamp v)" "dev_get dev (lw_device w) = Inr (hs_saved (lv_hwtstamp v))"
    and "\<not> lv_attached v" "\<not> lv_measurement_complete v"
  shows "lv_maps_pinned v' = lv_maps_pinned v \<and> lv_preserve_pins v' = lv_preserve_pins v \<and> lv_hwtstamp_fd v' = lv_hwtstamp_fd v \<and>
    lv_attached v' = lv_measurement_complete v' \<and> hs_active (lv_hwtstamp v') \<and> hs_saved (lv_hwtstamp v') = hs_saved (lv_hwtstamp v) \<and>
    (\<exists>cur. dev_get dev (lw_device w') = Inr cur \<and> (cur = hs_effective (lv_hwtstamp v') \<or> cur = hs_saved (lv_hwtstamp v'))) \<and>
    lw_pins w' = lw_pins w \<and> (\<not> lv_attached v' \<longrightarrow> lw_driver_id w' = lw_driver_id w) \<and> lw_files w' = lw_files w"
proof (cases "st_stop io")
  case True
  with assms show ?thesis by (auto simp: start_attach_def)
next
  case False
  obtain ok state runtime d trace where e: "loader_enable_hwtstamp dev (st_published io) (lo_ifname options) (lw_device w)
      (lv_runtime v) (lv_hwtstamp v) = (ok, state, runtime, d, trace)"
    by (cases "loader_enable_hwtstamp dev (st_published io) (lo_ifname options) (lw_device w) (lv_runtime v) (lv_hwtstamp v)")
  have ok: "ok" using False e assms(1,2,3) by (auto simp: start_attach_def Let_def split: option.splits if_splits)
  then have "v' = v\<lparr>lv_attached := True, lv_hwtstamp := state, lv_runtime := runtime, lv_measurement_complete := True, lv_result := 0\<rparr>"
    "w' = w\<lparr>lw_driver_id := lv_owned_id v, lw_device := d, lw_runtime := fst (last trace)\<rparr>"
    using False e assms(1,2,3) by (auto simp: start_attach_def Let_def split: option.splits if_splits)
  moreover have "hs_saved state = hs_saved (lv_hwtstamp v) \<and> hs_active state \<and>
      (\<exists>cur. dev_get dev d = Inr cur \<and> (cur = hs_effective state \<or> cur = hs_saved state))"
    using enable_ok_state [OF assms(4) e [unfolded eqTrueI [OF ok]] st(1)] by blast
  ultimately show ?thesis by auto
qed

text \<open>How far a start got when it delivered a result other than the initial 1, or a completed measurement.\<close>

lemma start_maps_reached:
  assumes "start_maps dev io options v w = (v', w')" "lv_result v = 1" "\<not> lv_measurement_complete v"
    "lv_result v' = 0 \<or> lv_measurement_complete v'"
  obtains owned ticks rt pins where "st_program_id io = Inr owned" "st_ticks io = Inr ticks"
    "rt = runtime_set_hwtstamp (loader_runtime io options owned ticks) (lv_hwtstamp v) False"
    "pin_measurement_maps (st_pin io) (st_unpin io) True (lw_pins w) = (Inr (), pins)"
    "start_attach dev io options (v\<lparr>lv_owned_id := owned, lv_runtime := rt, lv_maps_pinned := True\<rparr>)
       (w\<lparr>lw_runtime := rt, lw_pins := pins\<rparr>) = (v', w')"
proof -
  obtain owned ticks where o: "st_program_id io = Inr owned" "st_ticks io = Inr ticks"
    using assms by (auto simp: start_maps_def Let_def split: if_splits sum.splits)
  let ?rt = "runtime_set_hwtstamp (loader_runtime io options owned ticks) (lv_hwtstamp v) False"
  obtain r cpus published where c: "configure_maps (st_remote_fd io) (st_cpu_fault io) (st_runtime_fault io) ?rt
      (Map.empty, blank_runtime) = (r, cpus, published)"
    by (cases "configure_maps (st_remote_fd io) (st_cpu_fault io) (st_runtime_fault io) ?rt (Map.empty, blank_runtime)")
  have r: "r = Inr ()" using assms o c by (cases r) (auto simp: start_maps_def Let_def split: if_splits sum.splits)
  then have p: "published = ?rt" using c by (auto simp: configure_maps_def Let_def split: if_splits option.splits)
  obtain pr pins where pn: "pin_measurement_maps (st_pin io) (st_unpin io) True (lw_pins w) = (pr, pins)" by fastforce
  have "pr = Inr ()" using assms o c r pn by (cases pr) (auto simp: start_maps_def Let_def split: if_splits sum.splits)
  moreover have "start_attach dev io options (v\<lparr>lv_owned_id := owned, lv_runtime := ?rt, lv_maps_pinned := True\<rparr>)
       (w\<lparr>lw_runtime := ?rt, lw_pins := pins\<rparr>) = (v', w')"
    using assms o c r pn p calculation by (auto simp: start_maps_def Let_def split: if_splits sum.splits)
  ultimately show ?thesis using that o pn by simp
qed

lemma loader_start_reached:
  assumes "loader_start dev io options w = Out v' w'" "lv_result v' = 0 \<or> lv_measurement_complete v'"
  obtains state where "ace_hwtstamp_capture dev (lw_device w) (Some (lo_ifname options)) zero_state = (Inr (), state)"
    "lw_driver_id w = 0" "st_ifindex io \<noteq> 0"
    "start_maps dev io options (initial_vars\<lparr>lv_hwtstamp_fd := True, lv_hwtstamp := state\<rparr>) w = (v', w')"
proof -
  obtain r state where c: "ace_hwtstamp_capture dev (lw_device w) (Some (lo_ifname options)) zero_state = (r, state)" by fastforce
  show ?thesis
    using assms c that [of state]
    by (cases r) (auto simp: loader_start_def initial_vars_def Let_def split: if_splits sum.splits prod.splits)
qed

text \<open>
  Property C3.  A run that ends with exit code 0 leaves no trace: the interface has no driver-mode
  program, as before, the device has the timestamp configuration it had before, and no pin remains.
  This holds for every outcome of the calls, whether the run was stopped
  before attaching or measured to the end, and for every driver that reports what it adopted.
\<close>

theorem loader_run_leaves_no_trace:
  assumes "loader_main fuel dev sio dio options w = Some (0, w')" "hwtstamp_law dev" "lw_pins w = {}"
  shows "lw_driver_id w = 0 \<and> lw_driver_id w' = 0 \<and> dev_get dev (lw_device w') = dev_get dev (lw_device w) \<and> lw_pins w' = {}"
proof -
  obtain v w1 where s: "loader_start dev sio options w = Out v w1"
    using assms(1) by (cases "loader_start dev sio options w") (auto simp: loader_main_def)
  obtain v' where d: "loader_shutdown fuel dev dio options v w1 = Some (v', w')" "lv_result v' = 0"
    using assms(1) s by (auto simp: loader_main_def split: option.splits)
  have r0: "lv_result v = 0" by (rule shutdown_result [OF d])
  from s disjI1 [OF r0] show ?thesis
  proof (cases rule: loader_start_reached)
    case (1 state)
    obtain cfg where cfg: "dev_get dev (lw_device w) = Inr cfg" "hs_saved state = cfg" "hs_active state"
      using capture_ok [OF 1(1)] by blast
    from 1(4) _ _ disjI1 [OF r0] show ?thesis
    proof (rule start_maps_reached)
      fix owned ticks rt pins
      let ?v = "initial_vars\<lparr>lv_hwtstamp_fd := True, lv_hwtstamp := state\<rparr>"
      assume a: "pin_measurement_maps (st_pin sio) (st_unpin sio) True (lw_pins w) = (Inr (), pins)"
        "start_attach dev sio options (?v\<lparr>lv_owned_id := owned, lv_runtime := rt, lv_maps_pinned := True\<rparr>)
          (w\<lparr>lw_runtime := rt, lw_pins := pins\<rparr>) = (v, w1)"
      have pins: "pins = set pin_paths"
        using pin_maps_outcome [of "st_pin sio" "st_unpin sio" "[]" pin_paths "{}" "Inr ()" pins "{}"] a(1) assms(3)
        by (simp add: pin_measurement_maps_def)
      have f: "lv_maps_pinned v" "\<not> lv_preserve_pins v" "lv_hwtstamp_fd v" "lv_attached v = lv_measurement_complete v"
        "hs_active (lv_hwtstamp v)" "hs_saved (lv_hwtstamp v) = cfg"
        "\<exists>cur. dev_get dev (lw_device w1) = Inr cur \<and> (cur = hs_effective (lv_hwtstamp v) \<or> cur = hs_saved (lv_hwtstamp v))"
        "lw_pins w1 = pins" "\<not> lv_attached v \<longrightarrow> lw_driver_id w1 = lw_driver_id w"
        using start_attach_success [OF a(2) r0 _ assms(2)] cfg by (auto simp: initial_vars_def)
      then obtain cur where cur: "dev_get dev (lw_device w1) = Inr cur"
        "cur = hs_effective (lv_hwtstamp v) \<or> cur = hs_saved (lv_hwtstamp v)" by blast
      have "dev_get dev (lw_device w) = Inr (hs_saved (lv_hwtstamp v))" using cfg(1) f(6) by simp
      from shutdown_clean [OF d f(1-4) assms(2) f(5) cur this] show ?thesis
        using f 1(2) pins cfg by auto
    qed (simp_all add: initial_vars_def)
  qed
qed

section \<open>The published record\<close>

lemma apply_prepared_filter:
  assumes "ace_hwtstamp_apply_prepared_rx_all dev d st = (Inr (), st', d')"
  shows "hc_rx_filter (hs_effective st') = HWTSTAMP_FILTER_ALL"
  using assms
  by (auto simp: ace_hwtstamp_apply_prepared_rx_all_def Let_def split: if_splits sum.splits prod.splits)

lemma start_attach_complete:
  assumes "start_attach dev io options v w = (v', w')" "lv_measurement_complete v'" "\<not> lv_measurement_complete v"
  obtains p st where "lw_runtime w' = runtime_set_hwtstamp (runtime_set_hwtstamp_applying (lv_runtime v) p) st True"
    "hc_rx_filter (hs_effective st) = HWTSTAMP_FILTER_ALL" "lw_driver_id w' = lv_owned_id v"
proof -
  obtain ok state runtime d trace where e: "loader_enable_hwtstamp dev (st_published io) (lo_ifname options) (lw_device w)
      (lv_runtime v) (lv_hwtstamp v) = (ok, state, runtime, d, trace)"
    by (cases "loader_enable_hwtstamp dev (st_published io) (lo_ifname options) (lw_device w) (lv_runtime v) (lv_hwtstamp v)")
  have ok: ok using e assms by (auto simp: start_attach_def Let_def split: option.splits if_splits)
  have w: "lw_runtime w' = fst (last trace)" "lw_driver_id w' = lv_owned_id v"
    using e ok assms by (auto simp: start_attach_def Let_def split: option.splits if_splits)
  from e [unfolded eqTrueI [OF ok]] show ?thesis
  proof (cases rule: enable_ok)
    case (1 p)
    show ?thesis by (rule that [of p state]) (use 1 w apply_prepared_filter [OF 1(3)] in simp_all)
  qed
qed

lemma runtime_fields:
  "rc_abi_version (runtime_set_hwtstamp rt st b) = rc_abi_version rt" "rc_ifindex (runtime_set_hwtstamp rt st b) = rc_ifindex rt"
  "rc_record_capacity (runtime_set_hwtstamp rt st b) = rc_record_capacity rt"
  "rc_xdp_program_id (runtime_set_hwtstamp rt st b) = rc_xdp_program_id rt" "rc_owner_pid (runtime_set_hwtstamp rt st b) = rc_owner_pid rt"
  "rc_owner_start_ticks (runtime_set_hwtstamp rt st b) = rc_owner_start_ticks rt"
  "rc_effective_hwtstamp_rx_filter (runtime_set_hwtstamp rt st b) = hc_rx_filter (hs_effective st)"
  "rc_flags (runtime_set_hwtstamp rt st b) =
     (let f = (rc_flags rt OR 1) AND NOT 6 in if b then f OR 4 else f)"
  by (simp_all add: runtime_set_hwtstamp_def Let_def)

lemma applying_fields:
  "rc_abi_version (runtime_set_hwtstamp_applying rt st) = rc_abi_version rt" "rc_ifindex (runtime_set_hwtstamp_applying rt st) = rc_ifindex rt"
  "rc_record_capacity (runtime_set_hwtstamp_applying rt st) = rc_record_capacity rt"
  "rc_xdp_program_id (runtime_set_hwtstamp_applying rt st) = rc_xdp_program_id rt" "rc_owner_pid (runtime_set_hwtstamp_applying rt st) = rc_owner_pid rt"
  "rc_owner_start_ticks (runtime_set_hwtstamp_applying rt st) = rc_owner_start_ticks rt"
  "rc_flags (runtime_set_hwtstamp_applying rt st) = ((rc_flags rt OR 1) AND NOT 6) OR 2"
  by (simp_all add: runtime_set_hwtstamp_applying_def runtime_fields Let_def)

text \<open>
  Property C15.  The loader and its clients agree on the runtime record: once the measurement runs, the
  record in the map names the attached program; an AF_XDP receiver on the same interface accepts it in
  the modes that use AF_XDP and refuses it with EINVAL in the all-pass mode; and \<^verbatim>\<open>--recover\<close> accepts
  it in every mode.
\<close>

theorem published_record_accepted:
  assumes "loader_start dev io options w = Out v w'" "lv_measurement_complete v"
    and "0 < unat (lo_record_capacity options)" "unat (lo_record_capacity options) \<le> ACE_XDP_RECORD_MAX_ENTRIES"
    and "st_pid io \<noteq> 0" "st_program_id io = Inr owned" "owned \<noteq> 0" "st_ticks io = Inr ticks" "ticks \<noteq> 0"
  shows "rc_xdp_program_id (lw_runtime w') = lw_driver_id w' \<and>
    receiver_runtime_check (st_ifindex io) (lw_runtime w') =
      (if lo_mode options = ACE_FORWARD_ALL_PASS then Inl EINVAL else Inr ()) \<and>
    runtime_recoverable (st_ifindex io) (lw_runtime w')"
  using assms(1) disjI2 [OF assms(2)]
proof (cases rule: loader_start_reached)
  case (1 state)
  let ?v = "initial_vars\<lparr>lv_hwtstamp_fd := True, lv_hwtstamp := state\<rparr>"
  from 1(4) _ _ disjI2 [OF assms(2)] show ?thesis
  proof (rule start_maps_reached)
    fix o2 t2 rt pins
    assume "st_program_id io = Inr o2" "st_ticks io = Inr t2"
      and r: "rt = runtime_set_hwtstamp (loader_runtime io options o2 t2) (lv_hwtstamp ?v) False"
      and a: "start_attach dev io options (?v\<lparr>lv_owned_id := o2, lv_runtime := rt, lv_maps_pinned := True\<rparr>)
          (w\<lparr>lw_runtime := rt, lw_pins := pins\<rparr>) = (v, w')"
    then have o: "o2 = owned" "t2 = ticks" using assms(6,8) by simp_all
    from a assms(2) show ?thesis
    proof (rule start_attach_complete)
      fix p st
      assume "lw_runtime w' = runtime_set_hwtstamp (runtime_set_hwtstamp_applying
          (lv_runtime (?v\<lparr>lv_owned_id := o2, lv_runtime := rt, lv_maps_pinned := True\<rparr>)) p) st True"
        "hc_rx_filter (hs_effective st) = HWTSTAMP_FILTER_ALL"
        "lw_driver_id w' = lv_owned_id (?v\<lparr>lv_owned_id := o2, lv_runtime := rt, lv_maps_pinned := True\<rparr>)"
      with o have w': "lw_runtime w' = runtime_set_hwtstamp (runtime_set_hwtstamp_applying rt p) st True"
        "hc_rx_filter (hs_effective st) = HWTSTAMP_FILTER_ALL" "lw_driver_id w' = owned" by simp_all
      have c: "lo_record_capacity options \<noteq> 0" using assms(3) by auto
      show ?thesis
        unfolding receiver_runtime_check_def runtime_recoverable_def w' r runtime_fields applying_fields o loader_runtime_def
        using assms(4,5,7,9) c by (simp add: blank_runtime_def Let_def)
    qed (simp_all add: initial_vars_def)
  qed (simp_all add: initial_vars_def)
qed

section \<open>Witnesses\<close>

definition sample_start :: start_io where
  "sample_start = \<lparr>st_query = None, st_mkdir = None, st_stat = Inr True, st_entries = Inr [''.'', ''..''],
     st_socket = None, st_open = True, st_capacity = True, st_flags = None, st_load = None,
     st_info = (\<lambda>name. case map_of (map_schemas 16) name of
        None \<Rightarrow> Inl ENOENT
      | Some (t, k, v, n) \<Rightarrow> Inr \<lparr>mi_type = t, mi_id = 1, mi_key_size = k, mi_value_size = v, mi_max_entries = n, mi_name = name\<rparr>),
     st_program_id = Inr 9, st_ifindex = 2, st_pid = 1000, st_ticks = Inr 77, st_remote_fd = 7, st_cpu_fault = None,
     st_runtime_fault = None, st_pin = (\<lambda>_. None), st_unpin = (\<lambda>_. None), st_stop = False, st_attach = None,
     st_published = (\<lambda>_. True), st_ready = None\<rparr>"

definition fresh_world :: "hwtstamp_config loader_world" where
  "fresh_world = \<lparr>lw_runtime = blank_runtime, lw_owners = Map.empty, lw_driver_id = 0, lw_device = ptp_config,
     lw_pins = {}, lw_files = Map.empty\<rparr>"

abbreviation small_output :: loader_options where "small_output \<equiv> sample_output\<lparr>lo_record_capacity := 16\<rparr>"

lemma sample_capture:
  "ace_hwtstamp_capture exact_dev ptp_config (Some ''eth0'') zero_state = (Inr (), captured_ptp)"
  by (simp add: ace_hwtstamp_capture_def ace_hwtstamp_query_def exact_dev_def zero_state_def)

lemma sample_enable:
  "\<exists>rt' trace. loader_enable_hwtstamp exact_dev (\<lambda>_. True) ''eth0'' ptp_config rt captured_ptp =
     (True, captured_ptp\<lparr>hs_effective := ptp_config\<lparr>hc_flags := 0, hc_rx_filter := HWTSTAMP_FILTER_ALL\<rparr>,
        hs_changed := ptp_config \<noteq> ptp_config\<lparr>hc_flags := 0, hc_rx_filter := HWTSTAMP_FILTER_ALL\<rparr>\<rparr>,
      rt', ptp_config\<lparr>hc_flags := 0, hc_rx_filter := HWTSTAMP_FILTER_ALL\<rparr>, trace)"
  by (simp add: loader_enable_hwtstamp_def ace_hwtstamp_query_def ace_hwtstamp_prepare_rx_all_def
      ace_hwtstamp_apply_prepared_rx_all_def exact_dev_def zero_state_def Let_def)

lemma sample_started:
  obtains v w' where "loader_start exact_dev sample_start small_output fresh_world = Out v w'" "lv_measurement_complete v"
    "lv_attached v" "lv_result v = 0" "lv_maps_pinned v" "\<not> lv_preserve_pins v" "lv_hwtstamp_fd v" "lv_owned_id v = 9" "lw_driver_id w' = 9"
    "lw_files w' = Map.empty" "lw_owners w' = Map.empty" "lw_device w' = hs_effective (lv_hwtstamp v)"
    "lv_hwtstamp v = captured_ptp\<lparr>hs_effective := ptp_config\<lparr>hc_flags := 0, hc_rx_filter := HWTSTAMP_FILTER_ALL\<rparr>,
        hs_changed := ptp_config \<noteq> ptp_config\<lparr>hc_flags := 0, hc_rx_filter := HWTSTAMP_FILTER_ALL\<rparr>\<rparr>"
proof -
  let ?rt = "runtime_set_hwtstamp (loader_runtime sample_start small_output 9 77) captured_ptp False"
  obtain rt' trace where e: "loader_enable_hwtstamp exact_dev (\<lambda>_. True) ''eth0'' ptp_config ?rt captured_ptp =
     (True, captured_ptp\<lparr>hs_effective := ptp_config\<lparr>hc_flags := 0, hc_rx_filter := HWTSTAMP_FILTER_ALL\<rparr>,
        hs_changed := ptp_config \<noteq> ptp_config\<lparr>hc_flags := 0, hc_rx_filter := HWTSTAMP_FILTER_ALL\<rparr>\<rparr>,
      rt', ptp_config\<lparr>hc_flags := 0, hc_rx_filter := HWTSTAMP_FILTER_ALL\<rparr>, trace)" using sample_enable by blast
  have sel: "st_query sample_start = None" "st_mkdir sample_start = None" "st_stat sample_start = Inr True"
    "st_entries sample_start = Inr [''.'', ''..'']" "st_socket sample_start = None" "st_open sample_start" "st_capacity sample_start"
    "st_flags sample_start = None" "st_load sample_start = None" "st_program_id sample_start = Inr 9" "st_ifindex sample_start = 2"
    "st_ticks sample_start = Inr 77" "st_remote_fd sample_start = 7" "st_cpu_fault sample_start = None"
    "st_runtime_fault sample_start = None" "st_pin sample_start = (\<lambda>_. None)" "st_unpin sample_start = (\<lambda>_. None)"
    "\<not> st_stop sample_start" "st_attach sample_start = None" "st_published sample_start = (\<lambda>_. True)" "st_ready sample_start = None"
    "lo_ifname small_output = ''eth0''" "lo_record_capacity small_output = 16"
    by (simp_all add: sample_start_def sample_output_def loader_defaults_def)
  have maps: "validate_maps (st_info sample_start) 16 = Inr ()"
    by (simp add: validate_maps_def map_schemas_def sample_start_def validate_map_def)
  have "\<exists>cpus. configure_maps 7 None None ?rt (Map.empty, blank_runtime) = (Inr (), cpus, ?rt)"
    by (simp add: configure_maps_def Let_def)
  then obtain cpus where conf: "configure_maps 7 None None ?rt (Map.empty, blank_runtime) = (Inr (), cpus, ?rt)" by blast
  obtain pins where pin: "pin_measurement_maps (\<lambda>_. None) (\<lambda>_. None) True {} = (Inr (), pins)"
    by (simp add: pin_measurement_maps_def pin_paths_def)
  have "\<exists>v w'. loader_start exact_dev sample_start small_output fresh_world = Out v w' \<and> lv_measurement_complete v \<and>
    lv_attached v \<and> lv_result v = 0 \<and> lv_maps_pinned v \<and> \<not> lv_preserve_pins v \<and> lv_hwtstamp_fd v \<and> lv_owned_id v = 9 \<and> lw_driver_id w' = 9 \<and>
    lw_files w' = Map.empty \<and> lw_owners w' = Map.empty \<and> lw_device w' = hs_effective (lv_hwtstamp v) \<and>
    lv_hwtstamp v = captured_ptp\<lparr>hs_effective := ptp_config\<lparr>hc_flags := 0, hc_rx_filter := HWTSTAMP_FILTER_ALL\<rparr>,
        hs_changed := ptp_config \<noteq> ptp_config\<lparr>hc_flags := 0, hc_rx_filter := HWTSTAMP_FILTER_ALL\<rparr>\<rparr>"
    using e
    by (simp add: loader_start_def start_maps_def start_attach_def sel maps conf pin sample_capture ensure_empty_pin_dir_def
        fresh_world_def initial_vars_def Let_def)
  then show ?thesis using that by blast
qed

theorem published_record_accepted_witness:
  "\<exists>v w'. loader_start exact_dev sample_start small_output fresh_world = Out v w' \<and>
     receiver_runtime_check 2 (lw_runtime w') = Inr () \<and> runtime_recoverable 2 (lw_runtime w')"
proof (rule sample_started)
  fix v w' assume s: "loader_start exact_dev sample_start small_output fresh_world = Out v w'" "lv_measurement_complete v"
  show ?thesis using published_record_accepted [OF s, of 9 77] s(1)
    by (simp add: sample_start_def sample_output_def loader_defaults_def)
qed

theorem loader_run_leaves_no_trace_witness:
  "\<exists>w'. loader_main 2 exact_dev sample_start sample_calls small_output fresh_world = Some (0, w') \<and>
     lw_driver_id w' = 0 \<and> dev_get exact_dev (lw_device w') = Inr ptp_config \<and> lw_pins w' = {}"
proof (rule sample_started)
  fix v w1
  assume s: "loader_start exact_dev sample_start small_output fresh_world = Out v w1" "lv_measurement_complete v"
    "lv_attached v" "lv_result v = 0" "lv_maps_pinned v" "\<not> lv_preserve_pins v" "lv_hwtstamp_fd v" "lv_owned_id v = 9" "lw_driver_id w1 = 9"
    "lw_files w1 = Map.empty" "lw_owners w1 = Map.empty" "lw_device w1 = hs_effective (lv_hwtstamp v)"
    "lv_hwtstamp v = captured_ptp\<lparr>hs_effective := ptp_config\<lparr>hc_flags := 0, hc_rx_filter := HWTSTAMP_FILTER_ALL\<rparr>,
        hs_changed := ptp_config \<noteq> ptp_config\<lparr>hc_flags := 0, hc_rx_filter := HWTSTAMP_FILTER_ALL\<rparr>\<rparr>"
  obtain rep where d: "wait_for_cpumap_records 4 True (\<lambda>_. maps_lookup [0, 1, 2, 3] sample_maps) = Inr rep"
    using sample_drained by blast
  have m: "make_output_path n small_output x = make_output_path n sample_output x" for n x
    by (simp add: make_output_path_def)
  have "prepare_measurement_paths (ex_dir sample_export) small_output Map.empty =
    prepare_measurement_paths (ex_dir sample_export) sample_output Map.empty"
    unfolding prepare_measurement_paths_def m ..
  then have "export_measurement_files 2 sample_export small_output Map.empty =
    export_measurement_files 2 sample_export sample_output Map.empty" unfolding export_measurement_files_def by simp
  then obtain fs' where f: "export_measurement_files 2 sample_export small_output Map.empty = Some (Inr (), fs')"
    using sample_files by auto
  have "\<exists>w'. loader_main 2 exact_dev sample_start sample_calls small_output fresh_world = Some (0, w')"
    using s d f sample_scan
    by (simp add: loader_main_def loader_shutdown_def shutdown_detach_def shutdown_export_def shutdown_restore_def shutdown_unpin_def
        sample_calls_def Let_def detach_if_owned_def result_of_def ace_hwtstamp_restore_allow_saved_def exact_dev_def
        pin_measurement_maps_def pin_paths_def)
  then obtain w' where w': "loader_main 2 exact_dev sample_start sample_calls small_output fresh_world = Some (0, w')" by blast
  show ?thesis using loader_run_leaves_no_trace [OF w' exact_dev_law] w' by (auto simp: fresh_world_def exact_dev_def)
qed

end
