(* ===== verification/Run_Control.thy ===== *)
theory Run_Control
  imports Csv_Export
begin

text \<open>
  The run-control helpers of \<^verbatim>\<open>include/ace_run_control.h\<close>: exclusive creation and checked completion
  of a file, and the atomic publication of a readiness marker; and the program
  \<^verbatim>\<open>udp_socket/src/ace_clock.c\<close>, which prints a start deadline.  A publication is modelled with the
  file system after each of its calls, so that the contract \<open>link_publisher\<close> can say what a reader
  sees at every moment.
\<close>

section \<open>Text of signed integers\<close>

text \<open>\<^verbatim>\<open>%ld\<close> and \<^verbatim>\<open>%lld\<close>.\<close>

definition show_int :: "int \<Rightarrow> string" where
  "show_int i = (if i < 0 then CHR ''-'' # show_nat (nat (- i)) else show_nat (nat i))"

definition read_int :: "string \<Rightarrow> int" where
  "read_int s = (case s of
     [] \<Rightarrow> 0
   | c # cs \<Rightarrow> if c = CHR ''-'' then - int (dec_val cs) else int (dec_val s))"

lemma read_show_int [simp]: "read_int (show_int i) = i"
proof (cases "i < 0")
  case False
  obtain c cs where c: "show_nat (nat i) = c # cs" by (cases "show_nat (nat i)") auto
  have "dec_val (c # cs) = nat i" using dec_val_show_nat [of "nat i"] by (simp only: c)
  with False show_nat_hd [OF c] show ?thesis by (simp add: read_int_def show_int_def c)
qed (simp add: read_int_def show_int_def)

lemma plain_show_int [simp]: "plain_text (show_int i)"
  using plain_digits [OF show_nat_digits] by (auto simp: show_int_def plain_text_def)

section \<open>Streams\<close>

text \<open>The result of \<^verbatim>\<open>clock_gettime\<close> as nanoseconds; \<^verbatim>\<open>-1\<close> when the call fails.\<close>

definition ace_mono_ns :: "(int \<times> int) option \<Rightarrow> int" where
  "ace_mono_ns ts = (case ts of None \<Rightarrow> -1 | Some (sec, nsec) \<Rightarrow> sec * 1000000000 + nsec)"

definition unlink_file :: "errno option \<Rightarrow> string \<Rightarrow> files \<Rightarrow> files" where
  "unlink_file fault path fs = (case fault of Some e \<Rightarrow> fs | None \<Rightarrow> fs(path := None))"

definition ace_open_exclusive_stream :: "file_io \<Rightarrow> errno option \<Rightarrow> string \<Rightarrow> files \<Rightarrow> (errno + unit) \<times> files" where
  "ace_open_exclusive_stream io unlink_fault path fs =
     (if path \<in> dom fs then (Inl EEXIST, fs)
      else (case io_open io of
          Some e \<Rightarrow> (Inl e, fs)
        | None \<Rightarrow>
            (case io_fdopen io of
               Some e \<Rightarrow> (Inl e, unlink_file unlink_fault path (fs(path \<mapsto> [])))
             | None \<Rightarrow> (Inr (), fs(path \<mapsto> [])))))"

text \<open>
  The first failing call gives the error; \<^verbatim>\<open>fclose\<close> runs in every case.  \<open>text\<close> is what was
  written to the stream.
\<close>

definition finish_error :: "file_io \<Rightarrow> errno option" where
  "finish_error io =
     (let error = (case io_flush io of Some e \<Rightarrow> Some (if e \<noteq> 0 then e else EIO) | None \<Rightarrow> None);
          error = (if error = None then io_fsync io else error) in
      if error = None then io_fclose io else error)"

definition ace_finish_stream :: "file_io \<Rightarrow> string \<Rightarrow> string \<Rightarrow> files \<Rightarrow> (errno + unit) \<times> files" where
  "ace_finish_stream io path text fs =
     (case finish_error io of
        Some e \<Rightarrow> (Inl e, fs(path \<mapsto> io_left io text))
      | None \<Rightarrow> (Inr (), fs(path \<mapsto> text)))"

section \<open>Publication by link\<close>

text \<open>
  What the publishers of a marker promise.  \<open>publish\<close> gives the result and the file system before the
  first call and after each call.  \<open>target\<close> is the published path, \<open>complete\<close> the full text, and
  \<open>tidy\<close> says that removing the temporary file works.
\<close>

locale link_publisher =
  fixes publish :: "'io \<Rightarrow> files \<Rightarrow> (errno + unit) \<times> files list"
    and target :: "'io \<Rightarrow> string"
    and complete :: "'io \<Rightarrow> string"
    and tidy :: "'io \<Rightarrow> bool"
  assumes trace_starts: "publish io fs = (r, trace) \<Longrightarrow> trace \<noteq> [] \<and> hd trace = fs"
    and trace_target: "publish io fs = (r, trace) \<Longrightarrow> s \<in> set trace \<Longrightarrow>
      s (target io) = fs (target io) \<or> target io \<notin> dom fs \<and> s (target io) = Some (complete io)"
    and trace_others: "publish io fs = (r, trace) \<Longrightarrow> s \<in> set trace \<Longrightarrow> p \<noteq> target io \<Longrightarrow> p \<in> dom fs \<Longrightarrow> s p = fs p"
    and success: "publish io fs = (Inr (), trace) \<Longrightarrow> tidy io \<Longrightarrow>
      target io \<notin> dom fs \<and> last trace = fs(target io \<mapsto> complete io)"
    and failure: "publish io fs = (Inl e, trace) \<Longrightarrow> tidy io \<Longrightarrow> last trace = fs"
begin

text \<open>A reader never sees a partial text, at no moment of the publication.\<close>

lemma never_partial:
  assumes "publish io fs = (r, trace)" "s \<in> set trace" "s (target io) = Some text" "target io \<notin> dom fs"
  shows "text = complete io"
  using trace_target [OF assms(1,2)] assms(3,4) by (auto simp: dom_def)

text \<open>No file that existed before is changed or removed.\<close>

lemma keeps_existing:
  assumes "publish io fs = (r, trace)" "s \<in> set trace" "fs p = Some text"
  shows "s p = Some text"
  using trace_target [OF assms(1,2)] trace_others [OF assms(1,2), of p] assms(3) by (cases "p = target io") (auto simp: domIff)

text \<open>A marker is published at most once.\<close>

lemma published_once:
  assumes "publish io fs = (Inr (), trace)" "tidy io" "publish io' (last trace) = (r, trace')"
    "target io' = target io" "tidy io'"
  shows "r \<noteq> Inr () \<and> last trace' = last trace"
proof -
  have "target io \<in> dom (last trace)" using success [OF assms(1,2)] by auto
  then show ?thesis using success [of io' "last trace" trace'] failure [of io' "last trace"] assms(3-5)
    by (cases r) auto
qed

end

text \<open>
  The traces of such a publisher: nothing happens; or a temporary file that did not exist changes and
  goes away; or the text is written under the temporary name, linked to the target, and the temporary
  name is removed.
\<close>

definition link_shape :: "files \<Rightarrow> string \<Rightarrow> string \<Rightarrow> errno option \<Rightarrow> (errno + unit) \<Rightarrow> files list \<Rightarrow> bool" where
  "link_shape fs target text fault r trace \<longleftrightarrow>
     (\<exists>e. r = Inl e) \<and> trace = [fs] \<or>
     (\<exists>e temporary. r = Inl e \<and> temporary \<noteq> target \<and> temporary \<notin> dom fs \<and> hd trace = fs \<and> trace \<noteq> [] \<and>
        (\<forall>s \<in> set trace. s = fs \<or> (\<exists>t. s = fs(temporary \<mapsto> t))) \<and> (fault = None \<longrightarrow> last trace = fs)) \<or>
     (\<exists>temporary. r = Inr () \<and> temporary \<noteq> target \<and> temporary \<notin> dom fs \<and> target \<notin> dom fs \<and>
        trace = [fs, fs(temporary \<mapsto> []), fs(temporary \<mapsto> text), fs(temporary \<mapsto> text, target \<mapsto> text),
          unlink_file fault temporary (fs(temporary \<mapsto> text, target \<mapsto> text))])"

text \<open>A trace that ends before the final \<^verbatim>\<open>unlink\<close> in an error.\<close>

lemma link_shape_failed:
  assumes "hd tr = fs" "tr \<noteq> []" "\<And>s. s \<in> set tr \<Longrightarrow> s = fs \<or> (\<exists>t. s = fs(temporary \<mapsto> t))" "temporary \<noteq> target" "temporary \<notin> dom fs"
  shows "link_shape fs target text fault (Inl e) (tr @ [unlink_file fault temporary (last tr)])"
proof -
  have del: "s(temporary := None) = fs" if "s = fs \<or> (\<exists>t. s = fs(temporary \<mapsto> t))" for s
    using that assms(5) by (auto simp: fun_eq_iff domIff)
  have l: "last tr = fs \<or> (\<exists>t. last tr = fs(temporary \<mapsto> t))" using assms(2,3) by simp
  have "\<forall>s \<in> set (tr @ [unlink_file fault temporary (last tr)]). s = fs \<or> (\<exists>t. s = fs(temporary \<mapsto> t))"
    using assms(3) l del [OF l] by (auto simp: unlink_file_def split: option.splits)
  moreover have "fault = None \<longrightarrow> last (tr @ [unlink_file fault temporary (last tr)]) = fs" using del [OF l] by (simp add: unlink_file_def)
  ultimately show ?thesis using assms unfolding link_shape_def by (intro disjI2 disjI1 exI [of _ e] exI [of _ temporary]) auto
qed

lemma link_shape_laws:
  assumes shape: "link_shape fs target text fault r trace"
  shows "trace \<noteq> [] \<and> hd trace = fs"
    and "s \<in> set trace \<Longrightarrow> s target = fs target \<or> target \<notin> dom fs \<and> s target = Some text"
    and "s \<in> set trace \<Longrightarrow> p \<noteq> target \<Longrightarrow> p \<in> dom fs \<Longrightarrow> s p = fs p"
    and "r = Inr () \<Longrightarrow> fault = None \<Longrightarrow> target \<notin> dom fs \<and> last trace = fs(target \<mapsto> text)"
    and "r = Inl e \<Longrightarrow> fault = None \<Longrightarrow> last trace = fs"
proof -
  note s = shape [unfolded link_shape_def]
  show "trace \<noteq> [] \<and> hd trace = fs" using s by auto
  show "s \<in> set trace \<Longrightarrow> s target = fs target \<or> target \<notin> dom fs \<and> s target = Some text"
    using s by (auto simp: unlink_file_def domIff split: option.splits dest!: bspec)
  show "s \<in> set trace \<Longrightarrow> p \<noteq> target \<Longrightarrow> p \<in> dom fs \<Longrightarrow> s p = fs p"
    using s by (auto simp: unlink_file_def split: option.splits if_splits dest!: bspec)
  show "r = Inr () \<Longrightarrow> fault = None \<Longrightarrow> target \<notin> dom fs \<and> last trace = fs(target \<mapsto> text)"
    using s by (auto simp: unlink_file_def domIff fun_eq_iff)
  show "r = Inl e \<Longrightarrow> fault = None \<Longrightarrow> last trace = fs" using s by auto
qed

section \<open>The readiness marker\<close>

record ready_io =
  ri_stdout :: "errno option"
  ri_path :: "string option"
  ri_role :: string
  ri_suffix :: string
  ri_mkstemp :: "errno option"
  ri_fchmod :: "errno option"
  ri_now :: "errno + int"
  ri_pid :: int
  ri_printf :: "errno option"
  ri_stream :: file_io
  ri_link :: "errno option"
  ri_unlink :: "errno option"

definition ready_text :: "string \<Rightarrow> int \<Rightarrow> int \<Rightarrow> string" where
  "ready_text role pid now =
     ''{'' @ [CHR 0x22] @ ''schema_version'' @ [CHR 0x22] @ '':1,'' @ [CHR 0x22] @ ''role'' @ [CHR 0x22] @ '':'' @ [CHR 0x22] @ role @
     [CHR 0x22] @ '','' @ [CHR 0x22] @ ''pid'' @ [CHR 0x22] @ '':'' @ show_int pid @ '','' @ [CHR 0x22] @ ''ready_mono_ns'' @
     [CHR 0x22] @ '':'' @ show_int now @ ''}'' @ [NL]"

text \<open>
  From the created temporary file on: the error and the states before the final \<^verbatim>\<open>unlink\<close>.
  \<^verbatim>\<open>mkstemp\<close> creates a file that did not exist under a name with a suffix of its choice.
\<close>

definition publish_ready_steps ::
  "ready_io \<Rightarrow> string \<Rightarrow> string \<Rightarrow> files \<Rightarrow> (errno + unit) \<times> files list" where
  "publish_ready_steps io path temporary fs =
   (let fs1 = fs(temporary \<mapsto> []) in
    case ri_fchmod io of Some e \<Rightarrow> (Inl e, [fs, fs1]) | None \<Rightarrow>
    case io_fdopen (ri_stream io) of Some e \<Rightarrow> (Inl e, [fs, fs1]) | None \<Rightarrow>
    case ri_now io of Inl e \<Rightarrow> (Inl e, [fs, fs1]) | Inr now \<Rightarrow>
    (let text = ready_text (ri_role io) (ri_pid io) now in
     case ri_printf io of
       Some e \<Rightarrow> (Inl (if e \<noteq> 0 then e else EIO), [fs, fs1, fs1(temporary \<mapsto> io_left (ri_stream io) text)])
     | None \<Rightarrow>
         (case ace_finish_stream (ri_stream io) temporary text fs1 of
            (Inl e, fs2) \<Rightarrow> (Inl e, [fs, fs1, fs2])
          | (Inr _, fs2) \<Rightarrow>
              if path \<in> dom fs2 then (Inl EEXIST, [fs, fs1, fs2])
              else (case ri_link io of
                  Some e \<Rightarrow> (Inl e, [fs, fs1, fs2])
                | None \<Rightarrow> (Inr (), [fs, fs1, fs2, fs2(path \<mapsto> text)])))))"

definition ace_publish_ready :: "ready_io \<Rightarrow> files \<Rightarrow> (errno + unit) \<times> files list" where
  "ace_publish_ready io fs =
   (case ri_stdout io of Some e \<Rightarrow> (Inl e, [fs]) | None \<Rightarrow>
    case ri_path io of None \<Rightarrow> (Inr (), [fs]) | Some path \<Rightarrow>
    (let temporary = path @ ''.tmp.'' @ ri_suffix io in
     if length temporary \<ge> PATH_MAX then (Inl ENAMETOOLONG, [fs])
     else if temporary \<in> dom fs then (Inl EEXIST, [fs])
     else (case ri_mkstemp io of
         Some e \<Rightarrow> (Inl e, [fs])
       | None \<Rightarrow>
           (case publish_ready_steps io path temporary fs of
              (r, trace) \<Rightarrow> (r, trace @ [unlink_file (ri_unlink io) temporary (last trace)])))))"

text \<open>The marker of a call with a path.\<close>

definition ready_target :: "ready_io \<Rightarrow> string" where "ready_target io = the (ri_path io)"

definition ready_complete :: "ready_io \<Rightarrow> string" where
  "ready_complete io = ready_text (ri_role io) (ri_pid io) (case ri_now io of Inl e \<Rightarrow> 0 | Inr now \<Rightarrow> now)"

definition publish_marker :: "ready_io \<Rightarrow> files \<Rightarrow> (errno + unit) \<times> files list" where
  "publish_marker io fs = (if ri_path io = None then (Inl EINVAL, [fs]) else ace_publish_ready io fs)"

lemma steps_cases:
  assumes "publish_ready_steps io path temporary fs = (r, trace)"
  obtains (failed) e where "r = Inl e" "hd trace = fs" "trace \<noteq> []"
      "\<And>s. s \<in> set trace \<Longrightarrow> s = fs \<or> (\<exists>t. s = fs(temporary \<mapsto> t))"
    | (linked) t where "r = Inr ()" "t = ready_complete io" "path \<notin> dom (fs(temporary \<mapsto> t))"
      "trace = [fs, fs(temporary \<mapsto> []), fs(temporary \<mapsto> t), fs(temporary \<mapsto> t, path \<mapsto> t)]"
proof -
  have "(\<exists>e. r = Inl e \<and> hd trace = fs \<and> trace \<noteq> [] \<and> (\<forall>s \<in> set trace. s = fs \<or> (\<exists>t. s = fs(temporary \<mapsto> t)))) \<or>
    (\<exists>t. r = Inr () \<and> t = ready_complete io \<and> path \<notin> dom (fs(temporary \<mapsto> t)) \<and>
      trace = [fs, fs(temporary \<mapsto> []), fs(temporary \<mapsto> t), fs(temporary \<mapsto> t, path \<mapsto> t)])"
    using assms unfolding publish_ready_steps_def Let_def ace_finish_stream_def ready_complete_def
    by (auto split: option.splits sum.splits if_splits)
  then show thesis using failed linked by blast
qed


lemma fresh_name: "p @ ''.tmp.'' @ sfx \<noteq> p" by simp

lemma publish_marker_shape:
  assumes "publish_marker io fs = (r, trace)"
  shows "link_shape fs (ready_target io) (ready_complete io) (ri_unlink io) r trace"
proof (cases "\<exists>e. r = Inl e \<and> trace = [fs]")
  case True
  then show ?thesis by (auto simp: link_shape_def)
next
  case False
  then obtain path where p: "ri_path io = Some path" using assms by (auto simp: publish_marker_def split: if_splits)
  let ?t = "path @ ''.tmp.'' @ ri_suffix io"
  obtain r2 tr where s: "publish_ready_steps io path ?t fs = (r2, tr)" by fastforce
  have t: "r = r2" "trace = tr @ [unlink_file (ri_unlink io) ?t (last tr)]" "?t \<notin> dom fs"
    using assms False s by (auto simp: publish_marker_def ace_publish_ready_def p Let_def split: option.splits if_splits)
  have path: "ready_target io = path" by (simp add: ready_target_def p)
  from s show ?thesis
  proof (cases rule: steps_cases)
    case (failed e)
    then show ?thesis using t path link_shape_failed [of tr fs ?t path] by simp
  next
    case (linked t)
    with t path show ?thesis unfolding link_shape_def by (intro disjI2 exI [of _ ?t]) auto
  qed
qed

interpretation ready_marker: link_publisher publish_marker ready_target ready_complete "\<lambda>io. ri_unlink io = None"
  by unfold_locales (blast dest: publish_marker_shape link_shape_laws)+

text \<open>
  Property C24.  Readiness is published atomically.  At every moment of the call, the marker is either as it was or,
  if it did not exist, holds the complete text; every other file is as it was; and if the temporary
  file can be removed, success adds exactly the marker and failure changes nothing, so a marker of
  another run is never replaced.
\<close>

theorem ready_marker_atomic:
  assumes "ace_publish_ready io fs = (r, trace)" "ri_path io = Some path"
  shows "(\<forall>s \<in> set trace. (s path = fs path \<or> path \<notin> dom fs \<and> s path = Some (ready_complete io)) \<and>
      (\<forall>p \<in> dom fs. s p = fs p)) \<and>
    (ri_unlink io = None \<longrightarrow>
       (if r = Inr () then path \<notin> dom fs \<and> last trace = fs(path \<mapsto> ready_complete io) else last trace = fs))"
proof -
  have p: "publish_marker io fs = (r, trace)" "ready_target io = path"
    using assms by (simp_all add: publish_marker_def ready_target_def)
  have "s p = fs p" if "s \<in> set trace" "p \<in> dom fs" for s p
    using ready_marker.keeps_existing [OF p(1) that(1)] that(2) by (auto simp: domIff)
  moreover have "last trace = fs" if "r \<noteq> Inr ()" "ri_unlink io = None"
    using ready_marker.failure [OF _ that(2)] p(1) that(1) by (cases r) auto
  ultimately show ?thesis
    using ready_marker.trace_target [OF p(1)] ready_marker.success [of io fs trace] p by auto
qed

section \<open>ace_clock\<close>

datatype clock_opt = A_after_ms string | A_help | A_unknown

fun clock_option :: "clock_opt \<Rightarrow> u64 \<Rightarrow> u64 cli_result" where
  "clock_option (A_after_ms a) after_ms = with_value (ace_parse_u64 (Some a) 0 (INT64_MAX div 1000000)) id"
| "clock_option A_help after_ms = Cli_help"
| "clock_option A_unknown after_ms = Cli_bad"

text \<open>
  The exit code and what is printed; \<open>clock\<close> is the reading of CLOCK_MONOTONIC and \<open>out_ok\<close> whether
  printing and flushing worked.
\<close>

definition ace_clock :: "clock_opt list \<Rightarrow> nat \<Rightarrow> (int \<times> int) option \<Rightarrow> bool \<Rightarrow> nat \<times> string" where
  "ace_clock options operands clock out_ok =
   (case cli_loop clock_option options 0 of
      Cli_help \<Rightarrow> (0, ''Usage: ace_clock [--after-ms MS]'' @ [NL] @
        ''Print this host'' @ [CHR 0x27] @ ''s CLOCK_MONOTONIC deadline in nanoseconds.'' @ [NL])
    | Cli_bad \<Rightarrow> (2, [])
    | Cli_ok after_ms \<Rightarrow>
        if operands \<noteq> 0 then (2, [])
        else (let now = ace_mono_ns clock in
          if now < 0 then (1, [])
          else if after_ms > (INT64_MAX - word_of_int now) div 1000000 then (2, [])
          else if \<not> out_ok then (1, [])
          else (0, show_word (word_of_int now + after_ms * 1000000) @ [NL])))"

lemma word_deadline_exact:
  assumes "0 \<le> now" "now \<le> INT64_LIMIT" "after_ms \<le> (INT64_MAX - word_of_int now) div (1000000 :: u64)"
  shows "uint (word_of_int now + after_ms * 1000000 :: u64) = now + uint after_ms * 1000000 \<and>
    now + uint after_ms * 1000000 \<le> INT64_LIMIT"
proof -
  have n: "uint (word_of_int now :: u64) = now" using assms(1,2) by (simp add: uint_word_of_int_eq take_bit_int_eq_self)
  have d: "uint (INT64_MAX - word_of_int now :: u64) = INT64_LIMIT - now"
    using n assms(1,2) by (simp add: uint_word_ariths)
  have "uint after_ms \<le> (INT64_LIMIT - now) div 1000000"
    using assms(3) d by (simp add: word_le_def uint_div)
  then have le: "now + uint after_ms * 1000000 \<le> INT64_LIMIT" by linarith
  have m: "uint (after_ms * 1000000) = uint after_ms * 1000000"
    using le assms(1) by (simp add: uint_word_ariths)
  have "uint (word_of_int now + after_ms * 1000000 :: u64) = now + uint after_ms * 1000000"
    using le assms(1) n m by (simp add: uint_word_ariths(1))
  with le show ?thesis by simp
qed


lemma start_option_accepts:
  fixes d :: u64
  assumes "1 \<le> uint d" "uint d \<le> INT64_LIMIT"
  shows "sender_option (S_start_at_ns (show_word d)) c = Cli_ok (c\<lparr>sc_start_at_ns := d\<rparr>)"
proof -
  have "1 \<le> unat d \<and> unat d \<le> unat INT64_MAX" proof -
    have "int (unat d) = uint d" "unat INT64_MAX = 9223372036854775807" by simp_all
    with assms show ?thesis by linarith
  qed
  then have "ace_parse_u64 (Some (show_nat (unat d))) 1 INT64_MAX = Some d"
    using ace_u64.parse_show [of 1 d INT64_MAX] by simp
  then show ?thesis by (simp add: show_word_def)
qed

lemma clock_option_help: "opt \<noteq> A_help \<Longrightarrow> clock_option opt a \<noteq> Cli_help"
  by (cases opt) (auto simp: with_value_def split: option.splits)

lemma clock_no_help: "A_help \<notin> set opts \<Longrightarrow> cli_loop clock_option opts a \<noteq> Cli_help"
  by (induction opts arbitrary: a) (auto split: cli_result.splits simp: clock_option_help)

text \<open>
  A printed deadline is exact: if \<^verbatim>\<open>ace_clock\<close> prints a number and exits with 0, it is the clock plus
  the requested milliseconds, computed without wrap-around, and the sender accepts the printed digits
  as \<^verbatim>\<open>--start-at-ns\<close> with that value.
\<close>

theorem ace_clock_deadline_exact:
  assumes "ace_clock options 0 (Some (sec, nsec)) True = (0, line)" "A_help \<notin> set options"
    and "0 \<le> sec" "0 \<le> nsec" "0 < sec * 1000000000 + nsec" "sec * 1000000000 + nsec \<le> INT64_LIMIT"
  shows "\<exists>after_ms deadline. cli_loop clock_option options 0 = Cli_ok after_ms \<and> line = show_word deadline @ [NL] \<and>
    uint deadline = sec * 1000000000 + nsec + uint after_ms * 1000000 \<and>
    sender_option (S_start_at_ns (butlast line)) c = Cli_ok (c\<lparr>sc_start_at_ns := deadline\<rparr>)"
proof -
  let ?now = "sec * 1000000000 + nsec"
  obtain after_ms where a: "cli_loop clock_option options 0 = Cli_ok after_ms"
    using assms(1) clock_no_help [OF assms(2)] by (auto simp: ace_clock_def split: cli_result.splits)
  let ?d = "word_of_int ?now + after_ms * 1000000 :: u64"
  have le: "after_ms \<le> (INT64_MAX - word_of_int ?now) div 1000000" and l: "line = show_word ?d @ [NL]"
    using assms(1,3,4) a by (auto simp: ace_clock_def ace_mono_ns_def Let_def not_less split: if_splits)
  note x = word_deadline_exact [OF _ assms(6) le] 
  have dl: "uint ?d = ?now + uint after_ms * 1000000" "uint ?d \<le> INT64_LIMIT" using x assms(5) by auto
  have "1 \<le> uint ?d" using dl(1) assms(5) uint_ge_0 [of after_ms] by linarith
  from start_option_accepts [OF this dl(2)]
  have "sender_option (S_start_at_ns (show_word ?d)) c = Cli_ok (c\<lparr>sc_start_at_ns := ?d\<rparr>)" .
  with a l dl(1) show ?thesis by (intro exI [of _ after_ms] exI [of _ ?d]) (simp only: butlast_snoc simp_thms)
qed


section \<open>Witnesses\<close>

definition sample_ready :: ready_io where
  "sample_ready = \<lparr>ri_stdout = None, ri_path = Some ''run/loader.ready'', ri_role = ''xdp_loader'', ri_suffix = ''a1b2c3'',
     ri_mkstemp = None, ri_fchmod = None, ri_now = Inr 5000, ri_pid = 42, ri_printf = None, ri_stream = io_ok,
     ri_link = None, ri_unlink = None\<rparr>"

theorem ready_marker_atomic_witness:
  "last (snd (ace_publish_ready sample_ready Map.empty)) = [''run/loader.ready'' \<mapsto> ready_text ''xdp_loader'' 42 5000]"
proof -
  obtain r trace where p: "ace_publish_ready sample_ready Map.empty = (r, trace)" by fastforce
  have path: "ri_path sample_ready = Some ''run/loader.ready''" "ri_unlink sample_ready = None" by (simp_all add: sample_ready_def)
  have "r = Inr ()"
    using p by (auto simp: ace_publish_ready_def publish_ready_steps_def sample_ready_def ace_finish_stream_def
        finish_error_def io_ok_def Let_def)
  with ready_marker_atomic [OF p path(1)] path(2) p show ?thesis by (auto simp: ready_complete_def sample_ready_def)
qed

theorem ace_clock_deadline_exact_witness:
  "sender_option (S_start_at_ns (butlast (snd (ace_clock [A_after_ms ''250''] 0 (Some (7, 5)) True)))) sender_defaults =
     Cli_ok (sender_defaults\<lparr>sc_start_at_ns := 7250000005\<rparr>)"
proof -
  have p: "ace_parse_u64 (Some ''250'') 0 (INT64_MAX div 1000000) = Some 250"
    using ace_u64.parse_show [of 0 250 "INT64_MAX div 1000000"] by (simp add: show_nat_eval)
  then have c: "cli_loop clock_option [A_after_ms ''250''] 0 = Cli_ok 250" by (simp add: with_value_def)
  have e: "ace_clock [A_after_ms ''250''] 0 (Some (7, 5)) True = (0, show_word (7250000005 :: u64) @ [NL])"
    using c by (simp add: ace_clock_def ace_mono_ns_def Let_def)
  have h: "A_help \<notin> set [A_after_ms ''250'']" by simp
  have r: "(0::int) \<le> 7" "(0::int) \<le> 5" "(0::int) < 7 * 1000000000 + 5" "(7::int) * 1000000000 + 5 \<le> INT64_LIMIT" by simp_all
  obtain after_ms deadline where
    d: "cli_loop clock_option [A_after_ms ''250''] 0 = Cli_ok after_ms"
      "uint deadline = 7 * 1000000000 + 5 + uint after_ms * 1000000"
      "sender_option (S_start_at_ns (butlast (show_word (7250000005 :: u64) @ [NL]))) sender_defaults =
         Cli_ok (sender_defaults\<lparr>sc_start_at_ns := deadline\<rparr>)"
    using ace_clock_deadline_exact [OF e h r, of sender_defaults] by (elim exE conjE)
  have "after_ms = 250" using d(1) unfolding c by simp
  with d(2) have "uint deadline = uint (7250000005 :: u64)" by simp
  then have "deadline = 7250000005" by (simp only: word_uint_eq_iff)
  with d(3) e show ?thesis by (simp only: snd_conv)
qed

end
