(* ===== verification/Phc.thy ===== *)
theory Phc
  imports Run_Control "HOL-Library.Product_Lexorder" "HOL-Library.Multiset"
begin

text \<open>
  Comparing the NIC's clock with CLOCK_MONOTONIC: \<^verbatim>\<open>include/ace_phc.h\<close> (one batch of
  \<^verbatim>\<open>PTP_SYS_OFFSET_EXTENDED\<close> samples and the choice of the sample with the shortest span),
  \<^verbatim>\<open>udp_socket/src/phc_track.c\<close> (the median choice, the observation loop and its two files) and
  \<^verbatim>\<open>udp_socket/src/phc_calibrate.c\<close> (options, batches and the calibration file).  The ioctls, clocks
  and file calls are parameters.  Times are nanoseconds as unbounded integers; where the 64-bit
  arithmetic of the source would overflow is stated separately.
\<close>

section \<open>One batch (include/ace_phc.h)\<close>


text \<open>\<^verbatim>\<open>struct ptp_clock_time\<close>: signed 64-bit seconds, unsigned 32-bit nanoseconds.\<close>

record ptp_clock_time =
  pt_sec :: int
  pt_nsec :: nat

definition ptp_time_to_ns :: "ptp_clock_time \<Rightarrow> int option" where
  "ptp_time_to_ns t =
     (if pt_sec t < 0 \<or> pt_nsec t \<ge> 1000000000 \<or> pt_sec t > INT64_LIMIT div 1000000000 then None
      else Some (pt_sec t * 1000000000 + int (pt_nsec t)))"

record phc_result =
  ph_before :: int
  ph_phc :: int
  ph_after :: int
  ph_span :: int
  ph_offset :: int
  ph_valid :: bool

definition zero_result :: phc_result where
  "zero_result = \<lparr>ph_before = 0, ph_phc = 0, ph_after = 0, ph_span = 0, ph_offset = 0, ph_valid = False\<rparr>"

type_synonym ptp_sample = "ptp_clock_time \<times> ptp_clock_time \<times> ptp_clock_time"

text \<open>The body of the loop: the entry and whether the sample was usable.\<close>

definition sample_result :: "ptp_sample \<Rightarrow> phc_result \<Rightarrow> phc_result \<times> bool" where
  "sample_result sample r =
   (case sample of (t0, t1, t2) \<Rightarrow>
    case ptp_time_to_ns t0 of None \<Rightarrow> (r, False) | Some before \<Rightarrow>
    (let r = r\<lparr>ph_before := before\<rparr> in
     case ptp_time_to_ns t1 of None \<Rightarrow> (r, False) | Some phc \<Rightarrow>
     (let r = r\<lparr>ph_phc := phc\<rparr> in
      case ptp_time_to_ns t2 of None \<Rightarrow> (r, False) | Some after \<Rightarrow>
      (let r = r\<lparr>ph_after := after\<rparr> in
       if after < before then (r, False)
       else (r\<lparr>ph_span := after - before, ph_offset := phc - (before + (after - before) div 2), ph_valid := True\<rparr>, True)))))"

text \<open>The loop over the samples; \<open>None\<close> is a write outside the result array.\<close>

fun collect_loop ::
  "ptp_sample list \<Rightarrow> nat \<Rightarrow> phc_result list \<Rightarrow> int \<Rightarrow> nat \<Rightarrow> nat \<Rightarrow> (phc_result list \<times> nat \<times> nat) option" where
  "collect_loop [] i results best_span best_index valid_count = Some (results, best_index, valid_count)"
| "collect_loop (sample # rest) i results best_span best_index valid_count =
     (if i \<ge> length results then None
      else (case sample_result sample (results ! i) of (r, usable) \<Rightarrow>
        (let results = results[i := r] in
         if \<not> usable then collect_loop rest (i + 1) results best_span best_index valid_count
         else if ph_span r < best_span then collect_loop rest (i + 1) results (ph_span r) i (valid_count + 1)
         else collect_loop rest (i + 1) results best_span best_index (valid_count + 1))))"

definition collect_batch ::
  "errno + ptp_sample list \<Rightarrow> phc_result list \<Rightarrow> nat \<Rightarrow> (errno + phc_result list \<times> nat) option" where
  "collect_batch answer results best_index =
     (case answer of
        Inl e \<Rightarrow> Some (Inl e)
      | Inr samples \<Rightarrow>
          (case collect_loop samples 0 results INT64_LIMIT best_index 0 of
             None \<Rightarrow> None
           | Some (results, best_index, valid_count) \<Rightarrow>
               Some (if valid_count = 0 then Inl ERANGE else Inr (results, best_index))))"

section \<open>The median choice (udp_socket/src/phc_track.c)\<close>






section \<open>Sample rows\<close>





section \<open>The tracker (udp_socket/src/phc_track.c)\<close>




text \<open>The answers one round gets: the stop flag and the clock of the loop test, then its calls in order.\<close>

record track_io =
  ti_stop :: bool
  ti_now :: int
  ti_index :: "errno + int"
  ti_open :: bool
  ti_answer :: "errno + ptp_sample list"
  ti_uninit :: "nat list"
  ti_mono :: "int option"
  ti_raw :: "int option"
  ti_adjtimex :: "(int \<times> int \<times> int) option"
  ti_publish :: bool
  ti_after :: int
  ti_sleep :: errno













section \<open>The calibration program (udp_socket/src/phc_calibrate.c)\<close>












section \<open>What one sample is worth\<close>

text \<open>A reading of three clocks as it should be understood: \<open>None\<close> if a time is malformed or the system clock ran backwards.\<close>

definition readable :: "ptp_clock_time \<Rightarrow> bool" where
  "readable t \<longleftrightarrow> 0 \<le> pt_sec t \<and> pt_nsec t < 1000000000"

definition nanoseconds :: "ptp_clock_time \<Rightarrow> int" where
  "nanoseconds t = pt_sec t * 1000000000 + int (pt_nsec t)"

definition measured :: "ptp_sample \<Rightarrow> phc_result option" where
  "measured sample =
   (case sample of (t0, t1, t2) \<Rightarrow>
      if readable t0 \<and> readable t1 \<and> readable t2 \<and> nanoseconds t0 \<le> nanoseconds t2
      then Some \<lparr>ph_before = nanoseconds t0, ph_phc = nanoseconds t1, ph_after = nanoseconds t2,
        ph_span = nanoseconds t2 - nanoseconds t0,
        ph_offset = nanoseconds t1 - (nanoseconds t0 + (nanoseconds t2 - nanoseconds t0) div 2), ph_valid = True\<rparr>
      else None)"

text \<open>The valid entries of a result array are exactly what the samples measured, at their positions.\<close>

definition entries :: "ptp_sample list \<Rightarrow> phc_result list \<Rightarrow> bool" where
  "entries samples results \<longleftrightarrow>
     (\<forall>k < length results. case (if k < length samples then measured (samples ! k) else None) of
        Some r \<Rightarrow> results ! k = r
      | None \<Rightarrow> \<not> ph_valid (results ! k))"

definition measurable :: "ptp_sample list \<Rightarrow> bool" where
  "measurable samples \<longleftrightarrow> (\<exists>s \<in> set samples. measured s \<noteq> None)"

lemma sample_result_usable:
  assumes "sample_result s r = (r', True)"
  shows "ph_valid r' \<and> ph_before r' \<le> ph_after r' \<and> ph_span r' = ph_after r' - ph_before r' \<and>
    ph_offset r' = ph_phc r' - (ph_before r' + ph_span r' div 2)"
  using assms by (auto simp: sample_result_def Let_def split: prod.splits option.splits if_splits)

lemma sample_result_unusable: "sample_result s r = (r', False) \<Longrightarrow> ph_valid r' = ph_valid r"
  by (auto simp: sample_result_def Let_def split: prod.splits option.splits if_splits)

definition result_ok :: "phc_result \<Rightarrow> bool" where
  "result_ok r \<longleftrightarrow> (ph_valid r \<longrightarrow> ph_before r \<le> ph_after r \<and> ph_span r = ph_after r - ph_before r \<and>
     ph_offset r = ph_phc r - (ph_before r + ph_span r div 2))"


text \<open>A clock reading before the year 2262, for which the conversion stays inside 64 bits.\<close>

definition plausible :: "ptp_sample \<Rightarrow> bool" where
  "plausible s \<longleftrightarrow> (case s of (t0, t1, t2) \<Rightarrow> \<forall>t \<in> {t0, t1, t2}. pt_sec t \<le> 9223372035)"

lemma ptp_time_in_range:
  "ptp_time_to_ns t = Some n \<Longrightarrow> pt_sec t \<le> 9223372035 \<Longrightarrow> 0 \<le> n \<and> n < INT64_LIMIT"
  by (auto simp: ptp_time_to_ns_def split: if_splits)

lemma sample_result_span:
  assumes "sample_result s r = (r', True)" "plausible s"
  shows "0 \<le> ph_span r' \<and> ph_span r' < INT64_LIMIT"
proof -
  obtain t0 t1 t2 where s: "s = (t0, t1, t2)" by (cases s)
  then obtain before phc after where t: "ptp_time_to_ns t0 = Some before" "ptp_time_to_ns t2 = Some after"
      "before \<le> after" "ph_span r' = after - before"
    using assms(1) by (auto simp: sample_result_def Let_def split: option.splits if_splits)
  show ?thesis using ptp_time_in_range [OF t(1)] ptp_time_in_range [OF t(2)] t(3,4) assms(2)
    by (simp add: plausible_def s)
qed

lemma ptp_time_plausible: "pt_sec t \<le> 9223372035 \<Longrightarrow> ptp_time_to_ns t = (if readable t then Some (nanoseconds t) else None)"
  by (simp add: ptp_time_to_ns_def readable_def nanoseconds_def)

lemma sample_result_measured:
  assumes "plausible s"
  shows "case measured s of
      Some m \<Rightarrow> sample_result s r = (m, True)
    | None \<Rightarrow> \<exists>r'. sample_result s r = (r', False) \<and> ph_valid r' = ph_valid r"
proof -
  obtain t0 t1 t2 where s: "s = (t0, t1, t2)" by (cases s)
  have t: "ptp_time_to_ns t = (if readable t then Some (nanoseconds t) else None)" if "t \<in> {t0, t1, t2}" for t
    using assms that s by (intro ptp_time_plausible) (auto simp: plausible_def)
  show ?thesis by (cases r) (auto simp: s measured_def sample_result_def t Let_def)
qed

text \<open>What holds between two rounds of the loop, with \<open>i\<close> samples done.\<close>

definition batch_inv :: "nat \<Rightarrow> phc_result list \<Rightarrow> int \<Rightarrow> nat \<Rightarrow> nat \<Rightarrow> bool" where
  "batch_inv i results bs bi vc \<longleftrightarrow>
     list_all result_ok results \<and> (\<forall>k < length results. ph_valid (results ! k) \<longrightarrow> k < i \<and> bs \<le> ph_span (results ! k)) \<and>
     (if vc = 0 then bs = INT64_LIMIT \<and> (\<forall>k < length results. \<not> ph_valid (results ! k))
      else bi < length results \<and> ph_valid (results ! bi) \<and> ph_span (results ! bi) = bs)"

lemma batch_inv_unusable:
  assumes "batch_inv i results bs bi vc" "i < length results" "sample_result s (results ! i) = (r, False)"
  shows "batch_inv (i + 1) (results[i := r]) bs bi vc"
proof -
  have nv: "\<not> ph_valid (results ! i)" using assms(1,2) by (auto simp: batch_inv_def)
  then have r: "\<not> ph_valid r" "result_ok r" using sample_result_unusable [OF assms(3)] by (auto simp: result_ok_def)
  have "list_all result_ok (results[i := r])"
    using assms(1) r(2) set_update_subset_insert [of results i r] by (auto simp: batch_inv_def list_all_iff)
  moreover have "bi \<noteq> i" if "vc \<noteq> 0" using assms(1) that nv by (auto simp: batch_inv_def)
  ultimately show ?thesis using assms(1,2) r nv by (auto simp: batch_inv_def nth_list_update)
qed

lemma batch_inv_usable:
  assumes "batch_inv i results bs bi vc" "i < length results" "sample_result s (results ! i) = (r, True)" "plausible s"
  shows "if ph_span r < bs then batch_inv (i + 1) (results[i := r]) (ph_span r) i (vc + 1)
    else batch_inv (i + 1) (results[i := r]) bs bi (vc + 1)"
proof -
  have nv: "\<not> ph_valid (results ! i)" using assms(1,2) by (auto simp: batch_inv_def)
  have r: "ph_valid r" "result_ok r" using sample_result_usable [OF assms(3)] by (auto simp: result_ok_def)
  have sp: "ph_span r < INT64_LIMIT" using sample_result_span [OF assms(3,4)] by simp
  have "list_all result_ok (results[i := r])"
    using assms(1) r(2) set_update_subset_insert [of results i r] by (auto simp: batch_inv_def list_all_iff)
  moreover have "bi \<noteq> i" if "vc \<noteq> 0" using assms(1) that nv by (auto simp: batch_inv_def)
  moreover have "vc \<noteq> 0" if "\<not> ph_span r < bs" using assms(1) sp that by (auto simp: batch_inv_def split: if_splits)
  moreover have "k < i + 1 \<and> min bs (ph_span r) \<le> ph_span (results[i := r] ! k)"
    if "k < length results" "ph_valid (results[i := r] ! k)" for k
    using assms(1,2) that by (cases "k = i") (auto simp: batch_inv_def)
  ultimately show ?thesis using assms(1,2) r(1) by (auto simp: batch_inv_def min_def split: if_splits)
qed

lemma collect_loop_inv:
  assumes "batch_inv i results bs bi vc" "list_all plausible samples" "i + length samples \<le> length results"
  shows "\<exists>results' bs' bi' vc'. collect_loop samples i results bs bi vc = Some (results', bi', vc') \<and>
    length results' = length results \<and> batch_inv (i + length samples) results' bs' bi' vc'"
  using assms
proof (induction samples i results bs bi vc rule: collect_loop.induct)
  case (1 i results bs bi vc)
  then show ?case by auto
next
  case (2 s rest i results bs bi vc)
  obtain r usable where r: "sample_result s (results ! i) = (r, usable)" by fastforce
  have i: "i < length results" and pl: "plausible s" "list_all plausible rest"
    and rest: "(i + 1) + length rest \<le> length (results[i := r])" using 2(5,6) by auto
  show ?case
  proof (cases usable)
    case False
    with r have "sample_result s (results ! i) = (r, False)" by simp
    from 2(1) [OF _ this [symmetric] refl _ batch_inv_unusable [OF 2(4) i this] pl(2) rest] i this
    show ?thesis by simp
  next
    case True
    with r have r': "sample_result s (results ! i) = (r, True)" by simp
    note u = batch_inv_usable [OF 2(4) i r' pl(1)]
    show ?thesis
    proof (cases "ph_span r < bs")
      case True
      with u have "batch_inv (i + 1) (results[i := r]) (ph_span r) i (vc + 1)" by simp
      from 2(2) [OF _ r' [symmetric] refl _ True this pl(2) rest] i r' True show ?thesis by simp
    next
      case False
      with u have "batch_inv (i + 1) (results[i := r]) bs bi (vc + 1)" by simp
      from 2(3) [OF _ r' [symmetric] refl _ False this pl(2) rest] i r' False show ?thesis by simp
    qed
  qed
qed


text \<open>What the loop leaves at each position.\<close>

lemma collect_loop_entries:
  assumes "collect_loop samples i results bs bi vc = Some (results', bi', vc')" "list_all plausible samples"
    "\<forall>k. i \<le> k \<and> k < length results \<longrightarrow> \<not> ph_valid (results ! k)" "k < length results"
  shows "if i \<le> k \<and> k < i + length samples
    then (case measured (samples ! (k - i)) of Some r \<Rightarrow> results' ! k = r | None \<Rightarrow> \<not> ph_valid (results' ! k))
    else results' ! k = results ! k"
  using assms
proof (induction samples i results bs bi vc arbitrary: k rule: collect_loop.induct)
  case (2 s rest i results bs bi vc)
  obtain r usable where r: "sample_result s (results ! i) = (r, usable)" by fastforce
  let ?results = "results[i := r]"
  have i: "i < length results" using 2(4) by (simp split: if_splits)
  have pl: "plausible s" "list_all plausible rest" using 2(5) by simp_all
  have later: "\<forall>k. i + 1 \<le> k \<and> k < length ?results \<longrightarrow> \<not> ph_valid (?results ! k)" using 2(6) by auto
  have k: "k < length ?results" using 2(7) by simp
  have rest: "if i + 1 \<le> k \<and> k < i + 1 + length rest
    then (case measured (rest ! (k - (i + 1))) of Some r \<Rightarrow> results' ! k = r | None \<Rightarrow> \<not> ph_valid (results' ! k))
    else results' ! k = ?results ! k"
  proof (cases usable)
    case False
    with r have u: "sample_result s (results ! i) = (r, False)" by simp
    have "collect_loop rest (i + 1) ?results bs bi vc = Some (results', bi', vc')" using 2(4) i u by simp
    from 2(1) [OF _ u [symmetric] refl _ this pl(2) later k] i show ?thesis by simp
  next
    case True
    with r have u: "sample_result s (results ! i) = (r, True)" by simp
    show ?thesis
    proof (cases "ph_span r < bs")
      case True
      have "collect_loop rest (i + 1) ?results (ph_span r) i (vc + 1) = Some (results', bi', vc')" using 2(4) i u True by simp
      from 2(2) [OF _ u [symmetric] refl _ True this pl(2) later k] i show ?thesis by simp
    next
      case False
      have "collect_loop rest (i + 1) ?results bs bi (vc + 1) = Some (results', bi', vc')" using 2(4) i u False by simp
      from 2(3) [OF _ u [symmetric] refl _ False this pl(2) later k] i show ?thesis by simp
    qed
  qed
  have "case measured s of Some m \<Rightarrow> r = m | None \<Rightarrow> \<not> ph_valid r"
    using sample_result_measured [OF pl(1), of "results ! i"] r 2(6) i by (auto split: option.splits)
  then show ?case using rest i by (cases "k = i") (auto simp: nth_Cons')
qed auto

lemma fresh_batch: "list_all (\<lambda>r. \<not> ph_valid r) results \<Longrightarrow> batch_inv 0 results INT64_LIMIT best_index 0"
  by (auto simp: batch_inv_def result_ok_def list_all_length)

text \<open>One batch on a fresh array: what it stores and which entry it names.\<close>

definition shortest_span :: "ptp_sample list \<Rightarrow> nat \<Rightarrow> bool" where
  "shortest_span samples best \<longleftrightarrow>
     best < length samples \<and> (\<exists>r. measured (samples ! best) = Some r \<and>
       (\<forall>k < length samples. \<forall>r'. measured (samples ! k) = Some r' \<longrightarrow> ph_span r \<le> ph_span r'))"

definition entry_at :: "ptp_sample list \<Rightarrow> nat \<Rightarrow> phc_result option" where
  "entry_at samples k = (if k < length samples then measured (samples ! k) else None)"

lemma entriesD: "entries samples results \<Longrightarrow> k < length results \<Longrightarrow>
    (case entry_at samples k of Some r \<Rightarrow> results ! k = r | None \<Rightarrow> \<not> ph_valid (results ! k))"
  by (simp add: entries_def entry_at_def)

lemma entries_valid:
  assumes "entries samples results" "length samples \<le> length results" "k < length results"
  shows "ph_valid (results ! k) \<longleftrightarrow> k < length samples \<and> measured (samples ! k) = Some (results ! k)"
proof -
  have "ph_valid r" if "measured s = Some r" for s r using that by (auto simp: measured_def split: prod.splits if_splits)
  then show ?thesis using entriesD [OF assms(1,3)] by (auto simp: entry_at_def split: option.splits if_splits)
qed

lemma collect_batch_fresh:
  assumes "list_all plausible samples" "length samples \<le> length results" "list_all (\<lambda>r. \<not> ph_valid r) results"
  shows "if measurable samples
    then \<exists>results' best. collect_batch (Inr samples) results best_index = Some (Inr (results', best)) \<and>
      length results' = length results \<and> entries samples results' \<and> shortest_span samples best
    else collect_batch (Inr samples) results best_index = Some (Inl ERANGE)"
proof -
  from collect_loop_inv [OF fresh_batch [OF assms(3)] assms(1), of best_index] assms(2)
  obtain results' bs best vc where c: "collect_loop samples 0 results INT64_LIMIT best_index 0 = Some (results', best, vc)"
    "length results' = length results" "batch_inv (length samples) results' bs best vc" by auto
  have inv: "\<forall>k. 0 \<le> k \<and> k < length results \<longrightarrow> \<not> ph_valid (results ! k)" using assms(3) by (simp add: list_all_length)
  have e: "entries samples results'"
  proof -
    have "case (if k < length samples then measured (samples ! k) else None) of Some r \<Rightarrow> results' ! k = r | None \<Rightarrow> \<not> ph_valid (results' ! k)"
      if "k < length results" for k
      using collect_loop_entries [OF c(1) assms(1) inv that] inv that by (cases "k < length samples") simp_all
    then show ?thesis using c(2) by (simp add: entries_def)
  qed
  have len: "length samples \<le> length results'" using assms(2) c(2) by simp
  note v = entries_valid [OF e len]
  have m: "measurable samples \<longleftrightarrow> vc \<noteq> 0"
  proof
    assume "measurable samples"
    then obtain k r where "k < length samples" "measured (samples ! k) = Some r" by (auto simp: measurable_def in_set_conv_nth)
    then have "ph_valid (results' ! k)" "k < length results'"
      using entriesD [OF e, of k] len v [of k] by (auto simp: entry_at_def)
    then show "vc \<noteq> 0" using c(3) by (auto simp: batch_inv_def split: if_splits)
  next
    assume "vc \<noteq> 0"
    then have "best < length results'" "ph_valid (results' ! best)" using c(3) by (auto simp: batch_inv_def)
    then show "measurable samples" using v [of best] nth_mem by (fastforce simp: measurable_def)
  qed
  have s: "shortest_span samples best" if vc: "vc \<noteq> 0"
  proof -
    have b: "best < length results'" "ph_valid (results' ! best)" "ph_span (results' ! best) = bs" using c(3) vc by (auto simp: batch_inv_def)
    have "bs \<le> ph_span r" if k: "k < length samples" "measured (samples ! k) = Some r" for k r
    proof -
      have "results' ! k = r" "k < length results'" using entriesD [OF e, of k] k len by (auto simp: entry_at_def)
      then show ?thesis using c(3) v [of k] k by (auto simp: batch_inv_def)
    qed
    then show ?thesis using v [OF b(1)] b by (auto simp: shortest_span_def)
  qed
  show ?thesis using c(1,2) m e s by (auto simp: collect_batch_def)
qed

lemma measured_offset:
  assumes "measured s = Some r" "ph_before r \<le> t" "t \<le> ph_after r"
  shows "\<bar>ph_offset r - (ph_phc r - t)\<bar> \<le> (ph_span r + 1) div 2"
  using assms by (auto simp: measured_def split: prod.splits if_splits)

text \<open>
  Property C25.  The choice of a batch.  On an array of entries not yet valid, \<^verbatim>\<open>collect_batch\<close> writes no entry outside
  it and fails with ERANGE exactly if no sample is usable, that is, has three well-formed times of which the last is
  not before the first.  Otherwise the valid entries are exactly the usable samples at their positions,
  with the span between the two readings of the system clock and the offset from their midpoint; the entry it names is
  a usable sample with the shortest span; and if the NIC clock was read at the moment \<open>t\<close> between the two
  readings, the offset differs from the true one by at most half of that span (rounded up).
\<close>

theorem collect_batch_choice:
  assumes "list_all plausible samples" "length samples \<le> length results" "list_all (\<lambda>r. \<not> ph_valid r) results"
  shows "if measurable samples
    then \<exists>results' best. collect_batch (Inr samples) results best_index = Some (Inr (results', best)) \<and>
      length results' = length results \<and> entries samples results' \<and> shortest_span samples best \<and>
      (\<forall>t. ph_before (results' ! best) \<le> t \<and> t \<le> ph_after (results' ! best) \<longrightarrow>
         \<bar>ph_offset (results' ! best) - (ph_phc (results' ! best) - t)\<bar> \<le> (ph_span (results' ! best) + 1) div 2)
    else collect_batch (Inr samples) results best_index = Some (Inl ERANGE)"
proof (cases "measurable samples")
  case True
  with collect_batch_fresh [OF assms, of best_index] obtain results' best where
    c: "collect_batch (Inr samples) results best_index = Some (Inr (results', best))"
      "length results' = length results" "entries samples results'" "shortest_span samples best" by auto
  then have "measured (samples ! best) = Some (results' ! best)"
    using assms(2) entriesD [OF c(3), of best] by (auto simp: shortest_span_def entry_at_def)
  with c True show ?thesis using measured_offset [of "samples ! best"] by auto
next
  case False
  then show ?thesis using collect_batch_fresh [OF assms, of best_index] by simp
qed

section \<open>The median\<close>














section \<open>The tracker's files\<close>








section \<open>The tracker's loop\<close>





definition usable :: "track_io \<Rightarrow> bool" where
  "usable io \<longleftrightarrow> (case ti_answer io of Inl _ \<Rightarrow> False | Inr samples \<Rightarrow> measurable samples)"
















section \<open>The calibration file\<close>















text \<open>
  The bound of the conversion is too weak: it limits the seconds to INT64_MAX / 10^9 but not the sum
  with the nanoseconds, so a time is accepted whose value does not fit 64 bits.
\<close>

theorem ptp_time_to_ns_can_overflow:
  "\<exists>t n. ptp_time_to_ns t = Some n \<and> pt_nsec t < 1000000000 \<and> n > INT64_LIMIT"
  by (intro exI [of _ "\<lparr>pt_sec = 9223372036, pt_nsec = 999999999\<rparr>"] exI [of _ 9223372036999999999])
    (simp add: ptp_time_to_ns_def)


section \<open>Witnesses\<close>

definition ptp_at :: "int \<Rightarrow> nat \<Rightarrow> ptp_clock_time" where "ptp_at s n = \<lparr>pt_sec = s, pt_nsec = n\<rparr>"

definition sample_batch :: "ptp_sample list" where
  "sample_batch = [(ptp_at 10 100, ptp_at 50 150, ptp_at 10 300), (ptp_at 10 400, ptp_at 50 450, ptp_at 10 500)]"

lemma sample_batch_plausible: "list_all plausible sample_batch"
  by (simp add: sample_batch_def plausible_def ptp_at_def)

lemma sample_batch_measurable: "measurable sample_batch"
  by (simp add: measurable_def sample_batch_def measured_def readable_def nanoseconds_def ptp_at_def)

theorem collect_batch_choice_witness:
  "\<exists>results best. collect_batch (Inr sample_batch) (replicate 2 zero_result) 0 = Some (Inr (results, best)) \<and>
    entries sample_batch results \<and> shortest_span sample_batch best"
proof -
  have p: "length sample_batch \<le> length (replicate 2 zero_result)" "list_all (\<lambda>r. \<not> ph_valid r) (replicate 2 zero_result)"
    by (simp_all add: sample_batch_def zero_result_def numeral_2_eq_2)
  from collect_batch_choice [OF sample_batch_plausible p, of 0] sample_batch_measurable show ?thesis by auto
qed












end
