(* ===== verification/Control_Channel.thy ===== *)
theory Control_Channel
  imports Ace_Abi Decimal_Text "HOL-Library.Sublist"
begin

text \<open>
  The control connection of the two coordinators (\<^verbatim>\<open>experiment/ace-run.c\<close>): the 256-byte frame
  with its wire format, the checks of \<^verbatim>\<open>message\<close>, and \<^verbatim>\<open>transfer\<close>, which moves a frame over a stream
  socket in as many pieces as the kernel takes.  The socket, the clock and the signals are the answers
  of each round.
\<close>

section \<open>Frames\<close>

abbreviation HELLO :: u32 where "HELLO \<equiv> 1"
abbreviation RX_READY :: u32 where "RX_READY \<equiv> 2"
abbreviation TX_READY :: u32 where "TX_READY \<equiv> 3"
abbreviation START :: u32 where "START \<equiv> 4"
abbreviation STARTED :: u32 where "STARTED \<equiv> 5"
abbreviation STOP :: u32 where "STOP \<equiv> 6"
abbreviation DONE :: u32 where "DONE \<equiv> 7"
abbreviation ACK :: u32 where "ACK \<equiv> 8"
abbreviation FAIL :: u32 where "FAIL \<equiv> 9"

abbreviation FRAME_MAGIC :: u32 where "FRAME_MAGIC \<equiv> 0x41434552"
abbreviation FRAME_SIZE :: nat where "FRAME_SIZE \<equiv> 256"
abbreviation EPROTO :: errno where "EPROTO \<equiv> 71"
abbreviation ECONNRESET :: errno where "ECONNRESET \<equiv> 104"

record frame =
  fr_magic :: u32
  fr_version :: u32
  fr_type :: u32
  fr_index :: u32
  fr_nonce :: "byte list"
  fr_digest :: "byte list"
  fr_run_id :: "byte list"
  fr_reserved :: "byte list"

definition frame_ok :: "frame \<Rightarrow> bool" where
  "frame_ok f \<longleftrightarrow> length (fr_nonce f) = 16 \<and> length (fr_digest f) = 65 \<and> length (fr_run_id f) = 128 \<and>
     length (fr_reserved f) = 31"

definition frame_bytes :: "frame \<Rightarrow> byte list" where
  "frame_bytes f = htobe32 (fr_magic f) @ htobe32 (fr_version f) @ htobe32 (fr_type f) @ htobe32 (fr_index f) @
     fr_nonce f @ fr_digest f @ fr_run_id f @ fr_reserved f"

definition frame_of :: "byte list \<Rightarrow> frame" where
  "frame_of bs = \<lparr>fr_magic = be32 (sub_bytes bs 0 4), fr_version = be32 (sub_bytes bs 4 4), fr_type = be32 (sub_bytes bs 8 4),
     fr_index = be32 (sub_bytes bs 12 4), fr_nonce = sub_bytes bs 16 16, fr_digest = sub_bytes bs 32 65,
     fr_run_id = sub_bytes bs 97 128, fr_reserved = sub_bytes bs 225 31\<rparr>"

lemma length_frame_bytes: "frame_ok f \<Longrightarrow> length (frame_bytes f) = FRAME_SIZE"
  by (simp add: frame_ok_def frame_bytes_def)

lemma frame_of_bytes: "frame_ok f \<Longrightarrow> frame_of (frame_bytes f) = f"
  by (simp add: frame_ok_def frame_bytes_def frame_of_def sub_bytes_def)

text \<open>A C string in a zeroed array of \<open>n\<close> bytes (\<^verbatim>\<open>strcpy\<close>), and the string an array holds.\<close>

definition char_byte :: "char \<Rightarrow> byte" where "char_byte c = of_nat (char_code c)"

definition text_bytes :: "string \<Rightarrow> byte list" where "text_bytes s = map char_byte s"

definition strcpy :: "nat \<Rightarrow> string \<Rightarrow> byte list" where
  "strcpy n s = text_bytes s @ replicate (n - length s) 0"

definition c_string :: "byte list \<Rightarrow> byte list" where "c_string bs = takeWhile (\<lambda>b. b \<noteq> 0) bs"

text \<open>A string that fits an array of \<open>n\<close> bytes with its terminator.\<close>

definition fits :: "nat \<Rightarrow> string \<Rightarrow> bool" where "fits n s \<longleftrightarrow> length s < n \<and> CHR 0x00 \<notin> set s"

lemma unat_char_byte: "unat (char_byte c) = char_code c"
proof -
  have "char_code c < 256" unfolding char_code_def by (rule nat_of_char_less_256)
  then show ?thesis unfolding char_byte_def by (simp add: unat_of_nat)
qed

lemma char_byte_inject [simp]: "char_byte c = char_byte d \<longleftrightarrow> c = d"
  using unat_char_byte [of c] unat_char_byte [of d] unfolding char_code_def by (metis of_char_eq_iff)

lemma char_byte_zero: "char_byte c = 0 \<longleftrightarrow> c = CHR 0x00"
proof -
  have "(of_char c :: nat) = of_char (CHR 0x00) \<longleftrightarrow> c = CHR 0x00" by (simp only: of_char_eq_iff)
  moreover have "of_char (CHR 0x00) = (0 :: nat)" by simp
  ultimately have "char_code c = 0 \<longleftrightarrow> c = CHR 0x00" by (simp only: char_code_def)
  then show ?thesis using unat_char_byte [of c] unat_eq_zero [of "char_byte c"] by simp
qed

lemma text_bytes_inject: "text_bytes s = text_bytes t \<longleftrightarrow> s = t"
  by (simp add: text_bytes_def inj_map_eq_map inj_def)

lemma length_strcpy [simp]: "fits n s \<Longrightarrow> length (strcpy n s) = n"
  by (simp add: strcpy_def text_bytes_def fits_def)

lemma strcpy_terminated: "fits n s \<Longrightarrow> 0 \<in> set (strcpy n s)"
  by (simp add: strcpy_def fits_def)

lemma c_string_strcpy: "fits n s \<Longrightarrow> c_string (strcpy n s) = text_bytes s"
proof -
  assume f: "fits n s"
  then have "\<forall>b \<in> set (text_bytes s). b \<noteq> 0" by (auto simp: text_bytes_def fits_def char_byte_zero)
  moreover have "takeWhile (\<lambda>b. b \<noteq> 0) (replicate k (0 :: byte)) = []" for k by (cases k) auto
  ultimately show ?thesis by (simp add: c_string_def strcpy_def takeWhile_append2)
qed

section \<open>message\<close>

text \<open>The part of the context that a message carries or checks.\<close>

record control =
  ct_index :: u32
  ct_nonce :: "byte list"
  ct_digest :: string
  ct_run_id :: string
  ct_receiver :: bool

definition control_ok :: "control \<Rightarrow> bool" where
  "control_ok x \<longleftrightarrow> length (ct_nonce x) = 16 \<and> fits 65 (ct_digest x) \<and> fits 128 (ct_run_id x)"

definition outgoing_frame :: "control \<Rightarrow> u32 \<Rightarrow> frame" where
  "outgoing_frame x type = \<lparr>fr_magic = FRAME_MAGIC, fr_version = 1, fr_type = type, fr_index = ct_index x,
     fr_nonce = ct_nonce x, fr_digest = strcpy 65 (ct_digest x), fr_run_id = strcpy 128 (ct_run_id x),
     fr_reserved = replicate 31 0\<rparr>"

text \<open>
  The checks of a received frame, in the order of the source: the sender learns the nonce from the
  first frame, and the type is checked last.
\<close>

definition accept_frame :: "control \<Rightarrow> u32 \<Rightarrow> frame \<Rightarrow> (errno + unit) \<times> control" where
  "accept_frame x type f =
   (if fr_magic f \<noteq> FRAME_MAGIC \<or> fr_version f \<noteq> 1 \<or> fr_index f \<noteq> ct_index x \<or>
       0 \<notin> set (fr_digest f) \<or> 0 \<notin> set (fr_run_id f) \<or>
       c_string (fr_digest f) \<noteq> text_bytes (ct_digest x) \<or> c_string (fr_run_id f) \<noteq> text_bytes (ct_run_id x)
    then (Inl EPROTO, x)
    else if \<exists>b \<in> set (fr_reserved f). b \<noteq> 0 then (Inl EPROTO, x)
    else
     (let learn = (type = HELLO \<and> \<not> ct_receiver x) in
      if \<not> learn \<and> \<not> (type = HELLO \<and> ct_receiver x) \<and> fr_nonce f \<noteq> ct_nonce x then (Inl EPROTO, x)
      else
       (let x = (if learn then x\<lparr>ct_nonce := fr_nonce f\<rparr> else x) in
        if fr_type f \<noteq> type then (Inl EPROTO, x) else (Inr (), x))))"

text \<open>Two coordinators that agree on the run.\<close>

definition same_run :: "control \<Rightarrow> control \<Rightarrow> bool" where
  "same_run x y \<longleftrightarrow> ct_index x = ct_index y \<and> ct_digest x = ct_digest y \<and> ct_run_id x = ct_run_id y"

lemma outgoing_frame_ok: "control_ok x \<Longrightarrow> frame_ok (outgoing_frame x type)"
  by (simp add: control_ok_def frame_ok_def outgoing_frame_def)

lemma accept_outgoing:
  assumes "control_ok x"
  shows "fst (accept_frame y type (outgoing_frame x type')) = Inr () \<longleftrightarrow>
    same_run x y \<and> type = type' \<and> (type = HELLO \<or> ct_nonce x = ct_nonce y)"
  using assms c_string_strcpy [of 65 "ct_digest x"] c_string_strcpy [of 128 "ct_run_id x"]
    strcpy_terminated [of 65 "ct_digest x"] strcpy_terminated [of 128 "ct_run_id x"]
  by (auto simp: accept_frame_def outgoing_frame_def control_ok_def same_run_def text_bytes_inject Let_def)

lemma accept_learns:
  assumes "accept_frame y type f = (Inr (), y')"
  shows "y' = (if type = HELLO \<and> \<not> ct_receiver y then y\<lparr>ct_nonce := fr_nonce f\<rparr> else y)"
  using assms by (auto simp: accept_frame_def Let_def split: if_splits)

section \<open>transfer\<close>

text \<open>
  The answers of one round: \<^verbatim>\<open>sigprocmask\<close>, whether a stop signal has arrived, the clock, \<^verbatim>\<open>ppoll\<close> (an
  error, or the number of ready descriptors), and the bytes that \<^verbatim>\<open>send\<close> took or \<^verbatim>\<open>recv\<close> delivered.
\<close>

record io_round =
  ir_block :: "errno option"
  ir_stop :: bool
  ir_now :: int
  ir_poll :: "errno + nat"
  ir_moved :: "errno + byte list"

text \<open>
  The loop with the part of the buffer before the cursor (\<open>moved\<close>) and behind it (\<open>rest\<close>).  \<open>stop\<close> is the
  test \<^verbatim>\<open>stopping || reap(x)\<close>, which may change the coordinator's state \<open>s\<close>.  \<open>None\<close> means that the
  rounds do not suffice.
\<close>

fun transfer_loop ::
  "(io_round \<Rightarrow> 's \<Rightarrow> bool \<times> 's) \<Rightarrow> io_round list \<Rightarrow> bool \<Rightarrow> int \<Rightarrow> 's \<Rightarrow> byte list \<Rightarrow> byte list \<Rightarrow>
     ((errno + byte list) \<times> 's) option" where
  "transfer_loop stop rounds ignore_stop until s moved [] = Some (Inr moved, s)"
| "transfer_loop stop [] ignore_stop until s moved (b # rest) = None"
| "transfer_loop stop (r # rounds) ignore_stop until s moved (b # rest) =
   (case ir_block r of
      Some e \<Rightarrow> Some (Inl e, s)
    | None \<Rightarrow>
        (case (if ignore_stop then (False, s) else stop r s) of (stopped, s) \<Rightarrow>
         if stopped then Some (Inl EINTR, s)
         else if until - ir_now r \<le> 0 then Some (Inl ETIMEDOUT, s)
         else (case ir_poll r of
             Inl e \<Rightarrow> if e = EINTR then transfer_loop stop rounds ignore_stop until s moved (b # rest) else Some (Inl e, s)
           | Inr ready \<Rightarrow>
               if ready = 0 then Some (Inl ETIMEDOUT, s)
               else (case ir_moved r of
                   Inl e \<Rightarrow> if e = EINTR \<or> e = EAGAIN then transfer_loop stop rounds ignore_stop until s moved (b # rest)
                            else Some (Inl e, s)
                 | Inr piece \<Rightarrow>
                     if piece = [] then Some (Inl ECONNRESET, s)
                     else transfer_loop stop rounds ignore_stop until s (moved @ piece) (drop (length piece) (b # rest))))))"

text \<open>The kernel moves at most what was asked for, and sends what it was given.\<close>

fun pieces_ok :: "bool \<Rightarrow> io_round list \<Rightarrow> byte list \<Rightarrow> bool" where
  "pieces_ok writing [] rest \<longleftrightarrow> True"
| "pieces_ok writing (r # rounds) rest \<longleftrightarrow>
     (case ir_moved r of
        Inl e \<Rightarrow> pieces_ok writing rounds rest
      | Inr piece \<Rightarrow> length piece \<le> length rest \<and> (writing \<longrightarrow> piece = take (length piece) rest) \<and>
          (case ir_poll r of Inl e \<Rightarrow> pieces_ok writing rounds rest
           | Inr _ \<Rightarrow> pieces_ok writing rounds (drop (length piece) rest)))"

text \<open>The bytes that arrive in the rounds a transfer uses.\<close>

definition piece_of :: "io_round \<Rightarrow> byte list" where
  "piece_of r = (case ir_poll r of Inl e \<Rightarrow> [] | Inr _ \<Rightarrow> (case ir_moved r of Inl e \<Rightarrow> [] | Inr piece \<Rightarrow> piece))"

lemma transfer_step:
  assumes "transfer_loop stop (r # rounds) ignore until s moved (b # rest) = Some (Inr bytes, s')"
  shows "\<exists>s2. transfer_loop stop rounds ignore until s2 (moved @ piece_of r) (drop (length (piece_of r)) (b # rest)) =
    Some (Inr bytes, s')"
proof -
  obtain stopped s2 where c: "(if ignore then (False, s) else stop r s) = (stopped, s2)" by fastforce
  show ?thesis
    using assms by (intro exI [of _ s2]) (auto simp: c piece_of_def split: option.splits sum.splits if_splits)
qed

lemma pieces_step:
  assumes "pieces_ok writing (r # rounds) rest"
  shows "length (piece_of r) \<le> length rest \<and> (writing \<longrightarrow> piece_of r = take (length (piece_of r)) rest) \<and>
    pieces_ok writing rounds (drop (length (piece_of r)) rest)"
  using assms by (auto simp: piece_of_def split: sum.splits)

lemma transfer_loop_moves:
  assumes "transfer_loop stop rounds ignore until s moved rest = Some (Inr bytes, s')" "pieces_ok writing rounds rest"
  shows "\<exists>used unused. rounds = used @ unused \<and> bytes = moved @ concat (map piece_of used) \<and>
    length bytes = length moved + length rest \<and> (writing \<longrightarrow> bytes = moved @ rest)"
  using assms
proof (induction rounds arbitrary: s moved rest)
  case Nil
  then show ?case by (cases rest) auto
next
  case (Cons r rounds)
  show ?case
  proof (cases rest)
    case Nil
    then show ?thesis using Cons.prems(1) by (intro exI [of _ "[]"] exI [of _ "r # rounds"]) auto
  next
    case rest: (Cons b rest')
    let ?p = "piece_of r"
    note p = pieces_step [OF Cons.prems(2)]
    obtain s2 where t: "transfer_loop stop rounds ignore until s2 (moved @ ?p) (drop (length ?p) (b # rest')) = Some (Inr bytes, s')"
      using transfer_step [OF Cons.prems(1) [unfolded rest]] by blast
    from Cons.IH [OF t] p rest obtain used unused where u: "rounds = used @ unused"
      "bytes = (moved @ ?p) @ concat (map piece_of used)" "length bytes = length (moved @ ?p) + length (drop (length ?p) rest)"
      "writing \<longrightarrow> bytes = (moved @ ?p) @ drop (length ?p) rest" by auto
    have "length bytes = length moved + length rest" using u(3) p by simp
    moreover have "writing \<longrightarrow> bytes = moved @ rest" using u(4) p by (metis append_assoc append_take_drop_id)
    ultimately show ?thesis using u(1,2) by (intro exI [of _ "r # used"] exI [of _ unused]) simp
  qed
qed

text \<open>\<^verbatim>\<open>message\<close>: the result, the context, and the bytes written.\<close>

definition message ::
  "(io_round \<Rightarrow> 's \<Rightarrow> bool \<times> 's) \<Rightarrow> io_round list \<Rightarrow> int \<Rightarrow> control \<Rightarrow> u32 \<Rightarrow> bool \<Rightarrow> 's \<Rightarrow>
     ((errno + unit) \<times> control \<times> byte list \<times> 's) option" where
  "message stop rounds until x type writing s =
   (case transfer_loop stop rounds (type = FAIL) until s []
           (if writing then frame_bytes (outgoing_frame x type) else replicate FRAME_SIZE 0) of
      None \<Rightarrow> None
    | Some (Inl e, s) \<Rightarrow> Some (Inl e, x, [], s)
    | Some (Inr bytes, s) \<Rightarrow>
        if writing then Some (Inr (), x, bytes, s)
        else (case accept_frame x type (frame_of bytes) of (r, x) \<Rightarrow> Some (r, x, [], s)))"

lemma message_written:
  assumes "message stop rounds until x type True s = Some (Inr (), x', bytes, s')"
    "pieces_ok True rounds (frame_bytes (outgoing_frame x type))"
  shows "bytes = frame_bytes (outgoing_frame x type) \<and> x' = x"
proof -
  have "transfer_loop stop rounds (type = FAIL) until s [] (frame_bytes (outgoing_frame x type)) = Some (Inr bytes, s')" "x' = x"
    using assms(1) by (auto simp: message_def split: option.splits sum.splits)
  from transfer_loop_moves [OF this(1) assms(2)] this(2) show ?thesis by auto
qed

text \<open>
  Property C13.  A control message arrives whole and is understood only in its phase.  Suppose one coordinator wrote a
  message, in whatever pieces the kernel took it, and the other one's read completed, with whatever
  pieces it was given, over the same byte stream.  Then the read succeeds exactly if both are in the
  same run with the same configuration and run number, wait for the same phase and (after the first
  exchange) know the same nonce; on the first exchange the sender then knows the receiver's nonce.
\<close>

theorem message_delivered_in_phase:
  assumes "message stop wr until x sent True s = Some (Inr (), x', bytes, s')" "pieces_ok True wr (frame_bytes (outgoing_frame x sent))"
    and "control_ok x"
    and "message stop' rd until' y expected False t = Some (r, y', b, t')" "pieces_ok False rd (replicate FRAME_SIZE 0)"
    and "prefix (concat (map piece_of rd)) (bytes @ later)"
    and "transfer_loop stop' rd (expected = FAIL) until' t [] (replicate FRAME_SIZE 0) = Some (Inr received, t')"
  shows "(r = Inr () \<longleftrightarrow> ct_index x = ct_index y \<and> ct_digest x = ct_digest y \<and> ct_run_id x = ct_run_id y \<and>
      sent = expected \<and> (expected = HELLO \<or> ct_nonce x = ct_nonce y)) \<and>
    (r = Inr () \<and> expected = HELLO \<and> \<not> ct_receiver y \<longrightarrow> ct_nonce y' = ct_nonce x)"
proof -
  have w: "bytes = frame_bytes (outgoing_frame x sent)" using message_written [OF assms(1,2)] by simp
  note ok = outgoing_frame_ok [OF assms(3), of sent]
  from transfer_loop_moves [OF assms(7,5)] obtain used unused where
    u: "rd = used @ unused" "received = concat (map piece_of used)" "length received = FRAME_SIZE" by auto
  have "prefix received (bytes @ later)" using assms(6) u(1,2) by (auto intro: append_prefixD)
  then have "received = bytes" using u(3) length_frame_bytes [OF ok] w
    by (metis append_eq_append_conv prefix_def append_eq_conv_conj)
  then have f: "frame_of received = outgoing_frame x sent" using w frame_of_bytes [OF ok] by simp
  have a: "accept_frame y expected (outgoing_frame x sent) = (r, y')"
    using assms(4,7) f by (auto simp: message_def split: prod.splits)
  show ?thesis
    using accept_outgoing [OF assms(3), of y expected sent] a accept_learns [of y expected "outgoing_frame x sent" y']
    by (auto simp: same_run_def outgoing_frame_def split: if_splits)
qed


section \<open>Witnesses\<close>

definition sample_control :: control where
  "sample_control = \<lparr>ct_index = 1, ct_nonce = replicate 16 7, ct_digest = ''abc'', ct_run_id = ''demo-mixed-r0001'', ct_receiver = True\<rparr>"

definition one_round :: "byte list \<Rightarrow> io_round" where
  "one_round bs = \<lparr>ir_block = None, ir_stop = False, ir_now = 0, ir_poll = Inr 1, ir_moved = Inr bs\<rparr>"

lemma one_round_transfer:
  "bs \<noteq> [] \<Longrightarrow> length bs = length buffer \<Longrightarrow> transfer_loop (\<lambda>_ s. (False, s)) [one_round bs] ignore 1 s [] buffer = Some (Inr bs, s)"
  by (cases buffer) (auto simp: one_round_def)

lemma one_round_pieces: "length bs = length buffer \<Longrightarrow> (writing \<Longrightarrow> bs = buffer) \<Longrightarrow> pieces_ok writing [one_round bs] buffer"
  by (auto simp: one_round_def)

lemma piece_one_round [simp]: "piece_of (one_round bs) = bs"
  by (simp add: piece_of_def one_round_def)

lemma sample_control_ok: "control_ok sample_control"
  by (simp add: control_ok_def sample_control_def fits_def)

theorem message_delivered_in_phase_witness:
  "\<exists>r x b. message (\<lambda>_ s. (False, s)) [one_round (frame_bytes (outgoing_frame sample_control START))] 1
       (sample_control\<lparr>ct_receiver := False\<rparr>) START False () = Some (r, x, b, ()) \<and> r = Inr ()"
proof -
  let ?x = sample_control and ?y = "sample_control\<lparr>ct_receiver := False\<rparr>"
  let ?bs = "frame_bytes (outgoing_frame ?x START)"
  have len: "length ?bs = FRAME_SIZE" by (rule length_frame_bytes [OF outgoing_frame_ok [OF sample_control_ok]])
  then have ne: "?bs \<noteq> []" by (metis length_0_conv zero_neq_numeral)
  have w: "message (\<lambda>_ s. (False, s)) [one_round ?bs] 1 ?x START True () = Some (Inr (), ?x, ?bs, ())"
    using one_round_transfer [OF ne, of ?bs False "()"] by (simp add: message_def)
  have wp: "pieces_ok True [one_round ?bs] ?bs" by (rule one_round_pieces) simp_all
  have t: "transfer_loop (\<lambda>_ s. (False, s)) [one_round ?bs] (START = FAIL) 1 () [] (replicate FRAME_SIZE 0) = Some (Inr ?bs, ())"
    using one_round_transfer [OF ne, of "replicate FRAME_SIZE 0" False "()"] len by simp
  have rp: "pieces_ok False [one_round ?bs] (replicate FRAME_SIZE 0)" using len by (intro one_round_pieces) simp_all
  obtain r y' b where m: "message (\<lambda>_ s. (False, s)) [one_round ?bs] 1 ?y START False () = Some (r, y', b, ())"
    using t by (cases "accept_frame ?y START (frame_of ?bs)") (simp add: message_def)
  have pre: "prefix (concat (map piece_of [one_round ?bs])) (?bs @ [])" by simp
  from message_delivered_in_phase [OF w wp sample_control_ok m rp pre t] have "r = Inr ()" by (simp add: sample_control_def)
  with m show ?thesis by blast
qed

end
