(* ===== verification/Run_Children.thy ===== *)
theory Run_Children
  imports Control_Channel Run_Control Run_Config
begin

text \<open>
  The coordinator's supervision of its child processes (\<^verbatim>\<open>experiment/ace-run.c\<close>): spawning, reaping,
  waiting for readiness, for completion and for the end of a child, and the final clean-up.  The
  kernel is a parameter that answers each call and moves on a world of its own; the model keeps the
  clock, which sleeping advances, and a log of what was done to the children, so that the order of
  actions can be stated.  All waits are bounded by the clock, and the functions are total.
\<close>

section \<open>State\<close>

record child =
  ch_pid :: int
  ch_done :: bool
  ch_status :: nat
  ch_stopping :: bool
  ch_persistent :: bool
  ch_completion :: bool
  ch_measurement_done :: bool
  ch_barrier :: bool
  ch_policy :: int
  ch_priority :: int
  ch_cpus :: "nat set"
  ch_name :: string
  ch_ready :: string
  ch_staging :: string

text \<open>The macros of \<^verbatim>\<open>sys/wait.h\<close> on a wait status.\<close>

definition WIFEXITED :: "nat \<Rightarrow> bool" where "WIFEXITED status \<longleftrightarrow> status mod 128 = 0"
definition WEXITSTATUS :: "nat \<Rightarrow> nat" where "WEXITSTATUS status = status div 256 mod 256"
definition WTERMSIG :: "nat \<Rightarrow> nat" where "WTERMSIG status = status mod 128"
definition WIFSIGNALED :: "nat \<Rightarrow> bool" where "WIFSIGNALED status \<longleftrightarrow> 0 < status mod 128 \<and> status mod 128 < 127"

abbreviation SIGTERM :: nat where "SIGTERM \<equiv> 15"
abbreviation SIGKILL :: nat where "SIGKILL \<equiv> 9"
abbreviation SIGUSR1 :: nat where "SIGUSR1 \<equiv> 10"
abbreviation SIGUSR2 :: nat where "SIGUSR2 \<equiv> 12"
abbreviation ECHILD :: errno where "ECHILD \<equiv> 10"
abbreviation MAX_CHILDREN :: nat where "MAX_CHILDREN \<equiv> 24"

text \<open>\<^verbatim>\<open>waitpid\<close> with WNOHANG: 0, the pid with a status, or an error.\<close>

datatype wait_answer = Still_running | Ended nat | Wait_failed errno

text \<open>
  What a child runs and how: its arguments, CPU set, scheduling policy and priority, and the control
  group it joins first, and the environment variables the coordinator set.  The log records these and the other actions, with the index of the child.
\<close>

record launch =
  la_args :: "string list"
  la_cpus :: "nat set"
  la_policy :: int
  la_priority :: int
  la_group :: "string option"
  la_env :: "string \<rightharpoonup> string"

datatype event =
    Spawned nat string launch
  | Signalled nat nat
  | Finished nat nat
  | Sent u32
  | Received u32
  | Created string
  | Wrote string string

text \<open>
  What others see of a run: its messages, and the marker files that say how it ended.  A marker that is
  there is \<open>Mark\<close>; once its text is written and synchronised it is \<open>Kept\<close>.
\<close>

datatype sign = Say u32 | Hear u32 | Mark string | Kept string

definition marker_name :: "string \<Rightarrow> string option" where
  "marker_name p =
     (if suffix ''/.complete'' p then Some ''.complete'' else if suffix ''/.failed'' p then Some ''.failed'' else None)"

fun sign_of :: "event \<Rightarrow> sign option" where
  "sign_of (Sent t) = Some (Say t)"
| "sign_of (Received t) = Some (Hear t)"
| "sign_of (Created p) = map_option Mark (marker_name p)"
| "sign_of (Wrote p t) = map_option Kept (marker_name p)"
| "sign_of _ = None"

text \<open>
  One answer of \<^verbatim>\<open>ppoll\<close> in \<^verbatim>\<open>wait_completions\<close>: an error, the timeout, or whether the peer's socket is
  ready and for each of the three pipes that are ready what reading a byte gives (\<open>None\<close> is the end of
  the pipe).
\<close>

datatype completion_poll = Poll_failed errno | Poll_timeout | Poll_ready bool "(errno + nat option) option list"

record 'w kernel =
  kn_wait :: "int \<Rightarrow> 'w \<Rightarrow> wait_answer \<times> 'w"
  kn_wait_block :: "int \<Rightarrow> 'w \<Rightarrow> nat \<times> 'w"
  kn_sleep :: "'w \<Rightarrow> nat \<times> bool \<times> 'w"
  kn_spawn :: "string \<Rightarrow> launch \<Rightarrow> 'w \<Rightarrow> (errno + int) \<times> 'w"
  kn_kill :: "int \<Rightarrow> nat \<Rightarrow> 'w \<Rightarrow> errno option \<times> 'w"
  kn_lstat :: "string \<Rightarrow> 'w \<Rightarrow> (errno + bool \<times> nat) \<times> 'w"
  kn_placement :: "int \<Rightarrow> 'w \<Rightarrow> (errno + nat set \<times> int \<times> int) \<times> 'w"
  kn_unlink :: "string \<Rightarrow> 'w \<Rightarrow> errno option \<times> 'w"
  kn_poll :: "'w \<Rightarrow> nat \<times> bool \<times> completion_poll \<times> 'w"
  kn_rounds :: "'w \<Rightarrow> io_round list \<times> 'w"
  kn_write :: "string \<Rightarrow> string \<Rightarrow> 'w \<Rightarrow> errno option \<times> 'w"
  kn_affinity :: "'w \<Rightarrow> (errno + nat set) \<times> 'w"
  kn_set_affinity :: "nat set \<Rightarrow> 'w \<Rightarrow> errno option \<times> 'w"
  kn_set_policy :: "int \<Rightarrow> int \<Rightarrow> 'w \<Rightarrow> errno option \<times> 'w"
  kn_adopted :: "'w \<Rightarrow> 'w"
  kn_pid :: int
  kn_pipe :: "'w \<Rightarrow> (errno + nat) \<times> 'w"
  kn_mkdir :: "string \<Rightarrow> 'w \<Rightarrow> errno option \<times> 'w"
  kn_isdir :: "string \<Rightarrow> 'w \<Rightarrow> bool \<times> 'w"
  kn_rename :: "string \<Rightarrow> string \<Rightarrow> 'w \<Rightarrow> errno option \<times> 'w"
  kn_link :: "string \<Rightarrow> string \<Rightarrow> 'w \<Rightarrow> errno option \<times> 'w"
  kn_manifest :: "string \<Rightarrow> string \<Rightarrow> string \<Rightarrow> 'w \<Rightarrow> errno option \<times> 'w"
  kn_access :: "string \<Rightarrow> bool \<Rightarrow> 'w \<Rightarrow> errno option \<times> 'w"
  kn_realpath :: "string \<Rightarrow> 'w \<Rightarrow> (errno + string) \<times> 'w"
  kn_listen :: "'w \<Rightarrow> errno option \<times> 'w"
  kn_accept :: "'w \<Rightarrow> (errno + byte list) \<times> 'w"
  kn_connect :: "'w \<Rightarrow> (errno + bool) \<times> 'w"
  kn_lock :: "'w \<Rightarrow> errno option \<times> 'w"
  kn_create :: "string \<Rightarrow> 'w \<Rightarrow> errno option \<times> 'w"
  kn_subreaper :: "'w \<Rightarrow> errno option \<times> 'w"
  kn_chdir :: "string \<Rightarrow> 'w \<Rightarrow> errno option \<times> 'w"

record 'w run_context =
  x_config :: run_config
  x_children :: "child list"
  x_control :: control
  x_owns_run :: bool
  x_partition_attempted :: bool
  x_partition_active :: bool
  x_partition_group :: string
  x_coalesce_active :: bool
  x_release_attempts :: nat
  x_restore_attempts :: nat
  x_env :: "string \<rightharpoonup> string"
  x_suite :: string
  x_run_dir :: string
  x_mode :: string
  x_repeat :: nat
  x_clock :: int
  x_stopping :: bool
  x_log :: "event list"
  x_world :: 'w

text \<open>
  The result of a function that returns 0 or -1: \<open>Err (Some e)\<close> where it sets errno, \<open>Err None\<close> where
  errno is what an earlier call left; \<open>Unfinished\<close> is a transfer whose rounds do not suffice.
\<close>

datatype outcome = Ok | Err "errno option" | Unfinished

definition sleep_for :: "'w kernel \<Rightarrow> int \<Rightarrow> 'w run_context \<Rightarrow> 'w run_context" where
  "sleep_for k d x =
     (case kn_sleep k (x_world x) of (extra, signal, w) \<Rightarrow>
       x\<lparr>x_clock := x_clock x + d + int extra, x_stopping := (x_stopping x \<or> signal), x_world := w\<rparr>)"

definition log_event :: "event \<Rightarrow> 'w run_context \<Rightarrow> 'w run_context" where
  "log_event e x = x\<lparr>x_log := x_log x @ [e]\<rparr>"

definition update_child :: "nat \<Rightarrow> (child \<Rightarrow> child) \<Rightarrow> 'w run_context \<Rightarrow> 'w run_context" where
  "update_child i f x = x\<lparr>x_children := (x_children x)[i := f (x_children x ! i)]\<rparr>"

section \<open>Placement of the coordinator\<close>

text \<open>The kernel may restrict the set silently, so the set in force is compared.\<close>

definition apply_cpu_set :: "'w kernel \<Rightarrow> nat set \<Rightarrow> 'w run_context \<Rightarrow> outcome \<times> 'w run_context" where
  "apply_cpu_set k cpus x =
   (case kn_set_affinity k cpus (x_world x) of
      (Some e, w) \<Rightarrow> (Err (Some e), x\<lparr>x_world := w\<rparr>)
    | (None, w) \<Rightarrow>
        (case kn_affinity k w of
           (Inl e, w) \<Rightarrow> (Err (Some e), x\<lparr>x_world := w\<rparr>)
         | (Inr actual, w) \<Rightarrow> (if actual = cpus then Ok else Err (Some EINVAL), x\<lparr>x_world := w\<rparr>)))"

definition scheduler_mask :: "'w kernel \<Rightarrow> nat set option \<Rightarrow> int \<Rightarrow> int \<Rightarrow> 'w run_context \<Rightarrow> outcome \<times> 'w run_context" where
  "scheduler_mask k cpus policy priority x =
   (case (case cpus of None \<Rightarrow> (Ok, x) | Some c \<Rightarrow> apply_cpu_set k c x) of
      (Ok, x) \<Rightarrow>
        (case kn_set_policy k policy priority (x_world x) of
           (None, w) \<Rightarrow> (Ok, x\<lparr>x_world := w\<rparr>)
         | (Some e, w) \<Rightarrow> (Err (Some e), x\<lparr>x_world := w\<rparr>))
    | (r, x) \<Rightarrow> (r, x))"

definition scheduler :: "'w kernel \<Rightarrow> int \<Rightarrow> int \<Rightarrow> int \<Rightarrow> 'w run_context \<Rightarrow> outcome \<times> 'w run_context" where
  "scheduler k cpu policy priority x = scheduler_mask k (if cpu \<ge> 0 then Some {nat cpu} else None) policy priority x"

section \<open>Reaping\<close>

definition child_failed :: "child \<Rightarrow> bool" where
  "child_failed c \<longleftrightarrow> ch_done c \<and> \<not> ch_stopping c \<and>
     (ch_persistent c \<or> \<not> WIFEXITED (ch_status c) \<or> WEXITSTATUS (ch_status c) \<noteq> 0)"

definition reap_one :: "'w kernel \<Rightarrow> child \<Rightarrow> 'w \<Rightarrow> child \<times> 'w" where
  "reap_one k c w =
     (if ch_done c then (c, w)
      else (case kn_wait k (ch_pid c) w of
          (Still_running, w) \<Rightarrow> (c, w)
        | (Ended status, w) \<Rightarrow> (c\<lparr>ch_status := status, ch_done := True\<rparr>, w)
        | (Wait_failed e, w) \<Rightarrow> (if e = EINTR then c else c\<lparr>ch_done := True, ch_status := 256\<rparr>, w)))"

fun reap_children :: "'w kernel \<Rightarrow> nat \<Rightarrow> child list \<Rightarrow> 'w \<Rightarrow> bool \<times> child list \<times> event list \<times> 'w" where
  "reap_children k i [] w = (False, [], [], w)"
| "reap_children k i (c # cs) w =
     (case reap_one k c w of (c', w) \<Rightarrow>
      case reap_children k (i + 1) cs w of (failed, cs', es, w) \<Rightarrow>
        (child_failed c' \<or> failed, c' # cs', (if ch_done c' \<and> \<not> ch_done c then Finished i (ch_status c') # es else es), w))"

text \<open>Whether a child failed, and the new state.\<close>

definition reap :: "'w kernel \<Rightarrow> 'w run_context \<Rightarrow> bool \<times> 'w run_context" where
  "reap k x =
     (case reap_children k 0 (x_children x) (x_world x) of (failed, cs, es, w) \<Rightarrow>
       (failed, x\<lparr>x_children := cs, x_log := x_log x @ es, x_world := w\<rparr>))"

lemma reap_clock [simp]: "x_clock (snd (reap k x)) = x_clock x" "x_stopping (snd (reap k x)) = x_stopping x"
  by (auto simp: reap_def split: prod.splits)

lemma sleep_clock: "x_clock x + d \<le> x_clock (sleep_for k d x)"
  by (auto simp: sleep_for_def split: prod.splits)

section \<open>Waiting\<close>

lemma reap_clock_eq: "(failed, x') = reap k x \<Longrightarrow> x_clock x' = x_clock x"
  using reap_clock(1) [of k x] by (metis snd_conv)

lemma sleep_later: "x_clock x = c \<Longrightarrow> 0 < d \<Longrightarrow> c < x_clock (sleep_for k d x)"
  using sleep_clock [of x d k] by linarith

function pause_loop :: "'w kernel \<Rightarrow> int \<Rightarrow> 'w run_context \<Rightarrow> outcome \<times> 'w run_context" where
  "pause_loop k until x =
     (if x_stopping x then (Err (Some EINTR), x)
      else (case reap k x of (failed, x) \<Rightarrow>
        if failed then (Err None, x)
        else (let left = until - x_clock x in
          if left \<le> 0 then (Ok, x)
          else pause_loop k until (sleep_for k (min left 10000000) x))))"
  by pat_completeness auto
termination
  by (relation "measure (\<lambda>(k, until, x). nat (until - x_clock x))") (auto simp: min_def dest!: reap_clock_eq intro!: sleep_later)

definition pause_ms :: "'w kernel \<Rightarrow> nat \<Rightarrow> 'w run_context \<Rightarrow> outcome \<times> 'w run_context" where
  "pause_ms k ms x = pause_loop k (x_clock x + int ms * 1000000) x"


lemma pause_clock:
  "pause_loop k until x = (r, x') \<Longrightarrow> x_clock x \<le> x_clock x' \<and> (r = Ok \<longrightarrow> until \<le> x_clock x')"
proof (induction k until x arbitrary: r x' rule: pause_loop.induct)
  case (1 k until x)
  obtain failed x2 where p: "reap k x = (failed, x2)" by fastforce
  have c: "x_clock x2 = x_clock x" using reap_clock_eq [OF p [symmetric]] .
  show ?case
  proof (cases "x_stopping x \<or> failed \<or> until \<le> x_clock x2")
    case True
    then show ?thesis using "1.prems" p c by (subst (asm) pause_loop.simps) (auto simp: Let_def split: if_splits)
  next
    case False
    then have "pause_loop k until (sleep_for k (min (until - x_clock x2) 10000000) x2) = (r, x')"
      using "1.prems" p by (subst (asm) pause_loop.simps) (auto simp: Let_def)
    from "1.IH" [OF _ p [symmetric] _ refl _ this] False
    have "x_clock (sleep_for k (min (until - x_clock x2) 10000000) x2) \<le> x_clock x' \<and> (r = Ok \<longrightarrow> until \<le> x_clock x')" by simp
    moreover have "x_clock x2 \<le> x_clock (sleep_for k (min (until - x_clock x2) 10000000) x2)"
      using sleep_clock [of x2 "min (until - x_clock x2) 10000000" k] False by (simp add: min_def split: if_splits)
    ultimately show ?thesis using c by linarith
  qed
qed

text \<open>\<^verbatim>\<open>verify_child_placement\<close>; \<open>text\<close> is the evidence file.\<close>

definition has_prefix :: "string \<Rightarrow> string \<Rightarrow> bool" where "has_prefix p s \<longleftrightarrow> take (length p) s = p"

definition placement_text :: "child \<Rightarrow> nat set \<Rightarrow> int \<Rightarrow> int \<Rightarrow> bool \<Rightarrow> string" where
  "placement_text c cpus policy priority okay =
     ''{'' @ [CHR 0x22] @ ''pid'' @ [CHR 0x22] @ '':'' @ show_int (ch_pid c) @ '','' @ [CHR 0x22] @ ''policy'' @ [CHR 0x22] @ '':'' @
     show_int policy @ '','' @ [CHR 0x22] @ ''priority'' @ [CHR 0x22] @ '':'' @ show_int priority @ '','' @ [CHR 0x22] @ ''verified'' @
     [CHR 0x22] @ '':'' @ (if okay then ''true'' else ''false'') @ '','' @ [CHR 0x22] @ ''cpus'' @ [CHR 0x22] @ '':['' @
     join_fields (map show_nat (filter (\<lambda>n. n \<in> cpus) [0..<CPU_SETSIZE])) @ '']}'' @ [NL]"

definition write_file :: "'w kernel \<Rightarrow> string \<Rightarrow> string \<Rightarrow> 'w run_context \<Rightarrow> errno option \<times> 'w run_context" where
  "write_file k path text x =
     (case kn_write k path text (x_world x) of
        (None, w) \<Rightarrow> (None, log_event (Wrote path text) (x\<lparr>x_world := w\<rparr>))
      | (Some e, w) \<Rightarrow> (Some e, x\<lparr>x_world := w\<rparr>))"

definition verify_child_placement :: "'w kernel \<Rightarrow> nat \<Rightarrow> 'w run_context \<Rightarrow> outcome \<times> 'w run_context" where
  "verify_child_placement k i x =
   (let c = x_children x ! i in
    if tm_verify_placement (cf_timing (x_config x)) = 0 \<or>
       \<not> has_prefix ''sender-flow'' (ch_name c) \<and> \<not> has_prefix ''receiver-flow'' (ch_name c)
    then (Ok, x)
    else (case kn_placement k (ch_pid c) (x_world x) of
        (Inl e, w) \<Rightarrow> (Err (Some e), x\<lparr>x_world := w\<rparr>)
      | (Inr (cpus, policy, priority), w) \<Rightarrow>
          (let okay = (cpus = ch_cpus c \<and> policy = ch_policy c \<and> priority = ch_priority c);
               path = x_run_dir x @ ''/'' @ ch_name c @ ''.placement.json'' in
           if length path \<ge> 4096 then (Err (Some ENAMETOOLONG), x\<lparr>x_world := w\<rparr>)
           else (case write_file k path (placement_text c cpus policy priority okay) (x\<lparr>x_world := w\<rparr>) of
               (Some e, x) \<Rightarrow> (Err (Some e), x)
             | (None, x) \<Rightarrow> if okay then (Ok, x) else (Err (Some EINVAL), x)))))"


lemma pause_ms_later: "(Ok, x2) = pause_ms k 10 (x1\<lparr>x_world := w\<rparr>) \<Longrightarrow> x_clock x1 < x_clock x2"
  using pause_clock [of k "x_clock x1 + int 10 * 1000000" "x1\<lparr>x_world := w\<rparr>" Ok x2] by (simp add: pause_ms_def)

function ready_loop :: "'w kernel \<Rightarrow> nat \<Rightarrow> int \<Rightarrow> 'w run_context \<Rightarrow> outcome \<times> 'w run_context" where
  "ready_loop k i until x =
   (if x_stopping x then (Err (Some EINTR), x)
    else (case reap k x of (failed, x) \<Rightarrow>
      if failed then (Err None, x)
      else if ch_done (x_children x ! i) then (Err (Some ECHILD), x)
      else (case kn_lstat k (ch_ready (x_children x ! i)) (x_world x) of
          (Inr (regular, st_size), w) \<Rightarrow>
            if \<not> regular \<or> st_size = 0 then (Err (Some EINVAL), x\<lparr>x_world := w\<rparr>)
            else verify_child_placement k i (x\<lparr>x_world := w\<rparr>)
        | (Inl e, w) \<Rightarrow>
            if e \<noteq> ENOENT then (Err (Some e), x\<lparr>x_world := w\<rparr>)
            else if x_clock x \<ge> until then (Err (Some ETIMEDOUT), x\<lparr>x_world := w\<rparr>)
            else (case pause_ms k 10 (x\<lparr>x_world := w\<rparr>) of
                (Ok, x) \<Rightarrow> ready_loop k i until x
              | (r, x) \<Rightarrow> (r, x)))))"
  by pat_completeness auto
termination
  by (relation "measure (\<lambda>(k, i, until, x). nat (until - x_clock x))") (auto dest!: reap_clock_eq pause_ms_later)

definition ready_child :: "'w kernel \<Rightarrow> nat \<Rightarrow> 'w run_context \<Rightarrow> outcome \<times> 'w run_context" where
  "ready_child k i x = ready_loop k i (x_clock x + int (unat (tm_ready_ms (cf_timing (x_config x)))) * 1000000) x"

text \<open>The signals that end a child go to its process group, the others to the process.\<close>

definition signal_child :: "'w kernel \<Rightarrow> nat \<Rightarrow> nat \<Rightarrow> 'w run_context \<Rightarrow> errno option \<times> 'w run_context" where
  "signal_child k i sig x =
     (case kn_kill k (if sig = SIGTERM \<or> sig = SIGKILL then - ch_pid (x_children x ! i) else ch_pid (x_children x ! i)) sig (x_world x) of
        (r, w) \<Rightarrow> (r, log_event (Signalled i sig) (x\<lparr>x_world := w\<rparr>)))"

definition request_stop :: "'w kernel \<Rightarrow> nat option \<Rightarrow> 'w run_context \<Rightarrow> 'w run_context" where
  "request_stop k index x =
   (case index of
      None \<Rightarrow> x
    | Some i \<Rightarrow>
        if \<not> ch_done (x_children x ! i) \<and> \<not> ch_stopping (x_children x ! i)
        then snd (signal_child k i SIGTERM (update_child i (\<lambda>c. c\<lparr>ch_stopping := True\<rparr>) x))
        else x)"

text \<open>The loop of \<^verbatim>\<open>wait_child\<close>: at the deadline the child is killed and waited for.\<close>

definition kill_child :: "'w kernel \<Rightarrow> nat \<Rightarrow> 'w run_context \<Rightarrow> 'w run_context" where
  "kill_child k i x =
     (let x = snd (signal_child k i SIGKILL (update_child i (\<lambda>c. c\<lparr>ch_stopping := True\<rparr>) x)) in
      case kn_wait_block k (ch_pid (x_children x ! i)) (x_world x) of
        (status, w) \<Rightarrow>
          log_event (Finished i status) (update_child i (\<lambda>c. c\<lparr>ch_status := status, ch_done := True\<rparr>) (x\<lparr>x_world := w\<rparr>)))"

function wait_loop :: "'w kernel \<Rightarrow> nat \<Rightarrow> int \<Rightarrow> bool \<Rightarrow> 'w run_context \<Rightarrow> outcome \<times> 'w run_context" where
  "wait_loop k i until cleanup x =
   (if ch_done (x_children x ! i) then (Ok, x)
    else if \<not> cleanup \<and> x_stopping x then (Err (Some EINTR), x)
    else (case reap k x of (failed, x) \<Rightarrow>
      if failed \<and> \<not> cleanup then (Err None, x)
      else if ch_done (x_children x ! i) then (Ok, x)
      else if x_clock x \<ge> until then (Err (Some ETIMEDOUT), kill_child k i x)
      else wait_loop k i until cleanup (sleep_for k 10000000 x)))"
  by pat_completeness auto
termination
  by (relation "measure (\<lambda>(k, i, until, cleanup, x). nat (until - x_clock x))") (auto dest!: reap_clock_eq intro!: sleep_later)

definition wait_verdict :: "'w kernel \<Rightarrow> nat \<Rightarrow> 'w run_context \<Rightarrow> outcome \<times> 'w run_context" where
  "wait_verdict k i x =
   (let c = x_children x ! i; status = ch_status c;
        external_load = (ch_name c = ''monitor'' \<or> ch_name c = ''network-load'') in
    if WIFEXITED status \<and> (WEXITSTATUS status = 0 \<or> external_load \<and> ch_stopping c \<and> WEXITSTATUS status = 130)
    then
      if WEXITSTATUS status = 0 \<and> ch_staging c \<noteq> []
      then (case kn_unlink k (ch_staging c) (x_world x) of
          (fault, w) \<Rightarrow>
            if fault \<noteq> None \<and> fault \<noteq> Some ENOENT then (Err fault, x\<lparr>x_world := w\<rparr>)
            else (Ok, update_child i (\<lambda>c. c\<lparr>ch_staging := []\<rparr>) (x\<lparr>x_world := w\<rparr>)))
      else (Ok, x)
    else if external_load \<and> ch_stopping c \<and> WIFSIGNALED status \<and> WTERMSIG status = SIGTERM then (Ok, x)
    else (Err (Some ECHILD), x))"

definition wait_child :: "'w kernel \<Rightarrow> nat \<Rightarrow> nat \<Rightarrow> bool \<Rightarrow> 'w run_context \<Rightarrow> outcome \<times> 'w run_context" where
  "wait_child k i timeout_ms cleanup x =
     (case wait_loop k i (x_clock x + int timeout_ms * 1000000) cleanup x of
        (Ok, x) \<Rightarrow> wait_verdict k i x
      | (r, x) \<Rightarrow> (r, x))"

definition stop_child :: "'w kernel \<Rightarrow> nat option \<Rightarrow> 'w run_context \<Rightarrow> outcome \<times> 'w run_context" where
  "stop_child k index x =
     (case index of
        None \<Rightarrow> (Ok, x)
      | Some i \<Rightarrow> wait_child k i (unat (tm_stop_ms (cf_timing (x_config x)))) True (request_stop k index x))"


section \<open>Spawning\<close>

definition new_child :: "int \<Rightarrow> string \<Rightarrow> string \<Rightarrow> nat set \<Rightarrow> int \<Rightarrow> int \<Rightarrow> bool \<Rightarrow> bool \<Rightarrow> child" where
  "new_child pid name ready expected policy priority persistent notify =
     \<lparr>ch_pid = pid, ch_done = False, ch_status = 0, ch_stopping = False, ch_persistent = persistent, ch_completion = False,
      ch_measurement_done = False, ch_barrier = notify, ch_policy = policy, ch_priority = priority, ch_cpus = expected,
      ch_name = take 31 name, ch_ready = take 4095 ready, ch_staging = []\<rparr>"

text \<open>The control group that the receiver of flow 2 joins while the CPU partition is active.\<close>

definition join_receiver_partition :: "'w run_context \<Rightarrow> string \<Rightarrow> string option" where
  "join_receiver_partition x name =
     (if \<not> x_partition_active x \<or> name \<noteq> ''receiver-flow2'' then None else Some (x_partition_group x))"

definition spawn_child ::
  "'w kernel \<Rightarrow> string \<Rightarrow> string \<Rightarrow> nat set option \<Rightarrow> int \<Rightarrow> int \<Rightarrow> bool \<Rightarrow> string list \<Rightarrow> bool \<Rightarrow>
     'w run_context \<Rightarrow> (errno + nat) \<times> 'w run_context" where
  "spawn_child k name ready requested policy priority persistent args notify x =
   (if length (x_children x) \<ge> MAX_CHILDREN then (Inl E2BIG, x)
    else
     (case (case requested of Some cpus \<Rightarrow> (Inr cpus, x_world x) | None \<Rightarrow> kn_affinity k (x_world x)) of
        (Inl e, w) \<Rightarrow> (Inl e, x\<lparr>x_world := w\<rparr>)
      | (Inr expected, w) \<Rightarrow>
          if length (x_run_dir x @ ''/'' @ name @ ''.log'') \<ge> 4096 then (Inl ENAMETOOLONG, x\<lparr>x_world := w\<rparr>)
          else
           (let what = \<lparr>la_args = args, la_cpus = expected, la_policy = policy, la_priority = priority,
                        la_group = join_receiver_partition x name, la_env = x_env x\<rparr> in
            case kn_spawn k name what w of
              (Inl e, w) \<Rightarrow> (Inl e, x\<lparr>x_world := w\<rparr>)
            | (Inr pid, w) \<Rightarrow>
                (let i = length (x_children x);
                     c = new_child pid name ready expected policy priority persistent notify in
                 (Inr i, log_event (Spawned i name what) (x\<lparr>x_children := x_children x @ [c], x_world := w\<rparr>))))))"

text \<open>A child that is spawned and waited for (the helper scripts).\<close>

definition run_tool :: "'w kernel \<Rightarrow> string \<Rightarrow> string list \<Rightarrow> nat \<Rightarrow> bool \<Rightarrow> 'w run_context \<Rightarrow> outcome \<times> 'w run_context" where
  "run_tool k name args timeout_ms cleanup x =
     (case spawn_child k name [] None 0 0 False args False x of
        (Inl e, x) \<Rightarrow> (Err (Some e), x)
      | (Inr i, x) \<Rightarrow> wait_child k i timeout_ms cleanup x)"

section \<open>Completion pipes\<close>

text \<open>The pipes that are ready, in order: a byte 0 marks the child's measurement as done.\<close>

fun read_pipes :: "(nat option \<times> (errno + nat option) option) list \<Rightarrow> 'w run_context \<Rightarrow> outcome \<times> 'w run_context" where
  "read_pipes [] x = (Ok, x)"
| "read_pipes ((index, answer) # ps) x =
     (case (index, answer) of
        (Some i, Some a) \<Rightarrow>
          if ch_measurement_done (x_children x ! i) then read_pipes ps x
          else if a = Inl EINTR then read_pipes ps x
          else if a \<noteq> Inr (Some 0) then (Err (Some ECHILD), x)
          else read_pipes ps (update_child i (\<lambda>c. c\<lparr>ch_measurement_done := True, ch_completion := False\<rparr>) x)
      | _ \<Rightarrow> read_pipes ps x)"

definition all_complete :: "nat option list \<Rightarrow> 'w run_context \<Rightarrow> bool" where
  "all_complete children x \<longleftrightarrow>
     list_all (\<lambda>index. case index of None \<Rightarrow> True | Some i \<Rightarrow> ch_measurement_done (x_children x ! i)) children"

text \<open>Every \<^verbatim>\<open>ppoll\<close> takes at least a nanosecond.\<close>

definition poll_children :: "'w kernel \<Rightarrow> 'w run_context \<Rightarrow> completion_poll \<times> 'w run_context" where
  "poll_children k x =
     (case kn_poll k (x_world x) of (extra, signal, answer, w) \<Rightarrow>
       (answer, x\<lparr>x_clock := x_clock x + 1 + int extra, x_stopping := (x_stopping x \<or> signal), x_world := w\<rparr>))"

lemma read_pipes_clock: "x_clock (snd (read_pipes ps x)) = x_clock x"
  by (induction ps x rule: read_pipes.induct) (auto simp: update_child_def split: option.splits prod.splits)

lemma poll_later: "(a, x') = poll_children k x \<Longrightarrow> x_clock x < x_clock x'"
  by (auto simp: poll_children_def split: prod.splits)

definition stop_or_reap :: "'w kernel \<Rightarrow> 'w run_context \<Rightarrow> bool \<times> 'w run_context" where
  "stop_or_reap k x = (if x_stopping x then (True, x) else reap k x)"

lemma stop_or_reap_clock: "(b, x') = stop_or_reap k x \<Longrightarrow> x_clock x' = x_clock x"
  by (auto simp: stop_or_reap_def split: if_splits dest: reap_clock_eq)

lemma read_pipes_later: "(r, x') = read_pipes ps x \<Longrightarrow> x_clock x' = x_clock x"
  using read_pipes_clock [of ps x] by (metis snd_conv)

function completions_loop :: "'w kernel \<Rightarrow> nat option list \<Rightarrow> int \<Rightarrow> 'w run_context \<Rightarrow> outcome \<times> 'w run_context" where
  "completions_loop k children until x =
   (case stop_or_reap k x of (failed, x) \<Rightarrow>
    if failed then (Err (Some ECHILD), x)
    else if all_complete children x then (Ok, x)
    else if until - x_clock x \<le> 0 then (Err (Some ETIMEDOUT), x)
    else (case poll_children k x of
        (Poll_ready peer answers, x) \<Rightarrow>
          if peer then (Err (Some ECONNRESET), x)
          else (case read_pipes (zip children answers) x of
              (Ok, x) \<Rightarrow> completions_loop k children until x
            | (r, x) \<Rightarrow> (r, x))
      | (Poll_timeout, x) \<Rightarrow> (Err (Some ETIMEDOUT), x)
      | (Poll_failed e, x) \<Rightarrow> if e \<noteq> EINTR then (Err (Some e), x) else completions_loop k children until x))"
  by pat_completeness auto
termination
  by (relation "measure (\<lambda>(k, children, until, x). nat (until - x_clock x))")
    (auto dest!: stop_or_reap_clock poll_later read_pipes_later)

definition wait_completions :: "'w kernel \<Rightarrow> nat option list \<Rightarrow> nat \<Rightarrow> 'w run_context \<Rightarrow> outcome \<times> 'w run_context" where
  "wait_completions k children timeout_ms x = completions_loop k children (x_clock x + int timeout_ms * 1000000) x"

section \<open>Control messages\<close>

definition stop_check :: "'w kernel \<Rightarrow> io_round \<Rightarrow> 'w run_context \<Rightarrow> bool \<times> 'w run_context" where
  "stop_check k r x =
     stop_or_reap k (x\<lparr>x_clock := max (x_clock x) (ir_now r), x_stopping := (x_stopping x \<or> ir_stop r)\<rparr>)"

definition control_message :: "'w kernel \<Rightarrow> u32 \<Rightarrow> bool \<Rightarrow> nat \<Rightarrow> 'w run_context \<Rightarrow> outcome \<times> 'w run_context" where
  "control_message k type writing timeout_ms x =
   (case kn_rounds k (x_world x) of (rounds, w) \<Rightarrow>
    case message (stop_check k) rounds (x_clock x + int timeout_ms * 1000000) (x_control x) type writing (x\<lparr>x_world := w\<rparr>) of
      None \<Rightarrow> (Unfinished, x)
    | Some (Inl e, ct, bytes, x) \<Rightarrow> (Err (Some e), x\<lparr>x_control := ct\<rparr>)
    | Some (Inr _, ct, bytes, x) \<Rightarrow>
        (Ok, log_event (if writing then Sent type else Received type) (x\<lparr>x_control := ct\<rparr>)))"

section \<open>Clean-up\<close>

definition coalesce :: "'w kernel \<Rightarrow> string \<Rightarrow> 'w run_context \<Rightarrow> outcome \<times> 'w run_context" where
  "coalesce k action x =
   (let restore = (action = ''restore'');
        x = (if restore then x\<lparr>x_restore_attempts := x_restore_attempts x + 1\<rparr> else x);
        name = (if restore then ''rx-coalesce-restore-'' @ show_nat (x_restore_attempts x) else ''rx-coalesce-'' @ action);
        args = [''bash'', ''./monitor/rx_coalesce.sh'', action, cf_interface (x_config x), x_run_dir x,
                show_int (tm_rx_coalesce_usecs (cf_timing (x_config x)))] in
    case run_tool k name args (unat (tm_ready_ms (cf_timing (x_config x)))) restore x of
      (Ok, x) \<Rightarrow> (Ok, x\<lparr>x_coalesce_active := \<not> restore\<rparr>)
    | (r, x) \<Rightarrow> (r, x))"

definition is_loader :: "'w run_context \<Rightarrow> nat \<Rightarrow> bool" where
  "is_loader x i \<longleftrightarrow> ch_name (x_children x ! i) = ''xdp-loader''"

text \<open>The steps of the clean-up, each over all children.\<close>

definition stop_others :: "'w kernel \<Rightarrow> 'w run_context \<Rightarrow> 'w run_context" where
  "stop_others k x = fold (\<lambda>i x. if is_loader x i then x else request_stop k (Some i) x) [0..<length (x_children x)] x"

definition release_barriers :: "'w kernel \<Rightarrow> 'w run_context \<Rightarrow> 'w run_context" where
  "release_barriers k x =
     fold (\<lambda>i x. if ch_barrier (x_children x ! i) \<and> \<not> ch_done (x_children x ! i) then snd (signal_child k i SIGUSR1 x) else x)
       [0..<length (x_children x)] x"

definition stop_timeout :: "'w run_context \<Rightarrow> nat" where "stop_timeout x = unat (tm_stop_ms (cf_timing (x_config x)))"

definition wait_others :: "'w kernel \<Rightarrow> 'w run_context \<Rightarrow> 'w run_context" where
  "wait_others k x =
     fold (\<lambda>i x. if is_loader x i then x else snd (wait_child k i (stop_timeout x) True x)) [0..<length (x_children x)] x"

definition stop_loaders :: "'w kernel \<Rightarrow> 'w run_context \<Rightarrow> 'w run_context" where
  "stop_loaders k x =
     fold (\<lambda>i x. if is_loader x i then snd (stop_child k (Some i) x) else x) [0..<length (x_children x)] x"

text \<open>
  \<^verbatim>\<open>cleanup_adopted_children\<close>, which ends the descendants that other children left behind, is the call
  \<open>kn_adopted\<close>.
\<close>

definition cleanup_children :: "'w kernel \<Rightarrow> 'w run_context \<Rightarrow> 'w run_context" where
  "cleanup_children k x =
   (let x = stop_loaders k (wait_others k (release_barriers k (stop_others k x)));
        x = x\<lparr>x_world := kn_adopted k (x_world x)\<rparr>;
        x = (if x_coalesce_active x then snd (coalesce k ''restore'' x) else x) in
    x\<lparr>x_children := map (\<lambda>c. c\<lparr>ch_completion := False\<rparr>) (x_children x)\<rparr>)"


declare pause_loop.simps [simp del] ready_loop.simps [simp del] wait_loop.simps [simp del] completions_loop.simps [simp del]

end
