(* ===== verification/Supervision.thy ===== *)
theory Supervision
  imports Run_Children
begin

text \<open>
  What the coordinator's supervision guarantees.  Every operation of \<open>Run_Children\<close> advances the run:
  the log grows, no child is lost, and the end of every child is logged.  From this follow the facts
  about waiting and the theorem on the clean-up.
\<close>


section \<open>What a step keeps\<close>

definition kept :: "child \<Rightarrow> child \<Rightarrow> bool" where
  "kept c c' \<longleftrightarrow> ch_pid c' = ch_pid c \<and> ch_name c' = ch_name c \<and> ch_persistent c' = ch_persistent c \<and> ch_barrier c' = ch_barrier c \<and>
     (ch_done c \<longrightarrow> ch_done c' \<and> ch_status c' = ch_status c) \<and> (ch_stopping c \<longrightarrow> ch_stopping c') \<and>
     (ch_measurement_done c \<longrightarrow> ch_measurement_done c')"

definition new_log :: "'w run_context \<Rightarrow> 'w run_context \<Rightarrow> event list" where
  "new_log x x' = drop (length (x_log x)) (x_log x')"

text \<open>
  \<open>advances x x'\<close>: the log only grows, the configuration stays, no child is lost, a child that is done
  stays done with its status, and a child that has become done has its end in the new part of the log.
\<close>

definition advances :: "'w run_context \<Rightarrow> 'w run_context \<Rightarrow> bool" where
  "advances x x' \<longleftrightarrow> prefix (x_log x) (x_log x') \<and> x_config x' = x_config x \<and> x_run_dir x' = x_run_dir x \<and> x_mode x' = x_mode x \<and>
     ct_receiver (x_control x') = ct_receiver (x_control x) \<and> length (x_children x) \<le> length (x_children x') \<and>
     (\<forall>j < length (x_children x). kept (x_children x ! j) (x_children x' ! j)) \<and>
     (\<forall>j < length (x_children x'). ch_done (x_children x' ! j) \<longrightarrow>
        j < length (x_children x) \<and> ch_done (x_children x ! j) \<or>
        Finished j (ch_status (x_children x' ! j)) \<in> set (new_log x x'))"

lemma kept_refl [simp]: "kept c c"
  by (simp add: kept_def)

lemma kept_trans: "kept a b \<Longrightarrow> kept b c \<Longrightarrow> kept a c"
  by (simp add: kept_def)

lemma new_log_self [simp]: "new_log x x = []"
  by (simp add: new_log_def)

lemma new_log_trans: "prefix (x_log x) (x_log y) \<Longrightarrow> prefix (x_log y) (x_log z) \<Longrightarrow> new_log x z = new_log x y @ new_log y z"
  by (auto simp: new_log_def prefix_def)

lemma advances_refl [simp]: "advances x x"
  by (simp add: advances_def)

lemma advances_trans:
  assumes "advances x y" "advances y z"
  shows "advances x z"
proof -
  have l: "new_log x z = new_log x y @ new_log y z" using assms by (intro new_log_trans) (auto simp: advances_def)
  have "kept (x_children x ! j) (x_children z ! j)" if "j < length (x_children x)" for j
    using assms that by (auto simp: advances_def intro: kept_trans)
  moreover have "j < length (x_children x) \<and> ch_done (x_children x ! j) \<or> Finished j (ch_status (x_children z ! j)) \<in> set (new_log x z)"
    if j: "j < length (x_children z)" "ch_done (x_children z ! j)" for j
  proof (cases "j < length (x_children y) \<and> ch_done (x_children y ! j)")
    case True
    then have s: "ch_status (x_children z ! j) = ch_status (x_children y ! j)" using assms(2) by (auto simp: advances_def kept_def)
    from True assms(1) have "j < length (x_children x) \<and> ch_done (x_children x ! j) \<or>
      Finished j (ch_status (x_children y ! j)) \<in> set (new_log x y)" by (auto simp: advances_def)
    then show ?thesis unfolding s l by auto
  next
    case False
    then have "Finished j (ch_status (x_children z ! j)) \<in> set (new_log y z)" using assms(2) j by (auto simp: advances_def)
    then show ?thesis by (simp add: l)
  qed
  ultimately show ?thesis using assms unfolding advances_def by (auto intro: prefix_order.trans)
qed

text \<open>\<open>moves S x x'\<close>: the step sends no control message, marks no run and signals only what \<open>S\<close> allows.\<close>

fun harmless :: "(nat \<times> nat) set \<Rightarrow> event \<Rightarrow> bool" where
  "harmless S (Signalled j sig) \<longleftrightarrow> (j, sig) \<in> S"
| "harmless S (Sent t) \<longleftrightarrow> False"
| "harmless S (Received t) \<longleftrightarrow> False"
| "harmless S (Created p) \<longleftrightarrow> sign_of (Created p) = None"
| "harmless S (Wrote p t) \<longleftrightarrow> sign_of (Wrote p t) = None"
| "harmless S _ \<longleftrightarrow> True"

definition moves :: "(nat \<times> nat) set \<Rightarrow> 'w run_context \<Rightarrow> 'w run_context \<Rightarrow> bool" where
  "moves S x x' \<longleftrightarrow> advances x x' \<and> list_all (harmless S) (new_log x x')"

lemma moves_refl [simp]: "moves S x x"
  by (simp add: moves_def)

lemma harmless_mono: "harmless S e \<Longrightarrow> S \<subseteq> T \<Longrightarrow> harmless T e"
  by (cases e) auto

lemma moves_mono: "moves S x x' \<Longrightarrow> S \<subseteq> T \<Longrightarrow> moves T x x'"
  by (auto simp: moves_def list_all_iff intro: harmless_mono)

lemma moves_trans: "moves S x y \<Longrightarrow> moves S y z \<Longrightarrow> moves S x z"
proof -
  assume a: "moves S x y" "moves S y z"
  then have "new_log x z = new_log x y @ new_log y z" by (intro new_log_trans) (auto simp: moves_def advances_def)
  with a show ?thesis using advances_trans [of x y z] by (simp add: moves_def)
qed

text \<open>Steps on the world, the clock and the flags alone.\<close>

lemma moves_same:
  assumes "x_children x' = x_children x" "x_log x' = x_log x" "x_config x' = x_config x" "x_run_dir x' = x_run_dir x" "x_mode x' = x_mode x"
    "ct_receiver (x_control x') = ct_receiver (x_control x)"
  shows "moves S x x'"
  using assms by (simp add: moves_def advances_def new_log_def)

lemma moves_world [simp]: "moves S x (x\<lparr>x_world := w\<rparr>)"
  by (rule moves_same) simp_all

lemma moves_sleep [simp]: "moves S x (sleep_for k d x)"
  by (rule moves_same) (auto simp: sleep_for_def split: prod.splits)

lemma moves_log: "harmless S e \<Longrightarrow> (\<And>j st. e \<noteq> Finished j st) \<Longrightarrow> moves S x (log_event e x)"
  by (simp add: moves_def advances_def new_log_def log_event_def)

lemma moves_update:
  assumes "\<And>c. kept c (f c)" "\<And>c. ch_done (f c) = ch_done c"
  shows "moves S x (update_child i f x)"
proof -
  have "kept (x_children x ! j) ((x_children x)[i := f (x_children x ! i)] ! j) \<and>
      ch_done ((x_children x)[i := f (x_children x ! i)] ! j) = ch_done (x_children x ! j)" if "j < length (x_children x)" for j
    using assms that by (cases "j = i") auto
  then show ?thesis by (auto simp: moves_def advances_def new_log_def update_child_def)
qed

section \<open>Reaping\<close>

lemma reap_one_kept: "reap_one k c w = (c', w') \<Longrightarrow> kept c c'"
  by (auto simp: reap_one_def kept_def split: if_splits wait_answer.splits prod.splits)

lemma reap_children_advance:
  assumes "reap_children k i cs w = (failed, cs', es, w')"
  shows "length cs' = length cs \<and> (\<forall>j < length cs. kept (cs ! j) (cs' ! j)) \<and> list_all (harmless {}) es \<and>
    (\<forall>j < length cs. ch_done (cs' ! j) \<longrightarrow> ch_done (cs ! j) \<or> Finished (i + j) (ch_status (cs' ! j)) \<in> set es) \<and>
    (failed \<longleftrightarrow> (\<exists>c \<in> set cs'. child_failed c))"
  using assms
proof (induction k i cs w arbitrary: failed cs' es w' rule: reap_children.induct)
  case (1 k i w)
  then show ?case by simp
next
  case (2 k i c cs w)
  obtain c' w1 where c: "reap_one k c w = (c', w1)" by fastforce
  obtain f2 cs2 es2 w2 where r: "reap_children k (i + 1) cs w1 = (f2, cs2, es2, w2)" by (metis prod_cases4)
  have e: "failed = (child_failed c' \<or> f2)" "cs' = c' # cs2"
    "es = (if ch_done c' \<and> \<not> ch_done c then Finished i (ch_status c') # es2 else es2)"
    using 2(2) c r by auto
  note ih = 2(1) [OF c [symmetric] r]
  have "kept ((c # cs) ! j) (cs' ! j)" if "j < length (c # cs)" for j
    using that ih reap_one_kept [OF c] e(2) by (cases j) auto
  moreover have "ch_done ((c # cs) ! j) \<or> Finished (i + j) (ch_status (cs' ! j)) \<in> set es"
    if "j < length (c # cs)" "ch_done (cs' ! j)" for j
    using that ih e(2,3) by (cases j) auto
  ultimately show ?case using ih e by auto
qed

lemma reap_moves: "reap k x = (failed, x') \<Longrightarrow> moves S x x' \<and> length (x_children x') = length (x_children x) \<and>
    (\<not> failed \<longrightarrow> (\<forall>c \<in> set (x_children x'). \<not> child_failed c))"
proof -
  assume a: "reap k x = (failed, x')"
  obtain f cs es w where r: "reap_children k 0 (x_children x) (x_world x) = (f, cs, es, w)" by (metis prod_cases4)
  have x: "f = failed" "x' = x\<lparr>x_children := cs, x_log := x_log x @ es, x_world := w\<rparr>" using a r by (auto simp: reap_def)
  note c = reap_children_advance [OF r]
  then have "list_all (harmless S) es" by (auto simp: list_all_iff intro: harmless_mono)
  with c x show ?thesis by (auto simp: moves_def advances_def new_log_def)
qed


text \<open>\<open>steady S x x'\<close>: a step that spawns no child.\<close>

definition steady :: "(nat \<times> nat) set \<Rightarrow> 'w run_context \<Rightarrow> 'w run_context \<Rightarrow> bool" where
  "steady S x x' \<longleftrightarrow> moves S x x' \<and> length (x_children x') = length (x_children x)"

lemma steady_refl [simp]: "steady S x x"
  by (simp add: steady_def)

lemma steady_trans: "steady S x y \<Longrightarrow> steady S y z \<Longrightarrow> steady S x z"
  using moves_trans [of S x y z] by (simp add: steady_def)

lemma steady_mono: "steady S x x' \<Longrightarrow> S \<subseteq> T \<Longrightarrow> steady T x x'"
  by (auto simp: steady_def intro: moves_mono)

lemma steady_world [simp]: "steady S x (x\<lparr>x_world := w\<rparr>)"
  by (simp add: steady_def)

lemma steady_sleep [simp]: "steady S x (sleep_for k d x)"
  by (auto simp: steady_def sleep_for_def split: prod.splits intro!: moves_same)

lemma steady_update: "(\<And>c. kept c (f c)) \<Longrightarrow> (\<And>c. ch_done (f c) = ch_done c) \<Longrightarrow> steady S x (update_child i f x)"
  using moves_update [of f S x i] by (simp add: steady_def update_child_def)

lemma steady_log: "harmless S e \<Longrightarrow> (\<And>j st. e \<noteq> Finished j st) \<Longrightarrow> steady S x (log_event e x)"
  using moves_log [of S e x] by (simp add: steady_def log_event_def)

lemma reap_steady: "reap k x = (failed, x') \<Longrightarrow> steady S x x'"
  using reap_moves [of k x failed x' S] by (simp add: steady_def)

section \<open>Waiting\<close>

lemma pause_steady: "pause_loop k until x = (r, x') \<Longrightarrow> steady S x x'"
proof (induction k until x arbitrary: r x' rule: pause_loop.induct)
  case (1 k until x)
  obtain failed x2 where p: "reap k x = (failed, x2)" by fastforce
  have m: "steady S x x2" using reap_steady [OF p] by simp
  show ?case
  proof (cases "x_stopping x \<or> failed \<or> until \<le> x_clock x2")
    case True
    then show ?thesis using "1.prems" p m by (subst (asm) pause_loop.simps) (auto simp: Let_def split: if_splits)
  next
    case False
    then have q: "pause_loop k until (sleep_for k (min (until - x_clock x2) 10000000) x2) = (r, x')"
      using "1.prems" p by (subst (asm) pause_loop.simps) (auto simp: Let_def)
    from "1.IH" [OF _ p [symmetric] _ refl _ q] False
    have "steady S (sleep_for k (min (until - x_clock x2) 10000000) x2) x'" by simp
    with m show ?thesis by (metis steady_trans steady_sleep)
  qed
qed

lemma write_steady:
  assumes "write_file k path t x = (r, x')" "sign_of (Wrote path t) = None"
  shows "steady S x x'"
proof -
  obtain f w where w: "kn_write k path t (x_world x) = (f, w)" by fastforce
  have "steady S (x\<lparr>x_world := w\<rparr>) (log_event (Wrote path t) (x\<lparr>x_world := w\<rparr>))" using assms(2) by (intro steady_log) simp_all
  with assms(1) w show ?thesis by (auto simp: write_file_def split: option.splits intro: steady_trans [OF steady_world])
qed

lemma suffix_last: "suffix s p \<Longrightarrow> s \<noteq> [] \<Longrightarrow> last p = last s"
  by (auto simp: suffix_def)

lemma unmarked: "p \<noteq> [] \<Longrightarrow> last p \<noteq> CHR ''e'' \<Longrightarrow> last p \<noteq> CHR ''d'' \<Longrightarrow> sign_of (Wrote p t) = None"
  using suffix_last [of "''/.complete''" p] suffix_last [of "''/.failed''" p] by (auto simp: marker_name_def)

lemma verify_steady: "verify_child_placement k i x = (r, x') \<Longrightarrow> steady S x x'"
proof -
  assume a: "verify_child_placement k i x = (r, x')"
  obtain p w where p: "kn_placement k (ch_pid (x_children x ! i)) (x_world x) = (p, w)" by fastforce
  have w: "steady S x y" if "write_file k (x_run_dir x @ ''/'' @ name @ ''.placement.json'') t (x\<lparr>x_world := w\<rparr>) = (f, y)" for name t f y
    by (rule steady_trans [OF steady_world write_steady [OF that]]) (rule unmarked, simp_all)
  show ?thesis
    using a w by (auto simp: verify_child_placement_def Let_def p split: sum.splits if_splits prod.splits option.splits)
qed

lemma ready_steady: "ready_loop k i until x = (r, x') \<Longrightarrow> steady S x x'"
proof (induction k i until x arbitrary: r x' rule: ready_loop.induct)
  case (1 k i until x)
  show ?case
  proof (cases "x_stopping x")
    case True
    then show ?thesis using "1.prems" by (subst (asm) ready_loop.simps) simp
  next
    case run: False
    obtain failed x2 where p: "reap k x = (failed, x2)" by fastforce
    have m: "steady S x x2" using reap_steady [OF p] by simp
    obtain l w where l: "kn_lstat k (ch_ready (x_children x2 ! i)) (x_world x2) = (l, w)" by fastforce
    have mw: "steady S x (x2\<lparr>x_world := w\<rparr>)" by (rule steady_trans [OF m steady_world])
    obtain r3 x3 where q: "pause_ms k 10 (x2\<lparr>x_world := w\<rparr>) = (r3, x3)" by fastforce
    have m3: "steady S x x3" using steady_trans [OF mw pause_steady] q by (auto simp: pause_ms_def)
    show ?thesis
    proof (cases "\<not> failed \<and> \<not> ch_done (x_children x2 ! i) \<and> l = Inl ENOENT \<and> x_clock x2 < until \<and> r3 = Ok")
      case True
      then have "ready_loop k i until x3 = (r, x')" using "1.prems" p l q run by (subst (asm) ready_loop.simps) simp
      with "1.IH" [OF run p [symmetric] _ _ l [symmetric], of ENOENT r3 x3] True q have "steady S x3 x'" by auto
      with m3 show ?thesis by (rule steady_trans)
    next
      case False
      then show ?thesis
        using "1.prems" p l q run m mw m3 verify_steady [of k i "x2\<lparr>x_world := w\<rparr>"]
        by (subst (asm) ready_loop.simps) (auto split: if_splits sum.splits outcome.splits intro: steady_trans [OF mw])
    qed
  qed
qed



lemmas pause_moves = pause_steady [unfolded steady_def, THEN conjunct1]
lemmas ready_moves = ready_steady [unfolded steady_def, THEN conjunct1]

lemma steady_done:
  "steady S x x' \<Longrightarrow> j < length (x_children x) \<Longrightarrow> ch_done (x_children x ! j) \<Longrightarrow>
     ch_done (x_children x' ! j) \<and> ch_status (x_children x' ! j) = ch_status (x_children x ! j)"
  by (auto simp: steady_def moves_def advances_def kept_def)

lemma steady_name: "steady S x x' \<Longrightarrow> j < length (x_children x) \<Longrightarrow> ch_name (x_children x' ! j) = ch_name (x_children x ! j)"
  by (auto simp: steady_def moves_def advances_def kept_def)

lemma signal_result: "\<exists>w. snd (signal_child k i sig x) = log_event (Signalled i sig) (x\<lparr>x_world := w\<rparr>)"
  by (auto simp: signal_child_def split: prod.split)

lemma signal_steady:
  assumes "(i, sig) \<in> S"
  shows "steady S x (snd (signal_child k i sig x))"
proof -
  obtain w where w: "snd (signal_child k i sig x) = log_event (Signalled i sig) (x\<lparr>x_world := w\<rparr>)"
    using signal_result [of k i sig x] by (elim exE)
  have "steady S (x\<lparr>x_world := w\<rparr>) (log_event (Signalled i sig) (x\<lparr>x_world := w\<rparr>))" using assms by (intro steady_log) auto
  then show ?thesis unfolding w by (rule steady_trans [OF steady_world])
qed

lemma stop_flag_steady: "steady S x (update_child i (\<lambda>c. c\<lparr>ch_stopping := True\<rparr>) x)"
  by (rule steady_update) (simp_all add: kept_def)

lemma request_stop_steady: "(i, SIGTERM) \<in> S \<Longrightarrow> steady S x (request_stop k (Some i) x)"
  using steady_trans [OF stop_flag_steady signal_steady] by (auto simp: request_stop_def)

lemma finish_steady:
  assumes "\<not> ch_done (x_children x ! i)"
  shows "steady S x (log_event (Finished i status) (update_child i (\<lambda>c. c\<lparr>ch_status := status, ch_done := True\<rparr>) x))"
proof -
  let ?f = "\<lambda>c. c\<lparr>ch_status := status, ch_done := True\<rparr>"
  have "kept (x_children x ! j) ((x_children x)[i := ?f (x_children x ! i)] ! j)" if "j < length (x_children x)" for j
    using assms that by (cases "j = i") (auto simp: kept_def)
  moreover have "ch_done (x_children x ! j) \<or> Finished j (ch_status ((x_children x)[i := ?f (x_children x ! i)] ! j)) = Finished i status"
    if "j < length (x_children x)" "ch_done ((x_children x)[i := ?f (x_children x ! i)] ! j)" for j
    using that by (cases "j = i") auto
  ultimately show ?thesis
    by (auto simp: steady_def moves_def advances_def new_log_def update_child_def log_event_def)
qed

lemma kill_child_steady:
  assumes "\<not> ch_done (x_children x ! i)" "(i, SIGKILL) \<in> S"
  shows "steady S x (kill_child k i x) \<and> (i < length (x_children x) \<longrightarrow> ch_done (x_children (kill_child k i x) ! i))"
proof -
  define x1 where "x1 = snd (signal_child k i SIGKILL (update_child i (\<lambda>c. c\<lparr>ch_stopping := True\<rparr>) x))"
  obtain status w where w: "kn_wait_block k (ch_pid (x_children x1 ! i)) (x_world x1) = (status, w)" by fastforce
  have c: "x_children x1 = (x_children x)[i := (x_children x ! i)\<lparr>ch_stopping := True\<rparr>]"
    by (auto simp: x1_def signal_child_def update_child_def log_event_def split: prod.splits)
  have s: "steady S x x1" unfolding x1_def using steady_trans [OF stop_flag_steady signal_steady] assms(2) by blast
  have nd: "\<not> ch_done (x_children (x1\<lparr>x_world := w\<rparr>) ! i)"
    using assms(1) c by (cases "i < length (x_children x)") (auto simp: nth_list_update list_update_beyond)
  have k: "kill_child k i x = log_event (Finished i status)
      (update_child i (\<lambda>c. c\<lparr>ch_status := status, ch_done := True\<rparr>) (x1\<lparr>x_world := w\<rparr>))"
    by (simp add: kill_child_def w flip: x1_def)
  have "steady S x (kill_child k i x)"
    unfolding k by (rule steady_trans [OF steady_trans [OF s steady_world] finish_steady [OF nd]])
  moreover have "ch_done (x_children (kill_child k i x) ! i)" if "i < length (x_children x)"
    using that by (simp add: k log_event_def update_child_def c)
  ultimately show ?thesis by blast
qed

lemma wait_loop_steady:
  assumes "wait_loop k i until cleanup x = (r, x')" "(i, SIGKILL) \<in> S"
  shows "steady S x x' \<and> (r = Ok \<longrightarrow> ch_done (x_children x' ! i)) \<and>
    (cleanup \<and> i < length (x_children x) \<longrightarrow> ch_done (x_children x' ! i))"
  using assms
proof (induction k i until cleanup x arbitrary: r x' rule: wait_loop.induct)
  case (1 k i until cleanup x)
  show ?case
  proof (cases "ch_done (x_children x ! i) \<or> \<not> cleanup \<and> x_stopping x")
    case True
    then show ?thesis using "1.prems"(1) by (subst (asm) wait_loop.simps) (auto split: if_splits)
  next
    case run: False
    obtain failed x2 where p: "reap k x = (failed, x2)" by fastforce
    have m: "steady S x x2" by (rule reap_steady [OF p])
    then have len: "length (x_children x2) = length (x_children x)" by (simp add: steady_def)
    show ?thesis
    proof (cases "failed \<and> \<not> cleanup \<or> ch_done (x_children x2 ! i) \<or> x_clock x2 \<ge> until")
      case True
      then have "x' = x2 \<and> (r \<noteq> Ok \<and> \<not> cleanup \<or> ch_done (x_children x2 ! i)) \<or> x' = kill_child k i x2 \<and> r \<noteq> Ok \<and> \<not> ch_done (x_children x2 ! i)"
        using "1.prems"(1) p run by (subst (asm) wait_loop.simps) (auto split: if_splits)
      then show ?thesis
      proof (elim disjE)
        assume "x' = kill_child k i x2 \<and> r \<noteq> Ok \<and> \<not> ch_done (x_children x2 ! i)"
        then show ?thesis using kill_child_steady [of x2 i S k] "1.prems"(2) len steady_trans [OF m] by auto
      qed (use m in auto)
    next
      case False
      then have q: "wait_loop k i until cleanup (sleep_for k 10000000 x2) = (r, x')"
        using "1.prems"(1) p run by (subst (asm) wait_loop.simps) (auto split: if_splits)
      have l2: "length (x_children (sleep_for k 10000000 x2)) = length (x_children x)"
        using len by (auto simp: sleep_for_def split: prod.splits)
      from "1.IH" [OF _ _ p [symmetric] _ _ _ q "1.prems"(2)] run False l2
      have "steady S (sleep_for k 10000000 x2) x' \<and> (r = Ok \<longrightarrow> ch_done (x_children x' ! i)) \<and>
        (cleanup \<and> i < length (x_children x) \<longrightarrow> ch_done (x_children x' ! i))" by auto
      then show ?thesis using steady_trans [OF m steady_trans [OF steady_sleep]] by blast
    qed
  qed
qed


lemma wait_verdict_steady: "wait_verdict k i x = (r, x') \<Longrightarrow> steady S x x'"
proof -
  assume a: "wait_verdict k i x = (r, x')"
  obtain f w where u: "kn_unlink k (ch_staging (x_children x ! i)) (x_world x) = (f, w)" by fastforce
  have "steady S (x\<lparr>x_world := w\<rparr>) (update_child i (\<lambda>c. c\<lparr>ch_staging := []\<rparr>) (x\<lparr>x_world := w\<rparr>))"
    by (rule steady_update) (simp_all add: kept_def)
  with a u show ?thesis using steady_trans [OF steady_world]
    by (auto simp: wait_verdict_def Let_def split: if_splits)
qed

text \<open>What the verdict accepts: exit code 0, or a stopped load generator that ended by the signal.\<close>

definition ended_well :: "child \<Rightarrow> bool" where
  "ended_well c \<longleftrightarrow> ch_done c \<and>
     (WIFEXITED (ch_status c) \<and> WEXITSTATUS (ch_status c) = 0 \<or>
      (ch_name c = ''monitor'' \<or> ch_name c = ''network-load'') \<and> ch_stopping c \<and>
        (WIFEXITED (ch_status c) \<and> WEXITSTATUS (ch_status c) = 130 \<or>
         WIFSIGNALED (ch_status c) \<and> WTERMSIG (ch_status c) = SIGTERM))"

lemma wait_verdict_ended:
  assumes "wait_verdict k i x = (Ok, x')" "ch_done (x_children x ! i)"
  shows "ended_well (x_children x' ! i)"
proof -
  have u: "ended_well ((x_children x)[i := (x_children x ! i)\<lparr>ch_staging := []\<rparr>] ! i) = ended_well (x_children x ! i)"
    by (cases "i < length (x_children x)") (simp_all add: ended_well_def list_update_beyond)
  show ?thesis
    using assms u by (auto simp: wait_verdict_def ended_well_def update_child_def Let_def split: if_splits prod.splits)
qed

lemma wait_child_steady:
  assumes "wait_child k i timeout cleanup x = (r, x')" "(i, SIGKILL) \<in> S"
  shows "steady S x x' \<and> (cleanup \<and> i < length (x_children x) \<longrightarrow> ch_done (x_children x' ! i)) \<and>
    (r = Ok \<longrightarrow> ended_well (x_children x' ! i))"
proof -
  obtain r2 x2 where l: "wait_loop k i (x_clock x + int timeout * 1000000) cleanup x = (r2, x2)" by fastforce
  note w = wait_loop_steady [OF l assms(2)]
  show ?thesis
  proof (cases "r2 = Ok")
    case True
    then have v: "wait_verdict k i x2 = (r, x')" using assms(1) l by (simp add: wait_child_def)
    note s = wait_verdict_steady [OF v, of S]
    have "steady S x x'" using w s steady_trans by blast
    moreover have "ch_done (x_children x' ! i)" if "cleanup \<and> i < length (x_children x)"
      using that w steady_done [OF s, of i] by (simp add: steady_def)
    ultimately show ?thesis using wait_verdict_ended v w True by blast
  next
    case False
    then show ?thesis using assms(1) l w by (cases r2) (auto simp: wait_child_def)
  qed
qed

lemma stop_child_steady:
  assumes "stop_child k (Some i) x = (r, x')" "(i, SIGKILL) \<in> S" "(i, SIGTERM) \<in> S"
  shows "steady S x x' \<and> (i < length (x_children x) \<longrightarrow> ch_done (x_children x' ! i)) \<and> (r = Ok \<longrightarrow> ended_well (x_children x' ! i))"
proof -
  have s: "steady S x (request_stop k (Some i) x)" by (rule request_stop_steady [OF assms(3)])
  have "wait_child k i (unat (tm_stop_ms (cf_timing (x_config x)))) True (request_stop k (Some i) x) = (r, x')"
    using assms(1) by (simp add: stop_child_def)
  from wait_child_steady [OF this assms(2)] s show ?thesis
    using steady_trans [OF s] by (auto simp: steady_def)
qed

lemma scheduler_mask_result: "scheduler_mask k cpus policy priority x = (r, x') \<Longrightarrow> \<exists>w. x' = x\<lparr>x_world := w\<rparr>"
  by (auto simp: scheduler_mask_def apply_cpu_set_def split: option.splits sum.splits prod.splits if_splits outcome.splits
      intro: exI [of _ "x_world x"])

lemma spawn_failed: "spawn_child k name ready requested policy priority persistent args notify x = (Inl e, x') \<Longrightarrow> \<exists>w. x' = x\<lparr>x_world := w\<rparr>"
  by (auto simp: spawn_child_def Let_def split: if_splits sum.splits prod.splits option.splits intro: exI [of _ "x_world x"])

lemma spawn_result:
  assumes "spawn_child k name ready requested policy priority persistent args notify x = (Inr i, x')"
  obtains pid cpus w where "i = length (x_children x)" "i < MAX_CHILDREN" "\<And>c. requested = Some c \<Longrightarrow> cpus = c"
    "x' = log_event (Spawned i name \<lparr>la_args = args, la_cpus = cpus, la_policy = policy, la_priority = priority,
         la_group = join_receiver_partition x name, la_env = x_env x\<rparr>)
       (x\<lparr>x_children := x_children x @ [new_child pid name ready cpus policy priority persistent notify], x_world := w\<rparr>)"
proof -
  obtain q w where q: "(case requested of Some cpus \<Rightarrow> (Inr cpus, x_world x) | None \<Rightarrow> kn_affinity k (x_world x)) = (q, w)" by fastforce
  obtain e where e: "q = Inr e" using assms q by (cases q) (auto simp: spawn_child_def split: if_splits)
  define what where "what = \<lparr>la_args = args, la_cpus = e, la_policy = policy, la_priority = priority, la_group = join_receiver_partition x name, la_env = x_env x\<rparr>"
  obtain p w2 where p: "kn_spawn k name what w = (p, w2)" by fastforce
  obtain pid where pid: "p = Inr pid" using assms q e p by (cases p) (auto simp: spawn_child_def what_def Let_def split: if_splits)
  have "i = length (x_children x)" "i < MAX_CHILDREN"
    "x' = log_event (Spawned i name what)
       (x\<lparr>x_children := x_children x @ [new_child pid name ready e policy priority persistent notify], x_world := w2\<rparr>)"
    using assms q e p pid by (auto simp: spawn_child_def what_def Let_def split: if_splits)
  moreover have "e = c" if "requested = Some c" for c using that q e by simp
  ultimately show thesis unfolding what_def by (intro that)
qed

lemma spawn_moves:
  assumes "spawn_child k name ready requested policy priority persistent args notify x = (r, x')"
  shows "moves S x x' \<and> (\<forall>i. r = Inr i \<longrightarrow> i = length (x_children x) \<and> length (x_children x') = Suc i \<and>
    ch_name (x_children x' ! i) = take 31 name \<and> \<not> ch_done (x_children x' ! i) \<and> i < MAX_CHILDREN \<and> \<not> ch_stopping (x_children x' ! i))"
proof (cases r)
  case (Inl e)
  then show ?thesis using spawn_failed assms by fastforce
next
  case (Inr i)
  with assms obtain pid cpus w where "i = length (x_children x)" "i < MAX_CHILDREN"
    "x' = log_event (Spawned i name \<lparr>la_args = args, la_cpus = cpus, la_policy = policy, la_priority = priority,
         la_group = join_receiver_partition x name, la_env = x_env x\<rparr>)
       (x\<lparr>x_children := x_children x @ [new_child pid name ready cpus policy priority persistent notify], x_world := w\<rparr>)"
    by (auto elim: spawn_result)
  then show ?thesis using Inr
    by (auto simp: moves_def advances_def new_log_def log_event_def nth_append new_child_def)
qed

lemma run_tool_moves:
  assumes "run_tool k name args timeout cleanup x = (r, x')" "\<And>i. length (x_children x) \<le> i \<Longrightarrow> (i, SIGKILL) \<in> S"
  shows "moves S x x'"
proof -
  obtain q x2 where s: "spawn_child k name [] None 0 0 False args False x = (q, x2)" by fastforce
  note m = spawn_moves [OF s, of S]
  show ?thesis
  proof (cases q)
    case (Inl e)
    then show ?thesis using assms(1) s m by (simp add: run_tool_def)
  next
    case (Inr i)
    then have "wait_child k i timeout cleanup x2 = (r, x')" "(i, SIGKILL) \<in> S" using assms s m by (auto simp: run_tool_def)
    from wait_child_steady [OF this] m show ?thesis using moves_trans by (auto simp: steady_def)
  qed
qed

lemma coalesce_moves:
  assumes "coalesce k action x = (r, x')" "\<And>i. length (x_children x) \<le> i \<Longrightarrow> (i, SIGKILL) \<in> S"
  shows "moves S x x'"
proof -
  define x1 where "x1 = (if action = ''restore'' then x\<lparr>x_restore_attempts := x_restore_attempts x + 1\<rparr> else x)"
  have m: "moves S x x1" unfolding x1_def by (auto intro!: moves_same)
  have len: "length (x_children x1) = length (x_children x)" by (simp add: x1_def)
  obtain name args t q x2 where t: "run_tool k name args t (action = ''restore'') x1 = (q, x2)"
    "x' = x2 \<or> x' = x2\<lparr>x_coalesce_active := action \<noteq> ''restore''\<rparr>"
    using assms(1) by (auto simp: coalesce_def Let_def simp flip: x1_def split: prod.splits outcome.splits)
  have "moves S x1 x2" using run_tool_moves [OF t(1), of S] assms(2) len by simp
  moreover have "moves S x2 x'" using t(2) by (auto intro!: moves_same)
  ultimately show ?thesis using m moves_trans by blast
qed


section \<open>Completion and messages\<close>

lemma completion_kept: "kept c (c\<lparr>ch_measurement_done := True, ch_completion := False\<rparr>)"
  by (simp add: kept_def)

lemma read_pipes_steady: "read_pipes ps x = (r, x') \<Longrightarrow> steady S x x'"
proof (induction ps arbitrary: x)
  case Nil
  then show ?case by simp
next
  case (Cons p ps)
  obtain index answer where p: "p = (index, answer)" by fastforce
  let ?y = "\<lambda>i. update_child i (\<lambda>c. c\<lparr>ch_measurement_done := True, ch_completion := False\<rparr>) x"
  have u: "steady S x (?y i)" for i by (rule steady_update) (simp_all add: kept_def)
  have "read_pipes ps x = (r, x') \<or> (r, x') = (Err (Some ECHILD), x) \<or> (\<exists>i. read_pipes ps (?y i) = (r, x'))"
    using Cons.prems by (auto simp: p split: option.splits if_splits)
  then show ?case using Cons.IH steady_trans [OF u] by auto
qed

lemma stop_or_reap_steady: "stop_or_reap k x = (b, x') \<Longrightarrow> steady S x x' \<and> (\<not> b \<longrightarrow> (\<forall>c \<in> set (x_children x'). \<not> child_failed c))"
  using reap_steady [of k x b x' S] reap_moves [of k x b x'] by (auto simp: stop_or_reap_def split: if_splits)

lemma poll_steady: "poll_children k x = (a, x') \<Longrightarrow> steady S x x'"
  by (auto simp: poll_children_def steady_def split: prod.splits intro!: moves_same)

lemma completions_steady:
  "completions_loop k children until x = (r, x') \<Longrightarrow>
     steady S x x' \<and> (r = Ok \<longrightarrow> all_complete children x' \<and> (\<forall>c \<in> set (x_children x'). \<not> child_failed c))"
proof (induction k children until x arbitrary: r x' rule: completions_loop.induct)
  case (1 k children until x)
  obtain b x1 where p: "stop_or_reap k x = (b, x1)" by fastforce
  note m1 = stop_or_reap_steady [OF p, of S]
  obtain a x2 where q: "poll_children k x1 = (a, x2)" by fastforce
  have m2: "steady S x x2" using m1 poll_steady [OF q] steady_trans by blast
  show ?case
  proof (cases "b \<or> all_complete children x1 \<or> until - x_clock x1 \<le> 0")
    case True
    then show ?thesis using "1.prems" p m1 by (subst (asm) completions_loop.simps) (auto split: if_splits)
  next
    case go: False
    show ?thesis
    proof (cases a)
      case (Poll_failed e)
      show ?thesis
      proof (cases "e = EINTR")
        case True
        then have "completions_loop k children until x2 = (r, x')"
          using "1.prems" p q go Poll_failed by (subst (asm) completions_loop.simps) simp
        with "1.IH"(1) [OF p [symmetric] _ _ _ q [symmetric] Poll_failed] True go m2 show ?thesis
          using steady_trans by fastforce
      next
        case False
        then show ?thesis using "1.prems" p q go Poll_failed m2 by (subst (asm) completions_loop.simps) auto
      qed
    next
      case Poll_timeout
      then show ?thesis using "1.prems" p q go m2 by (subst (asm) completions_loop.simps) auto
    next
      case (Poll_ready peer answers)
      obtain r3 x3 where t: "read_pipes (zip children answers) x2 = (r3, x3)" by fastforce
      have m3: "steady S x x3" using m2 read_pipes_steady [OF t] steady_trans by blast
      show ?thesis
      proof (cases "\<not> peer \<and> r3 = Ok")
        case True
        then have "completions_loop k children until x3 = (r, x')"
          using "1.prems" p q t go Poll_ready by (subst (asm) completions_loop.simps) simp
        with "1.IH"(2) [OF p [symmetric] _ _ _ q [symmetric] Poll_ready _ t [symmetric]] True go m3 show ?thesis
          using steady_trans by fastforce
      next
        case False
        then show ?thesis using "1.prems" p q t go Poll_ready m2 m3
          by (subst (asm) completions_loop.simps) (auto split: if_splits outcome.splits)
      qed
    qed
  qed
qed

lemma stop_check_steady: "stop_check k r x = (b, x') \<Longrightarrow> steady S x x'"
proof -
  assume a: "stop_check k r x = (b, x')"
  let ?x = "x\<lparr>x_clock := max (x_clock x) (ir_now r), x_stopping := (x_stopping x \<or> ir_stop r)\<rparr>"
  have "steady S x ?x" by (auto simp: steady_def intro!: moves_same)
  moreover have "steady S ?x x'" using stop_or_reap_steady [of k ?x b x' S] a by (simp add: stop_check_def)
  ultimately show ?thesis by (rule steady_trans)
qed

lemma transfer_steady:
  "transfer_loop (stop_check k) rounds ignore until x moved rest = Some (r, x') \<Longrightarrow> steady S x x'"
proof (induction rounds arbitrary: x moved rest)
  case Nil
  then show ?case by (cases rest) auto
next
  case (Cons rd rounds)
  show ?case
  proof (cases rest)
    case Nil
    then show ?thesis using Cons.prems by simp
  next
    case (Cons b rest')
    obtain stopped x2 where c: "(if ignore then (False, x) else stop_check k rd x) = (stopped, x2)" by fastforce
    have m: "steady S x x2" using c stop_check_steady by (auto split: if_splits)
    have "(r, x') \<in> {(r, x), (r, x2)} \<or> (\<exists>moved rest. transfer_loop (stop_check k) rounds ignore until x2 moved rest = Some (r, x'))"
      using Cons.prems [unfolded Cons] by (auto simp: c split: option.splits sum.splits if_splits)
    then show ?thesis using m Cons.IH [of x2] steady_trans [OF m] by auto
  qed
qed


section \<open>The clean-up\<close>

lemma fold_steady:
  assumes "\<And>i y. i \<in> set is \<Longrightarrow> steady S x y \<Longrightarrow> steady S y (f i y)" "steady S x y"
  shows "steady S x (fold f is y)"
  using assms
proof (induction "is" arbitrary: y)
  case (Cons i "is")
  have "steady S x (f i y)" using Cons.prems(1) [of i y] Cons.prems(2) steady_trans by auto
  with Cons.IH Cons.prems(1) show ?case by auto
qed simp

text \<open>The signals that may be sent before the loader is stopped: none of them asks the loader to stop.\<close>

definition not_loader :: "'w run_context \<Rightarrow> (nat \<times> nat) set" where
  "not_loader x = {(j, sig). sig = SIGTERM \<longrightarrow> \<not> (j < length (x_children x) \<and> is_loader x j)}"

lemma steady_loader: "steady S x y \<Longrightarrow> i < length (x_children x) \<Longrightarrow> is_loader y i = is_loader x i"
  by (simp add: is_loader_def steady_name)

lemma stop_others_steady: "steady (not_loader x) x (stop_others k x)"
  unfolding stop_others_def
proof (rule fold_steady)
  fix i y assume "i \<in> set [0..<length (x_children x)]" "steady (not_loader x) x y"
  then have "is_loader y i = is_loader x i" "i < length (x_children x)" using steady_loader by auto
  then show "steady (not_loader x) y (if is_loader y i then y else request_stop k (Some i) y)"
    using request_stop_steady [of i "not_loader x" y k] by (auto simp: not_loader_def)
qed simp

lemma release_barriers_steady: "steady (not_loader z) x (release_barriers k x)"
  unfolding release_barriers_def
  by (rule fold_steady) (auto intro!: signal_steady simp: not_loader_def)

lemma wait_others_steady: "steady (not_loader z) x (wait_others k x)"
  unfolding wait_others_def
proof (rule fold_steady)
  fix i y
  show "steady (not_loader z) y (if is_loader y i then y else snd (wait_child k i (stop_timeout y) True y))"
    using wait_child_steady [of k i "stop_timeout y" True y _ _ "not_loader z"]
    by (cases "wait_child k i (stop_timeout y) True y") (auto simp: not_loader_def)
qed simp

lemma fold_done:
  assumes "\<And>i y. i \<in> set is \<Longrightarrow> steady S x y \<Longrightarrow> steady S y (f i y) \<and> (P i \<longrightarrow> ch_done (x_children (f i y) ! i))"
    and "steady S x y" "i \<in> set is" "P i" "\<forall>i \<in> set is. i < length (x_children x)"
  shows "ch_done (x_children (fold f is y) ! i)"
  using assms
proof (induction "is" arbitrary: y)
  case (Cons j "is")
  have s: "steady S y (f j y)" "steady S x (f j y)"
    using Cons.prems(1) [of j y] Cons.prems(2) steady_trans by auto
  show ?case
  proof (cases "i \<in> set is")
    case True
    then show ?thesis using Cons.IH [OF _ s(2) True] Cons.prems by auto
  next
    case False
    then have i: "i = j" using Cons.prems(3) by simp
    have d: "ch_done (x_children (f i y) ! i)" using Cons.prems(1) [of i y] Cons.prems(2,4) i by simp
    have "steady S (f j y) (fold f is (f j y))"
    proof (rule fold_steady)
      fix n z assume "n \<in> set is" "steady S (f j y) z"
      then show "steady S z (f n z)" using Cons.prems(1) [of n z] steady_trans [OF s(2)] by auto
    qed simp
    from steady_done [OF this, of i] d i s(2) Cons.prems(5) show ?thesis by (auto simp: steady_def)
  qed
qed simp

lemma wait_others_done:
  assumes "i < length (x_children x)" "\<not> is_loader x i"
  shows "ch_done (x_children (wait_others k x) ! i)"
  unfolding wait_others_def
proof (rule fold_done [where S = UNIV and P = "\<lambda>i. \<not> is_loader x i"])
  fix i y assume i: "i \<in> set [0..<length (x_children x)]" and y: "steady UNIV x y"
  then have l: "is_loader y i = is_loader x i" "i < length (x_children y)" using steady_loader by (auto simp: steady_def)
  show "steady UNIV y (if is_loader y i then y else snd (wait_child k i (stop_timeout y) True y)) \<and>
    (\<not> is_loader x i \<longrightarrow> ch_done (x_children (if is_loader y i then y else snd (wait_child k i (stop_timeout y) True y)) ! i))"
    using wait_child_steady [of k i "stop_timeout y" True y _ _ UNIV] l
    by (cases "wait_child k i (stop_timeout y) True y") auto
qed (use assms in auto)

lemma stop_loaders_done:
  "steady UNIV x (stop_loaders k x) \<and>
   (i < length (x_children x) \<and> is_loader x i \<longrightarrow> ch_done (x_children (stop_loaders k x) ! i))"
proof -
  let ?f = "\<lambda>i x. if is_loader x i then snd (stop_child k (Some i) x) else x"
  have step: "steady UNIV y (?f i y) \<and> (is_loader x i \<longrightarrow> ch_done (x_children (?f i y) ! i))"
    if "i \<in> set [0..<length (x_children x)]" "steady UNIV x y" for i y
  proof -
    have l: "is_loader y i = is_loader x i" "i < length (x_children y)" using that steady_loader by (auto simp: steady_def)
    show ?thesis using stop_child_steady [of k i y _ _ UNIV] l by (cases "stop_child k (Some i) y") auto
  qed
  have "steady UNIV x (stop_loaders k x)" unfolding stop_loaders_def using step by (intro fold_steady) auto
  moreover have "ch_done (x_children (stop_loaders k x) ! i)" if "i < length (x_children x)" "is_loader x i"
    unfolding stop_loaders_def using step that
    by (intro fold_done [where S = UNIV and P = "\<lambda>i. is_loader x i" and x = x]) auto
  ultimately show ?thesis by blast
qed

text \<open>A helper script that is killed at its deadline has ended in any case.\<close>

lemma run_tool_done:
  assumes "run_tool k name args t True x = (r, x')" "\<forall>c \<in> set (x_children x). ch_done c"
  shows "\<forall>c \<in> set (x_children x'). ch_done c"
proof -
  obtain q y where s: "spawn_child k name [] None 0 0 False args False x = (q, y)" by fastforce
  note m = spawn_moves [OF s, of UNIV]
  have d1: "\<forall>j < length (x_children x). ch_done (x_children x ! j)" using assms(2) by simp
  then have d3: "\<forall>j < length (x_children x). ch_done (x_children y ! j)" using m by (auto simp: moves_def advances_def kept_def)
  show ?thesis
  proof (cases q)
    case (Inl e)
    then have "x_children x' = x_children x"
      using assms(1) s by (auto simp: run_tool_def spawn_child_def Let_def split: if_splits sum.splits prod.splits option.splits)
    then show ?thesis using d1 by (auto simp: in_set_conv_nth)
  next
    case (Inr i)
    then have w: "wait_child k i t True y = (r, x')" using assms(1) s by (simp add: run_tool_def)
    have i: "i = length (x_children x)" "length (x_children y) = Suc i" using m Inr by auto
    note w2 = wait_child_steady [OF w, of UNIV]
    have "ch_done (x_children x' ! j)" if "j < length (x_children x')" for j
    proof (cases "j = i")
      case True
      then show ?thesis using w2 i by auto
    next
      case False
      then have "j < length (x_children x)" using that w2 i by (auto simp: steady_def)
      then show ?thesis using d3 w2 i steady_done [of UNIV y x' j] by auto
    qed
    then show ?thesis by (auto simp: in_set_conv_nth)
  qed
qed

lemma coalesce_done:
  assumes "coalesce k ''restore'' x = (r, x')" "\<forall>c \<in> set (x_children x). ch_done c"
  shows "\<forall>c \<in> set (x_children x'). ch_done c"
proof -
  define x1 where "x1 = x\<lparr>x_restore_attempts := x_restore_attempts x + 1\<rparr>"
  obtain name args t q x2 where t: "run_tool k name args t True x1 = (q, x2)" "x_children x' = x_children x2"
    using assms(1) by (auto simp: coalesce_def Let_def x1_def split: prod.splits outcome.splits)
  then show ?thesis using run_tool_done [OF t(1)] assms(2) by (simp add: x1_def)
qed

lemma log_split:
  assumes "l1 @ e # l2 = a @ b" "e \<notin> set a"
  shows "set a \<subseteq> set l1"
proof -
  have "length a \<le> length l1"
  proof (rule ccontr)
    assume "\<not> length a \<le> length l1"
    then have "(l1 @ e # l2) ! length l1 = a ! length l1" "a ! length l1 \<in> set a" using assms(1) by (auto simp: nth_append)
    with assms(2) show False by simp
  qed
  then have "prefix a l1" using assms(1) by (metis append_eq_append_conv_if append_take_drop_id prefix_def)
  then show ?thesis by (auto simp: prefix_def)
qed

text \<open>The clean-up in two parts: until all children but the loader have ended, and from there on.\<close>

lemma cleanup_parts:
  obtains y where "steady (not_loader x) x y" "\<And>j. j < length (x_children x) \<Longrightarrow> \<not> is_loader x j \<Longrightarrow> ch_done (x_children y ! j)"
    "moves UNIV y (cleanup_children k x)" "\<forall>c \<in> set (x_children (cleanup_children k x)). ch_done c"
proof -
  define x3 where "x3 = wait_others k (release_barriers k (stop_others k x))"
  define x4 where "x4 = stop_loaders k x3"
  define x5 where "x5 = x4\<lparr>x_world := kn_adopted k (x_world x4)\<rparr>"
  define x6 where "x6 = (if x_coalesce_active x5 then snd (coalesce k ''restore'' x5) else x5)"
  have x': "cleanup_children k x = x6\<lparr>x_children := map (\<lambda>c. c\<lparr>ch_completion := False\<rparr>) (x_children x6)\<rparr>"
    unfolding cleanup_children_def Let_def x3_def x4_def x5_def x6_def by (rule refl)
  have s2: "steady (not_loader x) x (release_barriers k (stop_others k x))"
    using steady_trans [OF stop_others_steady release_barriers_steady] .
  have s3: "steady (not_loader x) x x3" unfolding x3_def by (rule steady_trans [OF s2 wait_others_steady])
  have d3: "ch_done (x_children x3 ! j)" if "j < length (x_children x)" "\<not> is_loader x j" for j
    unfolding x3_def using that s2 steady_loader [OF s2, of j] by (intro wait_others_done) (auto simp: steady_def)
  have s4: "steady UNIV x3 x4" unfolding x4_def using stop_loaders_done by blast
  have d4: "ch_done (x_children x4 ! j)" if "j < length (x_children x4)" for j
  proof (cases "is_loader x j")
    case True
    then show ?thesis using that s3 s4 stop_loaders_done [of x3 k j] steady_loader [OF s3, of j] by (auto simp: x4_def steady_def)
  next
    case False
    then show ?thesis using that d3 [of j] s3 s4 steady_done [OF s4, of j] by (auto simp: steady_def)
  qed
  have d5: "\<forall>c \<in> set (x_children x5). ch_done c" using d4 by (auto simp: x5_def in_set_conv_nth)
  have d6: "\<forall>c \<in> set (x_children x6). ch_done c"
    using d5 coalesce_done [of k x5] by (cases "coalesce k ''restore'' x5") (auto simp: x6_def)
  have "moves UNIV x5 x6" using coalesce_moves [of k "''restore''" x5 _ _ UNIV] by (cases "coalesce k ''restore'' x5") (auto simp: x6_def)
  then have "moves UNIV x3 x6" using moves_trans [of UNIV x3 x4] moves_trans [of UNIV x4 x5 x6] s4 by (simp add: steady_def x5_def)
  moreover have "moves UNIV x6 (cleanup_children k x)"
    by (auto simp: x' moves_def advances_def new_log_def kept_def)
  ultimately have "moves UNIV x3 (cleanup_children k x)" by (rule moves_trans)
  moreover have "\<forall>c \<in> set (x_children (cleanup_children k x)). ch_done c" using d6 by (auto simp: x')
  ultimately show thesis using that s3 d3 by blast
qed

text \<open>
  Property C12.  Clean-up leaves no process behind and stops the loader last.  Whatever the children do, afterwards
  every child of the run has ended; and the loader is asked to stop only after every other child that
  was still running has ended, so that receivers leave their AF_XDP sockets before the data path goes.
\<close>

theorem cleanup_ends_children:
  assumes "cleanup_children k x = x'"
  shows "(\<forall>c \<in> set (x_children x'). ch_done c) \<and>
    (\<forall>i l1 l2. i < length (x_children x) \<and> is_loader x i \<and> new_log x x' = l1 @ Signalled i SIGTERM # l2 \<longrightarrow>
       (\<forall>j < length (x_children x). \<not> is_loader x j \<longrightarrow>
          ch_done (x_children x ! j) \<or> (\<exists>status. Finished j status \<in> set l1)))"
proof -
  obtain y where y: "steady (not_loader x) x y" "\<And>j. j < length (x_children x) \<Longrightarrow> \<not> is_loader x j \<Longrightarrow> ch_done (x_children y ! j)"
    "moves UNIV y x'" "\<forall>c \<in> set (x_children x'). ch_done c" using cleanup_parts [of x k] assms by metis
  have log: "new_log x x' = new_log x y @ new_log y x'"
    using y(1,3) by (intro new_log_trans) (auto simp: steady_def moves_def advances_def)
  have "ch_done (x_children x ! j) \<or> (\<exists>status. Finished j status \<in> set l1)"
    if i: "i < length (x_children x)" "is_loader x i" "new_log x x' = l1 @ Signalled i SIGTERM # l2"
      and j: "j < length (x_children x)" "\<not> is_loader x j" for i l1 l2 j
  proof -
    have "Signalled i SIGTERM \<notin> set (new_log x y)"
      using y(1) i(1,2) by (auto simp: steady_def moves_def list_all_iff not_loader_def dest!: bspec)
    then have "set (new_log x y) \<subseteq> set l1" using log_split [of l1 _ l2] i(3) log by metis
    moreover have "ch_done (x_children x ! j) \<or> Finished j (ch_status (x_children y ! j)) \<in> set (new_log x y)"
      using y(2) [OF j] y(1) j(1) by (auto simp: steady_def moves_def advances_def)
    ultimately show ?thesis by blast
  qed
  with y(4) show ?thesis by blast
qed

text \<open>A kernel whose children end as soon as they are asked about.\<close>

definition calm_kernel :: "unit kernel" where
  "calm_kernel = \<lparr>kn_wait = \<lambda>pid w. (Ended 0, w), kn_wait_block = \<lambda>pid w. (0, w), kn_sleep = \<lambda>w. (0, False, w),
     kn_spawn = \<lambda>name what w. (Inr 100, w), kn_kill = \<lambda>pid sig w. (None, w), kn_lstat = \<lambda>path w. (Inr (True, 1), w),
     kn_placement = \<lambda>pid w. (Inr ({}, 0, 0), w), kn_unlink = \<lambda>path w. (None, w), kn_poll = \<lambda>w. (0, False, Poll_timeout, w),
     kn_rounds = \<lambda>w. ([], w), kn_write = \<lambda>path content w. (None, w), kn_affinity = \<lambda>w. (Inr {}, w),
     kn_set_affinity = \<lambda>cpus w. (None, w), kn_set_policy = \<lambda>policy priority w. (None, w), kn_adopted = \<lambda>w. w, kn_pid = 42, kn_pipe = \<lambda>w. (Inr 7, w), kn_mkdir = \<lambda>path w. (None, w),
     kn_isdir = \<lambda>path w. (True, w), kn_rename = \<lambda>from to w. (None, w), kn_link = \<lambda>from to w. (None, w),
     kn_manifest = \<lambda>path run condition w. (None, w), kn_access = \<lambda>path execute w. (None, w), kn_realpath = \<lambda>path w. (Inr path, w),
     kn_listen = \<lambda>w. (None, w), kn_accept = \<lambda>w. (Inr (replicate 16 1), w), kn_connect = \<lambda>w. (Inr True, w), kn_lock = \<lambda>w. (None, w),
     kn_create = \<lambda>path w. (None, w), kn_subreaper = \<lambda>w. (None, w), kn_chdir = \<lambda>path w. (None, w)\<rparr>"

definition sample_setup :: run_config where
  "sample_setup = fst (build_config [] (\<lambda>_. True) None sample_entries)"

definition sample_run :: "unit run_context" where
  "sample_run = \<lparr>x_config = sample_setup,
     x_children = [new_child 200 ''xdp-loader'' [] {} 0 0 True False, new_child 201 ''receiver-flow1'' [] {} 0 0 True True],
     x_control = sample_control, x_owns_run = True, x_partition_attempted = False, x_partition_active = False, x_partition_group = [],
     x_coalesce_active = True, x_release_attempts = 0, x_restore_attempts = 0, x_env = Map.empty, x_suite = ''/s'', x_run_dir = ''/s/runs/r'', x_mode = ''mixed'',
     x_repeat = 1, x_clock = 0, x_stopping = False, x_log = [], x_world = ()\<rparr>"

theorem cleanup_ends_children_witness:
  "\<exists>x'. cleanup_children calm_kernel sample_run = x' \<and> length (x_children sample_run) = 2 \<and> is_loader sample_run 0 \<and>
     \<not> is_loader sample_run 1 \<and> (\<forall>c \<in> set (x_children x'). ch_done c) \<and>
     (\<forall>l1 l2. new_log sample_run x' = l1 @ Signalled 0 SIGTERM # l2 \<longrightarrow> (\<exists>status. Finished 1 status \<in> set l1))"
proof -
  have s: "length (x_children sample_run) = 2" "is_loader sample_run 0" "\<not> is_loader sample_run 1" "\<not> ch_done (x_children sample_run ! 1)"
    by (simp_all add: sample_run_def is_loader_def new_child_def)
  show ?thesis
    using cleanup_ends_children [of calm_kernel sample_run, OF refl] s
    by (metis One_nat_def less_2_cases_iff)
qed

end
