(* ===== verification/Json_Text.thy ===== *)
theory Json_Text
  imports Run_Control Run_Config
begin

text \<open>
  JSON text.  \<^verbatim>\<open>json_string\<close> of \<^verbatim>\<open>experiment/ace_manifest.c\<close> turns a UTF-8 string into an ASCII JSON string
  with surrogate pairs and refuses invalid UTF-8; \<^verbatim>\<open>json_string\<close> and \<^verbatim>\<open>write_condition\<close> of
  \<^verbatim>\<open>experiment/run_config.c\<close> print the condition of a run.  Bytes are their codes 0 to 255; the shifts
  and masks of the source on them are divisions and remainders by powers of two.
\<close>

section \<open>Escapes\<close>

definition hex_digit :: "nat \<Rightarrow> char" where
  "hex_digit n = char_of (if n < 10 then 48 + n else 87 + n)"

definition hex4 :: "nat \<Rightarrow> string" where
  "hex4 n = [hex_digit (n div 4096 mod 16), hex_digit (n div 256 mod 16), hex_digit (n div 16 mod 16), hex_digit (n mod 16)]"

text \<open>\<^verbatim>\<open>\u%04x\<close>.\<close>

definition u_escape :: "nat \<Rightarrow> string" where "u_escape n = [CHR 0x5C, CHR ''u''] @ hex4 n"

section \<open>The encoder of the manifest\<close>

text \<open>A byte below 0x80.\<close>

definition json_ascii :: "nat \<Rightarrow> string" where
  "json_ascii cp =
     (if cp = 0x22 \<or> cp = 0x5C then [CHR 0x5C, char_of cp] else if cp < 0x20 then u_escape cp else [char_of cp])"

text \<open>The payload bits of a lead byte and the number of continuation bytes.\<close>

definition lead_byte :: "nat \<Rightarrow> (nat \<times> nat) option" where
  "lead_byte b =
     (if 0xC2 \<le> b \<and> b \<le> 0xDF then Some (b mod 32, 1)
      else if 0xE0 \<le> b \<and> b \<le> 0xEF then Some (b mod 16, 2)
      else if 0xF0 \<le> b \<and> b \<le> 0xF4 then Some (b mod 8, 3)
      else None)"

text \<open>The loop over the continuation bytes; the end of the string is the byte 0, which is none.\<close>

fun continuation_bytes :: "nat \<Rightarrow> nat \<Rightarrow> nat list \<Rightarrow> (nat \<times> nat list) option" where
  "continuation_bytes 0 cp p = Some (cp, p)"
| "continuation_bytes (Suc n) cp [] = None"
| "continuation_bytes (Suc n) cp (b # p) = (if b div 64 \<noteq> 2 then None else continuation_bytes n (cp * 64 + b mod 64) p)"

definition ill_formed :: "nat \<Rightarrow> nat \<Rightarrow> bool" where
  "ill_formed continuation cp \<longleftrightarrow>
     continuation = 1 \<and> cp < 0x80 \<or> continuation = 2 \<and> cp < 0x800 \<or> continuation = 3 \<and> cp < 0x10000 \<or>
     cp > 0x10FFFF \<or> 0xD800 \<le> cp \<and> cp \<le> 0xDFFF"

definition json_escape :: "nat \<Rightarrow> string" where
  "json_escape cp =
     (if cp \<le> 0xFFFF then u_escape cp
      else u_escape (0xD800 + (cp - 0x10000) div 1024) @ u_escape (0xDC00 + (cp - 0x10000) mod 1024))"

lemma continuation_length: "continuation_bytes n cp p = Some (cp', p') \<Longrightarrow> length p' + n = length p"
  by (induction n cp p rule: continuation_bytes.induct) (auto split: if_splits)

text \<open>The loop over the string; \<open>None\<close> is the error EILSEQ.\<close>

function json_body :: "nat list \<Rightarrow> string option" where
  "json_body p =
   (case p of
      [] \<Rightarrow> Some []
    | b # p \<Rightarrow>
        if b < 0x80 then map_option ((@) (json_ascii b)) (json_body p)
        else (case lead_byte b of
            None \<Rightarrow> None
          | Some (cp, n) \<Rightarrow>
              (case continuation_bytes n cp p of
                 None \<Rightarrow> None
               | Some (cp, p) \<Rightarrow>
                   if ill_formed n cp then None else map_option ((@) (json_escape cp)) (json_body p))))"
  by pat_completeness auto
termination
  by (relation "measure length") (auto dest: continuation_length)

declare json_body.simps [simp del]

definition json_string :: "string option \<Rightarrow> string option" where
  "json_string s =
     (case s of
        None \<Rightarrow> Some ''null''
      | Some s \<Rightarrow> map_option (\<lambda>t. [CHR 0x22] @ t @ [CHR 0x22]) (json_body (map char_code s)))"

section \<open>What the text means\<close>

text \<open>The UTF-8 encoding of a code point.\<close>

definition utf8 :: "nat \<Rightarrow> nat list" where
  "utf8 cp =
     (if cp < 0x80 then [cp]
      else if cp < 0x800 then [0xC0 + cp div 64, 0x80 + cp mod 64]
      else if cp < 0x10000 then [0xE0 + cp div 4096, 0x80 + cp div 64 mod 64, 0x80 + cp mod 64]
      else [0xF0 + cp div 262144, 0x80 + cp div 4096 mod 64, 0x80 + cp div 64 mod 64, 0x80 + cp mod 64])"

text \<open>A Unicode scalar value other than 0, which cannot stand in a C string.\<close>

definition scalar :: "nat \<Rightarrow> bool" where
  "scalar cp \<longleftrightarrow> 0 < cp \<and> cp \<le> 0x10FFFF \<and> \<not> (0xD800 \<le> cp \<and> cp \<le> 0xDFFF)"

text \<open>A reader of JSON strings (RFC 8259) for the escapes \<open>\"\<close>, \<open>\\\<close> and \<open>\uXXXX\<close>: the code points up to the closing quote.\<close>

definition hex_value :: "char \<Rightarrow> nat option" where
  "hex_value c = (let n = char_code c in
     if 48 \<le> n \<and> n \<le> 57 then Some (n - 48) else if 97 \<le> n \<and> n \<le> 102 then Some (n - 87) else None)"

definition read_hex4 :: "char \<Rightarrow> char \<Rightarrow> char \<Rightarrow> char \<Rightarrow> nat option" where
  "read_hex4 a b c d =
     (case (hex_value a, hex_value b, hex_value c, hex_value d) of
        (Some a, Some b, Some c, Some d) \<Rightarrow> Some (a * 4096 + b * 256 + c * 16 + d)
      | _ \<Rightarrow> None)"

fun read_escape :: "string \<Rightarrow> (nat \<times> string) option" where
  "read_escape [] = None"
| "read_escape (y # ys) =
     (if y = CHR 0x22 \<or> y = CHR 0x5C then Some (char_code y, ys)
      else if y = CHR ''u'' \<and> 4 \<le> length ys
      then map_option (\<lambda>n. (n, drop 4 ys)) (read_hex4 (ys ! 0) (ys ! 1) (ys ! 2) (ys ! 3))
      else None)"

fun read_unit :: "string \<Rightarrow> (nat \<times> string) option" where
  "read_unit [] = None"
| "read_unit (x # xs) =
     (if x = CHR 0x5C then read_escape xs
      else if x = CHR 0x22 \<or> char_code x < 0x20 \<or> char_code x \<ge> 0x80 then None
      else Some (char_code x, xs))"

lemma read_escape_length: "read_escape s = Some (n, r) \<Longrightarrow> length r < length s"
  by (cases s) (auto split: if_splits)

lemma read_unit_length: "read_unit s = Some (n, r) \<Longrightarrow> length r < length s"
  by (cases s) (auto split: if_splits dest: read_escape_length)

function read_units :: "string \<Rightarrow> nat list option" where
  "read_units s =
     (if s = [CHR 0x22] then Some []
      else (case read_unit s of None \<Rightarrow> None | Some (n, r) \<Rightarrow> map_option ((#) n) (read_units r)))"
  by pat_completeness auto
termination
  by (relation "measure length") (auto dest: read_unit_length)

declare read_units.simps [simp del]

text \<open>UTF-16 units to code points: a high surrogate takes the low one behind it.\<close>

fun join_surrogates :: "nat list \<Rightarrow> nat list" where
  "join_surrogates (h # l # us) =
     (if 0xD800 \<le> h \<and> h < 0xDC00 \<and> 0xDC00 \<le> l \<and> l < 0xE000
      then (0x10000 + (h - 0xD800) * 1024 + (l - 0xDC00)) # join_surrogates us
      else h # join_surrogates (l # us))"
| "join_surrogates us = us"

definition read_json_string :: "string \<Rightarrow> nat list option" where
  "read_json_string t = (case t of [] \<Rightarrow> None | q # t \<Rightarrow> if q = CHR 0x22 then map_option join_surrogates (read_units t) else None)"

section \<open>The encoder is faithful\<close>

text \<open>The UTF-16 units of a code point.\<close>

definition units_of :: "nat \<Rightarrow> nat list" where
  "units_of cp = (if cp \<le> 0xFFFF then [cp] else [0xD800 + (cp - 0x10000) div 1024, 0xDC00 + (cp - 0x10000) mod 1024])"

lemma join_plain: "\<not> (0xD800 \<le> h \<and> h < 0xDC00) \<Longrightarrow> join_surrogates (h # us) = h # join_surrogates us"
  by (cases us) auto

lemma join_units: "scalar cp \<Longrightarrow> join_surrogates (units_of cp @ us) = cp # join_surrogates us"
proof (cases "cp \<le> 0xFFFF")
  case True
  assume "scalar cp"
  then have "\<not> (0xD800 \<le> cp \<and> cp < 0xDC00)" by (auto simp: scalar_def)
  from join_plain [OF this, of us] show ?thesis using True by (simp add: units_of_def)
next
  case False
  assume "scalar cp"
  moreover have "(cp - 0x10000) div 1024 * 1024 + (cp - 0x10000) mod 1024 = cp - 0x10000" by simp
  ultimately show ?thesis using False by (simp add: units_of_def scalar_def)
qed

lemma join_all_units: "list_all scalar cps \<Longrightarrow> join_surrogates (concat (map units_of cps)) = cps"
  by (induction cps) (auto simp: join_units)

lemma hex_value_digit: "n < 16 \<Longrightarrow> hex_value (hex_digit n) = Some n"
  by (simp add: hex_value_def hex_digit_def char_code_def Let_def)

lemma read_hex4_digits:
  assumes "n < 65536"
  shows "read_hex4 (hex_digit (n div 4096 mod 16)) (hex_digit (n div 256 mod 16)) (hex_digit (n div 16 mod 16)) (hex_digit (n mod 16)) = Some n"
proof -
  define a b c where "a = n div 16" and "b = a div 16" and "c = b div 16"
  have e: "n = a * 16 + n mod 16" "a = b * 16 + a mod 16" "b = c * 16 + b mod 16" "c mod 16 = c"
    using assms by (simp_all add: a_def b_def c_def)
  have d: "n div 16 = a" "n div 256 = b" "n div 4096 = c" by (simp_all add: a_def b_def c_def flip: div_mult2_eq)
  have "c mod 16 * 4096 + b mod 16 * 256 + a mod 16 * 16 + n mod 16 = n" using e by linarith
  then show ?thesis unfolding d by (simp add: read_hex4_def hex_value_digit)
qed

lemma read_unit_u: "read_unit (([CHR 0x5C, CHR ''u''] @ [a, b, c, d]) @ r) = map_option (\<lambda>n. (n, r)) (read_hex4 a b c d)"
  by simp

lemma read_unit_escape: "n < 65536 \<Longrightarrow> read_unit (u_escape n @ r) = Some (n, r)"
  unfolding u_escape_def hex4_def read_unit_u by (simp only: read_hex4_digits option.map)

lemma char_of_is: "n < 256 \<Longrightarrow> char_of n = c \<longleftrightarrow> n = (of_char c :: nat)"
  using of_char_of [of n] by auto

lemma read_unit_ascii:
  assumes "0 < cp" "cp < 0x80"
  shows "read_unit (json_ascii cp @ r) = Some (cp, r)"
proof -
  consider "cp = 0x22 \<or> cp = 0x5C" | "cp < 0x20" | "0x20 \<le> cp" "cp \<noteq> 0x22" "cp \<noteq> 0x5C" by linarith
  then show ?thesis
  proof cases
    case 1
    then show ?thesis by (auto simp: json_ascii_def char_code_def char_of_is)
  next
    case 2
    then show ?thesis by (simp add: json_ascii_def read_unit_escape)
  next
    case 3
    then show ?thesis using assms by (simp add: json_ascii_def char_code_def char_of_is)
  qed
qed

lemma read_units_step: "read_unit s = Some (n, r) \<Longrightarrow> read_units s = map_option ((#) n) (read_units r)"
  by (subst read_units.simps) auto

definition json_code :: "nat \<Rightarrow> string" where
  "json_code cp = (if cp < 0x80 then json_ascii cp else json_escape cp)"

lemma read_units_code: "scalar cp \<Longrightarrow> read_units (json_code cp @ r) = map_option ((@) (units_of cp)) (read_units r)"
proof -
  assume "scalar cp"
  then show ?thesis
    using read_units_step [OF read_unit_ascii, of cp r] read_units_step [OF read_unit_escape, of cp r]
      read_units_step [OF read_unit_escape, of "0xD800 + (cp - 0x10000) div 1024" "u_escape (0xDC00 + (cp - 0x10000) mod 1024) @ r"]
      read_units_step [OF read_unit_escape, of "0xDC00 + (cp - 0x10000) mod 1024" r]
    by (cases "read_units r") (auto simp: json_code_def json_escape_def units_of_def scalar_def)
qed

lemma read_units_codes:
  "list_all scalar cps \<Longrightarrow> read_units (concat (map json_code cps) @ [CHR 0x22]) = Some (concat (map units_of cps))"
  by (induction cps) (simp_all add: read_units_code, simp add: read_units.simps)

subsection \<open>UTF-8\<close>

lemma base64: "(a * 64 + b mod 64) div 64 = (a :: nat)" "(a * 64 + b mod 64) mod 64 = b mod (64 :: nat)"
  by simp_all

lemma div64: "n div 64 div 64 = n div 4096" "n div 64 div 64 div 64 = n div 262144" "n div 4096 div 64 = n div (262144 :: nat)"
  by (simp_all flip: div_mult2_eq)

lemma split64: "n div 64 * 64 + n mod 64 = (n :: nat)" "n div 4096 * 64 + n div 64 mod 64 = n div 64"
  "n div 262144 * 64 + n div 4096 mod 64 = n div 4096"
proof -
  show "n div 64 * 64 + n mod 64 = n" by simp
  have "n div 64 div 64 * 64 + n div 64 mod 64 = n div 64" by (rule div_mult_mod_eq)
  then show "n div 4096 * 64 + n div 64 mod 64 = n div 64" by (simp only: div64)
  have "n div 4096 div 64 * 64 + n div 4096 mod 64 = n div 4096" by (rule div_mult_mod_eq)
  then show "n div 262144 * 64 + n div 4096 mod 64 = n div 4096" by (simp only: div64)
qed

lemma tail_byte: "(128 + n mod 64) div 64 = (2 :: nat)" "(128 + n mod 64) mod 64 = n mod (64 :: nat)"
proof -
  have "n mod 64 < 64" by simp
  then show "(128 + n mod 64) div 64 = (2 :: nat)" by (intro div_nat_eqI) simp_all
  show "(128 + n mod 64) mod 64 = n mod (64 :: nat)" using mod_mult_self2 [of "n mod 64" 64 2] by (simp add: add.commute)
qed

lemma tail_byte_form: "x div 64 = (2 :: nat) \<Longrightarrow> x = 128 + x mod 64"
  using div_mult_mod_eq [of x 64] by simp

lemma continuation_step: "continuation_bytes (Suc n) cp (b # p) = (if b div 64 = 2 then continuation_bytes n (cp * 64 + b mod 64) p else None)"
  by simp

lemma continuation_encoded:
  "continuation_bytes 1 (cp div 64) ((0x80 + cp mod 64) # p) = Some (cp, p)"
  "continuation_bytes 2 (cp div 4096) ((0x80 + cp div 64 mod 64) # (0x80 + cp mod 64) # p) = Some (cp, p)"
  "continuation_bytes 3 (cp div 262144) ((0x80 + cp div 4096 mod 64) # (0x80 + cp div 64 mod 64) # (0x80 + cp mod 64) # p) = Some (cp, p)"
proof -
  show one: "continuation_bytes 1 (cp div 64) ((0x80 + cp mod 64) # p) = Some (cp, p)"
    unfolding One_nat_def continuation_step tail_byte split64 by simp
  show two: "continuation_bytes 2 (cp div 4096) ((0x80 + cp div 64 mod 64) # (0x80 + cp mod 64) # p) = Some (cp, p)"
    unfolding Suc_1 [symmetric] continuation_step tail_byte split64 using one by (simp only: if_True refl)
  show "continuation_bytes 3 (cp div 262144) ((0x80 + cp div 4096 mod 64) # (0x80 + cp div 64 mod 64) # (0x80 + cp mod 64) # p) = Some (cp, p)"
    unfolding eval_nat_numeral(3) [of num.One] continuation_step tail_byte split64 using two by (simp only: if_True refl numeral_2_eq_2)
qed

lemma lead_encoded:
  "0x80 \<le> cp \<Longrightarrow> cp < 0x800 \<Longrightarrow> lead_byte (0xC0 + cp div 64) = Some (cp div 64, 1)"
  "0x800 \<le> cp \<Longrightarrow> cp < 0x10000 \<Longrightarrow> lead_byte (0xE0 + cp div 4096) = Some (cp div 4096, 2)"
  "0x10000 \<le> cp \<Longrightarrow> cp \<le> 0x10FFFF \<Longrightarrow> lead_byte (0xF0 + cp div 262144) = Some (cp div 262144, 3)"
proof -
  { assume "0x80 \<le> cp" "cp < 0x800"
    then obtain q where q: "cp div 64 = q" "2 \<le> q" "q < 32" by auto
    then have "(192 + q) mod 32 = q" using mod_mult_self2 [of q 32 6] by (simp add: add.commute)
    then show "lead_byte (0xC0 + cp div 64) = Some (cp div 64, 1)" using q by (simp add: lead_byte_def) }
  { assume "0x800 \<le> cp" "cp < 0x10000"
    then obtain q where q: "cp div 4096 = q" "q < 16" by auto
    then have "(224 + q) mod 16 = q" using mod_mult_self2 [of q 16 14] by (simp add: add.commute)
    then show "lead_byte (0xE0 + cp div 4096) = Some (cp div 4096, 2)" using q by (simp add: lead_byte_def) }
  { assume "0x10000 \<le> cp" "cp \<le> 0x10FFFF"
    then have "cp < 5 * 262144" by simp
    then obtain q where q: "cp div 262144 = q" "q < 5" using less_mult_imp_div_less by blast
    then have "(240 + q) mod 8 = q" using mod_mult_self2 [of q 8 30] by (simp add: add.commute)
    then show "lead_byte (0xF0 + cp div 262144) = Some (cp div 262144, 3)" using q by (simp add: lead_byte_def) }
qed

lemma body_ascii: "b < 0x80 \<Longrightarrow> json_body (b # p) = map_option ((@) (json_ascii b)) (json_body p)"
  by (subst json_body.simps) simp

lemma body_long:
  assumes "0x80 \<le> b" "lead_byte b = Some (c, n)" "continuation_bytes n c q = Some (cp, p)"
  shows "json_body (b # q) = (if ill_formed n cp then None else map_option ((@) (json_escape cp)) (json_body p))"
  using assms by (subst json_body.simps) simp

lemma body_utf8:
  assumes "scalar cp"
  shows "json_body (utf8 cp @ p) = map_option ((@) (json_code cp)) (json_body p)"
proof -
  consider "cp < 0x80" | "0x80 \<le> cp" "cp < 0x800" | "0x800 \<le> cp" "cp < 0x10000" | "0x10000 \<le> cp" "cp \<le> 0x10FFFF"
    using assms unfolding scalar_def by linarith
  then show ?thesis
  proof cases
    case 1
    then show ?thesis by (simp add: utf8_def json_code_def body_ascii)
  next
    case 2
    then have "\<not> ill_formed 1 cp" by (simp add: ill_formed_def)
    then show ?thesis using 2 body_long [OF _ lead_encoded(1) [OF 2] continuation_encoded(1) [of cp p]]
      by (simp add: utf8_def json_code_def)
  next
    case 3
    then have "\<not> ill_formed 2 cp" using assms by (auto simp: ill_formed_def scalar_def)
    then show ?thesis using 3 body_long [OF _ lead_encoded(2) [OF 3] continuation_encoded(2) [of cp p]]
      by (simp add: utf8_def json_code_def)
  next
    case 4
    then have "\<not> ill_formed 3 cp" by (auto simp: ill_formed_def)
    then show ?thesis using 4 body_long [OF _ lead_encoded(3) [OF 4] continuation_encoded(3) [of cp p]]
      by (simp add: utf8_def json_code_def)
  qed
qed

lemma body_all: "list_all scalar cps \<Longrightarrow> json_body (concat (map utf8 cps)) = Some (concat (map json_code cps))"
  by (induction cps) (simp_all add: body_utf8, simp add: json_body.simps)

text \<open>Conversely, what the encoder accepts is the UTF-8 encoding of a code point.\<close>

lemma continuation_decoded:
  "continuation_bytes 1 c p = Some (cp, p') \<Longrightarrow> c = cp div 64 \<and> p = (0x80 + cp mod 64) # p'"
  "continuation_bytes 2 c p = Some (cp, p') \<Longrightarrow> c = cp div 4096 \<and> p = (0x80 + cp div 64 mod 64) # (0x80 + cp mod 64) # p'"
  "continuation_bytes 3 c p = Some (cp, p') \<Longrightarrow>
     c = cp div 262144 \<and> p = (0x80 + cp div 4096 mod 64) # (0x80 + cp div 64 mod 64) # (0x80 + cp mod 64) # p'"
proof -
  have step: "\<exists>x q. p = x # q \<and> x = 0x80 + x mod 64 \<and> continuation_bytes n (c * 64 + x mod 64) q = Some (cp, p')"
    if "continuation_bytes (Suc n) c p = Some (cp, p')" for n c p
    using that tail_byte_form by (cases p) (auto split: if_splits)
  have one: "c = cp div 64 \<and> p = (0x80 + cp mod 64) # p'" if "continuation_bytes 1 c p = Some (cp, p')" for c p
    using step [of 0 c p] that by (auto simp: base64)
  have two: "c = cp div 4096 \<and> p = (0x80 + cp div 64 mod 64) # (0x80 + cp mod 64) # p'"
    if t: "continuation_bytes 2 c p = Some (cp, p')" for c p
  proof -
    obtain x q where x: "p = x # q" "x = 0x80 + x mod 64" "continuation_bytes 1 (c * 64 + x mod 64) q = Some (cp, p')"
      using step [of 1 c p, unfolded Suc_1, OF t] by blast
    from one [OF x(3)] have "c = cp div 64 div 64" "x mod 64 = cp div 64 mod 64" "q = (0x80 + cp mod 64) # p'" using base64 by metis+
    with x(1,2) show ?thesis by (simp add: div64)
  qed
  have suc2: "Suc 2 = 3" by simp
  have three: "c = cp div 262144 \<and> p = (0x80 + cp div 4096 mod 64) # (0x80 + cp div 64 mod 64) # (0x80 + cp mod 64) # p'"
    if t: "continuation_bytes 3 c p = Some (cp, p')" for c p
  proof -
    obtain x q where x: "p = x # q" "x = 0x80 + x mod 64" "continuation_bytes 2 (c * 64 + x mod 64) q = Some (cp, p')"
      using step [of 2 c p, unfolded suc2, OF t] by blast
    from two [OF x(3)] have "c = cp div 4096 div 64" "x mod 64 = cp div 4096 mod 64"
      "q = (0x80 + cp div 64 mod 64) # (0x80 + cp mod 64) # p'" using base64 by metis+
    with x(1,2) show ?thesis by (simp add: div64)
  qed
  show "continuation_bytes 1 c p = Some (cp, p') \<Longrightarrow> c = cp div 64 \<and> p = (0x80 + cp mod 64) # p'" by (rule one)
  show "continuation_bytes 2 c p = Some (cp, p') \<Longrightarrow> c = cp div 4096 \<and> p = (0x80 + cp div 64 mod 64) # (0x80 + cp mod 64) # p'" by (rule two)
  show "continuation_bytes 3 c p = Some (cp, p') \<Longrightarrow>
     c = cp div 262144 \<and> p = (0x80 + cp div 4096 mod 64) # (0x80 + cp div 64 mod 64) # (0x80 + cp mod 64) # p'" by (rule three)
qed

lemma lead_decoded:
  assumes "lead_byte b = Some (c, n)"
  shows "n = 1 \<and> b = 0xC0 + c \<and> c < 32 \<or> n = 2 \<and> b = 0xE0 + c \<and> c < 16 \<or> n = 3 \<and> b = 0xF0 + c \<and> c < 8"
proof -
  have "b mod 32 = b - 192" if "194 \<le> b" "b \<le> 223" using mod_mult_self2 [of "b - 192" 32 6] that by simp
  moreover have "b mod 16 = b - 224" if "224 \<le> b" "b \<le> 239" using mod_mult_self2 [of "b - 224" 16 14] that by simp
  moreover have "b mod 8 = b - 240" if "240 \<le> b" "b \<le> 244" using mod_mult_self2 [of "b - 240" 8 30] that by simp
  ultimately show ?thesis using assms by (auto simp: lead_byte_def split: if_splits)
qed

lemma decoded_utf8:
  assumes "lead_byte b = Some (c, n)" "continuation_bytes n c q = Some (cp, p)" "\<not> ill_formed n cp"
  shows "b # q = utf8 cp @ p \<and> scalar cp \<and> 0x80 \<le> cp"
proof -
  have r: "cp \<le> 0x10FFFF" "\<not> (0xD800 \<le> cp \<and> cp \<le> 0xDFFF)" using assms(3) by (auto simp: ill_formed_def)
  consider "n = 1" "b = 0xC0 + c" "c < 32" | "n = 2" "b = 0xE0 + c" "c < 16" | "n = 3" "b = 0xF0 + c" using lead_decoded [OF assms(1)] by blast
  then show ?thesis
  proof cases
    case 1
    then have d: "c = cp div 64" "q = (0x80 + cp mod 64) # p" using continuation_decoded(1) assms(2) by auto
    have "cp < 32 * 64" using 1(3) d(1) by (simp add: div_less_iff_less_mult)
    moreover have "0x80 \<le> cp" using assms(3) 1(1) by (auto simp: ill_formed_def)
    ultimately show ?thesis using 1 d r by (simp add: utf8_def scalar_def)
  next
    case 2
    then have d: "c = cp div 4096" "q = (0x80 + cp div 64 mod 64) # (0x80 + cp mod 64) # p" using continuation_decoded(2) assms(2) by auto
    have "cp < 16 * 4096" using 2(3) d(1) by (simp add: div_less_iff_less_mult)
    moreover have "0x800 \<le> cp" using assms(3) 2(1) by (auto simp: ill_formed_def)
    ultimately show ?thesis using 2 d r by (simp add: utf8_def scalar_def)
  next
    case 3
    then have d: "c = cp div 262144" "q = (0x80 + cp div 4096 mod 64) # (0x80 + cp div 64 mod 64) # (0x80 + cp mod 64) # p"
      using continuation_decoded(3) assms(2) by auto
    have "0x10000 \<le> cp" using assms(3) 3(1) by (auto simp: ill_formed_def)
    then show ?thesis using 3 d r by (simp add: utf8_def scalar_def)
  qed
qed

lemma body_accepts:
  "json_body p = Some t \<Longrightarrow> 0 \<notin> set p \<Longrightarrow> \<exists>cps. list_all scalar cps \<and> p = concat (map utf8 cps)"
proof (induction p arbitrary: t rule: json_body.induct)
  case (1 p)
  show ?case
  proof (cases p)
    case Nil
    then show ?thesis by (intro exI [of _ "[]"]) simp
  next
    case (Cons b q)
    show ?thesis
    proof (cases "b < 0x80")
      case True
      then obtain t' where "json_body q = Some t'" using 1 Cons by (auto simp: body_ascii)
      then obtain cps where c: "list_all scalar cps" "q = concat (map utf8 cps)" using "1.IH"(1) [OF Cons True] "1.prems"(2) Cons by auto
      have "scalar b" "utf8 b = [b]" using True "1.prems"(2) Cons by (auto simp: scalar_def utf8_def)
      then show ?thesis using c Cons by (intro exI [of _ "b # cps"]) simp
    next
      case False
      then obtain c n cp r where l: "lead_byte b = Some (c, n)" "continuation_bytes n c q = Some (cp, r)" "\<not> ill_formed n cp" "json_body r \<noteq> None"
        using "1.prems"(1) Cons by (subst (asm) json_body.simps) (auto split: option.splits if_splits)
      note u = decoded_utf8 [OF l(1,2,3)]
      obtain t' where t': "json_body r = Some t'" using l(4) by blast
      have "0 \<notin> set r" using u "1.prems"(2) Cons by auto
      with "1.IH"(2) [OF Cons False l(1) _ l(2) _ l(3) t'] obtain cps where "list_all scalar cps" "r = concat (map utf8 cps)" by auto
      then show ?thesis using u Cons by (intro exI [of _ "cp # cps"]) simp
    qed
  qed
qed

subsection \<open>The text is ASCII\<close>

definition printable :: "string \<Rightarrow> bool" where "printable t \<longleftrightarrow> list_all (\<lambda>c. 0x20 \<le> char_code c \<and> char_code c < 0x80) t"

lemma printable_append [simp]: "printable (s @ t) \<longleftrightarrow> printable s \<and> printable t"
  by (simp add: printable_def)

lemma char_code_of: "n < 256 \<Longrightarrow> char_code (char_of n) = n"
  by (simp add: char_code_def)

lemma printable_escape: "printable (u_escape n)"
proof -
  have "0x20 \<le> char_code (hex_digit (k mod 16)) \<and> char_code (hex_digit (k mod 16)) < 0x80" for k
  proof -
    have "k mod 16 < 16" by simp
    then show ?thesis unfolding hex_digit_def by (subst (1 2) char_code_of) auto
  qed
  then show ?thesis by (simp add: printable_def u_escape_def hex4_def char_code_def)
qed

lemma printable_code: "printable (json_code cp)"
proof (cases "cp < 0x80")
  case True
  then show ?thesis
    by (auto simp: json_code_def json_ascii_def printable_escape) (auto simp: printable_def char_code_def)
next
  case False
  then show ?thesis by (simp add: json_code_def json_escape_def printable_escape)
qed

text \<open>
  Property C28.  The manifest's strings say exactly what the program read.  The encoder accepts a C string if and only
  if its bytes are the UTF-8 encoding of a sequence of Unicode scalar values; then its output is
  printable ASCII, and a JSON reader gets that very sequence back, supplementary characters included.
  Every other byte string (overlong forms, surrogates, stray or missing continuation bytes, code
  points beyond U+10FFFF) is refused.
\<close>

theorem json_string_faithful:
  assumes "CHR 0x00 \<notin> set s"
  shows "(json_string (Some s) \<noteq> None \<longleftrightarrow> (\<exists>cps. list_all scalar cps \<and> map char_code s = concat (map utf8 cps))) \<and>
    (\<forall>cps. list_all scalar cps \<and> map char_code s = concat (map utf8 cps) \<longrightarrow>
       (\<exists>t. json_string (Some s) = Some t \<and> read_json_string t = Some cps \<and> printable t))"
proof -
  have z: "0 \<notin> set (map char_code s)" 
  proof -
    have "c = CHR 0x00" if "char_code c = 0" for c using that char_of_is [of 0 c] by (simp add: char_code_def char_of_def)
    then show ?thesis using assms by auto
  qed
  have e: "\<exists>t. json_string (Some s) = Some t \<and> read_json_string t = Some cps \<and> printable t"
    if "list_all scalar cps" "map char_code s = concat (map utf8 cps)" for cps
    using that body_all [OF that(1)] read_units_codes [OF that(1)] join_all_units [OF that(1)]
    by (auto simp: json_string_def read_json_string_def printable_def char_code_def list_all_iff
        dest: printable_code [unfolded printable_def list_all_iff char_code_def, rule_format])
  have "\<exists>cps. list_all scalar cps \<and> map char_code s = concat (map utf8 cps)" if "json_string (Some s) \<noteq> None"
    using that body_accepts [OF _ z] by (auto simp: json_string_def)
  with e show ?thesis by blast
qed

theorem json_string_faithful_witness:
  "\<exists>t. json_string (Some [CHR ''a'', char_of (0xC3 :: nat), char_of (0xA9 :: nat)]) = Some t \<and> read_json_string t = Some [0x61, 0xE9] \<and> printable t"
proof -
  have "CHR 0x00 \<notin> set [CHR ''a'', char_of (0xC3 :: nat), char_of (0xA9 :: nat)]" by (simp add: char_of_def)
  moreover have "list_all scalar [0x61, 0xE9] \<and> map char_code [CHR ''a'', char_of (0xC3 :: nat), char_of (0xA9 :: nat)] = concat (map utf8 [0x61, 0xE9])"
    by (simp add: scalar_def utf8_def char_code_def)
  ultimately show ?thesis using json_string_faithful by blast
qed

end
