(* ===== verification/Json_Value.thy ===== *)
theory Json_Value
  imports Json_Text
begin

text \<open>
  JSON values: the escaping of \<^verbatim>\<open>json_string\<close> in \<^verbatim>\<open>experiment/run_config.c\<close>, a reference printer and a
  reader, and the theorem that the reader takes back every printed value.
\<close>

section \<open>Printing\<close>

abbreviation QUOTE :: char where "QUOTE \<equiv> CHR 0x22"

text \<open>\<^verbatim>\<open>json_string\<close> of \<^verbatim>\<open>run_config.c\<close>: bytes from 0x80 on are copied.\<close>

definition config_escape :: "char \<Rightarrow> string" where
  "config_escape c =
     (if c = QUOTE \<or> c = CHR 0x5C then [CHR 0x5C] else []) @ (if char_code c < 32 then u_escape (char_code c) else [c])"

definition config_json_string :: "string \<Rightarrow> string" where
  "config_json_string s = [QUOTE] @ concat (map config_escape s) @ [QUOTE]"

datatype json = JNull | JBool bool | JNum string | JStr string | JArr "json list" | JObj "(string \<times> json) list"

fun commas :: "string list \<Rightarrow> string" where
  "commas [] = []"
| "commas [s] = s"
| "commas (s # t # ts) = s @ '','' @ commas (t # ts)"

text \<open>The canonical text of a value, without spaces.\<close>

fun print_json :: "json \<Rightarrow> string" where
  "print_json JNull = ''null''"
| "print_json (JBool b) = (if b then ''true'' else ''false'')"
| "print_json (JNum n) = n"
| "print_json (JStr s) = config_json_string s"
| "print_json (JArr vs) = ''['' @ commas (map print_json vs) @ '']''"
| "print_json (JObj ms) = ''{'' @ commas (map (\<lambda>(k, v). config_json_string k @ '':'' @ print_json v) ms) @ ''}''"

section \<open>Reading\<close>

function read_text :: "string \<Rightarrow> (string \<times> string) option" where
  "read_text s =
     (case s of
        [] \<Rightarrow> None
      | c # t \<Rightarrow>
          if c = QUOTE then Some ([], t)
          else if c = CHR 0x5C then
            (case read_escape t of
               None \<Rightarrow> None
             | Some (n, r) \<Rightarrow> map_option (\<lambda>(u, r). (char_of n # u, r)) (read_text r))
          else if char_code c < 32 then None
          else map_option (\<lambda>(u, r). (c # u, r)) (read_text t))"
  by pat_completeness auto
termination
  by (relation "measure length") (auto dest: read_escape_length)

declare read_text.simps [simp del]

text \<open>A number of RFC 8259 without exponent: no leading zero, and digits on both sides of the point.\<close>

definition json_digits :: "string \<Rightarrow> bool" where "json_digits t \<longleftrightarrow> t \<noteq> [] \<and> list_all is_digit t"

definition json_integer :: "string \<Rightarrow> bool" where
  "json_integer t \<longleftrightarrow> json_digits t \<and> (hd t = CHR ''0'' \<longrightarrow> t = ''0'')"

definition json_number :: "string \<Rightarrow> bool" where
  "json_number t \<longleftrightarrow>
     (let u = (case t of c # u \<Rightarrow> if c = CHR ''-'' then u else t | [] \<Rightarrow> t);
          whole = takeWhile is_digit u; rest = dropWhile is_digit u in
      json_integer whole \<and> (rest = [] \<or> hd rest = CHR ''.'' \<and> json_digits (tl rest)))"

definition number_char :: "char \<Rightarrow> bool" where
  "number_char c \<longleftrightarrow> is_digit c \<or> c = CHR ''-'' \<or> c = CHR ''.''"

definition read_literal :: "string \<Rightarrow> (json \<times> string) option" where
  "read_literal s =
     (if take 4 s = ''null'' then Some (JNull, drop 4 s)
      else if take 4 s = ''true'' then Some (JBool True, drop 4 s)
      else if take 5 s = ''false'' then Some (JBool False, drop 5 s)
      else if json_number (takeWhile number_char s) then Some (JNum (takeWhile number_char s), dropWhile number_char s)
      else None)"

text \<open>The fuel bounds the nesting and the lengths of arrays and objects.\<close>

fun read_value :: "nat \<Rightarrow> string \<Rightarrow> (json \<times> string) option"
  and read_items :: "nat \<Rightarrow> string \<Rightarrow> (json list \<times> string) option"
  and read_members :: "nat \<Rightarrow> string \<Rightarrow> ((string \<times> json) list \<times> string) option" where
  "read_value 0 s = None"
| "read_value (Suc n) s =
     (if s = [] then None
      else if hd s = QUOTE then map_option (\<lambda>(u, r). (JStr u, r)) (read_text (tl s))
      else if hd s = CHR ''['' then
        (if take 1 (tl s) = '']'' then Some (JArr [], drop 2 s) else map_option (\<lambda>(vs, r). (JArr vs, r)) (read_items n (tl s)))
      else if hd s = CHR 0x7B then
        (if take 1 (tl s) = [CHR 0x7D] then Some (JObj [], drop 2 s) else map_option (\<lambda>(ms, r). (JObj ms, r)) (read_members n (tl s)))
      else read_literal s)"
| "read_items 0 s = None"
| "read_items (Suc n) s =
     (case read_value n s of
        None \<Rightarrow> None
      | Some (v, r) \<Rightarrow>
          if take 1 r = '']'' then Some ([v], tl r)
          else if take 1 r = '','' then map_option (\<lambda>(vs, r). (v # vs, r)) (read_items n (tl r))
          else None)"
| "read_members 0 s = None"
| "read_members (Suc n) s =
     (if take 1 s \<noteq> [QUOTE] then None
      else (case read_text (tl s) of
          None \<Rightarrow> None
        | Some (k, r) \<Rightarrow>
            if take 1 r \<noteq> '':'' then None
            else (case read_value n (tl r) of
                None \<Rightarrow> None
              | Some (v, r) \<Rightarrow>
                  if take 1 r = [CHR 0x7D] then Some ([(k, v)], tl r)
                  else if take 1 r = '','' then map_option (\<lambda>(ms, r). ((k, v) # ms, r)) (read_members n (tl r))
                  else None)))"

definition read_json :: "string \<Rightarrow> json option" where
  "read_json s = (case read_value (length s) s of Some (v, []) \<Rightarrow> Some v | _ \<Rightarrow> None)"

section \<open>Printed values are read back\<close>

lemma read_text_char: "read_text (config_escape c @ r) = map_option (\<lambda>(u, r). (c # u, r)) (read_text r)"
proof -
  consider "c = QUOTE \<or> c = CHR 0x5C" | "char_code c < 32" | "32 \<le> char_code c" "c \<noteq> QUOTE" "c \<noteq> CHR 0x5C" by linarith
  then show ?thesis
  proof cases
    case 1
    then show ?thesis by (subst read_text.simps) (auto simp: config_escape_def char_code_def)
  next
    case 2
    have "read_escape (tl (u_escape (char_code c) @ r)) = Some (char_code c, r)" "hd (u_escape (char_code c)) = CHR 0x5C" "u_escape (char_code c) \<noteq> []"
      using read_unit_escape [of "char_code c" r] 2 by (auto simp: u_escape_def hex4_def)
    moreover have "config_escape c = u_escape (char_code c)" using 2 by (auto simp: config_escape_def char_code_def)
    ultimately show ?thesis by (subst read_text.simps) (auto simp: char_code_def u_escape_def split: list.splits)
  next
    case 3
    then show ?thesis by (subst read_text.simps) (auto simp: config_escape_def)
  qed
qed

lemma read_text_end: "read_text (QUOTE # r) = Some ([], r)"
  by (subst read_text.simps) simp

lemma read_text_escaped: "read_text (concat (map config_escape s) @ QUOTE # r) = Some (s, r)"
  by (induction s) (simp_all add: read_text_char read_text_end)

fun json_ok :: "json \<Rightarrow> bool" where
  "json_ok (JNum n) \<longleftrightarrow> json_number n"
| "json_ok (JArr vs) \<longleftrightarrow> (\<forall>v \<in> set vs. json_ok v)"
| "json_ok (JObj ms) \<longleftrightarrow> (\<forall>(k, v) \<in> set ms. json_ok v)"
| "json_ok _ \<longleftrightarrow> True"

fun json_cost :: "json \<Rightarrow> nat" where
  "json_cost (JArr vs) = Suc (sum_list (map (\<lambda>v. Suc (json_cost v)) vs))"
| "json_cost (JObj ms) = Suc (sum_list (map (\<lambda>(k, v). Suc (json_cost v)) ms))"
| "json_cost _ = 1"

definition ends :: "string \<Rightarrow> bool" where "ends r \<longleftrightarrow> r = [] \<or> \<not> number_char (hd r)"

lemma json_number_chars:
  assumes "json_number t"
  shows "t \<noteq> [] \<and> list_all number_char t"
proof -
  define u where "u = (case t of c # u \<Rightarrow> if c = CHR ''-'' then u else t | [] \<Rightarrow> t)"
  have u: "json_integer (takeWhile is_digit u)" "dropWhile is_digit u = [] \<or> hd (dropWhile is_digit u) = CHR ''.'' \<and> json_digits (tl (dropWhile is_digit u))"
    using assms unfolding json_number_def u_def Let_def by blast+
  have a: "list_all number_char (takeWhile is_digit u)" by (auto simp: list_all_iff number_char_def dest: set_takeWhileD)
  have b: "list_all number_char (dropWhile is_digit u)"
  proof -
    obtain d where d: "d = dropWhile is_digit u" by blast
    from u(2) show ?thesis unfolding d [symmetric] by (cases d) (auto simp: json_digits_def list_all_iff number_char_def)
  qed
  have "list_all number_char u" using a b by (metis list_all_append takeWhile_dropWhile_id)
  moreover have "u \<noteq> []" using u(1) by (auto simp: json_integer_def json_digits_def)
  moreover have "t = u \<or> t = CHR ''-'' # u" unfolding u_def by (cases t) auto
  ultimately show ?thesis by (auto simp: number_char_def)
qed

lemma number_span:
  assumes "list_all number_char t" "ends r"
  shows "takeWhile number_char (t @ r) = t \<and> dropWhile number_char (t @ r) = r"
proof -
  have "takeWhile number_char r = [] \<and> dropWhile number_char r = r" using assms(2) by (cases r) (auto simp: ends_def)
  moreover have "\<forall>x \<in> set t. number_char x" using assms(1) by (simp add: list_all_iff)
  ultimately show ?thesis using takeWhile_append2 [of t number_char r] dropWhile_append2 [of t number_char r] by simp
qed

lemma number_char_head: "number_char c \<Longrightarrow> c \<noteq> QUOTE \<and> c \<noteq> CHR ''['' \<and> c \<noteq> CHR 0x7B \<and> c \<noteq> CHR '']'' \<and> c \<noteq> CHR 0x7D \<and> c \<noteq> CHR ''n'' \<and> c \<noteq> CHR ''t'' \<and> c \<noteq> CHR ''f''"
  by (auto simp: number_char_def is_digit_def char_code_def)

lemma read_number_text:
  assumes "json_number t" "ends r"
  shows "read_value (Suc n) (t @ r) = Some (JNum t, r)"
proof -
  obtain c u where c: "t = c # u" "number_char c" using json_number_chars [OF assms(1)] by (cases t) auto
  have "read_literal (t @ r) = Some (JNum t, r)"
    using number_span [OF conjunct2 [OF json_number_chars [OF assms(1)]] assms(2)] assms(1) number_char_head [OF c(2)] c(1)
    by (auto simp: read_literal_def)
  then show ?thesis using number_char_head [OF c(2)] c(1) by simp
qed

lemma print_head: "json_ok v \<Longrightarrow> \<exists>c t. print_json v = c # t \<and> c \<noteq> CHR '']'' \<and> c \<noteq> CHR 0x7D"
proof (cases v)
  case (JNum n)
  assume "json_ok v"
  then show ?thesis using JNum json_number_chars [of n] number_char_head by (cases n) auto
qed (auto simp: config_json_string_def)

lemma read_items_printed:
  assumes "\<And>v n r. v \<in> set vs \<Longrightarrow> json_cost v \<le> n \<Longrightarrow> ends r \<Longrightarrow> read_value n (print_json v @ r) = Some (v, r)"
    and "vs \<noteq> []" "sum_list (map (\<lambda>v. Suc (json_cost v)) vs) \<le> n"
  shows "read_items n (commas (map print_json vs) @ CHR '']'' # r) = Some (vs, r)"
  using assms
proof (induction vs arbitrary: n)
  case (Cons v vs)
  obtain m where m: "n = Suc m" "json_cost v \<le> m" "sum_list (map (\<lambda>v. Suc (json_cost v)) vs) \<le> m" using Cons.prems(3) by (cases n) auto
  have e: "ends (CHR '']'' # q)" "ends (CHR '','' # q)" for q by (auto simp: ends_def number_char_def is_digit_def char_code_def)
  have rv: "read_value m (print_json v @ q) = Some (v, q)" if "ends q" for q using Cons.prems(1) [of v m q] m(2) that by simp
  show ?case
  proof (cases vs)
    case Nil
    then show ?thesis using rv [OF e(1)] m(1) by simp
  next
    case (Cons w ws)
    have "read_items m (commas (map print_json vs) @ CHR '']'' # r) = Some (vs, r)"
      using Cons.IH [of m] Cons.prems(1) m(3) Cons by auto
    then show ?thesis using rv [OF e(2)] m(1) Cons by simp
  qed
qed simp

lemma read_members_printed:
  assumes "\<And>k v n r. (k, v) \<in> set ms \<Longrightarrow> json_cost v \<le> n \<Longrightarrow> ends r \<Longrightarrow> read_value n (print_json v @ r) = Some (v, r)"
    and "ms \<noteq> []" "sum_list (map (\<lambda>(k, v). Suc (json_cost v)) ms) \<le> n"
  shows "read_members n (commas (map (\<lambda>(k, v). config_json_string k @ '':'' @ print_json v) ms) @ CHR 0x7D # r) = Some (ms, r)"
  using assms
proof (induction ms arbitrary: n)
  case (Cons kv ms)
  obtain k v where kv: "kv = (k, v)" by fastforce
  obtain m where m: "n = Suc m" "json_cost v \<le> m" "sum_list (map (\<lambda>(k, v). Suc (json_cost v)) ms) \<le> m"
    using Cons.prems(3) kv by (cases n) auto
  have e: "ends (CHR 0x7D # q)" "ends (CHR '','' # q)" for q by (auto simp: ends_def number_char_def is_digit_def char_code_def)
  have rv: "read_value m (print_json v @ q) = Some (v, q)" if "ends q" for q using Cons.prems(1) [of k v m q] m(2) that kv by simp
  have t: "read_text (concat (map config_escape k) @ QUOTE # q) = Some (k, q)" for q by (rule read_text_escaped)
  show ?case
  proof (cases ms)
    case Nil
    then show ?thesis using rv [OF e(1)] t m(1) kv by (simp add: config_json_string_def)
  next
    case (Cons w ws)
    have "read_members m (commas (map (\<lambda>(k, v). config_json_string k @ '':'' @ print_json v) ms) @ CHR 0x7D # r) = Some (ms, r)"
      using Cons.IH [of m] Cons.prems(1) m(3) Cons by auto
    then show ?thesis using rv [OF e(2)] t m(1) kv Cons by (simp add: config_json_string_def)
  qed
qed simp

lemma read_printed: "json_ok v \<Longrightarrow> json_cost v \<le> n \<Longrightarrow> ends r \<Longrightarrow> read_value n (print_json v @ r) = Some (v, r)"
proof (induction v arbitrary: n r)
  case (JNum t)
  then show ?case using read_number_text [of t r] by (cases n) auto
next
  case (JStr t)
  then show ?case using read_text_escaped [of t r] by (cases n) (auto simp: config_json_string_def)
next
  case (JArr vs)
  obtain m where m: "n = Suc m" "sum_list (map (\<lambda>v. Suc (json_cost v)) vs) \<le> m" using JArr.prems by (cases n) auto
  have IH: "read_value n (print_json v @ r) = Some (v, r)" if "v \<in> set vs" "json_cost v \<le> n" "ends r" for v n r
    using JArr.IH [OF that(1) _ that(2,3)] JArr.prems(1) that(1) by simp
  show ?case
  proof (cases vs)
    case Nil
    then show ?thesis using m by simp
  next
    case (Cons w ws)
    obtain c t where "print_json w = c # t" "c \<noteq> CHR '']''" using print_head [of w] JArr.prems(1) Cons by auto
    then have h: "\<exists>c t. commas (map print_json vs) = c # t \<and> c \<noteq> CHR '']''" using Cons by (cases ws) auto
    have "read_items m (commas (map print_json vs) @ CHR '']'' # r) = Some (vs, r)"
      using Cons m(2) by (intro read_items_printed IH) auto
    then show ?thesis using h m(1) by auto
  qed
next
  case (JObj ms)
  obtain m where m: "n = Suc m" "sum_list (map (\<lambda>(k, v). Suc (json_cost v)) ms) \<le> m" using JObj.prems by (cases n) auto
  have IH: "read_value n (print_json v @ r) = Some (v, r)" if "(k, v) \<in> set ms" "json_cost v \<le> n" "ends r" for k v n r
    using JObj.IH [OF that(1) _ _ that(2,3)] JObj.prems(1) that(1) by (auto simp: snds.simps)
  show ?case
  proof (cases ms)
    case Nil
    then show ?thesis using m by simp
  next
    case (Cons w ws)
    then have h: "\<exists>t. commas (map (\<lambda>(k, v). config_json_string k @ '':'' @ print_json v) ms) = QUOTE # t"
      by (cases w; cases ws) (auto simp: config_json_string_def)
    have "read_members m (commas (map (\<lambda>(k, v). config_json_string k @ '':'' @ print_json v) ms) @ CHR 0x7D # r) = Some (ms, r)"
      using Cons m(2) by (intro read_members_printed IH) auto
    then show ?thesis using h m(1) by auto
  qed
next
  case JNull
  then show ?case by (cases n) (simp_all add: read_literal_def)
next
  case (JBool b)
  then show ?case by (cases n; cases b) (simp_all add: read_literal_def)
qed

lemma cost_le_length: "json_ok v \<Longrightarrow> json_cost v \<le> length (print_json v)"
proof (induction v)
  case (JNum t)
  then show ?case using json_number_chars [of t] by (cases t) auto
next
  case (JArr vs)
  have "sum_list (map (\<lambda>v. Suc (json_cost v)) vs) \<le> Suc (length (commas (map print_json vs)))"
    using JArr.prems JArr.IH
  proof (induction vs)
    case (Cons v vs)
    then show ?case by (cases vs) (auto simp add: add_mono)
  qed simp
  then show ?case by simp
next
  case (JObj ms)
  have "sum_list (map (\<lambda>(k, v). Suc (json_cost v)) ms) \<le> Suc (length (commas (map (\<lambda>(k, v). config_json_string k @ '':'' @ print_json v) ms)))"
    using JObj.prems JObj.IH
  proof (induction ms)
    case (Cons kv ms)
    obtain k v where kv: "kv = (k, v)" by fastforce
    have "json_cost v \<le> length (print_json v)" using Cons.prems(2) [of kv v] Cons.prems(1) kv by (auto simp: snds.simps)
    moreover have "sum_list (map (\<lambda>(k, v). Suc (json_cost v)) ms) \<le> Suc (length (commas (map (\<lambda>(k, v). config_json_string k @ '':'' @ print_json v) ms)))"
      using Cons.IH Cons.prems by auto
    ultimately show ?case using kv by (cases ms) auto
  qed simp
  then show ?case by simp
qed (auto simp: config_json_string_def)

text \<open>The reader takes back every value from its text.\<close>

lemma read_json_printed: "json_ok v \<Longrightarrow> read_json (print_json v) = Some v"
  using read_printed [of v "length (print_json v)" "[]"] cost_le_length [of v] by (simp add: read_json_def ends_def)

section \<open>Printed numbers\<close>

lemma show_nat_leading: "hd (show_nat n) = CHR ''0'' \<Longrightarrow> show_nat n = ''0''"
proof (induction n rule: show_nat.induct)
  case (1 n)
  show ?case
  proof (cases "n < 10")
    case True
    then have "show_nat n = [digit_char n]" by (simp add: show_nat.simps)
    then show ?thesis using "1.prems" by simp
  next
    case False
    then have s: "show_nat n = show_nat (n div 10) @ [digit_char (n mod 10)]" by (subst show_nat.simps) simp
    then have "show_nat (n div 10) = ''0''" using 1 False by simp
    then have "dec_val (show_nat (n div 10)) = 0" by (simp add: dec_val_def digit_val_def char_code_def)
    then show ?thesis using False by simp
  qed
qed

lemma integer_show: "json_integer (show_nat n)"
  using show_nat_leading by (auto simp: json_integer_def json_digits_def show_nat_digits)

lemma span_show: "r = [] \<or> \<not> is_digit (hd r) \<Longrightarrow> takeWhile is_digit (show_nat n @ r) = show_nat n \<and> dropWhile is_digit (show_nat n @ r) = r"
proof -
  assume r: "r = [] \<or> \<not> is_digit (hd r)"
  have "\<forall>c \<in> set (show_nat n). is_digit c" using show_nat_digits [of n] by (simp add: list_all_iff)
  moreover have "takeWhile is_digit r = [] \<and> dropWhile is_digit r = r" using r by (cases r) auto
  ultimately show ?thesis using takeWhile_append2 [of "show_nat n" is_digit r] dropWhile_append2 [of "show_nat n" is_digit r] by simp
qed

lemma number_show_minus: "show_nat n = c # u \<Longrightarrow> c \<noteq> CHR ''-''"
  using show_nat_digits [of n] by (auto simp: is_digit_def char_code_def)

lemma number_parts:
  assumes "r = [] \<or> hd r = CHR ''.'' \<and> json_digits (tl r)"
  shows "json_number (show_nat n @ r)" "json_number (CHR ''-'' # show_nat n @ r)"
proof -
  have "r = [] \<or> \<not> is_digit (hd r)" using assms by (auto simp: is_digit_def char_code_def)
  note s = span_show [OF this, of n]
  obtain c u where c: "show_nat n = c # u" "c \<noteq> CHR ''-''" using number_show_minus by (cases "show_nat n") auto
  have "(case show_nat n @ r of c # u \<Rightarrow> if c = CHR ''-'' then u else show_nat n @ r | [] \<Rightarrow> show_nat n @ r) = show_nat n @ r"
    using c by simp
  then show "json_number (show_nat n @ r)" unfolding json_number_def Let_def using s integer_show assms by simp
  show "json_number (CHR ''-'' # show_nat n @ r)" unfolding json_number_def Let_def using s integer_show assms by simp
qed

lemma number_show [simp]: "json_number (show_nat n)" "json_number (show_int i)"
  using number_parts [of "[]"] by (auto simp: show_int_def)

end
