(* ===== verification/Condition.thy ===== *)
theory Condition
  imports Json_Value
begin

text \<open>
  The condition of a run as JSON: \<^verbatim>\<open>json_string\<close> and \<^verbatim>\<open>write_condition\<close> of \<^verbatim>\<open>experiment/run_config.c\<close>, against
  a reference printer of JSON values.
\<close>

section \<open>The code\<close>

text \<open>A key with its colon, and text between quotes as \<^verbatim>\<open>\"%s\"\<close> prints it.\<close>

definition quoted :: "string \<Rightarrow> string" where "quoted s = [QUOTE] @ s @ [QUOTE]"

definition json_key :: "string \<Rightarrow> string" where "json_key k = quoted k @ '':''"

text \<open>
  \<^verbatim>\<open>%.3f\<close> of milliseconds over 1000.0.  The quotient is a double, whose error stays below the half of
  the last digit that is printed for every duration below \<open>2 ^ 52\<close> milliseconds; the durations of a
  configuration are at most 86400000.
\<close>

definition digit3 :: "nat \<Rightarrow> string" where
  "digit3 n = show_nat (n div 100 mod 10) @ show_nat (n div 10 mod 10) @ show_nat (n mod 10)"

definition show_millis :: "nat \<Rightarrow> string" where
  "show_millis ms = show_nat (ms div 1000) @ ''.'' @ digit3 (ms mod 1000)"

definition show_u64 :: "u64 \<Rightarrow> string" where "show_u64 v = show_nat (unat v)"

text \<open>The buffers of \<^verbatim>\<open>RUN_CPU_LIST_SIZE\<close> bytes are large enough for every list, so the error of the printer does not occur.\<close>

definition cpus_text :: "nat set \<Rightarrow> string" where
  "cpus_text cpus = (case run_format_cpus cpus RUN_CPU_LIST_SIZE of Some t \<Rightarrow> t | None \<Rightarrow> [])"

definition only_cpu :: "nat set \<Rightarrow> int" where
  "only_cpu cpus = (case filter (\<lambda>n. n \<in> cpus) [0..<CPU_SETSIZE] of [n] \<Rightarrow> int n | _ \<Rightarrow> -1)"

definition flow_condition :: "run_config \<Rightarrow> string \<Rightarrow> u64 \<Rightarrow> nat \<Rightarrow> string" where
  "flow_condition c mode duration i =
   (let f = cf_flows c ! i; cpus = run_rx_cpu_set c i mode; t = cpus_text cpus in
    ''{'' @ json_key ''flow_id'' @ show_nat (i + 1) @ '','' @ json_key ''port'' @ show_nat (9000 + i) @ '','' @
    json_key ''count'' @ show_u64 (flow_count f duration) @ '','' @ json_key ''period_ns'' @ show_u64 (fl_period_ns f) @ '','' @
    json_key ''deadline_ns'' @ (if fl_deadline_ns f \<noteq> 0 then show_u64 (fl_deadline_ns f) else ''null'') @ '','' @
    json_key ''requested_path'' @ quoted (run_flow_path mode i) @ '','' @ json_key ''tx_cpu'' @ show_int (fl_tx_cpu f) @ '','' @
    json_key ''rx_cpu'' @ show_int (only_cpu cpus) @ '','' @
    json_key ''rx_cpus'' @ config_json_string (if t \<noteq> [] then t else ''inherit'') @ '','' @
    json_key ''tx_policy'' @ show_nat (fl_tx_policy f) @ '','' @ json_key ''rx_policy'' @ show_nat (fl_rx_policy f) @ '','' @
    json_key ''tx_priority'' @ show_u64 (fl_tx_priority f) @ '','' @ json_key ''rx_priority'' @ show_u64 (fl_rx_priority f) @ ''}'')"

definition load_condition :: "run_config \<Rightarrow> string \<Rightarrow> string" where
  "load_condition c mode =
   (let l = cf_load c in
    json_key ''load'' @ ''{'' @ json_key ''cpu_percent'' @ show_u64 (ld_cpu_percent l) @ '','' @
    json_key ''cpu_cpus'' @ config_json_string (case run_load_cpus c mode RUN_CPU_LIST_SIZE of Some t \<Rightarrow> t | None \<Rightarrow> []) @ '','' @
    json_key ''cpu_layout'' @ config_json_string (ld_cpu_layout l) @ '','' @ json_key ''cpu_workers'' @ show_u64 (ld_cpu_workers l) @ '','' @
    json_key ''memory_workers'' @ show_u64 (ld_memory_workers l) @ '','' @ json_key ''memory_bytes'' @ config_json_string (ld_memory_bytes l) @ '','' @
    json_key ''io_workers'' @ show_u64 (ld_io_workers l) @ '','' @ json_key ''network_bps'' @ show_u64 (ld_network_bps l) @ '','' @
    json_key ''network_protocol'' @ quoted (ld_network_protocol l) @ '','' @
    json_key ''network_direction'' @ quoted (ld_network_direction l) @ '','' @
    json_key ''network_parallel'' @ show_u64 (ld_network_parallel l) @ '','' @ json_key ''on_sec'' @ show_u64 (ld_on_sec l) @ '','' @
    json_key ''off_sec'' @ show_u64 (ld_off_sec l) @ ''}'')"

definition environment_condition :: "run_config \<Rightarrow> string \<Rightarrow> string" where
  "environment_condition c mode =
   (let p = cf_placement c; t = cf_timing c in
    json_key ''environment'' @ ''{'' @ json_key ''governor'' @ config_json_string (pl_governor p) @ '','' @
    json_key ''alternate_mode_order'' @ show_u64 (tm_alternate_mode_order t) @ '','' @ json_key ''xsk_busy'' @ show_u64 (tm_xsk_busy t) @ '','' @
    json_key ''rx_coalesce_usecs'' @ show_int (tm_rx_coalesce_usecs t) @ '','' @ json_key ''phc_tracking'' @ show_u64 (tm_phc_tracking t) @ '','' @
    json_key ''receiver_supervisor_cpu'' @ show_int (pl_receiver_supervisor_cpu p) @ '','' @
    json_key ''sender_supervisor_cpu'' @ show_int (pl_sender_supervisor_cpu p) @ '','' @
    json_key ''receiver_network_cpu'' @ show_int (pl_receiver_network_cpu p) @ '','' @
    json_key ''sender_network_cpu'' @ show_int (pl_sender_network_cpu p) @ '','' @
    json_key ''receiver_available_cpus'' @ config_json_string (pl_shared_cpus p) @ '','' @
    json_key ''receiver_shared_cpus'' @ config_json_string (cpus_text (run_general_cpu_set c mode)) @ '','' @
    json_key ''receiver_cpumap_active'' @ (if run_cpumap_active c mode then ''true'' else ''false'') @ '','' @
    json_key ''receiver_cpumap_cpu'' @ (if pl_shared_cpus p \<noteq> [] then show_nat (pl_cpumap_cpu p) else ''null'') @ '','' @
    json_key ''rx_irq_cpu'' @ show_nat (pl_rx_irq_cpu p) @ ''}'')"

definition config_condition :: "run_config \<Rightarrow> string" where
  "config_condition c =
   (let t = cf_timing c in
    json_key ''config'' @ ''{'' @ json_key ''sha256'' @ quoted (cf_digest c) @ '','' @ json_key ''warmup_ms'' @ show_u64 (tm_warmup_ms t) @ '','' @
    json_key ''settle_ms'' @ show_u64 (tm_settle_ms t) @ '','' @ json_key ''drain_ms'' @ show_u64 (tm_drain_ms t) @ '','' @
    json_key ''monitor'' @ show_u64 (tm_monitor t) @ ''}'')"

text \<open>The enabled flows, with a comma between them.\<close>

fun flow_conditions :: "run_config \<Rightarrow> string \<Rightarrow> u64 \<Rightarrow> nat \<Rightarrow> nat list \<Rightarrow> string" where
  "flow_conditions c mode duration emitted [] = []"
| "flow_conditions c mode duration emitted (i # is) =
     (if \<not> fl_enabled (cf_flows c ! i) then flow_conditions c mode duration emitted is
      else (if emitted \<noteq> 0 then '','' else []) @ flow_condition c mode duration i @ flow_conditions c mode duration (emitted + 1) is)"

definition write_condition :: "run_config \<Rightarrow> string \<Rightarrow> u64 \<Rightarrow> string" where
  "write_condition c mode duration =
     ''{'' @ json_key ''mode'' @ quoted mode @ '','' @ json_key ''duration_s'' @ show_millis (unat duration) @ '','' @
     json_key ''flows'' @ ''['' @ flow_conditions c mode duration 0 [0, 1, 2] @ ''],'' @ load_condition c mode @ '','' @
     environment_condition c mode @ '','' @ config_condition c @ ''}''"

text \<open>A string that needs no escapes.\<close>

definition plain :: "string \<Rightarrow> bool" where
  "plain s \<longleftrightarrow> list_all (\<lambda>c. c \<noteq> QUOTE \<and> c \<noteq> CHR 0x5C \<and> 32 \<le> char_code c) s"

lemma plain_escape: "plain s \<Longrightarrow> concat (map config_escape s) = s"
  by (induction s) (auto simp: plain_def config_escape_def)

lemma plain_quoted: "plain s \<Longrightarrow> config_json_string s = quoted s"
  by (simp add: config_json_string_def quoted_def plain_escape)

section \<open>The value of a condition\<close>

definition JNat :: "u64 \<Rightarrow> json" where "JNat v = JNum (show_u64 v)"
definition JInt :: "int \<Rightarrow> json" where "JInt n = JNum (show_int n)"

definition flow_value :: "run_config \<Rightarrow> string \<Rightarrow> u64 \<Rightarrow> nat \<Rightarrow> json" where
  "flow_value c mode duration i =
   (let f = cf_flows c ! i; cpus = run_rx_cpu_set c i mode in
    JObj [(''flow_id'', JNum (show_nat (i + 1))), (''port'', JNum (show_nat (9000 + i))), (''count'', JNat (flow_count f duration)),
      (''period_ns'', JNat (fl_period_ns f)), (''deadline_ns'', if fl_deadline_ns f = 0 then JNull else JNat (fl_deadline_ns f)),
      (''requested_path'', JStr (run_flow_path mode i)), (''tx_cpu'', JInt (fl_tx_cpu f)), (''rx_cpu'', JInt (only_cpu cpus)),
      (''rx_cpus'', JStr (if cpus_text cpus = [] then ''inherit'' else cpus_text cpus)),
      (''tx_policy'', JNum (show_nat (fl_tx_policy f))), (''rx_policy'', JNum (show_nat (fl_rx_policy f))),
      (''tx_priority'', JNat (fl_tx_priority f)), (''rx_priority'', JNat (fl_rx_priority f))])"

definition load_value :: "run_config \<Rightarrow> string \<Rightarrow> json" where
  "load_value c mode =
   (let l = cf_load c in
    JObj [(''cpu_percent'', JNat (ld_cpu_percent l)),
      (''cpu_cpus'', JStr (case run_load_cpus c mode RUN_CPU_LIST_SIZE of Some t \<Rightarrow> t | None \<Rightarrow> [])),
      (''cpu_layout'', JStr (ld_cpu_layout l)), (''cpu_workers'', JNat (ld_cpu_workers l)),
      (''memory_workers'', JNat (ld_memory_workers l)), (''memory_bytes'', JStr (ld_memory_bytes l)), (''io_workers'', JNat (ld_io_workers l)),
      (''network_bps'', JNat (ld_network_bps l)), (''network_protocol'', JStr (ld_network_protocol l)),
      (''network_direction'', JStr (ld_network_direction l)), (''network_parallel'', JNat (ld_network_parallel l)),
      (''on_sec'', JNat (ld_on_sec l)), (''off_sec'', JNat (ld_off_sec l))])"

definition environment_value :: "run_config \<Rightarrow> string \<Rightarrow> json" where
  "environment_value c mode =
   (let p = cf_placement c; t = cf_timing c in
    JObj [(''governor'', JStr (pl_governor p)), (''alternate_mode_order'', JNat (tm_alternate_mode_order t)), (''xsk_busy'', JNat (tm_xsk_busy t)),
      (''rx_coalesce_usecs'', JInt (tm_rx_coalesce_usecs t)), (''phc_tracking'', JNat (tm_phc_tracking t)),
      (''receiver_supervisor_cpu'', JInt (pl_receiver_supervisor_cpu p)), (''sender_supervisor_cpu'', JInt (pl_sender_supervisor_cpu p)),
      (''receiver_network_cpu'', JInt (pl_receiver_network_cpu p)), (''sender_network_cpu'', JInt (pl_sender_network_cpu p)),
      (''receiver_available_cpus'', JStr (pl_shared_cpus p)), (''receiver_shared_cpus'', JStr (cpus_text (run_general_cpu_set c mode))),
      (''receiver_cpumap_active'', JBool (run_cpumap_active c mode)),
      (''receiver_cpumap_cpu'', if pl_shared_cpus p = [] then JNull else JNum (show_nat (pl_cpumap_cpu p))),
      (''rx_irq_cpu'', JNum (show_nat (pl_rx_irq_cpu p)))])"

definition condition_value :: "run_config \<Rightarrow> string \<Rightarrow> u64 \<Rightarrow> json" where
  "condition_value c mode duration =
   (let t = cf_timing c in
    JObj [(''mode'', JStr mode), (''duration_s'', JNum (show_millis (unat duration))),
      (''flows'', JArr (map (flow_value c mode duration) (filter (\<lambda>i. fl_enabled (cf_flows c ! i)) [0, 1, 2]))),
      (''load'', load_value c mode), (''environment'', environment_value c mode),
      (''config'', JObj [(''sha256'', JStr (cf_digest c)), (''warmup_ms'', JNat (tm_warmup_ms t)), (''settle_ms'', JNat (tm_settle_ms t)),
         (''drain_ms'', JNat (tm_drain_ms t)), (''monitor'', JNat (tm_monitor t))])])"

lemma plain_path: "plain (run_flow_path mode i)"
  by (simp add: run_flow_path_def plain_def char_code_def)

lemma flow_printed: "flow_condition c mode duration i = print_json (flow_value c mode duration i)"
proof -
  have k: "plain ''flow_id''" "plain ''port''" "plain ''count''" "plain ''period_ns''" "plain ''deadline_ns''" "plain ''requested_path''"
    "plain ''tx_cpu''" "plain ''rx_cpu''" "plain ''rx_cpus''" "plain ''tx_policy''" "plain ''rx_policy''" "plain ''tx_priority''" "plain ''rx_priority''"
    by (simp_all add: plain_def char_code_def)
  note q = k [THEN plain_quoted] plain_quoted [OF plain_path, of mode i]
  show ?thesis unfolding flow_condition_def flow_value_def Let_def JNat_def JInt_def json_key_def by (simp add: q)
qed

lemma load_printed:
  assumes "plain (ld_network_protocol (cf_load c))" "plain (ld_network_direction (cf_load c))"
  shows "load_condition c mode = json_key ''load'' @ print_json (load_value c mode)"
proof -
  have k: "plain ''cpu_percent''" "plain ''cpu_cpus''" "plain ''cpu_layout''" "plain ''cpu_workers''" "plain ''memory_workers''"
    "plain ''memory_bytes''" "plain ''io_workers''" "plain ''network_bps''" "plain ''network_protocol''" "plain ''network_direction''"
    "plain ''network_parallel''" "plain ''on_sec''" "plain ''off_sec''"
    by (simp_all add: plain_def char_code_def)
  note q = k [THEN plain_quoted] assms [THEN plain_quoted]
  show ?thesis unfolding load_condition_def load_value_def Let_def JNat_def JInt_def json_key_def by (simp add: q)
qed

lemma environment_printed: "environment_condition c mode = json_key ''environment'' @ print_json (environment_value c mode)"
proof -
  have k: "plain ''governor''" "plain ''alternate_mode_order''" "plain ''xsk_busy''" "plain ''rx_coalesce_usecs''" "plain ''phc_tracking''"
    "plain ''receiver_supervisor_cpu''" "plain ''sender_supervisor_cpu''" "plain ''receiver_network_cpu''" "plain ''sender_network_cpu''"
    "plain ''receiver_available_cpus''" "plain ''receiver_shared_cpus''" "plain ''receiver_cpumap_active''" "plain ''receiver_cpumap_cpu''"
    "plain ''rx_irq_cpu''"
    by (simp_all add: plain_def char_code_def)
  note q = k [THEN plain_quoted]
  show ?thesis unfolding environment_condition_def environment_value_def Let_def JNat_def JInt_def json_key_def by (simp add: q)
qed

lemma flows_printed:
  "flow_conditions c mode duration emitted is =
     (let t = commas (map (\<lambda>i. print_json (flow_value c mode duration i)) (filter (\<lambda>i. fl_enabled (cf_flows c ! i)) is)) in
      if emitted = 0 \<or> filter (\<lambda>i. fl_enabled (cf_flows c ! i)) is = [] then t else '','' @ t)"
proof (induction "is" arbitrary: emitted)
  case (Cons i "is")
  show ?case
  proof (cases "fl_enabled (cf_flows c ! i)")
    case True
    then show ?thesis using Cons.IH [of "emitted + 1"]
      by (cases "filter (\<lambda>i. fl_enabled (cf_flows c ! i)) is") (simp_all add: Let_def flow_printed del: print_json.simps)
  next
    case False
    then show ?thesis using Cons.IH [of emitted] by simp
  qed
qed simp

lemma condition_printed:
  assumes "plain mode" "plain (cf_digest c)" "plain (ld_network_protocol (cf_load c))" "plain (ld_network_direction (cf_load c))"
  shows "write_condition c mode duration = print_json (condition_value c mode duration)"
proof -
  have k: "plain ''mode''" "plain ''duration_s''" "plain ''flows''" "plain ''load''" "plain ''environment''" "plain ''config''"
    "plain ''sha256''" "plain ''warmup_ms''" "plain ''settle_ms''" "plain ''drain_ms''" "plain ''monitor''"
    by (simp_all add: plain_def char_code_def)
  note q = k [THEN plain_quoted] assms(1,2) [THEN plain_quoted]
  show ?thesis
    unfolding write_condition_def condition_value_def Let_def flows_printed load_printed [OF assms(3,4)] environment_printed
      config_condition_def JNat_def JInt_def json_key_def
    by (simp add: q comp_def del: filter.simps)
qed

lemma plain_modes: "modes_ok ms \<Longrightarrow> mode \<in> set ms \<Longrightarrow> plain mode"
proof -
  assume "modes_ok ms" "mode \<in> set ms"
  then have "mode \<in> {''mixed'', ''all-pass'', ''pass-xsk'', ''socket-only''}" by (auto simp: modes_ok_def)
  then show ?thesis by (auto simp: plain_def char_code_def)
qed

lemma load_choices:
  assumes "\<not> snd (load_block es pl)"
  shows "ld_network_protocol (fst (load_block es pl)) \<in> {''udp'', ''tcp''} \<and>
    ld_network_direction (fst (load_block es pl)) \<in> {''forward'', ''reverse'', ''bidir''}"
  using assms unfolding load_block_def Let_def by auto

lemma config_load_choices:
  assumes "read_run_config uninit valid_ipv4 exe digest lines = Some c"
  shows "ld_network_protocol (cf_load c) \<in> {''udp'', ''tcp''} \<and> ld_network_direction (cf_load c) \<in> {''forward'', ''reverse'', ''bidir''}"
proof -
  obtain es c0 d where b: "build_config uninit valid_ipv4 exe es = (c0, False)" "c = c0\<lparr>cf_digest := d\<rparr>"
    using assms by (auto simp: read_run_config_def split: option.splits prod.splits if_splits)
  then have "c0 = fst (build_config uninit valid_ipv4 exe es)" "\<not> snd (build_config uninit valid_ipv4 exe es)" by simp_all
  then have "\<not> snd (load_block es (fst (placement_block es)))" "cf_load c0 = fst (load_block es (fst (placement_block es)))"
    unfolding build_config_def Let_def by simp_all
  then show ?thesis using load_choices b(2) by simp
qed

lemma millis_number: "json_number (show_millis ms)"
proof -
  have "json_digits (digit3 n)" for n by (simp add: digit3_def json_digits_def show_nat_digits)
  then show ?thesis using number_parts(1) [of "''.'' @ digit3 (ms mod 1000)" "ms div 1000"] by (simp add: show_millis_def)
qed

lemma condition_value_ok: "json_ok (condition_value c mode duration)"
proof -
  have n: "json_ok (JNat v)" "json_ok (JInt i)" "json_ok (JNum (show_nat m))" for v i m by (simp_all add: JNat_def JInt_def show_u64_def)
  have "json_ok (flow_value c mode duration i)" for i by (simp add: flow_value_def Let_def n del: json_ok.simps(1))
  moreover have "json_ok (load_value c mode)" by (simp add: load_value_def Let_def n)
  moreover have "json_ok (environment_value c mode)" by (simp add: environment_value_def Let_def n del: json_ok.simps(1))
  ultimately show ?thesis by (simp add: condition_value_def Let_def n millis_number)
qed

text \<open>
  Property C29.  The condition that the coordinator writes into \<^verbatim>\<open>run.json\<close> and the manifest is well-formed JSON and says
  what was configured: for every accepted configuration and each of its modes, a JSON reader gets from
  the text, which is printed piece by piece, exactly one object with the enabled flows in order, the
  load, the environment and the configuration digest, whatever the free-form strings contain.
\<close>

theorem condition_reads_back:
  assumes "read_run_config uninit valid_ipv4 exe digest lines = Some c" "mode \<in> set (cf_modes c)" "plain (cf_digest c)"
  shows "read_json (write_condition c mode duration) = Some (condition_value c mode duration)"
proof -
  have "plain mode" using plain_modes assms(2) read_run_config_ok [OF assms(1)] by (auto simp: run_config_ok_def)
  moreover have "plain (ld_network_protocol (cf_load c))" "plain (ld_network_direction (cf_load c))"
    using config_load_choices [OF assms(1)] by (auto simp: plain_def char_code_def)
  ultimately have "write_condition c mode duration = print_json (condition_value c mode duration)"
    using assms(3) by (intro condition_printed)
  then show ?thesis using read_json_printed [OF condition_value_ok] by simp
qed

theorem condition_reads_back_witness:
  "\<exists>c. read_run_config [] dotted None (Some []) sample_lines = Some c \<and> cf_modes c \<noteq> [] \<and>
     read_json (write_condition c (hd (cf_modes c)) 10) = Some (condition_value c (hd (cf_modes c)) 10)"
proof -
  obtain c where c: "read_run_config [] dotted None (Some []) sample_lines = Some c" using sample_accepted by blast
  then have m: "cf_modes c \<noteq> []" using read_run_config_ok [OF c] by (auto simp: run_config_ok_def modes_ok_def)
  have "cf_digest c = []" using c by (auto simp: read_run_config_def split: option.splits prod.splits if_splits)
  then have "plain (cf_digest c)" by (simp add: plain_def)
  then show ?thesis using c m condition_reads_back [OF c, of "hd (cf_modes c)" 10] by auto
qed

end
