(* ===== verification/Run_Scripts.thy ===== *)
theory Run_Scripts
  imports Supervision Condition
begin

text \<open>
  The coordinator's run (\<^verbatim>\<open>experiment/ace-run.c\<close>): the helper programs it calls, the commands of its
  children, the two scripts \<^verbatim>\<open>receiver_run\<close> and \<^verbatim>\<open>sender_run\<close>, and the loop of \<^verbatim>\<open>main\<close> over the runs of a
  suite with its error handling.  A script is the list of its steps; it stops at the first step that
  does not return 0.  Memory allocation and \<^verbatim>\<open>setenv\<close> are taken to succeed.
\<close>

section \<open>Paths and times\<close>

text \<open>\<^verbatim>\<open>pathf\<close> whose result is not checked cuts the text to its buffer.\<close>

definition cut :: "nat \<Rightarrow> string \<Rightarrow> string" where "cut room t = take (room - 1) t"

definition in_run_dir :: "'w run_context \<Rightarrow> string \<Rightarrow> string" where "in_run_dir x name = x_run_dir x @ ''/'' @ name"

definition ready_timeout :: "'w run_context \<Rightarrow> nat" where "ready_timeout x = unat (tm_ready_ms (cf_timing (x_config x)))"

text \<open>Sums of times are computed in \<^verbatim>\<open>unsigned\<close>.\<close>

definition ms32 :: "u64 list \<Rightarrow> nat" where "ms32 ts = unat (sum_list (map ucast ts) :: u32)"

definition smoke_mode :: "'w run_context \<Rightarrow> bool" where "smoke_mode x \<longleftrightarrow> x_mode x = ''socket-only''"

section \<open>Helper programs\<close>

definition calibrate :: "'w kernel \<Rightarrow> string \<Rightarrow> 'w run_context \<Rightarrow> outcome \<times> 'w run_context" where
  "calibrate k phase x =
   (let name = cut 32 (''phc-'' @ phase) in
    run_tool k name [''./udp_socket/bin/phc_calibrate'', ''--interface'', cf_interface (x_config x), ''--output'',
      cut 4096 (in_run_dir x (name @ ''.csv''))] (ready_timeout x) False x)"

definition capture_state :: "'w kernel \<Rightarrow> string \<Rightarrow> 'w run_context \<Rightarrow> outcome \<times> 'w run_context" where
  "capture_state k phase x =
   (let name = ''system-'' @ phase; output = in_run_dir x (name @ ''.txt'') in
    if length name \<ge> 32 \<or> length output \<ge> 4096 then (Err (Some ENAMETOOLONG), x)
    else run_tool k name [''bash'', ''./monitor/capture_state.sh'', cf_interface (x_config x), output] (ready_timeout x) False x)"

definition capture_scheduler :: "'w kernel \<Rightarrow> 'w run_context \<Rightarrow> outcome \<times> 'w run_context" where
  "capture_scheduler k x =
   (let output = in_run_dir x ''scheduler-ready.json'' in
    if length output \<ge> 4096 then (Err (Some ENAMETOOLONG), x)
    else run_tool k ''scheduler-ready'' [''bash'', ''./monitor/capture_scheduler.sh'', cf_interface (x_config x), output]
      (ready_timeout x) False x)"

definition restore_cpu_partition :: "'w kernel \<Rightarrow> 'w run_context \<Rightarrow> outcome \<times> 'w run_context" where
  "restore_cpu_partition k x =
   (if \<not> x_partition_attempted x then (Ok, x)
    else
     (let x = x\<lparr>x_release_attempts := x_release_attempts x + 1\<rparr>;
          name = cut 32 (''cpu-partition-release'' @ show_nat (x_release_attempts x)) in
      case run_tool k name [''bash'', ''./monitor/cpu_partition.sh'', ''release'', show_int (kn_pid k), x_run_dir x] (stop_timeout x) True x of
        (Ok, x) \<Rightarrow>
          (case scheduler_mask k (Some (pl_shared_mask (cf_placement (x_config x)))) 0 0 x of
             (Ok, x) \<Rightarrow> (Ok, x\<lparr>x_partition_active := False, x_partition_attempted := False, x_partition_group := []\<rparr>)
           | (r, x) \<Rightarrow> (r, x))
      | (r, x) \<Rightarrow> (r, x)))"

definition reserve_cpu_partition :: "'w kernel \<Rightarrow> 'w run_context \<Rightarrow> outcome \<times> 'w run_context" where
  "reserve_cpu_partition k x =
   (let c = x_config x; group = ''/sys/fs/cgroup/ace-rx-'' @ show_int (kn_pid k) in
    if \<not> run_cpumap_active c (x_mode x) then (Ok, x)
    else if length group \<ge> 4096 then (Err (Some ENAMETOOLONG), x)
    else (case run_tool k ''cpu-partition-acquire''
                 [''bash'', ''./monitor/cpu_partition.sh'', ''acquire'', show_int (kn_pid k), pl_shared_cpus (cf_placement c),
                  show_nat (pl_cpumap_cpu (cf_placement c)), x_run_dir x]
                 (ready_timeout x) False (x\<lparr>x_partition_group := group, x_partition_attempted := True\<rparr>) of
        (Ok, x) \<Rightarrow> scheduler_mask k (Some (run_general_cpu_set c (x_mode x))) 0 0 (x\<lparr>x_partition_active := True\<rparr>)
      | (r, x) \<Rightarrow> (r, x)))"

definition prepare_partition :: "'w kernel \<Rightarrow> 'w run_context \<Rightarrow> outcome \<times> 'w run_context" where
  "prepare_partition k x =
   (let c = x_config x in
    if \<not> (ct_receiver (x_control x) \<and> pl_shared_cpus (cf_placement c) \<noteq> []) then (Ok, x)
    else (case run_tool k ''cpu-partition-check''
                 [''bash'', ''./monitor/check_cpu_partition.sh'', cf_interface c, pl_shared_cpus (cf_placement c),
                  show_nat (pl_cpumap_cpu (cf_placement c))] (ready_timeout x) False x of
        (Ok, x) \<Rightarrow> reserve_cpu_partition k x
      | (r, x) \<Rightarrow> (r, x)))"

definition prepare_environment :: "'w kernel \<Rightarrow> 'w run_context \<Rightarrow> outcome \<times> 'w run_context" where
  "prepare_environment k x =
   (if smoke_mode x then (Ok, x)
    else (case prepare_partition k x of
        (Ok, x) \<Rightarrow>
          run_tool k ''environment-prepare''
            [''bash'', ''./monitor/prepare_env.sh'', if ct_receiver (x_control x) then ''receiver'' else ''sender'', cf_interface (x_config x),
             pl_governor (cf_placement (x_config x)), show_nat (pl_rx_irq_cpu (cf_placement (x_config x)))] (ready_timeout x) False x
      | (r, x) \<Rightarrow> (r, x)))"

definition load_lifetime_seconds :: "run_config \<Rightarrow> u64" where
  "load_lifetime_seconds c =
   (let t = cf_timing c;
        ms = tm_duration_ms t + tm_warmup_ms t + tm_start_delay_ms t + tm_settle_ms t + tm_drain_ms t + 8 * tm_ready_ms t + 8 * tm_stop_ms t in
    (ms + 999) div 1000 + 5)"

section \<open>Files of a run\<close>

definition create_file :: "'w kernel \<Rightarrow> string \<Rightarrow> 'w run_context \<Rightarrow> errno option \<times> 'w run_context" where
  "create_file k path x = (case kn_create k path (x_world x) of (r, w) \<Rightarrow> (r, x\<lparr>x_world := w\<rparr>))"

definition unlink_path :: "'w kernel \<Rightarrow> string \<Rightarrow> 'w run_context \<Rightarrow> 'w run_context" where
  "unlink_path k path x = x\<lparr>x_world := snd (kn_unlink k path (x_world x))\<rparr>"

definition run_text :: "'w run_context \<Rightarrow> string \<Rightarrow> string" where
  "run_text x state =
   (let c = x_config x; t = cf_timing c in
    ''{'' @ json_key ''schema_version'' @ ''1,'' @ json_key ''run_id'' @ quoted (ct_run_id (x_control x)) @ '','' @
    json_key ''case_id'' @ quoted (cf_run_id c) @ '','' @ json_key ''repeat'' @ show_nat (x_repeat x) @ '','' @
    json_key ''role'' @ quoted (if ct_receiver (x_control x) then ''receiver'' else ''sender'') @ '','' @
    json_key ''purpose'' @ quoted (if smoke_mode x then ''smoke'' else ''measurement'') @ '','' @
    json_key ''state'' @ quoted state @ '','' @ json_key ''warmup_s'' @ show_millis (unat (tm_warmup_ms t)) @ '','' @
    tl (write_condition c (x_mode x) (tm_duration_ms t)) @ [NL])"

definition write_run :: "'w kernel \<Rightarrow> string \<Rightarrow> 'w run_context \<Rightarrow> outcome \<times> 'w run_context" where
  "write_run k state x =
   (let destination = in_run_dir x ''run.json''; temporary = in_run_dir x ''run.json.tmp'' in
    if length destination \<ge> 4096 \<or> length temporary \<ge> 4096 then (Err (Some ENAMETOOLONG), x)
    else (case create_file k temporary x of
        (Some e, x) \<Rightarrow> (Err (Some e), x)
      | (None, x) \<Rightarrow>
          (case write_file k temporary (run_text x state) x of
             (Some e, x) \<Rightarrow> (Err (Some e), unlink_path k temporary x)
           | (None, x) \<Rightarrow>
               (case kn_rename k temporary destination (x_world x) of
                  (Some e, w) \<Rightarrow> (Err (Some e), x\<lparr>x_world := w\<rparr>)
                | (None, w) \<Rightarrow> (Ok, log_event (Wrote destination (run_text x state)) (x\<lparr>x_world := w\<rparr>))))))"

text \<open>
  A marker is a new file with the name of the run.  The file is there as soon as it is created, also
  when writing it fails afterwards: \<^verbatim>\<open>marker\<close> does not remove it.
\<close>

definition marker :: "'w kernel \<Rightarrow> string \<Rightarrow> 'w run_context \<Rightarrow> outcome \<times> 'w run_context" where
  "marker k name x =
   (let path = in_run_dir x name in
    if length path \<ge> 4096 then (Err (Some ENAMETOOLONG), x)
    else (case create_file k path x of
        (Some e, x) \<Rightarrow> (Err (Some e), x)
      | (None, x) \<Rightarrow>
          (case write_file k path (ct_run_id (x_control x) @ [NL]) (log_event (Created path) x) of
             (Some e, x) \<Rightarrow> (Err (Some e), x)
           | (None, x) \<Rightarrow> (Ok, x))))"

text \<open>\<^verbatim>\<open>%04u\<close>.\<close>

definition pad4 :: "nat \<Rightarrow> string" where "pad4 n = replicate (4 - length (show_nat n)) (CHR ''0'') @ show_nat n"

definition run_name :: "run_config \<Rightarrow> string \<Rightarrow> nat \<Rightarrow> string" where
  "run_name c mode repeat = cf_run_id c @ ''-'' @ mode @ ''-r'' @ pad4 repeat"

definition describe_run :: "'w kernel \<Rightarrow> string \<Rightarrow> 'w run_context \<Rightarrow> outcome \<times> 'w run_context" where
  "describe_run k run_id x =
   (case write_run k ''preparing'' x of
      (Ok, x) \<Rightarrow>
        (case kn_manifest k (cut 4096 (in_run_dir x ''manifest.json'')) run_id
                (write_condition (x_config x) (x_mode x) (tm_duration_ms (cf_timing (x_config x)))) (x_world x) of
           (Some e, w) \<Rightarrow> (Err (Some e), x\<lparr>x_world := w\<rparr>)
         | (None, w) \<Rightarrow> (Ok, x\<lparr>x_world := w\<rparr>))
    | (r, x) \<Rightarrow> (r, x))"

definition begin_run :: "'w kernel \<Rightarrow> 'w run_context \<Rightarrow> outcome \<times> 'w run_context" where
  "begin_run k x =
   (let x = x\<lparr>x_children := [], x_owns_run := False, x_release_attempts := 0\<rparr>;
        run_id = run_name (x_config x) (x_mode x) (x_repeat x);
        run_dir = x_suite x @ ''/runs/'' @ run_id in
    if length run_id \<ge> 128 then (Err (Some ENAMETOOLONG), x\<lparr>x_control := (x_control x)\<lparr>ct_run_id := cut 128 run_id\<rparr>\<rparr>)
    else
     (let x = x\<lparr>x_control := (x_control x)\<lparr>ct_run_id := run_id\<rparr>\<rparr> in
      if length run_dir \<ge> 4096 then (Err (Some ENAMETOOLONG), x\<lparr>x_run_dir := cut 4096 run_dir\<rparr>)
      else (case kn_mkdir k run_dir (x_world x) of
          (Some e, w) \<Rightarrow> (Err (Some e), x\<lparr>x_run_dir := run_dir, x_world := w\<rparr>)
        | (None, w) \<Rightarrow>
            describe_run k run_id (x\<lparr>x_run_dir := run_dir, x_owns_run := True, x_world := w\<rparr>))))"

section \<open>The programs of a run\<close>

definition flow_args :: "run_config \<Rightarrow> nat \<Rightarrow> string \<times> string" where
  "flow_args c i = (show_u64 (flow_count (cf_flows c ! i) (tm_duration_ms (cf_timing c))), show_u64 (fl_period_ns (cf_flows c ! i)))"

definition udp_command :: "'w run_context \<Rightarrow> nat \<Rightarrow> string \<Rightarrow> string \<Rightarrow> string \<Rightarrow> string list" where
  "udp_command x i stage ready notify =
     [''./udp_socket/bin/receiver'', ''--flow-id'', show_nat (i + 1), ''--port'', show_nat (9000 + i),
      ''--count'', fst (flow_args (x_config x) i), ''--tmpfs'', stage, ''--output'', cut 4096 (in_run_dir x (''udp-flow'' @ show_nat (i + 1) @ ''.bin'')),
      ''--ready-file'', ready, ''--stats-json'', cut 4096 (in_run_dir x (''receiver-flow'' @ show_nat (i + 1) @ ''.json'')),
      ''--drain-ms'', show_u64 (tm_drain_ms (cf_timing (x_config x))), ''--completion-fd'', notify, ''--defer-flush'']"

definition afxdp_command :: "'w run_context \<Rightarrow> nat \<Rightarrow> string \<Rightarrow> string \<Rightarrow> string list" where
  "afxdp_command x i ready notify =
   (let t = cf_timing (x_config x) in
    [''./BPF/afxdp_recv'', ''--output'', cut 4096 (in_run_dir x ''afxdp.csv''), ''--records'', fst (flow_args (x_config x) i),
     ''--ready-file'', ready, ''--stats-json'', cut 4096 (in_run_dir x (''receiver-flow'' @ show_nat (i + 1) @ ''.json'')),
     ''--drain-ms'', show_u64 (tm_drain_ms t), ''--completion-fd'', notify, ''--defer-flush''] @
    (if tm_xsk_busy t \<noteq> 0
     then [''--busy'', ''--start-gated'', ''--busy-timeout-sec'',
           show_u64 ((tm_duration_ms t + tm_start_delay_ms t + tm_stop_ms t + 999) div 1000)]
     else []) @ [cf_interface (x_config x)])"

definition sender_command :: "'w run_context \<Rightarrow> nat \<Rightarrow> string \<Rightarrow> string \<Rightarrow> string \<Rightarrow> string list" where
  "sender_command x i ready start notify =
     [''./udp_socket/bin/sender'', ''--port'', show_nat (9000 + i), ''--flow-id'', show_nat (i + 1),
      ''--count'', fst (flow_args (x_config x) i), ''--period-ns'', snd (flow_args (x_config x) i), ''--ready-file'', ready,
      ''--stats-json'', cut 4096 (in_run_dir x (''sender-flow'' @ show_nat (i + 1) @ ''.json'')), ''--start-file'', start,
      ''--completion-fd'', notify, ''--defer-flush'', cf_address (x_config x)]"

definition loader_command :: "'w run_context \<Rightarrow> string \<Rightarrow> string list" where
  "loader_command x ready =
     [''./BPF/xdp_loader'', ''--quiet'', ''--mode'', x_mode x, ''--output-dir'', x_run_dir x, ''--prefix'', ''xdp-'',
      ''--records'', show_u64 (sum_list (map (\<lambda>i. if fl_enabled (cf_flows (x_config x) ! i)
          then flow_count (cf_flows (x_config x) ! i) (tm_duration_ms (cf_timing (x_config x))) else 0) [0, 1, 2])),
      ''--ready-file'', ready, cf_interface (x_config x)]"

text \<open>Starting a child and waiting until it is ready; the index, or why the start failed.\<close>

definition start_ready ::
  "'w kernel \<Rightarrow> string \<Rightarrow> string \<Rightarrow> nat set option \<Rightarrow> int \<Rightarrow> int \<Rightarrow> bool \<Rightarrow> string list \<Rightarrow> bool \<Rightarrow> (child \<Rightarrow> child) \<Rightarrow>
     'w run_context \<Rightarrow> (outcome + nat option) \<times> 'w run_context" where
  "start_ready k name ready cpus policy priority persistent args notify setup x =
   (case spawn_child k name ready cpus policy priority persistent args notify x of
      (Inl e, x) \<Rightarrow> (Inl (Err (Some e)), x)
    | (Inr n, x) \<Rightarrow>
        (case ready_child k n (update_child n setup x) of
           (Ok, x) \<Rightarrow> (Inr (Some n), x)
         | (r, x) \<Rightarrow> (Inl r, x)))"

definition loader_process :: "'w kernel \<Rightarrow> 'w run_context \<Rightarrow> (outcome + nat option) \<times> 'w run_context" where
  "loader_process k x =
   (let ready = cut 4096 (in_run_dir x ''loader.ready'') in
    start_ready k ''xdp-loader'' ready None 0 0 True (loader_command x ready) False id x)"

definition completion_pipe :: "'w kernel \<Rightarrow> 'w run_context \<Rightarrow> (errno + nat) \<times> 'w run_context" where
  "completion_pipe k x = (case kn_pipe k (x_world x) of (r, w) \<Rightarrow> (r, x\<lparr>x_world := w\<rparr>))"

definition receiver_process :: "'w kernel \<Rightarrow> nat \<Rightarrow> 'w run_context \<Rightarrow> (outcome + nat option) \<times> 'w run_context" where
  "receiver_process k i x =
   (let c = x_config x; f = cf_flows c ! i; cpus = run_rx_cpu_set c i (x_mode x);
        name = ''receiver-flow'' @ show_nat (i + 1); ready = cut 4096 (in_run_dir x (name @ ''.ready''));
        stage = ''/dev/shm/ace-'' @ show_int (kn_pid k) @ ''-'' @ show_nat (unat (ct_index (x_control x))) @ ''-'' @ show_nat (i + 1) @ ''.tmp'';
        xsk = (run_flow_path (x_mode x) i = ''xsk'') in
    case completion_pipe k x of
      (Inl e, x) \<Rightarrow> (Inl (Err (Some e)), x)
    | (Inr fd, x) \<Rightarrow>
        start_ready k name ready (if cpus = {} then None else Some cpus) (int (fl_rx_policy f)) (int (unat (fl_rx_priority f))) True
          (if xsk then afxdp_command x i ready (show_nat fd) else udp_command x i stage ready (show_nat fd)) True
          (\<lambda>c. c\<lparr>ch_staging := (if xsk then ch_staging c else stage), ch_completion := True\<rparr>) x)"

definition sender_process :: "'w kernel \<Rightarrow> nat \<Rightarrow> 'w run_context \<Rightarrow> (outcome + nat option) \<times> 'w run_context" where
  "sender_process k i x =
   (let f = cf_flows (x_config x) ! i; name = ''sender-flow'' @ show_nat (i + 1); ready = cut 4096 (in_run_dir x (name @ ''.ready'')) in
    case completion_pipe k x of
      (Inl e, x) \<Rightarrow> (Inl (Err (Some e)), x)
    | (Inr fd, x) \<Rightarrow>
        start_ready k name ready (if fl_tx_cpu f \<ge> 0 then Some {nat (fl_tx_cpu f)} else None) (int (fl_tx_policy f))
          (int (unat (fl_tx_priority f))) False
          (sender_command x i ready (cut 4096 (in_run_dir x ''start.ns'')) (show_nat fd)) True (\<lambda>c. c\<lparr>ch_completion := True\<rparr>) x)"

definition start_phc_tracking :: "'w kernel \<Rightarrow> 'w run_context \<Rightarrow> (outcome + nat option) \<times> 'w run_context" where
  "start_phc_tracking k x =
   (let ready = cut 4096 (in_run_dir x ''phc-track.ready'') in
    start_ready k ''phc-track'' ready (Some {0}) 1 51 True
      [''./udp_socket/bin/phc_track'', cf_interface (x_config x), cut 4096 (in_run_dir x ''phc-during.csv''),
       cut 4096 (in_run_dir x ''phc-during-audit.csv''), ready, show_u64 (load_lifetime_seconds (x_config x) * 1000)] False id x)"

text \<open>The environment of the load generators; \<^verbatim>\<open>envnum\<close> prints a number.\<close>

definition load_phases :: "run_config \<Rightarrow> (string \<rightharpoonup> string) \<Rightarrow> (string \<rightharpoonup> string)" where
  "load_phases c env =
   (if ld_on_sec (cf_load c) \<noteq> 0
    then env(''ACE_LOAD_ON_SEC'' \<mapsto> show_u64 (ld_on_sec (cf_load c)), ''ACE_LOAD_OFF_SEC'' \<mapsto> show_u64 (ld_off_sec (cf_load c)))
    else env(''ACE_LOAD_ON_SEC'' := None, ''ACE_LOAD_OFF_SEC'' := None))"

definition monitor_environment :: "'w run_context \<Rightarrow> string \<Rightarrow> (string \<rightharpoonup> string)" where
  "monitor_environment x sampler =
   (let c = x_config x; l = cf_load c; p = cf_placement c in
    load_phases c
     ((x_env x)(''ACE_CPU_SAMPLER'' \<mapsto> sampler, ''ACE_RUN_DIR'' \<mapsto> cut 4096 (in_run_dir x ''monitor''),
       ''ACE_RUN_ID'' \<mapsto> ct_run_id (x_control x), ''ACE_SKIP_MANIFEST'' \<mapsto> ''1'', ''ACE_INTERFACE'' \<mapsto> cf_interface c,
       ''ACE_READY_FILE'' \<mapsto> cut 4096 (in_run_dir x ''monitor.ready''),
       ''ACE_IPERF_CPU'' \<mapsto> (if pl_receiver_network_cpu p < 0 then ''inherit'' else show_int (pl_receiver_network_cpu p)),
       ''ACE_MONITOR_ENABLED'' \<mapsto> show_u64 (tm_monitor (cf_timing c)),
       ''ACE_IPERF_ENABLED'' \<mapsto> (if ld_network_bps l \<noteq> 0 then ''1'' else ''0''), ''ACE_IPERF_PORT'' \<mapsto> show_u64 (ld_network_port l),
       ''ACE_CPU_METHOD'' \<mapsto> ld_cpu_method l, ''ACE_CPU_PLACEMENT'' \<mapsto> ld_cpu_layout l, ''ACE_CPU_WORKERS'' \<mapsto> show_u64 (ld_cpu_workers l),
       ''ACE_MEMORY_WORKERS'' \<mapsto> show_u64 (ld_memory_workers l), ''ACE_MEMORY_BYTES'' \<mapsto> ld_memory_bytes l,
       ''ACE_IO_WORKERS'' \<mapsto> show_u64 (ld_io_workers l), ''ACE_IO_PATH'' \<mapsto> ld_io_path l)))"

definition monitor_process :: "'w kernel \<Rightarrow> 'w run_context \<Rightarrow> (outcome + nat option) \<times> 'w run_context" where
  "monitor_process k x =
   (let c = x_config x; l = cf_load c; sampler = cf_repo c @ ''/udp_socket/bin/cpu_sample'' in
    if tm_monitor (cf_timing c) = 0 \<and> ld_cpu_percent l = 0 \<and> ld_memory_workers l = 0 \<and> ld_io_workers l = 0 \<and> ld_network_bps l = 0
    then (Inr None, x)
    else (case run_load_cpus c (x_mode x) RUN_CPU_LIST_SIZE of
        None \<Rightarrow> (Inl (Err None), x)
      | Some load_cpus \<Rightarrow>
          if length sampler \<ge> 4096 then (Inl (Err (Some ENAMETOOLONG)), x)
          else start_ready k ''monitor'' (cut 4096 (in_run_dir x ''monitor.ready'')) None 0 0 True
                 [''bash'', ''./monitor/controller.sh'', show_u64 (ld_cpu_percent l), ''1'', show_u64 (load_lifetime_seconds c), load_cpus]
                 False id (x\<lparr>x_env := monitor_environment x sampler\<rparr>)))"

text \<open>The network load has no readiness marker.\<close>

definition network_process :: "'w kernel \<Rightarrow> 'w run_context \<Rightarrow> (outcome + nat option) \<times> 'w run_context" where
  "network_process k x =
   (let c = x_config x; l = cf_load c; cpu = pl_sender_network_cpu (cf_placement c) in
    if ld_network_bps l = 0 then (Inr None, x)
    else (case spawn_child k ''network-load'' [] (if cpu \<ge> 0 then Some {nat cpu} else None) 0 0 True
                 [''bash'', ''./monitor/network_load.sh'', cf_address c, show_u64 (ld_network_bps l), show_u64 (ld_network_parallel l),
                  ld_network_protocol l, ld_network_direction l, show_u64 (ld_network_port l), show_u64 (load_lifetime_seconds c)]
                 False (x\<lparr>x_env := load_phases c (x_env x)\<rparr>) of
        (Inl e, x) \<Rightarrow> (Inl (Err (Some e)), x)
      | (Inr n, x) \<Rightarrow> (Inr (Some n), x)))"

section \<open>Scripts\<close>

text \<open>The local variables: the index of each child that was started.\<close>

record locals =
  lo_loader :: "nat option"
  lo_flows :: "nat option list"
  lo_load :: "nat option"
  lo_clock :: "nat option"

definition no_locals :: locals where
  "no_locals = \<lparr>lo_loader = None, lo_flows = [None, None, None], lo_load = None, lo_clock = None\<rparr>"

type_synonym 'w job = "'w run_context \<times> locals"

fun run_steps :: "('s \<Rightarrow> outcome \<times> 's) list \<Rightarrow> 's \<Rightarrow> outcome \<times> 's" where
  "run_steps [] s = (Ok, s)"
| "run_steps (f # fs) s = (case f s of (Ok, s) \<Rightarrow> run_steps fs s | (r, s) \<Rightarrow> (r, s))"

text \<open>A step on the context, one that looks at the local variables, and one that starts a child.\<close>

definition act :: "('w run_context \<Rightarrow> outcome \<times> 'w run_context) \<Rightarrow> 'w job \<Rightarrow> outcome \<times> 'w job" where
  "act f s = (case f (fst s) of (r, x) \<Rightarrow> (r, (x, snd s)))"

definition act_on :: "(locals \<Rightarrow> 'w run_context \<Rightarrow> outcome \<times> 'w run_context) \<Rightarrow> 'w job \<Rightarrow> outcome \<times> 'w job" where
  "act_on f s = act (f (snd s)) s"

definition start_as ::
  "('w run_context \<Rightarrow> (outcome + nat option) \<times> 'w run_context) \<Rightarrow> (nat option \<Rightarrow> locals \<Rightarrow> locals) \<Rightarrow> 'w job \<Rightarrow> outcome \<times> 'w job" where
  "start_as f put s = (case f (fst s) of (Inl r, x) \<Rightarrow> (r, (x, snd s)) | (Inr n, x) \<Rightarrow> (Ok, (x, put n (snd s))))"

definition put_loader :: "nat option \<Rightarrow> locals \<Rightarrow> locals" where "put_loader n l = l\<lparr>lo_loader := n\<rparr>"
definition put_load :: "nat option \<Rightarrow> locals \<Rightarrow> locals" where "put_load n l = l\<lparr>lo_load := n\<rparr>"
definition put_clock :: "nat option \<Rightarrow> locals \<Rightarrow> locals" where "put_clock n l = l\<lparr>lo_clock := n\<rparr>"
definition put_flow :: "nat \<Rightarrow> nat option \<Rightarrow> locals \<Rightarrow> locals" where "put_flow i n l = l\<lparr>lo_flows := (lo_flows l)[i := n]\<rparr>"

definition enabled_flows :: "run_config \<Rightarrow> nat list" where "enabled_flows c = filter (\<lambda>i. fl_enabled (cf_flows c ! i)) [0, 1, 2]"

text \<open>A busy-polling AF_XDP receiver is told to start.\<close>

definition wake_receiver :: "'w kernel \<Rightarrow> nat \<Rightarrow> locals \<Rightarrow> 'w run_context \<Rightarrow> outcome \<times> 'w run_context" where
  "wake_receiver k i l x =
   (case lo_flows l ! i of
      None \<Rightarrow> (Ok, x)
    | Some n \<Rightarrow>
        if tm_xsk_busy (cf_timing (x_config x)) = 0 \<or> run_flow_path (x_mode x) i \<noteq> ''xsk'' then (Ok, x)
        else (case signal_child k n SIGUSR2 x of (None, x) \<Rightarrow> (Ok, x) | (Some e, x) \<Rightarrow> (Err (Some e), x)))"

definition stop_flows :: "'w kernel \<Rightarrow> locals \<Rightarrow> 'w run_context \<Rightarrow> outcome \<times> 'w run_context" where
  "stop_flows k l x = (Ok, fold (\<lambda>n x. request_stop k n x) (lo_flows l) x)"

definition flush_flows :: "'w kernel \<Rightarrow> locals \<Rightarrow> 'w run_context \<Rightarrow> outcome \<times> 'w run_context" where
  "flush_flows k l x = (Ok, fold (\<lambda>n x. case n of None \<Rightarrow> x | Some i \<Rightarrow> snd (signal_child k i SIGUSR1 x)) (lo_flows l) x)"

definition wait_flow :: "'w kernel \<Rightarrow> bool \<Rightarrow> nat \<Rightarrow> locals \<Rightarrow> 'w run_context \<Rightarrow> outcome \<times> 'w run_context" where
  "wait_flow k cleanup i l x = (case lo_flows l ! i of None \<Rightarrow> (Ok, x) | Some n \<Rightarrow> wait_child k n (stop_timeout x) cleanup x)"

definition stop_clock :: "'w kernel \<Rightarrow> locals \<Rightarrow> 'w run_context \<Rightarrow> outcome \<times> 'w run_context" where
  "stop_clock k l x =
   (case lo_clock l of
      None \<Rightarrow> (Ok, x)
    | Some n \<Rightarrow> (case pause_ms k 150 x of (Ok, x) \<Rightarrow> stop_child k (Some n) x | (r, x) \<Rightarrow> (r, x)))"

definition send_message :: "'w kernel \<Rightarrow> u32 \<Rightarrow> nat \<Rightarrow> 'w job \<Rightarrow> outcome \<times> 'w job" where
  "send_message k type timeout = act (control_message k type True timeout)"

definition await_message :: "'w kernel \<Rightarrow> u32 \<Rightarrow> nat \<Rightarrow> 'w job \<Rightarrow> outcome \<times> 'w job" where
  "await_message k type timeout = act (control_message k type False timeout)"

definition restore_coalesce :: "'w kernel \<Rightarrow> 'w run_context \<Rightarrow> outcome \<times> 'w run_context" where
  "restore_coalesce k x = (if x_coalesce_active x then coalesce k ''restore'' x else (Ok, x))"

text \<open>\<^verbatim>\<open>stop_receiver_pipeline\<close>: the loader stays until the peer has stopped its load.\<close>

definition stop_receiver_pipeline :: "'w kernel \<Rightarrow> run_config \<Rightarrow> ('w job \<Rightarrow> outcome \<times> 'w job) list" where
  "stop_receiver_pipeline k c =
   (let stop = unat (tm_stop_ms (cf_timing c)) in
    [send_message k DONE stop, await_message k ACK stop, act_on (\<lambda>l. stop_child k (lo_load l)), act_on (\<lambda>l. stop_child k (lo_loader l)),
     act (restore_coalesce k)])"

definition receiver_prologue :: "'w kernel \<Rightarrow> run_config \<Rightarrow> bool \<Rightarrow> ('w job \<Rightarrow> outcome \<times> 'w job) list" where
  "receiver_prologue k c smoke =
   (let coalescing = (\<not> smoke \<and> tm_rx_coalesce_usecs (cf_timing c) \<ge> 0) in
    [act (prepare_environment k), act (capture_state k ''before'')] @
    (if coalescing then [act (coalesce k ''save'')] else []) @
    (if smoke then [] else [start_as (loader_process k) put_loader]) @
    map (\<lambda>i. start_as (receiver_process k i) (put_flow i)) (enabled_flows c) @
    (if coalescing then [act (\<lambda>x. coalesce k ''apply'' (x\<lparr>x_coalesce_active := True\<rparr>))] else []) @
    (if \<not> smoke \<and> tm_phc_tracking (cf_timing c) \<noteq> 0 then [start_as (start_phc_tracking k) put_clock] else []) @
    [act (capture_scheduler k), start_as (monitor_process k) put_load])"

definition receiver_measure :: "'w kernel \<Rightarrow> run_config \<Rightarrow> bool \<Rightarrow> ('w job \<Rightarrow> outcome \<times> 'w job) list" where
  "receiver_measure k c smoke =
   (let t = cf_timing c; ready = unat (tm_ready_ms t) in
    [send_message k RX_READY ready, await_message k TX_READY ready, act (pause_ms k (unat (tm_warmup_ms t)))] @
    (if \<not> smoke \<and> tm_phc_tracking t = 0 then [act (calibrate k ''before'')] else []) @
    map (\<lambda>i. act_on (wake_receiver k i)) [0, 1, 2] @
    [act (write_run k ''running''), send_message k START ready, await_message k STARTED ready,
     await_message k STOP (ms32 [tm_duration_ms t, tm_start_delay_ms t, tm_ready_ms t]), act (pause_ms k (unat (tm_settle_ms t)))])"

definition receiver_epilogue :: "'w kernel \<Rightarrow> run_config \<Rightarrow> bool \<Rightarrow> ('w job \<Rightarrow> outcome \<times> 'w job) list" where
  "receiver_epilogue k c smoke =
   (let t = cf_timing c in
    [act_on (stop_flows k), act_on (\<lambda>l. wait_completions k (lo_flows l) (unat (tm_stop_ms t))), act_on (flush_flows k)] @
    map (\<lambda>i. act_on (wait_flow k True i)) [0, 1, 2] @ [act_on (stop_clock k)] @
    (if \<not> smoke \<and> tm_phc_tracking t = 0 then [act (calibrate k ''after'')] else []))"

definition closing_steps :: "'w kernel \<Rightarrow> ('w job \<Rightarrow> outcome \<times> 'w job) list" where
  "closing_steps k = [act (capture_state k ''after''), act (restore_cpu_partition k), act (write_run k ''completed''), act (marker k ''.complete'')]"

definition receiver_run :: "'w kernel \<Rightarrow> 'w run_context \<Rightarrow> outcome \<times> 'w run_context" where
  "receiver_run k x =
   (let c = x_config x; smoke = smoke_mode x in
    case run_steps (receiver_prologue k c smoke @ receiver_measure k c smoke @ receiver_epilogue k c smoke @
                    stop_receiver_pipeline k c @ closing_steps k) (x, no_locals) of
      (r, s) \<Rightarrow> (r, fst s))"

text \<open>The start time is published by a link, so that the senders read it whole.\<close>

definition publish_start :: "'w kernel \<Rightarrow> 'w run_context \<Rightarrow> outcome \<times> 'w run_context" where
  "publish_start k x =
   (let start = cut 4096 (in_run_dir x ''start.ns''); temporary = cut 4096 (start @ ''.tmp'');
        text = show_int (x_clock x + int (unat (tm_start_delay_ms (cf_timing (x_config x)))) * 1000000) @ [NL] in
    case create_file k temporary x of
      (Some e, x) \<Rightarrow> (Err (Some e), x)
    | (None, x) \<Rightarrow>
        if x_clock x < 0 then (Err None, x)
        else (case write_file k temporary text x of
            (Some e, x) \<Rightarrow> (Err (Some e), unlink_path k temporary x)
          | (None, x) \<Rightarrow>
              (case kn_link k temporary start (x_world x) of
                 (Some e, w) \<Rightarrow> (Err (Some e), unlink_path k temporary (x\<lparr>x_world := w\<rparr>))
               | (None, w) \<Rightarrow> (Ok, unlink_path k temporary (log_event (Wrote start text) (x\<lparr>x_world := w\<rparr>))))))"

definition network_pause :: "'w kernel \<Rightarrow> locals \<Rightarrow> 'w run_context \<Rightarrow> outcome \<times> 'w run_context" where
  "network_pause k l x = (if lo_load l = None then (Ok, x) else pause_ms k 100 x)"

definition sender_prologue :: "'w kernel \<Rightarrow> run_config \<Rightarrow> ('w job \<Rightarrow> outcome \<times> 'w job) list" where
  "sender_prologue k c =
   (let t = cf_timing c; ready = unat (tm_ready_ms t) in
    [act (prepare_environment k), await_message k RX_READY ready, act (capture_state k ''before'')] @
    map (\<lambda>i. start_as (sender_process k i) (put_flow i)) (enabled_flows c) @
    [start_as (network_process k) put_load, act_on (network_pause k)])"

definition sender_measure :: "'w kernel \<Rightarrow> run_config \<Rightarrow> ('w job \<Rightarrow> outcome \<times> 'w job) list" where
  "sender_measure k c =
   (let t = cf_timing c; ready = unat (tm_ready_ms t); stop = unat (tm_stop_ms t) in
    [send_message k TX_READY ready, await_message k START (ms32 [tm_ready_ms t, tm_warmup_ms t]), act (write_run k ''running''),
     act (publish_start k), send_message k STARTED ready,
     act_on (\<lambda>l. wait_completions k (lo_flows l) (ms32 [tm_duration_ms t, tm_start_delay_ms t, tm_ready_ms t])),
     send_message k STOP stop, await_message k DONE (ms32 [tm_stop_ms t * 3, tm_settle_ms t, tm_drain_ms t])])"

definition sender_epilogue :: "'w kernel \<Rightarrow> run_config \<Rightarrow> ('w job \<Rightarrow> outcome \<times> 'w job) list" where
  "sender_epilogue k c =
    [act_on (flush_flows k)] @ map (\<lambda>i. act_on (wait_flow k False i)) [0, 1, 2] @
    [act_on (\<lambda>l. stop_child k (lo_load l)), act (capture_state k ''after''), act (write_run k ''completed''),
     send_message k ACK (unat (tm_stop_ms (cf_timing c))), act (marker k ''.complete'')]"

definition sender_run :: "'w kernel \<Rightarrow> 'w run_context \<Rightarrow> outcome \<times> 'w run_context" where
  "sender_run k x =
   (let c = x_config x in
    case run_steps (sender_prologue k c @ sender_measure k c @ sender_epilogue k c) (x, no_locals) of (r, s) \<Rightarrow> (r, fst s))"

end
