(* ===== verification/Ace_Run.thy ===== *)
theory Ace_Run
  imports Run_Scripts
begin

text \<open>
  The main program of the coordinator (\<^verbatim>\<open>experiment/ace-run.c\<close>): checks before the first run, the
  connection to the peer, and the loop over the runs with its failure handling.
\<close>

section \<open>Preparation\<close>

text \<open>The directories of a path: the text before every slash but the first.\<close>

definition parent_paths :: "string \<Rightarrow> string list" where
  "parent_paths path = map (\<lambda>n. take n path) (filter (\<lambda>n. path ! n = CHR ''/'') [1..<length path])"

fun mkdir_all :: "'w kernel \<Rightarrow> string list \<Rightarrow> 'w run_context \<Rightarrow> outcome \<times> 'w run_context" where
  "mkdir_all k [] x = (Ok, x)"
| "mkdir_all k (p # ps) x =
   (case kn_mkdir k p (x_world x) of
      (None, w) \<Rightarrow> mkdir_all k ps (x\<lparr>x_world := w\<rparr>)
    | (Some e, w) \<Rightarrow> if e = EEXIST then mkdir_all k ps (x\<lparr>x_world := w\<rparr>) else (Err (Some e), x\<lparr>x_world := w\<rparr>))"

definition mkdir_parents :: "'w kernel \<Rightarrow> string \<Rightarrow> 'w run_context \<Rightarrow> outcome \<times> 'w run_context" where
  "mkdir_parents k path x =
   (if length path \<ge> 4096 then (Err (Some ENAMETOOLONG), x)
    else (case mkdir_all k (parent_paths path @ [path]) x of
        (Ok, x) \<Rightarrow> (case kn_isdir k path (x_world x) of (dir, w) \<Rightarrow> (if dir then Ok else Err (Some ENOTDIR), x\<lparr>x_world := w\<rparr>))
      | (r, x) \<Rightarrow> (r, x)))"

fun access_all :: "'w kernel \<Rightarrow> (string \<times> bool) list \<Rightarrow> 'w run_context \<Rightarrow> outcome \<times> 'w run_context" where
  "access_all k [] x = (Ok, x)"
| "access_all k ((path, execute) # ps) x =
   (case kn_access k path execute (x_world x) of
      (None, w) \<Rightarrow> access_all k ps (x\<lparr>x_world := w\<rparr>)
    | (Some e, w) \<Rightarrow> (Err (Some e), x\<lparr>x_world := w\<rparr>))"

text \<open>The files \<^verbatim>\<open>preflight\<close> asks for, with whether they have to be executable, in its order.\<close>

definition mode_files :: "run_config \<Rightarrow> string \<Rightarrow> (string \<times> bool) list" where
  "mode_files c mode =
   (if mode = ''socket-only'' then []
    else (if pl_shared_cpus (cf_placement c) \<noteq> []
          then [(''monitor/check_cpu_partition.sh'', False), (''monitor/cpu_partition.sh'', False)] else []) @
         (if tm_phc_tracking (cf_timing c) \<noteq> 0 then [(''udp_socket/bin/phc_track'', True)] else []) @
         [(''BPF/xdp_loader'', True), (''udp_socket/bin/phc_calibrate'', True)] @
         (if run_flow_path mode 2 = ''xsk'' \<and> fl_enabled (cf_flows c ! 2) then [(''BPF/afxdp_recv'', True)] else []))"

definition required_files :: "run_config \<Rightarrow> bool \<Rightarrow> (string \<times> bool) list" where
  "required_files c receiver =
   [(''udp_socket/bin/sender'', True), (''udp_socket/bin/receiver'', True), (''udp_socket/bin/ace_clock'', True),
    (''monitor/capture_state.sh'', False)] @
   (if receiver then [(''monitor/capture_scheduler.sh'', False)] else []) @
   (if receiver \<and> tm_rx_coalesce_usecs (cf_timing c) \<ge> 0 then [(''monitor/rx_coalesce.sh'', False)] else []) @
   (if receiver \<and> tm_monitor (cf_timing c) \<noteq> 0 then [(''udp_socket/bin/cpu_sample'', True)] else []) @
   [(''monitor/prepare_env.sh'', False), (''monitor/set_irq_affinity.sh'', False)] @
   (if receiver then concat (map (mode_files c) (cf_modes c)) else [])"

text \<open>The coordinator tries the receiver's CPUs and goes back to its own.\<close>

definition try_cpus :: "'w kernel \<Rightarrow> 'w run_context \<Rightarrow> outcome \<times> 'w run_context" where
  "try_cpus k x =
   (if \<not> (ct_receiver (x_control x) \<and> pl_shared_cpus (cf_placement (x_config x)) \<noteq> []) then (Ok, x)
    else (case kn_affinity k (x_world x) of
        (Inl e, w) \<Rightarrow> (Err (Some e), x\<lparr>x_world := w\<rparr>)
      | (Inr original, w) \<Rightarrow>
          (case apply_cpu_set k (pl_shared_mask (cf_placement (x_config x))) (x\<lparr>x_world := w\<rparr>) of
             (r, x) \<Rightarrow> (case apply_cpu_set k original x of (Ok, x) \<Rightarrow> (r, x) | (r', x) \<Rightarrow> (r', x)))))"

definition preflight :: "'w kernel \<Rightarrow> 'w run_context \<Rightarrow> outcome \<times> 'w run_context" where
  "preflight k x =
   (case try_cpus k x of
      (Ok, x) \<Rightarrow> access_all k (required_files (x_config x) (ct_receiver (x_control x))) x
    | (r, x) \<Rightarrow> (r, x))"

text \<open>The lock file: opened, a regular file of this user, and locked.\<close>

definition lock_cpu_partition :: "'w kernel \<Rightarrow> 'w run_context \<Rightarrow> outcome \<times> 'w run_context" where
  "lock_cpu_partition k x =
   (if \<not> ct_receiver (x_control x) \<or> pl_shared_cpus (cf_placement (x_config x)) = [] \<or>
       list_all (\<lambda>m. m = ''socket-only'') (cf_modes (x_config x))
    then (Ok, x)
    else (case kn_lock k (x_world x) of
        (None, w) \<Rightarrow> (Ok, x\<lparr>x_world := w\<rparr>)
      | (Some e, w) \<Rightarrow> (Err (Some e), x\<lparr>x_world := w\<rparr>)))"

section \<open>The peer\<close>

definition exchange :: "'w kernel \<Rightarrow> bool \<Rightarrow> 'w run_context \<Rightarrow> outcome \<times> 'w run_context" where
  "exchange k writing_first x =
   (let ready = ready_timeout x in
    case control_message k HELLO writing_first ready x of
      (Ok, x) \<Rightarrow> control_message k HELLO (\<not> writing_first) ready x
    | (r, x) \<Rightarrow> (r, x))"

text \<open>
  The receiver listens and accepts one connection; the answer of \<open>kn_accept\<close> is the random nonce.  The
  sender tries again every 50 ms until its deadline; the answer of \<open>kn_connect\<close> is whether the connection
  stands.
\<close>

definition accept_peer :: "'w kernel \<Rightarrow> 'w run_context \<Rightarrow> outcome \<times> 'w run_context" where
  "accept_peer k x =
   (case kn_listen k (x_world x) of
      (Some e, w) \<Rightarrow> (Err (Some e), x\<lparr>x_world := w\<rparr>)
    | (None, w) \<Rightarrow>
        (case kn_accept k w of
           (Inl e, w) \<Rightarrow> (Err (Some e), x\<lparr>x_world := w\<rparr>)
         | (Inr nonce, w) \<Rightarrow> exchange k False (x\<lparr>x_control := (x_control x)\<lparr>ct_nonce := nonce\<rparr>, x_world := w\<rparr>)))"

lemma pause_later: "(Ok, x2) = pause_ms k ms (x1\<lparr>x_world := w\<rparr>) \<Longrightarrow> 0 < ms \<Longrightarrow> x_clock x1 < x_clock x2"
  using pause_clock [of k "x_clock x1 + int ms * 1000000" "x1\<lparr>x_world := w\<rparr>" Ok x2] by (simp add: pause_ms_def)

function connect_loop :: "'w kernel \<Rightarrow> int \<Rightarrow> 'w run_context \<Rightarrow> outcome \<times> 'w run_context" where
  "connect_loop k until x =
   (if x_stopping x then (Err (Some EINTR), x)
    else (case kn_connect k (x_world x) of
        (Inl e, w) \<Rightarrow> (Err (Some e), x\<lparr>x_world := w\<rparr>)
      | (Inr connected, w) \<Rightarrow>
          if connected then (Ok, x\<lparr>x_world := w\<rparr>)
          else if x_clock x \<ge> until then (Err (Some ETIMEDOUT), x\<lparr>x_world := w\<rparr>)
          else (case pause_ms k 50 (x\<lparr>x_world := w\<rparr>) of (Ok, x) \<Rightarrow> connect_loop k until x | (r, x) \<Rightarrow> (r, x))))"
  by pat_completeness auto
termination
  by (relation "measure (\<lambda>(k, until, x). nat (until - x_clock x))") (auto dest!: pause_later)

declare connect_loop.simps [simp del]

definition connect_peer :: "'w kernel \<Rightarrow> 'w run_context \<Rightarrow> outcome \<times> 'w run_context" where
  "connect_peer k x =
   (if ct_receiver (x_control x) then accept_peer k x
    else (case connect_loop k (x_clock x + int (ready_timeout x) * 1000000) x of
        (Ok, x) \<Rightarrow> if x_stopping x then (Err (Some EINTR), x) else exchange k True x
      | (r, x) \<Rightarrow> (r, x)))"

section \<open>The loop over the runs\<close>

text \<open>What follows a failure: the peer is told, all children end, the partition is released, the run is marked.\<close>

definition fail_run :: "'w kernel \<Rightarrow> 'w run_context \<Rightarrow> 'w run_context" where
  "fail_run k x =
   (let x = snd (control_message k FAIL True 1000 x);
        x = cleanup_children k x;
        x = snd (restore_cpu_partition k x) in
    if x_owns_run x then snd (marker k ''.failed'' (snd (write_run k ''failed'' x))) else x)"

definition one_run :: "'w kernel \<Rightarrow> nat \<Rightarrow> nat \<Rightarrow> 'w run_context \<Rightarrow> outcome \<times> 'w run_context" where
  "one_run k repeat position x =
   (let c = x_config x;
        x = x\<lparr>x_repeat := repeat, x_control := (x_control x)\<lparr>ct_index := ct_index (x_control x) + 1\<rparr>,
              x_mode := cf_modes c ! unat (run_mode_index c (of_nat repeat) (of_nat position))\<rparr> in
    case begin_run k x of
      (Ok, x) \<Rightarrow> if ct_receiver (x_control x) then receiver_run k x else sender_run k x
    | (r, x) \<Rightarrow> (r, x))"

fun run_all :: "'w kernel \<Rightarrow> (nat \<times> nat) list \<Rightarrow> 'w run_context \<Rightarrow> bool \<times> 'w run_context" where
  "run_all k [] x = (False, x)"
| "run_all k ((repeat, position) # rest) x =
   (case one_run k repeat position x of
      (Ok, x) \<Rightarrow> run_all k rest x
    | (r, x) \<Rightarrow> (True, fail_run k x))"

definition run_schedule :: "run_config \<Rightarrow> (nat \<times> nat) list" where
  "run_schedule c = concat (map (\<lambda>r. map (\<lambda>m. (r, m)) [0..<length (cf_modes c)]) [1..<unat (tm_repeats (cf_timing c)) + 1])"

section \<open>main\<close>

definition initial_context :: "run_config \<Rightarrow> bool \<Rightarrow> int \<Rightarrow> 'w \<Rightarrow> 'w run_context" where
  "initial_context c receiver clock w =
     \<lparr>x_config = c, x_children = [],
      x_control = \<lparr>ct_index = 0, ct_nonce = replicate 16 0, ct_digest = cf_digest c, ct_run_id = cf_run_id c, ct_receiver = receiver\<rparr>,
      x_owns_run = False, x_partition_attempted = False, x_partition_active = False, x_partition_group = [], x_coalesce_active = False,
      x_release_attempts = 0, x_restore_attempts = 0, x_env = Map.empty, x_suite = [], x_run_dir = [], x_mode = [], x_repeat = 0,
      x_clock = clock, x_stopping = False, x_log = [], x_world = w\<rparr>"

text \<open>The steps before the loop, in order; each failure ends the program with exit code 1.\<close>

definition place_coordinator :: "'w kernel \<Rightarrow> 'w run_context \<Rightarrow> outcome \<times> 'w run_context" where
  "place_coordinator k x =
   (let p = cf_placement (x_config x) in
    if ct_receiver (x_control x) \<and> pl_shared_cpus p \<noteq> [] then scheduler_mask k (Some (pl_shared_mask p)) 0 0 x
    else scheduler k (if ct_receiver (x_control x) then pl_receiver_supervisor_cpu p else pl_sender_supervisor_cpu p) 0 0 x)"

definition enter_repository :: "'w kernel \<Rightarrow> 'w run_context \<Rightarrow> outcome \<times> 'w run_context" where
  "enter_repository k x =
   (case kn_subreaper k (x_world x) of (Some e, w) \<Rightarrow> (Err (Some e), x\<lparr>x_world := w\<rparr>) | (None, w) \<Rightarrow>
    (case kn_realpath k (cf_repo (x_config x)) w of
       (Inl e, w) \<Rightarrow> (Err (Some e), x\<lparr>x_world := w\<rparr>)
     | (Inr repo, w) \<Rightarrow>
         (case kn_chdir k repo w of
            (Some e, w) \<Rightarrow> (Err (Some e), x\<lparr>x_config := (x_config x)\<lparr>cf_repo := repo\<rparr>, x_world := w\<rparr>)
          | (None, w) \<Rightarrow> (Ok, x\<lparr>x_config := (x_config x)\<lparr>cf_repo := repo\<rparr>, x_world := w\<rparr>))))"

definition choose_suite :: "'w kernel \<Rightarrow> 'w run_context \<Rightarrow> outcome \<times> 'w run_context" where
  "choose_suite k x =
   (let c = x_config x;
        output = (if cf_output c = [] \<or> hd (cf_output c) \<noteq> CHR ''/'' then cf_repo c @ ''/'' @ cf_output c else cf_output c);
        suite = output @ ''/'' @ cf_run_id c @ ''/'' @ (if ct_receiver (x_control x) then ''receiver'' else ''sender'') in
    if length output \<ge> 4096 \<or> length suite \<ge> 4096 \<or> length (suite @ ''/runs'') \<ge> 4096 then (Err (Some ENAMETOOLONG), x)
    else mkdir_parents k (suite @ ''/runs'') (x\<lparr>x_config := c\<lparr>cf_output := output\<rparr>, x_suite := suite\<rparr>))"

definition plan_text :: "run_config \<Rightarrow> string" where
  "plan_text c =
     ''run_id='' @ cf_run_id c @ '' sha256='' @ cf_digest c @ '' repeats='' @ show_u64 (tm_repeats (cf_timing c)) @ [NL] @
     concat (map (\<lambda>m. write_condition c m (tm_duration_ms (cf_timing c)) @ [NL]) (cf_modes c))"

definition prepare_suite :: "'w kernel \<Rightarrow> 'w run_context \<Rightarrow> outcome \<times> 'w run_context" where
  "prepare_suite k = run_steps [enter_repository k, place_coordinator k, preflight k, lock_cpu_partition k, choose_suite k, connect_peer k]"

text \<open>The exit code, what \<^verbatim>\<open>plan\<close> prints, and the final context.\<close>

definition ace_run_main ::
  "'w kernel \<Rightarrow> string list \<Rightarrow> run_config option \<Rightarrow> int \<Rightarrow> 'w \<Rightarrow> nat \<times> string \<times> 'w run_context option" where
  "ace_run_main k argv config clock w =
   (if length argv \<noteq> 4 \<or> argv ! 2 \<noteq> ''--config'' \<or> argv ! 1 \<notin> {''receiver'', ''sender'', ''plan''} then (2, [], None)
    else (case config of
        None \<Rightarrow> (2, [], None)
      | Some c \<Rightarrow>
          if argv ! 1 = ''plan'' then (0, plan_text c, None)
          else (case prepare_suite k (initial_context c (argv ! 1 = ''receiver'') clock w) of
              (Ok, x) \<Rightarrow> (case run_all k (run_schedule (x_config x)) x of (failed, x) \<Rightarrow> (if failed then 1 else 0, [], Some x))
            | (r, x) \<Rightarrow> (1, [], Some x))))"

end
