(* ===== verification/Run_Protocol.thy ===== *)
theory Run_Protocol
  imports Ace_Run
begin

text \<open>
  What a run of the coordinator shows to others.  The signs of a run are its messages and marker files,
  in their order.  Every step of the scripts is silent or gives one sign, so that the signs of a script
  are known on every path.
\<close>

section \<open>Signs\<close>

definition signs :: "'w run_context \<Rightarrow> 'w run_context \<Rightarrow> sign list" where
  "signs x x' = List.map_filter sign_of (new_log x x')"

lemma signs_trans: "prefix (x_log x) (x_log y) \<Longrightarrow> prefix (x_log y) (x_log z) \<Longrightarrow> signs x z = signs x y @ signs y z"
  unfolding signs_def using new_log_trans [of x y z] by (simp add: map_filter_def)

lemma signs_self [simp]: "signs x x = []"
  by (simp add: signs_def map_filter_def)

lemma harmless_sign: "harmless S e \<Longrightarrow> sign_of e = None"
  by (cases e) auto

lemma moves_signs: "moves S x x' \<Longrightarrow> prefix (x_log x) (x_log x') \<and> signs x x' = [] \<and> x_config x' = x_config x \<and> x_run_dir x' = x_run_dir x"
  by (auto simp: moves_def advances_def signs_def map_filter_def list_all_iff filter_empty_conv dest: harmless_sign)

text \<open>The run directory leaves room for the names below it, which \<^verbatim>\<open>begin_run\<close> has checked.\<close>

definition roomy :: "'w run_context \<Rightarrow> bool" where "roomy x \<longleftrightarrow> length (x_run_dir x) + 13 < 4096"

lemma moves_roomy: "moves S x x' \<Longrightarrow> roomy x' = roomy x"
  by (simp add: roomy_def moves_def advances_def)

section \<open>Silent operations\<close>

definition quiet :: "('w run_context \<Rightarrow> 'a \<times> 'w run_context) \<Rightarrow> bool" where
  "quiet f \<longleftrightarrow> (\<forall>x. moves UNIV x (snd (f x)))"

lemma quietI: "(\<And>x r x'. f x = (r, x') \<Longrightarrow> moves UNIV x x') \<Longrightarrow> quiet f"
  unfolding quiet_def by (metis prod.collapse)

lemma quietD: "quiet f \<Longrightarrow> f x = (r, x') \<Longrightarrow> moves UNIV x x'"
  unfolding quiet_def by (metis snd_conv)

text \<open>One silent operation after another.\<close>

lemma quiet_then:
  assumes "quiet f" "\<And>x a. quiet (g x a)"
  shows "quiet (\<lambda>x. case f x of (a, y) \<Rightarrow> g x a y)"
proof (rule quietI)
  fix x r x' assume x: "(case f x of (a, y) \<Rightarrow> g x a y) = (r, x')"
  obtain a y where y: "f x = (a, y)" by fastforce
  have m: "moves UNIV x y" by (rule quietD [OF assms(1) y])
  have "moves UNIV y x'" using quietD [OF assms(2), of x a y r x'] x y by simp
  then show "moves UNIV x x'" by (rule moves_trans [OF m])
qed

lemma quiet_pre:
  assumes "quiet f" "\<And>x. moves UNIV x (h x)"
  shows "quiet (\<lambda>x. f (h x))"
  using assms moves_trans unfolding quiet_def by metis

lemma quiet_return [simp]: "quiet (\<lambda>x. (a, x))"
  by (simp add: quiet_def)

lemma quiet_if: "quiet f \<Longrightarrow> quiet g \<Longrightarrow> quiet (\<lambda>x. if P x then f x else g x)"
  by (auto simp: quiet_def)

lemma quiet_run_tool: "(\<And>x. quiet (run_tool k (name x) (args x) (timeout x) cleanup)) \<Longrightarrow> quiet (\<lambda>x. run_tool k (name x) (args x) (timeout x) cleanup x)"
  unfolding quiet_def by blast

lemma run_tool_quiet: "quiet (run_tool k name args timeout cleanup)"
  by (rule quietI) (rule run_tool_moves, assumption, simp)

lemma run_tool_quiet' [simp]: "quiet (\<lambda>x. run_tool k (name x) (args x) (timeout x) cleanup x)"
  by (rule quiet_run_tool) (rule run_tool_quiet)

lemma coalesce_quiet [simp]: "quiet (coalesce k action)"
  by (rule quietI) (rule coalesce_moves, assumption, simp)

lemma scheduler_quiet: "quiet (scheduler_mask k cpus policy priority)"
  using scheduler_mask_result by (intro quietI) fastforce

lemma calibrate_quiet: "quiet (calibrate k phase)"
  unfolding calibrate_def Let_def by simp

lemma capture_state_quiet: "quiet (capture_state k phase)"
  unfolding capture_state_def Let_def by (intro quiet_if) simp_all

lemma capture_scheduler_quiet: "quiet (capture_scheduler k)"
  unfolding capture_scheduler_def Let_def by (intro quiet_if) simp_all

lemma quiet_outcome: "quiet f \<Longrightarrow> quiet (\<lambda>x. case r of Ok \<Rightarrow> f x | Err e \<Rightarrow> (Err e, x) | Unfinished \<Rightarrow> (Unfinished, x))"
  by (cases r) simp_all

lemma quiet_option: "(\<And>e. r = Some e \<Longrightarrow> quiet (f e)) \<Longrightarrow> quiet g \<Longrightarrow> quiet (\<lambda>x. case r of None \<Rightarrow> g x | Some e \<Rightarrow> f e x)"
  by (cases r) simp_all

lemma quiet_sum: "(\<And>e. quiet (f e)) \<Longrightarrow> (\<And>v. quiet (g v)) \<Longrightarrow> quiet (\<lambda>x. case r of Inl e \<Rightarrow> f e x | Inr v \<Rightarrow> g v x)"
  by (cases r) simp_all

text \<open>Calls of the kernel that touch only the world.\<close>

lemma quiet_world: "(\<And>x. \<exists>w. snd (f x) = x\<lparr>x_world := w\<rparr>) \<Longrightarrow> quiet f"
  unfolding quiet_def by (metis moves_world)

lemma quiet_flags: "(\<And>x. moves UNIV x (h x)) \<Longrightarrow> quiet (\<lambda>x. (a, h x))"
  by (simp add: quiet_def)

lemma moves_flags [simp]:
  "moves S x (x\<lparr>x_coalesce_active := b\<rparr>)" "moves S x (x\<lparr>x_release_attempts := n\<rparr>)" "moves S x (x\<lparr>x_partition_active := b\<rparr>)"
  "moves S x (x\<lparr>x_partition_active := b, x_partition_attempted := b', x_partition_group := g\<rparr>)"
  "moves S x (x\<lparr>x_partition_group := g, x_partition_attempted := b\<rparr>)" "moves S x (x\<lparr>x_env := env\<rparr>)"
  by (rule moves_same; simp)+

lemma scheduler_pre_quiet:
  assumes "\<And>x. moves UNIV x (h x)"
  shows "quiet (\<lambda>x. scheduler_mask k (cpus x) policy priority (h x))"
proof (rule quietI)
  fix x r x' assume "scheduler_mask k (cpus x) policy priority (h x) = (r, x')"
  then obtain w where "x' = (h x)\<lparr>x_world := w\<rparr>" using scheduler_mask_result by blast
  then show "moves UNIV x x'" using moves_trans [OF assms moves_world] by simp
qed

lemma scheduler_quiet' [simp]: "quiet (\<lambda>x. scheduler_mask k (cpus x) policy priority x)"
  using scheduler_pre_quiet [of "\<lambda>x. x"] by simp

lemma restore_partition_quiet: "quiet (restore_cpu_partition k)"
  unfolding restore_cpu_partition_def Let_def
  by (intro quiet_if quiet_return quiet_pre [where h = "\<lambda>x. x\<lparr>x_release_attempts := x_release_attempts x + 1\<rparr>"] quiet_then quiet_outcome
      run_tool_quiet' quiet_flags moves_flags scheduler_quiet')

lemma tool_pre_quiet:
  assumes "\<And>x. moves UNIV x (h x)"
  shows "quiet (\<lambda>x. run_tool k (name x) (args x) (timeout x) cleanup (h x))"
proof (rule quietI)
  fix x r x' assume "run_tool k (name x) (args x) (timeout x) cleanup (h x) = (r, x')"
  then have "moves UNIV (h x) x'" by (rule run_tool_moves) simp
  then show "moves UNIV x x'" using assms moves_trans by blast
qed

lemma reserve_partition_quiet: "quiet (reserve_cpu_partition k)"
  unfolding reserve_cpu_partition_def Let_def
  by (intro quiet_if quiet_return quiet_then quiet_outcome tool_pre_quiet scheduler_pre_quiet moves_flags)

lemma prepare_partition_quiet: "quiet (prepare_partition k)"
  unfolding prepare_partition_def Let_def
  by (intro quiet_if quiet_return quiet_then quiet_outcome run_tool_quiet' reserve_partition_quiet)

lemma prepare_environment_quiet: "quiet (prepare_environment k)"
  unfolding prepare_environment_def
  by (intro quiet_if quiet_return quiet_then quiet_outcome run_tool_quiet' prepare_partition_quiet)

lemma restore_coalesce_quiet: "quiet (restore_coalesce k)"
  unfolding restore_coalesce_def by (intro quiet_if quiet_return coalesce_quiet)

lemma pause_quiet: "quiet (pause_ms k ms)"
  by (rule quietI) (auto simp: pause_ms_def dest: pause_moves)

lemma create_quiet: "quiet (create_file k path)"
  by (rule quiet_world) (auto simp: create_file_def split: prod.splits)

lemma unlink_moves [simp]: "moves S x (unlink_path k path x)"
  by (simp add: unlink_path_def)

lemma write_quiet: "(\<And>t. sign_of (Wrote path t) = None) \<Longrightarrow> quiet (write_file k path t)"
  by (rule quietI) (auto dest: write_steady [where S = UNIV] simp: steady_def)

text \<open>Creating and writing a file below the run directory.\<close>

lemma run_files_unmarked:
  "sign_of (Wrote (in_run_dir x ''run.json'') t) = None" "sign_of (Wrote (in_run_dir x ''run.json.tmp'') t) = None"
  "sign_of (Wrote (in_run_dir x ''start.ns'') t) = None" "sign_of (Wrote (in_run_dir x ''start.ns.tmp'') t) = None"
  by (rule unmarked; simp add: in_run_dir_def)+

lemma steady_wrote: "sign_of (Wrote p t) = None \<Longrightarrow> steady S x (log_event (Wrote p t) (x\<lparr>x_world := w\<rparr>))"
  by (rule steady_trans [OF steady_world]) (rule steady_log, simp_all)

lemma steady_unlink: "steady S x (unlink_path k path x)"
  by (simp add: unlink_path_def)

lemma write_run_steady: "write_run k state x = (r, x') \<Longrightarrow> steady UNIV x x' \<and> (r = Ok \<longrightarrow> roomy x)"
proof -
  assume w: "write_run k state x = (r, x')"
  let ?d = "in_run_dir x ''run.json''" and ?t = "in_run_dir x ''run.json.tmp''"
  show ?thesis
  proof (cases "length ?d \<ge> 4096 \<or> length ?t \<ge> 4096")
    case True
    then show ?thesis using w by (auto simp: write_run_def Let_def)
  next
    case False
    obtain e y where c: "create_file k ?t x = (e, y)" by fastforce
    have m1: "steady UNIV x y" using c by (auto simp: create_file_def split: prod.splits)
    obtain f z where f: "write_file k ?t (run_text y state) y = (f, z)" by fastforce
    have m: "steady UNIV x z" by (rule steady_trans [OF m1 write_steady [OF f run_files_unmarked(2)]])
    obtain g v where g: "kn_rename k ?t ?d (x_world z) = (g, v)" by fastforce
    have "x' = y \<or> x' = unlink_path k ?t z \<or> x' = z\<lparr>x_world := v\<rparr> \<or>
        x' = log_event (Wrote ?d (run_text z state)) (z\<lparr>x_world := v\<rparr>)"
      using w False c f g by (auto simp: write_run_def Let_def split: option.splits)
    moreover have "roomy x" using False by (simp add: roomy_def in_run_dir_def)
    ultimately show ?thesis
      using m1 m steady_trans [OF m steady_unlink] steady_trans [OF m steady_world] steady_trans [OF m steady_wrote [OF run_files_unmarked(1)]]
      by blast
  qed
qed

lemma write_run_quiet: "quiet (write_run k state)"
  by (rule quietI) (auto simp: steady_def dest: write_run_steady)

lemma wait_completions_quiet: "quiet (wait_completions k children timeout)"
  by (rule quietI) (auto simp: wait_completions_def steady_def dest: completions_steady [where S = UNIV])

lemma wait_child_quiet: "quiet (\<lambda>x. wait_child k i (timeout x) cleanup x)"
  by (rule quietI) (auto simp: steady_def dest: wait_child_steady [where S = UNIV])

lemma stop_child_quiet: "quiet (stop_child k index)"
proof (rule quietI)
  fix x r x' assume "stop_child k index x = (r, x')"
  then show "moves UNIV x x'"
    by (cases index) (auto simp: stop_child_def steady_def dest: stop_child_steady [where S = UNIV, unfolded stop_child_def, simplified])
qed

lemma ready_quiet: "quiet (ready_child k n)"
  by (rule quietI) (auto simp: ready_child_def dest: ready_moves)

lemma spawn_quiet: "quiet (spawn_child k name ready cpus policy priority persistent args notify)"
  by (rule quietI) (auto dest: spawn_moves)


lemma update_moves: "(\<And>c. kept c (f c)) \<Longrightarrow> (\<And>c. ch_done (f c) = ch_done c) \<Longrightarrow> quiet (\<lambda>x. (a, update_child n f x))"
  by (rule quiet_flags) (rule moves_update)

lemma start_ready_quiet:
  assumes "\<And>c. kept c (setup c)" "\<And>c. ch_done (setup c) = ch_done c"
  shows "quiet (start_ready k name ready cpus policy priority persistent args notify setup)"
proof (rule quietI)
  fix x r x' assume x: "start_ready k name ready cpus policy priority persistent args notify setup x = (r, x')"
  obtain q y where q: "spawn_child k name ready cpus policy priority persistent args notify x = (q, y)" by fastforce
  have m: "moves UNIV x y" by (rule quietD [OF spawn_quiet q])
  show "moves UNIV x x'"
  proof (cases q)
    case (Inl e)
    then show ?thesis using x q m by (simp add: start_ready_def)
  next
    case (Inr n)
    obtain r2 z where z: "ready_child k n (update_child n setup y) = (r2, z)" by fastforce
    have u: "moves UNIV x (update_child n setup y)" using moves_trans [OF m moves_update] assms by blast
    have "moves UNIV (update_child n setup y) z" by (rule quietD [OF ready_quiet z])
    then have "moves UNIV x z" by (rule moves_trans [OF u])
    then show ?thesis using x q z Inr by (cases r2) (auto simp: start_ready_def)
  qed
qed

lemma quiet_const: "(\<And>y. quiet (f y)) \<Longrightarrow> quiet (\<lambda>x. f x x)"
  unfolding quiet_def by blast

lemma loader_quiet: "quiet (loader_process k)"
  unfolding loader_process_def Let_def by (rule quiet_const) (rule start_ready_quiet, simp_all)

lemma phc_quiet: "quiet (start_phc_tracking k)"
  unfolding start_phc_tracking_def Let_def by (rule quiet_const) (rule start_ready_quiet, simp_all)

lemma pipe_quiet: "quiet (completion_pipe k)"
  by (rule quiet_world) (auto simp: completion_pipe_def split: prod.splits)

lemma receiver_process_quiet: "quiet (receiver_process k i)"
  unfolding receiver_process_def Let_def
  by (rule quiet_then [OF pipe_quiet], rule quiet_sum, simp, rule quiet_const, rule start_ready_quiet) (simp_all add: kept_def)

lemma sender_process_quiet: "quiet (sender_process k i)"
  unfolding sender_process_def Let_def
  by (rule quiet_then [OF pipe_quiet], rule quiet_sum, simp, rule quiet_const, rule start_ready_quiet) (simp_all add: kept_def)

lemma monitor_quiet: "quiet (monitor_process k)"
proof (rule quietI)
  fix x r x' assume x: "monitor_process k x = (r, x')"
  show "moves UNIV x x'"
  proof (cases "x' = x")
    case False
    have "\<exists>name ready args env. start_ready k name ready None 0 0 True args False id (x\<lparr>x_env := env\<rparr>) = (r, x')"
      using x False by (auto simp: monitor_process_def Let_def split: if_splits option.splits; blast)
    then obtain name ready args y where y: "moves UNIV x y" "start_ready k name ready None 0 0 True args False id y = (r, x')"
      using moves_flags(6) by blast
    have "moves UNIV y x'" by (rule quietD [OF start_ready_quiet y(2)]) simp_all
    then show ?thesis by (rule moves_trans [OF y(1)])
  qed simp
qed

lemma network_quiet: "quiet (network_process k)"
proof (rule quietI)
  fix x r x' assume x: "network_process k x = (r, x')"
  show "moves UNIV x x'"
  proof (cases "x' = x")
    case False
    have "\<exists>name ready cpus args q env. spawn_child k name ready cpus 0 0 True args False (x\<lparr>x_env := env\<rparr>) = (q, x')"
      using x False by (auto simp: network_process_def Let_def split: if_splits sum.splits prod.splits; blast)
    then obtain name ready cpus args q y where y: "moves UNIV x y" "spawn_child k name ready cpus 0 0 True args False y = (q, x')"
      using moves_flags(6) by blast
    then show ?thesis using spawn_moves [OF y(2), of UNIV] moves_trans by blast
  qed simp
qed

lemma wake_quiet: "quiet (wake_receiver k i l)"
proof (rule quietI)
  fix x r x' assume "wake_receiver k i l x = (r, x')"
  then have "x' = x \<or> (\<exists>n. x' = snd (signal_child k n SIGUSR2 x))"
    unfolding wake_receiver_def by (auto split: option.splits if_splits prod.splits intro: exI [of _ "the (lo_flows l ! i)"])
  then show "moves UNIV x x'" using signal_steady [of _ _ UNIV x k] by (auto simp: steady_def)
qed

lemma request_stop_moves: "moves UNIV x (request_stop k n x)"
  using request_stop_steady [of _ UNIV x k] by (cases n) (auto simp: steady_def request_stop_def)

lemma fold_moves: "(\<And>n y. moves UNIV y (f n y)) \<Longrightarrow> moves UNIV x (fold f ns x)"
  by (induction ns arbitrary: x) (auto intro: moves_trans)

lemma stop_flows_quiet: "quiet (stop_flows k l)"
  unfolding stop_flows_def by (intro quiet_flags fold_moves request_stop_moves)

lemma flush_flows_quiet: "quiet (flush_flows k l)"
proof -
  have "moves UNIV y (case n of None \<Rightarrow> y | Some i \<Rightarrow> snd (signal_child k i SIGUSR1 y))" for n and y :: "'a run_context"
    using signal_steady [of _ _ UNIV y k] by (cases n) (auto simp: steady_def)
  then show ?thesis unfolding flush_flows_def by (intro quiet_flags fold_moves)
qed

lemma wait_flow_quiet: "quiet (wait_flow k cleanup i l)"
  unfolding wait_flow_def by (intro quiet_option wait_child_quiet quiet_return)

lemma stop_clock_quiet: "quiet (stop_clock k l)"
  unfolding stop_clock_def by (intro quiet_option quiet_then pause_quiet quiet_outcome stop_child_quiet quiet_return)

lemma network_pause_quiet: "quiet (network_pause k l)"
  unfolding network_pause_def by (intro quiet_if quiet_return pause_quiet)

lemma publish_start_steady:
  assumes x: "roomy x" "publish_start k x = (r, x')"
  shows "steady UNIV x x'"
proof -
  have c: "cut 4096 (in_run_dir x ''start.ns'') = in_run_dir x ''start.ns''"
    "cut 4096 (in_run_dir x ''start.ns'' @ ''.tmp'') = in_run_dir x ''start.ns.tmp''"
    using x(1) by (simp_all add: cut_def in_run_dir_def roomy_def)
  let ?d = "in_run_dir x ''start.ns''" and ?t = "in_run_dir x ''start.ns.tmp''"
  let ?text = "show_int (x_clock x + int (unat (tm_start_delay_ms (cf_timing (x_config x)))) * 1000000) @ [NL]"
  obtain e y where y: "create_file k ?t x = (e, y)" by fastforce
  have m1: "steady UNIV x y" using y by (auto simp: create_file_def split: prod.splits)
  obtain f z where f: "write_file k ?t ?text y = (f, z)" by fastforce
  have m: "steady UNIV x z" by (rule steady_trans [OF m1 write_steady [OF f run_files_unmarked(4)]])
  obtain g v where g: "kn_link k ?t ?d (x_world z) = (g, v)" by fastforce
  have m3: "steady UNIV x (unlink_path k ?t z)" "steady UNIV x (unlink_path k ?t (z\<lparr>x_world := v\<rparr>))"
    "steady UNIV x (unlink_path k ?t (log_event (Wrote ?d ?text) (z\<lparr>x_world := v\<rparr>)))"
    using steady_trans [OF m steady_unlink] steady_trans [OF steady_trans [OF m steady_world] steady_unlink]
      steady_trans [OF steady_trans [OF m steady_wrote [OF run_files_unmarked(3)]] steady_unlink] by blast+
  have "x' \<in> {y, unlink_path k ?t z, unlink_path k ?t (z\<lparr>x_world := v\<rparr>),
      unlink_path k ?t (log_event (Wrote ?d ?text) (z\<lparr>x_world := v\<rparr>))}"
    using x(2) y f g unfolding publish_start_def Let_def c by (auto split: option.splits if_splits)
  then show ?thesis using m1 m3 by blast
qed

lemmas quiet_steps = prepare_environment_quiet capture_state_quiet capture_scheduler_quiet coalesce_quiet calibrate_quiet
  pause_quiet write_run_quiet wait_completions_quiet stop_child_quiet restore_coalesce_quiet restore_partition_quiet
  wake_quiet stop_flows_quiet flush_flows_quiet wait_flow_quiet stop_clock_quiet network_pause_quiet

lemmas quiet_starts = loader_quiet receiver_process_quiet phc_quiet monitor_quiet sender_process_quiet network_quiet

section \<open>The signs of a script\<close>

text \<open>\<open>shows ms f\<close>: the signs of \<open>f\<close> are \<open>ms\<close> where it returns 0, and the first of them where it fails.\<close>

definition shows_signs :: "sign list \<Rightarrow> ('w job \<Rightarrow> outcome \<times> 'w job) \<Rightarrow> bool" where
  "shows_signs ms f \<longleftrightarrow> (\<forall>s r s'. roomy (fst s) \<and> f s = (r, s') \<longrightarrow>
     advances (fst s) (fst s') \<and> prefix (signs (fst s) (fst s')) ms \<and>
     (r = Ok \<longrightarrow> signs (fst s) (fst s') = ms))"

lemma shows_quiet: "(\<And>l. quiet (f l)) \<Longrightarrow> shows_signs [] (act_on f)"
proof -
  assume q: "\<And>l. quiet (f l)"
  have "advances (fst s) (fst s') \<and> signs (fst s) (fst s') = []"
    if "roomy (fst s)" "act_on f s = (r, s')" for s r s'
  proof -
    have "f (snd s) (fst s) = (r, fst s')" using that(2) by (auto simp: act_on_def act_def split: prod.splits)
    note m = quietD [OF q this]
    then show ?thesis using moves_signs [OF m] by (simp add: moves_def)
  qed
  then show ?thesis by (auto simp: shows_signs_def)
qed

lemma act_is_act_on: "act f = act_on (\<lambda>l. f)"
  by (rule ext) (simp add: act_on_def)

lemma shows_act: "quiet f \<Longrightarrow> shows_signs [] (act f)"
  unfolding act_is_act_on by (rule shows_quiet)

lemma shows_publish: "shows_signs [] (act (publish_start k))"
  using publish_start_steady moves_signs unfolding shows_signs_def act_def
  by (fastforce simp: steady_def moves_def split: prod.splits)

lemma shows_start: "quiet f \<Longrightarrow> shows_signs [] (start_as f put)"
proof -
  assume q: "quiet f"
  have "advances (fst s) (fst s') \<and> signs (fst s) (fst s') = []"
    if s: "roomy (fst s)" "start_as f put s = (r, s')" for s r s'
  proof -
    obtain q' where "f (fst s) = (q', fst s')" using s(2) by (auto simp: start_as_def split: prod.splits sum.splits)
    note m = quietD [OF q this]
    then show ?thesis using moves_signs [OF m] by (simp add: moves_def)
  qed
  then show ?thesis by (auto simp: shows_signs_def)
qed

lemma advances_roomy: "advances x x' \<Longrightarrow> roomy x' = roomy x"
  by (simp add: roomy_def advances_def)

lemma signs_advance: "advances x y \<Longrightarrow> advances y z \<Longrightarrow> signs x z = signs x y @ signs y z"
  by (rule signs_trans) (simp_all add: advances_def)

lemma prefix_append_left: "prefix a ms \<Longrightarrow> prefix a (ms @ ns)"
  by (rule prefix_prefix)

lemma shows_Nil: "shows_signs [] (run_steps [])"
  by (auto simp: shows_signs_def)

lemma shows_step:
  assumes "shows_signs ms f" "shows_signs ns (run_steps fs)"
  shows "shows_signs (ms @ ns) (run_steps (f # fs))"
proof -
  have "advances (fst s) (fst s') \<and> prefix (signs (fst s) (fst s')) (ms @ ns) \<and>
      (r = Ok \<longrightarrow> signs (fst s) (fst s') = ms @ ns)" if s: "roomy (fst s)" "run_steps (f # fs) s = (r, s')" for s r s'
  proof -
    obtain q t where t: "f s = (q, t)" by (cases "f s")
    have f: "advances (fst s) (fst t)" "prefix (signs (fst s) (fst t)) ms" "q = Ok \<longrightarrow> signs (fst s) (fst t) = ms"
      using assms(1) s(1) t unfolding shows_signs_def by blast+
    show ?thesis
    proof (cases "q = Ok")
      case True
      then have g: "run_steps fs t = (r, s')" using s(2) t by simp
      have "advances (fst t) (fst s')" "prefix (signs (fst t) (fst s')) ns" "r = Ok \<longrightarrow> signs (fst t) (fst s') = ns"
        using assms(2) advances_roomy [OF f(1)] s(1) g unfolding shows_signs_def by blast+
      moreover have "signs (fst s) (fst s') = ms @ signs (fst t) (fst s')"
        using signs_advance [OF f(1) calculation(1)] f(3) True by simp
      ultimately show ?thesis using advances_trans [OF f(1)] by auto
    next
      case False
      then have "r = q" "s' = t" using s(2) t by (cases q; simp)+
      then show ?thesis using f False by (auto intro: prefix_append_left)
    qed
  qed
  then show ?thesis unfolding shows_signs_def by blast
qed

lemma run_steps_append: "run_steps (fs @ gs) = run_steps (run_steps fs # gs)"
proof
  show "run_steps (fs @ gs) s = run_steps (run_steps fs # gs) s" for s
    by (induction fs arbitrary: s) (auto split: prod.splits outcome.splits)
qed

lemma shows_append: "shows_signs ms (run_steps fs) \<Longrightarrow> shows_signs ns (run_steps gs) \<Longrightarrow> shows_signs (ms @ ns) (run_steps (fs @ gs))"
  unfolding run_steps_append by (rule shows_step)

lemma shows_silent: "(\<And>f. f \<in> set fs \<Longrightarrow> shows_signs [] f) \<Longrightarrow> shows_signs [] (run_steps fs)"
  using shows_step [of "[]" _ "[]"] shows_Nil by (induction fs) auto

text \<open>A message gives its sign, and so does a marker file.\<close>

lemma signs_log: "signs x (log_event e x) = (case sign_of e of None \<Rightarrow> [] | Some m \<Rightarrow> [m])"
  by (simp add: signs_def new_log_def log_event_def map_filter_def split: option.splits)

lemma message_context:
  assumes "message (stop_check k) rounds until ct type writing x = Some (q, ct', bytes, x')"
  shows "steady UNIV x x'"
proof -
  obtain q' rest where "transfer_loop (stop_check k) rounds (type = FAIL) until x [] rest = Some (q', x')"
    using assms unfolding message_def by (auto split: option.splits sum.splits prod.splits if_splits)
  from transfer_steady [OF this] show ?thesis .
qed

lemma steady_control: "ct_receiver ct = ct_receiver (x_control x) \<Longrightarrow> steady S x (x\<lparr>x_control := ct\<rparr>)"
  by (simp add: steady_def) (rule moves_same, simp_all)

lemma message_role: "message stop rounds until ct type writing s = Some (q, ct', bytes, s') \<Longrightarrow> ct_receiver ct' = ct_receiver ct"
  by (auto simp: message_def accept_frame_def Let_def split: option.splits sum.splits prod.splits if_splits)

definition view :: "bool \<Rightarrow> bool \<times> u32 \<Rightarrow> sign" where
  "view receiver m = (if fst m = receiver then Say (snd m) else Hear (snd m))"

lemma message_signs:
  assumes "control_message k type writing timeout x = (r, x')"
  obtains y where "steady UNIV x y" "r \<noteq> Ok \<and> x' = y \<or> r = Ok \<and> x' = log_event (if writing then Sent type else Received type) y"
proof -
  obtain rounds w where w: "kn_rounds k (x_world x) = (rounds, w)" by fastforce
  let ?m = "message (stop_check k) rounds (x_clock x + int timeout * 1000000) (x_control x) type writing (x\<lparr>x_world := w\<rparr>)"
  show thesis
  proof (cases ?m)
    case None
    then show thesis using that [OF steady_refl] assms w by (simp add: control_message_def)
  next
    case (Some a)
    obtain q ct bytes z where a: "a = (q, ct, bytes, z)" by (cases a)
    have m: "steady UNIV (x\<lparr>x_world := w\<rparr>) z" by (rule message_context) (rule Some [unfolded a])
    have "steady UNIV x (z\<lparr>x_control := ct\<rparr>)"
    proof (rule steady_trans [OF steady_trans [OF steady_world m] steady_control])
      have "ct_receiver ct = ct_receiver (x_control x)" by (rule message_role) (rule Some [unfolded a])
      then show "ct_receiver ct = ct_receiver (x_control z)" using m by (simp add: steady_def moves_def advances_def)
    qed
    then show thesis using that [of "z\<lparr>x_control := ct\<rparr>"] assms w Some a by (cases q) (auto simp: control_message_def)
  qed
qed

lemma shows_act_on_context:
  assumes "\<And>x r x'. roomy x \<Longrightarrow> f x = (r, x') \<Longrightarrow>
    \<exists>y e. moves UNIV x y \<and> sign_of e = Some m \<and> (r \<noteq> Ok \<and> x' = y \<or> r = Ok \<and> x' = log_event e y)"
  shows "shows_signs [m] (act f)"
proof -
  have "advances (fst s) (fst s') \<and> signs (fst s) (fst s') = (if r = Ok then [m] else [])"
    if s: "roomy (fst s)" "act f s = (r, s')" for s r s'
  proof -
    have "f (fst s) = (r, fst s')" using s(2) by (auto simp: act_def split: prod.splits)
    then obtain y e0 where y: "moves UNIV (fst s) y" "sign_of e0 = Some m"
      "r \<noteq> Ok \<and> fst s' = y \<or> r = Ok \<and> fst s' = log_event e0 y" using assms [OF s(1)] by blast
    note q = moves_signs [OF y(1)]
    have a: "advances (fst s) y" using y(1) by (simp add: moves_def)
    show ?thesis
    proof (cases "r = Ok")
      case True
      then obtain e where e: "fst s' = log_event e y" "sign_of e = Some m" using y(2,3) by auto
      have p: "advances y (fst s')" using e(2) by (simp add: e advances_def log_event_def)
      then have "signs (fst s) (fst s') = [m]" using signs_advance [OF a p] q e signs_log [of y e] by simp
      then show ?thesis using True advances_trans [OF a p] by simp
    next
      case False
      then show ?thesis using y(3) q a by auto
    qed
  qed
  then show ?thesis by (auto simp: shows_signs_def split: if_splits)
qed

lemma shows_message:
  assumes "sign_of (if writing then Sent t else Received t) = Some m"
  shows "shows_signs [m] (act (control_message k t writing timeout))"
proof (rule shows_act_on_context)
  fix x r x' assume "control_message k t writing timeout x = (r, x')"
  then obtain y where "moves UNIV x y" "r \<noteq> Ok \<and> x' = y \<or> r = Ok \<and> x' = log_event (if writing then Sent t else Received t) y"
    by (rule message_signs) (unfold steady_def, blast)
  then show "\<exists>y e. moves UNIV x y \<and> sign_of e = Some m \<and> (r \<noteq> Ok \<and> x' = y \<or> r = Ok \<and> x' = log_event e y)"
    using assms by blast
qed

lemma shows_send: "shows_signs [Say t] (send_message k t timeout)"
  unfolding send_message_def by (rule shows_message) simp

lemma shows_await: "shows_signs [Hear t] (await_message k t timeout)"
  unfolding await_message_def by (rule shows_message) simp

definition marked :: "'w run_context \<Rightarrow> string \<Rightarrow> outcome \<Rightarrow> event list \<Rightarrow> bool" where
  "marked x name r es \<longleftrightarrow>
     (if r = Ok then \<exists>t. es = [Created (in_run_dir x name), Wrote (in_run_dir x name) t]
      else es = [] \<or> es = [Created (in_run_dir x name)])"

lemma marker_signs:
  assumes "marker k name x = (r, x')"
  obtains y es where "steady UNIV x y" "x' = fold log_event es y" "marked x name r es"
proof -
  let ?p = "in_run_dir x name"
  obtain e y where y: "create_file k ?p x = (e, y)" by fastforce
  have m: "steady UNIV x y" using y by (auto simp: create_file_def split: prod.splits)
  let ?t = "ct_run_id (x_control y) @ [NL]"
  obtain f w where w: "kn_write k ?p ?t (x_world y) = (f, w)" by fastforce
  have m2: "steady UNIV x (y\<lparr>x_world := w\<rparr>)" by (rule steady_trans [OF m steady_world])
  have l: "(log_event (Created ?p) y)\<lparr>x_world := w\<rparr> = log_event (Created ?p) (y\<lparr>x_world := w\<rparr>)"
    "x_control (log_event (Created ?p) y) = x_control y" "x_world (log_event (Created ?p) y) = x_world y" by (simp_all add: log_event_def)
  consider "length ?p \<ge> 4096 \<or> e \<noteq> None" | "length ?p < 4096" "e = None" "f = None" | err where "length ?p < 4096" "e = None" "f = Some err"
    by fastforce
  then show thesis
  proof cases
    case 1
    then have "r \<noteq> Ok \<and> (x' = x \<or> x' = y)" using assms y by (cases e; cases "length ?p \<ge> 4096") (auto simp: marker_def Let_def)
    then show thesis using that [OF steady_refl, of "[]"] that [OF m, of "[]"] by (auto simp: marked_def)
  next
    case 2
    then have "r = Ok" "x' = fold log_event [Created ?p, Wrote ?p ?t] (y\<lparr>x_world := w\<rparr>)"
      using assms y w l by (simp_all add: marker_def write_file_def Let_def)
    with that [OF m2 this(2)] show thesis by (simp add: marked_def)
  next
    case 3
    then have "r \<noteq> Ok" "x' = fold log_event [Created ?p] (y\<lparr>x_world := w\<rparr>)" using assms y w l by (auto simp: marker_def write_file_def Let_def)
    with that [OF m2 this(2)] show thesis by (simp add: marked_def)
  qed
qed

lemma signs_logs: "signs x (fold log_event es x) = List.map_filter sign_of es"
proof -
  have "x_log (fold log_event es x) = x_log x @ es" by (induction es arbitrary: x) (simp_all add: log_event_def)
  then show ?thesis by (simp add: signs_def new_log_def)
qed

lemma advances_logs: "(\<And>j st. Finished j st \<notin> set es) \<Longrightarrow> advances x (fold log_event es x) \<and> x_children (fold log_event es x) = x_children x"
proof (induction es arbitrary: x)
  case (Cons e es)
  have "e \<noteq> Finished j st" for j st using Cons.prems [of j st] by auto
  then have "advances x (log_event e x)" "x_children (log_event e x) = x_children x" by (simp_all add: advances_def log_event_def)
  then show ?case using advances_trans [of x "log_event e x"] Cons.IH [of "log_event e x"] Cons.prems by auto
qed simp

text \<open>The signs of writing a marker: both when it succeeds, and at most the first one when it fails.\<close>

lemma marker_names: "marker_name (in_run_dir x ''.complete'') = Some ''.complete''" "marker_name (in_run_dir x ''.failed'') = Some ''.failed''"
proof -
  have "suffix ''/.failed'' (in_run_dir x ''.failed'')" by (simp add: in_run_dir_def suffix_def)
  moreover have "\<not> suffix ''/.complete'' (in_run_dir x ''.failed'')"
    using suffix_last [of "''/.complete''" "in_run_dir x ''.failed''"] by (auto simp: in_run_dir_def)
  ultimately show "marker_name (in_run_dir x ''.failed'') = Some ''.failed''" by (simp add: marker_name_def)
  show "marker_name (in_run_dir x ''.complete'') = Some ''.complete''" by (simp add: marker_name_def in_run_dir_def suffix_def)
qed

abbreviation mark_signs :: "string \<Rightarrow> sign list" where "mark_signs name \<equiv> [Mark name, Kept name]"

lemma marker_seen:
  assumes "marker k name x = (r, x')" "marker_name (in_run_dir x name) = Some name"
  shows "advances x x' \<and> prefix (signs x x') (mark_signs name) \<and> (r = Ok \<longleftrightarrow> signs x x' = mark_signs name)"
proof -
  obtain y es where y: "steady UNIV x y" "x' = fold log_event es y" "marked x name r es" by (rule marker_signs [OF assms(1)])
  have a: "advances y x'" using advances_logs [of es y] y(2,3) by (auto simp: marked_def split: if_splits)
  have m: "advances x y" "signs x y = []" using y(1) moves_signs [of UNIV x y] by (simp_all add: steady_def moves_def)
  have "signs x x' = List.map_filter sign_of es" using signs_advance [OF m(1) a] m(2) y(2) signs_logs by simp
  moreover have "List.map_filter sign_of es = (if r = Ok then mark_signs name else if es = [] then [] else [Mark name])"
    using y(3) assms(2) by (auto simp: marked_def map_filter_simps)
  ultimately show ?thesis using advances_trans [OF m(1) a] by simp
qed

lemma shows_marker: "shows_signs (mark_signs ''.complete'') (act (marker k ''.complete''))"
  using marker_seen marker_names(1) unfolding shows_signs_def act_def by (fastforce split: prod.splits)

text \<open>The messages of a run, with whether the receiver says them, and the signs of each side.\<close>

definition run_messages :: "(bool \<times> u32) list" where
  "run_messages = [(True, RX_READY), (False, TX_READY), (True, START), (False, STARTED), (False, STOP), (True, DONE), (False, ACK)]"

definition run_signs :: "bool \<Rightarrow> sign list" where
  "run_signs receiver = map (view receiver) run_messages @ mark_signs ''.complete''"

lemma shows_cons_silent: "shows_signs [] f \<Longrightarrow> shows_signs ns (run_steps fs) \<Longrightarrow> shows_signs ns (run_steps (f # fs))"
  using shows_step [of "[]" f ns fs] by simp

lemma shows_cons_sign: "shows_signs [m] f \<Longrightarrow> shows_signs ns (run_steps fs) \<Longrightarrow> shows_signs (m # ns) (run_steps (f # fs))"
  using shows_step [of "[m]" f ns fs] by simp

lemma shows_prefix_silent: "shows_signs [] (run_steps fs) \<Longrightarrow> shows_signs ns (run_steps gs) \<Longrightarrow> shows_signs ns (run_steps (fs @ gs))"
  using shows_append [of "[]" fs ns gs] by simp

lemma receiver_prologue_signs: "shows_signs [] (run_steps (receiver_prologue k c smoke))"
  by (rule shows_silent) (auto simp: receiver_prologue_def Let_def split: if_splits
      intro!: shows_act shows_start quiet_starts quiet_steps quiet_pre [OF coalesce_quiet] moves_flags)

lemma receiver_measure_signs:
  "shows_signs [Say RX_READY, Hear TX_READY, Say START, Hear STARTED, Hear STOP] (run_steps (receiver_measure k c smoke))"
  unfolding receiver_measure_def Let_def append_Cons append_Nil append_assoc
  by (intro shows_cons_sign shows_cons_silent shows_prefix_silent shows_Nil shows_send shows_await shows_act quiet_steps
      shows_silent) (auto split: if_splits intro!: shows_act shows_quiet quiet_steps)

lemma receiver_epilogue_signs: "shows_signs [] (run_steps (receiver_epilogue k c smoke))"
  by (rule shows_silent) (auto simp: receiver_epilogue_def Let_def split: if_splits intro!: shows_act shows_quiet quiet_steps)

lemma pipeline_signs: "shows_signs [Say DONE, Hear ACK] (run_steps (stop_receiver_pipeline k c))"
  unfolding stop_receiver_pipeline_def Let_def
  by (intro shows_cons_sign shows_cons_silent shows_Nil shows_send shows_await shows_act shows_quiet quiet_steps)

text \<open>Where the last step gives the last signs, a script that fails does not show all of them.\<close>

lemma shows_last:
  assumes "shows_signs ms (run_steps fs)" "\<And>s r s'. roomy (fst s) \<Longrightarrow> f s = (r, s') \<Longrightarrow> r \<noteq> Ok \<Longrightarrow> signs (fst s) (fst s') \<noteq> ns"
    and "shows_signs ns f" "ns \<noteq> []" "roomy (fst s)" "run_steps (fs @ [f]) s = (r, s')"
  shows "advances (fst s) (fst s') \<and> prefix (signs (fst s) (fst s')) (ms @ ns) \<and> (r = Ok \<longleftrightarrow> signs (fst s) (fst s') = ms @ ns)"
proof -
  have "shows_signs (ns @ []) (run_steps [f])" by (rule shows_step [OF assms(3) shows_Nil])
  then have "shows_signs (ms @ ns) (run_steps (fs @ [f]))" using shows_append [OF assms(1)] by simp
  then have all: "advances (fst s) (fst s')" "prefix (signs (fst s) (fst s')) (ms @ ns)" "r = Ok \<longrightarrow> signs (fst s) (fst s') = ms @ ns"
    using assms(5,6) unfolding shows_signs_def by blast+
  obtain q t where t: "run_steps fs s = (q, t)" by (cases "run_steps fs s")
  have f: "advances (fst s) (fst t)" "prefix (signs (fst s) (fst t)) ms" "q = Ok \<longrightarrow> signs (fst s) (fst t) = ms"
    using assms(1,5) t unfolding shows_signs_def by blast+
  have room: "roomy (fst t)" using advances_roomy [OF f(1)] assms(5) by simp
  have "signs (fst s) (fst s') \<noteq> ms @ ns" if "r \<noteq> Ok"
  proof (cases "q = Ok")
    case True
    then have g: "f t = (r, s')" using assms(6) t by (auto simp: run_steps_append split: prod.splits outcome.splits)
    have "advances (fst t) (fst s')" using assms(3) room g unfolding shows_signs_def by blast
    from signs_advance [OF f(1) this] assms(2) [OF room g that] f(3) True show ?thesis by simp
  next
    case False
    then have "s' = t" using assms(6) t by (cases q) (auto simp: run_steps_append)
    then show ?thesis using prefix_length_le [OF f(2)] assms(4) by (metis append_Nil2 length_append length_greater_0_conv less_add_same_cancel1 not_le)
  qed
  with all show ?thesis by blast
qed

lemma marker_partial:
  "act (marker k ''.complete'') s = (r, s') \<Longrightarrow> r \<noteq> Ok \<Longrightarrow> signs (fst s) (fst s') \<noteq> mark_signs ''.complete''"
proof -
  assume a: "act (marker k ''.complete'') s = (r, s')" "r \<noteq> Ok"
  then have "marker k ''.complete'' (fst s) = (r, fst s')" by (auto simp: act_def split: prod.splits)
  from marker_seen [OF this marker_names(1)] a(2) show ?thesis by blast
qed

lemma script_signs:
  assumes "shows_signs ms (run_steps fs)" "roomy x" "run_steps (fs @ [act (marker k ''.complete'')]) (x, l) = (r, s')"
  shows "advances x (fst s') \<and> prefix (signs x (fst s')) (ms @ mark_signs ''.complete'') \<and>
    (r = Ok \<longleftrightarrow> signs x (fst s') = ms @ mark_signs ''.complete'')"
proof -
  have "roomy (fst (x, l))" using assms(2) by simp
  from shows_last [OF assms(1) marker_partial shows_marker _ this assms(3)] show ?thesis by simp
qed

lemma receiver_signs:
  assumes "roomy x" "receiver_run k x = (r, x')"
  shows "advances x x' \<and> prefix (signs x x') (run_signs True) \<and> (r = Ok \<longleftrightarrow> signs x x' = run_signs True)"
proof -
  let ?c = "x_config x" and ?m = "smoke_mode x"
  let ?pre = "receiver_prologue k ?c ?m @ receiver_measure k ?c ?m @ receiver_epilogue k ?c ?m @ stop_receiver_pipeline k ?c @
    [act (capture_state k ''after''), act (restore_cpu_partition k), act (write_run k ''completed'')]"
  have "shows_signs ([] @ [Say RX_READY, Hear TX_READY, Say START, Hear STARTED, Hear STOP] @ [] @ [Say DONE, Hear ACK] @ []) (run_steps ?pre)"
    by (intro shows_append receiver_prologue_signs receiver_measure_signs receiver_epilogue_signs pipeline_signs
        shows_cons_silent shows_Nil shows_act quiet_steps)
  moreover have "[] @ [Say RX_READY, Hear TX_READY, Say START, Hear STARTED, Hear STOP] @ [] @ [Say DONE, Hear ACK] @ [] = map (view True) run_messages"
    by (simp add: run_messages_def view_def)
  ultimately have pre: "shows_signs (map (view True) run_messages) (run_steps ?pre)" by simp
  obtain s' where s: "run_steps (?pre @ [act (marker k ''.complete'')]) (x, no_locals) = (r, s')" "x' = fst s'"
    using assms(2) by (auto simp: receiver_run_def closing_steps_def Let_def split: prod.splits)
  from script_signs [OF pre assms(1) s(1)] show ?thesis by (simp add: s(2) run_signs_def)
qed

lemma sender_prologue_signs: "shows_signs [Hear RX_READY] (run_steps (sender_prologue k c))"
proof -
  have "shows_signs [] (run_steps (map (\<lambda>i. start_as (sender_process k i) (put_flow i)) (enabled_flows c)))"
    by (rule shows_silent) (auto intro!: shows_start quiet_starts)
  then show ?thesis unfolding sender_prologue_def Let_def append_Cons append_Nil append_assoc
    by (intro shows_cons_sign shows_cons_silent shows_prefix_silent shows_Nil shows_await shows_act shows_quiet shows_start quiet_steps quiet_starts)
qed

lemma sender_measure_signs: "shows_signs [Say TX_READY, Hear START, Say STARTED, Say STOP, Hear DONE] (run_steps (sender_measure k c))"
  unfolding sender_measure_def Let_def
  by (intro shows_cons_sign shows_cons_silent shows_Nil shows_send shows_await shows_publish shows_act shows_quiet quiet_steps)

lemma sender_epilogue_signs:
  "shows_signs [Say ACK] (run_steps ([act_on (flush_flows k)] @ map (\<lambda>i. act_on (wait_flow k False i)) [0, 1, 2] @
    [act_on (\<lambda>l. stop_child k (lo_load l)), act (capture_state k ''after''), act (write_run k ''completed''),
     send_message k ACK timeout]))"
  unfolding append_Cons append_Nil append_assoc list.map
  by (intro shows_cons_sign shows_cons_silent shows_Nil shows_send shows_act shows_quiet quiet_steps)

lemma sender_signs:
  assumes "roomy x" "sender_run k x = (r, x')"
  shows "advances x x' \<and> prefix (signs x x') (run_signs False) \<and> (r = Ok \<longleftrightarrow> signs x x' = run_signs False)"
proof -
  let ?c = "x_config x"
  let ?pre = "sender_prologue k ?c @ sender_measure k ?c @ [act_on (flush_flows k)] @ map (\<lambda>i. act_on (wait_flow k False i)) [0, 1, 2] @
    [act_on (\<lambda>l. stop_child k (lo_load l)), act (capture_state k ''after''), act (write_run k ''completed''),
     send_message k ACK (unat (tm_stop_ms (cf_timing ?c)))]"
  have "shows_signs ([Hear RX_READY] @ [Say TX_READY, Hear START, Say STARTED, Say STOP, Hear DONE] @ [Say ACK]) (run_steps ?pre)"
    by (rule shows_append [OF sender_prologue_signs shows_append [OF sender_measure_signs sender_epilogue_signs]])
  moreover have "[Hear RX_READY] @ [Say TX_READY, Hear START, Say STARTED, Say STOP, Hear DONE] @ [Say ACK] = map (view False) run_messages"
    by (simp add: run_messages_def view_def)
  ultimately have pre: "shows_signs (map (view False) run_messages) (run_steps ?pre)" by simp
  obtain s' where s: "run_steps (?pre @ [act (marker k ''.complete'')]) (x, no_locals) = (r, s')" "x' = fst s'"
    using assms(2) by (auto simp: sender_run_def sender_epilogue_def Let_def split: prod.splits)
  from script_signs [OF pre assms(1) s(1)] show ?thesis by (simp add: s(2) run_signs_def)
qed

section \<open>The runs of a suite\<close>

lemma signs_same: "x_log y = x_log x \<Longrightarrow> signs y z = signs x z"
  by (simp add: signs_def new_log_def)

text \<open>A run begins in silence, without children, and with room in its directory.\<close>

definition fresh_run :: "'w run_context \<Rightarrow> 'w run_context \<Rightarrow> bool" where
  "fresh_run x x' \<longleftrightarrow> prefix (x_log x) (x_log x') \<and> signs x x' = [] \<and> ct_receiver (x_control x') = ct_receiver (x_control x) \<and>
     x_config x' = x_config x \<and> x_children x' = []"

lemma fresh_runI:
  "x_log x' = x_log x \<Longrightarrow> ct_receiver (x_control x') = ct_receiver (x_control x) \<Longrightarrow> x_config x' = x_config x \<Longrightarrow>
     x_children x' = [] \<Longrightarrow> fresh_run x x'"
  by (simp add: fresh_run_def signs_def new_log_def map_filter_def)

lemma fresh_run_steady:
  assumes "fresh_run x y" "steady UNIV y z"
  shows "fresh_run x z"
proof -
  have mv: "moves UNIV y z" "length (x_children z) = length (x_children y)" using assms(2) by (simp_all add: steady_def)
  have m: "prefix (x_log y) (x_log z)" "signs y z = []" "x_config z = x_config y" using moves_signs [OF mv(1)] by simp_all
  have r: "ct_receiver (x_control z) = ct_receiver (x_control y)" using mv(1) by (simp add: moves_def advances_def)
  have f: "prefix (x_log x) (x_log y)" "signs x y = []" using assms(1) by (simp_all add: fresh_run_def)
  have "signs x z = []" using signs_trans [OF f(1) m(1)] f(2) m(2) by simp
  then show ?thesis using prefix_order.trans [OF f(1) m(1)] assms(1) m(3) r mv(2) by (simp add: fresh_run_def)
qed

lemma describe_run_steady: "describe_run k run_id x = (r, x') \<Longrightarrow> steady UNIV x x' \<and> (r = Ok \<longrightarrow> roomy x)"
  using steady_trans [OF _ steady_world, of UNIV x]
  by (auto simp: describe_run_def split: prod.splits outcome.splits option.splits dest!: write_run_steady)

lemma begin_run_result:
  assumes "begin_run k x = (r, x')"
  shows "fresh_run x x' \<and> (r = Ok \<longrightarrow> roomy x')"
proof -
  let ?id = "run_name (x_config x) (x_mode x) (x_repeat x)"
  let ?d = "x_suite x @ ''/runs/'' @ ?id"
  obtain e w where e: "kn_mkdir k ?d (x_world x) = (e, w)" by fastforce
  define y where "y = x\<lparr>x_children := [], x_release_attempts := 0, x_control := (x_control x)\<lparr>ct_run_id := ?id\<rparr>,
    x_run_dir := ?d, x_owns_run := True, x_world := w\<rparr>"
  have y: "fresh_run x y" by (rule fresh_runI) (simp_all add: y_def)
  show ?thesis
  proof (cases "length ?id \<ge> 128 \<or> length ?d \<ge> 4096 \<or> e \<noteq> None")
    case True
    then have "r \<noteq> Ok \<and> x_log x' = x_log x \<and> ct_receiver (x_control x') = ct_receiver (x_control x) \<and> x_config x' = x_config x \<and> x_children x' = []"
      using assms e by (auto simp: begin_run_def Let_def split: if_splits)
    then show ?thesis using fresh_runI by blast
  next
    case False
    then have "describe_run k ?id y = (r, x')" using assms e by (simp add: begin_run_def Let_def y_def)
    from describe_run_steady [OF this] show ?thesis
      using fresh_run_steady [OF y] moves_roomy [of UNIV y x'] by (auto simp: steady_def)
  qed
qed

lemma one_run_signs:
  assumes "one_run k repeat position x = (r, x')"
  shows "prefix (x_log x) (x_log x') \<and> ct_receiver (x_control x') = ct_receiver (x_control x) \<and>
    prefix (signs x x') (run_signs (ct_receiver (x_control x))) \<and> (r = Ok \<longleftrightarrow> signs x x' = run_signs (ct_receiver (x_control x)))"
proof -
  define x0 where "x0 = x\<lparr>x_repeat := repeat, x_control := (x_control x)\<lparr>ct_index := ct_index (x_control x) + 1\<rparr>,
    x_mode := cf_modes (x_config x) ! unat (run_mode_index (x_config x) (of_nat repeat) (of_nat position))\<rparr>"
  have x0: "x_log x0 = x_log x" "ct_receiver (x_control x0) = ct_receiver (x_control x)" by (simp_all add: x0_def)
  obtain q y where y: "begin_run k x0 = (q, y)" by fastforce
  note b = begin_run_result [OF y, unfolded fresh_run_def] signs_same [OF x0(1)]
  show ?thesis
  proof (cases "q = Ok")
    case False
    then have "r = q" "x' = y" using assms y by (cases q; simp add: one_run_def Let_def flip: x0_def)+
    moreover have "[] \<noteq> run_signs (ct_receiver (x_control x))" by (simp add: run_signs_def)
    ultimately show ?thesis using b x0 False by simp
  next
    case True
    then have run: "(if ct_receiver (x_control y) then receiver_run k y else sender_run k y) = (r, x')"
      using assms y by (simp add: one_run_def Let_def flip: x0_def)
    have s: "advances y x'" "prefix (signs y x') (run_signs (ct_receiver (x_control y)))" "r = Ok \<longleftrightarrow> signs y x' = run_signs (ct_receiver (x_control y))"
      using run receiver_signs [of y k r x'] sender_signs [of y k r x'] b True by (auto split: if_splits)
    have "prefix (x_log x) (x_log y)" "prefix (x_log y) (x_log x')" using b x0 s(1) by (auto simp: advances_def)
    moreover have "signs x x' = signs y x'" using signs_trans [OF calculation] b by simp
    ultimately show ?thesis using s b x0 prefix_order.trans by (auto simp: advances_def)
  qed
qed

text \<open>What follows a failure shows at most that the run failed.\<close>

lemma cleanup_moves: "moves UNIV x (cleanup_children k x)"
proof -
  obtain y where "steady (not_loader x) x y" "moves UNIV y (cleanup_children k x)" by (rule cleanup_parts [of x k])
  then show ?thesis using moves_trans [of UNIV x y] moves_mono [of "not_loader x" x y UNIV] by (simp add: steady_def)
qed

definition seen :: "'w run_context \<Rightarrow> sign list \<Rightarrow> 'w run_context \<Rightarrow> bool" where
  "seen x ms x' \<longleftrightarrow> advances x x' \<and> signs x x' = ms"

lemma seen_trans: "seen x ms y \<Longrightarrow> seen y ns z \<Longrightarrow> seen x (ms @ ns) z"
  using advances_trans [of x y z] signs_advance [of x y z] by (simp add: seen_def)

lemma seen_moves: "moves UNIV x y \<Longrightarrow> seen x [] y"
  using moves_signs [of UNIV x y] by (simp add: seen_def moves_def)

lemma seen_log: "sign_of e = Some m \<Longrightarrow> seen x [m] (log_event e x)"
  using signs_log [of x e] by (simp add: seen_def advances_def log_event_def)

lemma message_seen: "control_message k type True timeout x = (r, x') \<Longrightarrow> seen x (if r = Ok then [Say type] else []) x'"
  using seen_trans [OF seen_moves seen_log [of "Sent type" "Say type"]] by (auto elim!: message_signs simp: steady_def intro: seen_moves)

text \<open>The signs of a failure: the message if it could be sent, then the marker if there is a run, as far as it was written.\<close>

definition failure_signs :: "sign list \<Rightarrow> bool" where
  "failure_signs ms \<longleftrightarrow> (\<exists>say mark. ms = say @ mark \<and> prefix say [Say FAIL] \<and> prefix mark (mark_signs ''.failed''))"

lemma failed_seen: "marker k ''.failed'' x = (r, x') \<Longrightarrow> \<exists>ms. seen x ms x' \<and> prefix ms (mark_signs ''.failed'')"
  using marker_seen [of k "''.failed''" x r x'] marker_names(2) by (auto simp: seen_def)

lemma fail_run_seen: "\<exists>ms. seen x ms (fail_run k x) \<and> failure_signs ms"
proof -
  obtain r1 x1 where c: "control_message k FAIL True 1000 x = (r1, x1)" by fastforce
  obtain r2 x2 where p: "restore_cpu_partition k (cleanup_children k x1) = (r2, x2)" by fastforce
  have s2: "seen x1 [] x2" by (rule seen_moves) (rule moves_trans [OF cleanup_moves quietD [OF restore_partition_quiet p]])
  obtain r3 x3 where w: "write_run k ''failed'' x2 = (r3, x3)" by fastforce
  have s3: "seen x2 [] x3" by (rule seen_moves) (rule quietD [OF write_run_quiet w])
  obtain r4 x4 where f: "marker k ''.failed'' x3 = (r4, x4)" by fastforce
  obtain ms where ms: "seen x3 ms x4" "prefix ms (mark_signs ''.failed'')" using failed_seen [OF f] by blast
  let ?say = "if r1 = Ok then [Say FAIL] else []"
  have e: "fail_run k x = (if x_owns_run x2 then x4 else x2)" using c p w f by (simp add: fail_run_def Let_def)
  have a: "seen x ?say x2" using seen_trans [OF message_seen [OF c] s2] by simp
  have b: "seen x (?say @ ms) x4" using seen_trans [OF a seen_trans [OF s3 ms(1)]] by simp
  have "prefix ?say [Say FAIL]" by simp
  then have "failure_signs (?say @ [])" "failure_signs (?say @ ms)" unfolding failure_signs_def using ms(2) Nil_prefix by blast+
  moreover have "seen x (?say @ []) x2" using a by simp
  ultimately show ?thesis using e b by metis
qed

lemma suite_signs:
  "run_all k schedule x = (failed, x') \<Longrightarrow> prefix (x_log x) (x_log x') \<and>
    (\<exists>n part rest. signs x x' = concat (replicate n (run_signs (ct_receiver (x_control x)))) @ part @ rest \<and>
    (if failed then n < length schedule \<and> strict_prefix part (run_signs (ct_receiver (x_control x))) \<and> failure_signs rest
     else n = length schedule \<and> part = [] \<and> rest = []))"
proof (induction schedule arbitrary: x)
  case Nil
  then show ?case by simp
next
  case (Cons rp schedule)
  obtain repeat position where rp: "rp = (repeat, position)" by fastforce
  obtain r y where y: "one_run k repeat position x = (r, y)" by fastforce
  note o = one_run_signs [OF y]
  let ?full = "run_signs (ct_receiver (x_control x))"
  show ?case
  proof (cases "r = Ok")
    case True
    then have run: "run_all k schedule y = (failed, x')" using Cons.prems rp y by simp
    have role: "ct_receiver (x_control y) = ct_receiver (x_control x)" using o by blast
    from Cons.IH [OF run, unfolded role] obtain n part rest where n: "prefix (x_log y) (x_log x')"
      "signs y x' = concat (replicate n ?full) @ part @ rest"
      "if failed then n < length schedule \<and> strict_prefix part ?full \<and> failure_signs rest
       else n = length schedule \<and> part = [] \<and> rest = []" by blast
    have p: "prefix (x_log x) (x_log y)" using o by blast
    have "signs x x' = concat (replicate (Suc n) ?full) @ part @ rest"
      using signs_trans [OF p n(1)] n(2) o True by simp
    then show ?thesis using n(3) prefix_order.trans [OF p n(1)] by (intro conjI exI [of _ "Suc n"] exI [of _ part] exI [of _ rest]) auto
  next
    case False
    then have f: "failed" "x' = fail_run k y" using Cons.prems rp y by (cases r; simp)+
    obtain ms where ms: "seen y ms (fail_run k y)" "failure_signs ms" using fail_run_seen by blast
    have p: "prefix (x_log x) (x_log y)" "prefix (x_log y) (x_log x')" using o ms(1) f by (auto simp: seen_def advances_def)
    have "signs x x' = concat (replicate 0 ?full) @ signs x y @ ms" using signs_trans [OF p] ms(1) f by (simp add: seen_def)
    moreover have "strict_prefix (signs x y) ?full" using o False by (auto simp: strict_prefix_def)
    ultimately show ?thesis using f(1) ms(2) prefix_order.trans [OF p]
      by (intro conjI exI [of _ 0] exI [of _ "signs x y"] exI [of _ ms]) auto
  qed
qed

text \<open>
  Property C10.  The two coordinators follow one protocol, and the marker of completion is written and
  synchronised exactly for the runs that succeeded.  The messages and marker files of a suite of runs are, in
  this order: for every run that succeeded all messages of \<open>run_messages\<close> as the coordinator's side
  sees them, then the marker of completion, created and written; for the run that failed, if there is one, a proper
  beginning of these, which holds a created marker of completion only when all messages were exchanged and
  writing the marker failed; and then at most the message FAIL and the marker of failure.  Without a
  failure every run of the schedule is complete.
\<close>

theorem suite_follows_protocol:
  assumes "run_all k schedule x = (failed, x')"
  shows "\<exists>n part rest. signs x x' = concat (replicate n (run_signs (ct_receiver (x_control x)))) @ part @ rest \<and>
    (if failed then n < length schedule \<and> strict_prefix part (run_signs (ct_receiver (x_control x))) \<and> failure_signs rest
     else n = length schedule \<and> part = [] \<and> rest = [])"
  using suite_signs [OF assms] by blast

section \<open>A run that succeeds\<close>

text \<open>
  A sending coordinator without flows whose peer answers: the world holds what each message moves.
\<close>

definition peer_kernel :: "byte list list kernel" where
  "peer_kernel = \<lparr>kn_wait = \<lambda>pid w. (Ended 0, w), kn_wait_block = \<lambda>pid w. (0, w), kn_sleep = \<lambda>w. (0, False, w),
     kn_spawn = \<lambda>name what w. (Inr 100, w), kn_kill = \<lambda>pid sig w. (None, w), kn_lstat = \<lambda>path w. (Inr (True, 1), w),
     kn_placement = \<lambda>pid w. (Inr ({}, 0, 0), w), kn_unlink = \<lambda>path w. (None, w), kn_poll = \<lambda>w. (0, False, Poll_timeout, w),
     kn_rounds = \<lambda>w. (map one_round (take 1 w), drop 1 w), kn_write = \<lambda>path content w. (None, w), kn_affinity = \<lambda>w. (Inr {}, w),
     kn_set_affinity = \<lambda>cpus w. (None, w), kn_set_policy = \<lambda>policy priority w. (None, w), kn_adopted = \<lambda>w. w, kn_pid = 42,
     kn_pipe = \<lambda>w. (Inr 7, w), kn_mkdir = \<lambda>path w. (None, w), kn_isdir = \<lambda>path w. (True, w), kn_rename = \<lambda>from to w. (None, w),
     kn_link = \<lambda>from to w. (None, w), kn_manifest = \<lambda>path run condition w. (None, w), kn_access = \<lambda>path execute w. (None, w),
     kn_realpath = \<lambda>path w. (Inr path, w), kn_listen = \<lambda>w. (None, w), kn_accept = \<lambda>w. (Inr (replicate 16 1), w),
     kn_connect = \<lambda>w. (Inr True, w), kn_lock = \<lambda>w. (None, w), kn_create = \<lambda>path w. (None, w), kn_subreaper = \<lambda>w. (None, w),
     kn_chdir = \<lambda>path w. (None, w)\<rparr>"

definition quiet_setup :: run_config where
  "quiet_setup = sample_shared\<lparr>cf_modes := [''socket-only''], cf_flows := [zero_flow, zero_flow, zero_flow]\<rparr>"

lemma peer_sel [simp]:
  "kn_wait peer_kernel pid w = (Ended 0, w)" "kn_spawn peer_kernel name what w = (Inr 100, w)" "kn_unlink peer_kernel path w = (None, w)"
  "kn_rounds peer_kernel w = (map one_round (take 1 w), drop 1 w)" "kn_write peer_kernel path content w = (None, w)"
  "kn_affinity peer_kernel w = (Inr {}, w)" "kn_mkdir peer_kernel path w = (None, w)" "kn_rename peer_kernel from to w = (None, w)"
  "kn_link peer_kernel from to w = (None, w)" "kn_manifest peer_kernel path run condition w = (None, w)" "kn_create peer_kernel path w = (None, w)"
  by (simp_all add: peer_kernel_def)

text \<open>The state between two steps: \<open>n\<close> helper programs have ended, and the world has the messages \<open>ws\<close> left.\<close>

definition in_step :: "control \<Rightarrow> string \<Rightarrow> nat \<Rightarrow> byte list list \<Rightarrow> byte list list job \<Rightarrow> bool" where
  "in_step ct dir n ws s \<longleftrightarrow>
     x_world (fst s) = ws \<and> length (x_children (fst s)) = n \<and> list_all (\<lambda>c. ch_done c \<and> \<not> child_failed c) (x_children (fst s)) \<and>
     \<not> x_stopping (fst s) \<and> 0 \<le> x_clock (fst s) \<and> x_control (fst s) = ct \<and> x_config (fst s) = quiet_setup \<and>
     x_mode (fst s) = ''socket-only'' \<and> x_run_dir (fst s) = dir \<and> snd s = no_locals"

definition goes :: "('s \<Rightarrow> bool) \<Rightarrow> ('s \<Rightarrow> outcome \<times> 's) \<Rightarrow> ('s \<Rightarrow> bool) \<Rightarrow> bool" where
  "goes P f Q \<longleftrightarrow> (\<forall>s. P s \<longrightarrow> (\<exists>s'. f s = (Ok, s') \<and> Q s'))"

lemma goes_Nil: "goes P (run_steps []) P"
  by (simp add: goes_def)

lemma goes_Cons: "goes P f Q \<Longrightarrow> goes Q (run_steps fs) R \<Longrightarrow> goes P (run_steps (f # fs)) R"
  by (fastforce simp: goes_def)

lemma reap_children_done: "list_all (\<lambda>c. ch_done c \<and> \<not> child_failed c) cs \<Longrightarrow> reap_children k i cs w = (False, cs, [], w)"
  by (induction cs arbitrary: i) (simp_all add: reap_one_def)

lemma reap_done: "in_step ct dir n ws s \<Longrightarrow> reap k (fst s) = (False, fst s)"
  by (simp add: in_step_def reap_def reap_children_done)

lemma reap_children_last:
  assumes "list_all (\<lambda>c. ch_done c \<and> \<not> child_failed c) cs" "\<not> ch_done c" "\<not> ch_persistent c"
  shows "reap_children peer_kernel i (cs @ [c]) w = (False, cs @ [c\<lparr>ch_status := 0, ch_done := True\<rparr>], [Finished (i + length cs) 0], w)"
  using assms by (induction cs arbitrary: i) (simp_all add: reap_one_def child_failed_def WIFEXITED_def WEXITSTATUS_def)

lemma one_round_moved:
  assumes "in_step ct dir n ws s" "length bs = length buffer" "bs \<noteq> []" "0 < until"
  shows "transfer_loop (stop_check peer_kernel) [one_round bs] False until (fst s) [] buffer = Some (Inr bs, fst s)"
proof -
  obtain b rest where b: "buffer = b # rest" using assms(2,3) by (cases buffer) auto
  have same: "(fst s)\<lparr>x_clock := max (x_clock (fst s)) (ir_now (one_round bs)), x_stopping := (x_stopping (fst s) \<or> ir_stop (one_round bs))\<rparr> = fst s"
    using assms(1) by (cases "fst s") (auto simp: one_round_def in_step_def)
  have "\<not> x_stopping (fst s)" using assms(1) by (simp add: in_step_def)
  then have "stop_check peer_kernel (one_round bs) (fst s) = (False, fst s)"
    using reap_done [OF assms(1), of peer_kernel] unfolding stop_check_def same by (simp add: stop_or_reap_def)
  then show ?thesis using assms(2-4) by (simp add: b) (simp add: one_round_def)
qed

lemma goes_say:
  assumes "control_ok ct" "length bs = FRAME_SIZE" "type \<noteq> FAIL" "0 < timeout"
  shows "goes (in_step ct dir n (bs # ws)) (send_message peer_kernel type timeout) (in_step ct dir n ws)"
  unfolding goes_def
proof (intro allI impI)
  fix s assume s: "in_step ct dir n (bs # ws) s"
  let ?t = "((fst s)\<lparr>x_world := ws\<rparr>, snd s)"
  have t: "in_step ct dir n ws ?t" using s by (simp add: in_step_def)
  have len: "length bs = length (frame_bytes (outgoing_frame ct type))" using length_frame_bytes [OF outgoing_frame_ok [OF assms(1)]] assms(2) by simp
  have "bs \<noteq> []" "0 < x_clock (fst s) + int timeout * 1000000" using assms(2,4) s by (auto simp: in_step_def)
  moreover have e: "(fst s)\<lparr>x_world := ws, x_control := ct\<rparr> = (fst s)\<lparr>x_world := ws\<rparr>" using s by (cases "fst s") (simp add: in_step_def)
  ultimately have "send_message peer_kernel type timeout s = (Ok, (log_event (Sent type) (fst ?t), snd s))"
    using one_round_moved [OF t len] s assms(3)
    by (simp add: send_message_def act_def control_message_def message_def in_step_def) (simp only: e)
  moreover have "in_step ct dir n ws (log_event (Sent type) (fst ?t), snd s)" using t by (simp add: in_step_def log_event_def)
  ultimately show "\<exists>s'. send_message peer_kernel type timeout s = (Ok, s') \<and> in_step ct dir n ws s'" by blast
qed

lemma goes_hear:
  assumes "control_ok ct" "type \<noteq> FAIL" "type \<noteq> HELLO" "0 < timeout"
  shows "goes (in_step ct dir n (frame_bytes (outgoing_frame ct type) # ws)) (await_message peer_kernel type timeout) (in_step ct dir n ws)"
  unfolding goes_def
proof (intro allI impI)
  let ?bs = "frame_bytes (outgoing_frame ct type)"
  fix s assume s: "in_step ct dir n (?bs # ws) s"
  let ?t = "((fst s)\<lparr>x_world := ws\<rparr>, snd s)"
  have t: "in_step ct dir n ws ?t" using s by (simp add: in_step_def)
  have len: "length ?bs = length (replicate FRAME_SIZE (0 :: byte))" using length_frame_bytes [OF outgoing_frame_ok [OF assms(1)]] by simp
  then have "?bs \<noteq> []" by (metis length_replicate list.size(3) zero_neq_numeral)
  moreover have "0 < x_clock (fst s) + int timeout * 1000000" using assms(4) s by (auto simp: in_step_def)
  ultimately have m: "transfer_loop (stop_check peer_kernel) [one_round ?bs] False (x_clock (fst s) + int timeout * 1000000) (fst ?t) [] (replicate FRAME_SIZE 0) =
      Some (Inr ?bs, fst ?t)" using one_round_moved [OF t len] by blast
  have "fst (accept_frame ct type (outgoing_frame ct type)) = Inr ()" using accept_outgoing [OF assms(1)] by (simp add: same_run_def)
  then have a: "accept_frame ct type (outgoing_frame ct type) = (Inr (), ct)"
    using accept_learns [of ct type "outgoing_frame ct type"] assms(3) by (cases "accept_frame ct type (outgoing_frame ct type)") auto
  have e: "(fst s)\<lparr>x_world := ws, x_control := ct\<rparr> = (fst s)\<lparr>x_world := ws\<rparr>" using s by (cases "fst s") (simp add: in_step_def)
  have f: "frame_of ?bs = outgoing_frame ct type" by (rule frame_of_bytes [OF outgoing_frame_ok [OF assms(1)]])
  have "await_message peer_kernel type timeout s = (Ok, (log_event (Received type) (fst ?t), snd s))"
    using s assms(2) m a f
    by (simp add: await_message_def act_def control_message_def message_def in_step_def) (simp only: e)
  moreover have "in_step ct dir n ws (log_event (Received type) (fst ?t), snd s)" using t by (simp add: in_step_def log_event_def)
  ultimately show "\<exists>s'. await_message peer_kernel type timeout s = (Ok, s') \<and> in_step ct dir n ws s'" by blast
qed

lemma goes_tool:
  assumes "n < MAX_CHILDREN" "length dir + length name + 5 < 4096"
  shows "goes (in_step ct dir n ws) (act (run_tool peer_kernel name args timeout False)) (in_step ct dir (Suc n) ws)"
  unfolding goes_def
proof (intro allI impI)
  fix s assume s: "in_step ct dir n ws s"
  let ?x = "fst s" and ?c = "new_child 100 name [] {} 0 0 False False"
  let ?what = "\<lparr>la_args = args, la_cpus = {}, la_policy = 0, la_priority = 0, la_group = join_receiver_partition ?x name, la_env = x_env ?x\<rparr>"
  let ?y = "log_event (Spawned n name ?what) (?x\<lparr>x_children := x_children ?x @ [?c]\<rparr>)"
  let ?z = "?y\<lparr>x_children := x_children ?x @ [?c\<lparr>ch_status := 0, ch_done := True\<rparr>], x_log := x_log ?y @ [Finished n 0]\<rparr>"
  have w: "x_world ?x = ws" "length (x_children ?x) = n" "x_run_dir ?x = dir" "\<not> x_stopping ?x"
    and d: "list_all (\<lambda>c. ch_done c \<and> \<not> child_failed c) (x_children ?x)" using s by (simp_all add: in_step_def)
  have sp: "spawn_child peer_kernel name [] None 0 0 False args False ?x = (Inr n, ?y)"
    using assms w by (simp add: spawn_child_def Let_def log_event_def)
  have nc: "\<not> ch_done ?c" "\<not> ch_persistent ?c" by (simp_all add: new_child_def)
  have rp: "reap peer_kernel ?y = (False, ?z)"
    using reap_children_last [OF d nc, of 0 ws] w by (simp add: reap_def log_event_def)
  have wl: "wait_loop peer_kernel n until False ?y = (Ok, ?z)" for until
    using w rp nc by (subst wait_loop.simps) (simp add: log_event_def nth_append)
  have wv: "wait_verdict peer_kernel n ?z = (Ok, ?z)"
    using w by (simp add: wait_verdict_def nth_append new_child_def WIFEXITED_def WEXITSTATUS_def Let_def)
  have "act (run_tool peer_kernel name args timeout False) s = (Ok, (?z, snd s))"
    by (simp add: act_def run_tool_def sp wait_child_def wl wv)
  moreover have "in_step ct dir (Suc n) ws (?z, snd s)"
    using s by (simp add: in_step_def log_event_def new_child_def child_failed_def WIFEXITED_def WEXITSTATUS_def)
  ultimately show "\<exists>s'. act (run_tool peer_kernel name args timeout False) s = (Ok, s') \<and> in_step ct dir (Suc n) ws s'" by blast
qed

text \<open>The steps of the sending script in this setting.\<close>

lemma quiet_fields [simp]:
  "cf_flows quiet_setup = [zero_flow, zero_flow, zero_flow]" "cf_modes quiet_setup = [''socket-only'']" "cf_run_id quiet_setup = ''r''" "cf_digest quiet_setup = []"
  "ld_network_bps (cf_load quiet_setup) = 0" "tm_ready_ms (cf_timing quiet_setup) = 100" "tm_stop_ms (cf_timing quiet_setup) = 200"
  "tm_warmup_ms (cf_timing quiet_setup) = 0" "tm_duration_ms (cf_timing quiet_setup) = 10" "tm_start_delay_ms (cf_timing quiet_setup) = 10"
  "tm_settle_ms (cf_timing quiet_setup) = 0" "tm_drain_ms (cf_timing quiet_setup) = 100"
  by (simp_all add: quiet_setup_def sample_shared_def)

lemma goes_same:
  assumes "\<And>x l. in_step ct dir n ws (x, l) \<Longrightarrow> \<exists>es. f (x, l) = (Ok, (fold log_event es x, l))"
  shows "goes (in_step ct dir n ws) f (in_step ct dir n ws)"
proof -
  have "in_step ct dir n ws (fold log_event es x, l)" if "in_step ct dir n ws (x, l)" for x l es
    using that by (induction es arbitrary: x) (simp_all add: in_step_def log_event_def)
  then show ?thesis using assms unfolding goes_def by fastforce
qed

lemma goes_capture:
  assumes "n < MAX_CHILDREN" "length dir + 20 + length phase < 4096" "length phase < 20"
  shows "goes (in_step ct dir n ws) (act (capture_state peer_kernel phase)) (in_step ct dir (Suc n) ws)"
  unfolding goes_def
proof (intro allI impI)
  fix s assume s: "in_step ct dir n ws s"
  let ?name = "''system-'' @ phase"
  have "capture_state peer_kernel phase (fst s) = run_tool peer_kernel ?name [''bash'', ''./monitor/capture_state.sh'',
      cf_interface quiet_setup, in_run_dir (fst s) (?name @ ''.txt'')] (ready_timeout (fst s)) False (fst s)"
    using s assms(2,3) by (simp add: capture_state_def in_step_def in_run_dir_def)
  then show "\<exists>s'. act (capture_state peer_kernel phase) s = (Ok, s') \<and> in_step ct dir (Suc n) ws s'"
    using goes_tool [of n dir ?name ct ws] assms s unfolding goes_def act_def by auto
qed

lemma log_event_sel [simp]:
  "x_world (log_event e x) = x_world x" "x_control (log_event e x) = x_control x" "x_config (log_event e x) = x_config x"
  "(log_event e x)\<lparr>x_world := x_world x\<rparr> = log_event e x" "run_text (log_event e x) state = run_text x state"
  "in_run_dir (log_event e x) name = in_run_dir x name"
  by (simp_all add: log_event_def run_text_def smoke_mode_def in_run_dir_def Let_def)

lemma peer_files [simp]:
  "create_file peer_kernel path x = (None, x)" "write_file peer_kernel path t x = (None, log_event (Wrote path t) x)"
  "unlink_path peer_kernel path x = x"
  by (simp_all add: create_file_def write_file_def unlink_path_def)

lemma goes_write_run:
  assumes "length dir + 20 < 4096"
  shows "goes (in_step ct dir n ws) (act (write_run peer_kernel state)) (in_step ct dir n ws)"
proof (rule goes_same)
  fix x l assume "in_step ct dir n ws (x, l)"
  then have "length (in_run_dir x ''run.json'') < 4096" "length (in_run_dir x ''run.json.tmp'') < 4096"
    using assms by (simp_all add: in_run_dir_def in_step_def)
  then have "act (write_run peer_kernel state) (x, l) = (Ok, (fold log_event [Wrote (in_run_dir x ''run.json.tmp'') (run_text x state),
        Wrote (in_run_dir x ''run.json'') (run_text x state)] x, l))"
    by (simp add: act_def write_run_def Let_def)
  then show "\<exists>es. act (write_run peer_kernel state) (x, l) = (Ok, (fold log_event es x, l))" by blast
qed

lemma goes_publish: "goes (in_step ct dir n ws) (act (publish_start peer_kernel)) (in_step ct dir n ws)"
proof (rule goes_same)
  fix x l assume s: "in_step ct dir n ws (x, l)"
  let ?start = "cut 4096 (in_run_dir x ''start.ns'')"
  let ?text = "show_int (x_clock x + int (unat (tm_start_delay_ms (cf_timing (x_config x)))) * 1000000) @ [NL]"
  have "\<not> x_clock x < 0" using s by (simp add: in_step_def)
  then have "act (publish_start peer_kernel) (x, l) = (Ok, (fold log_event [Wrote (cut 4096 (?start @ ''.tmp'')) ?text, Wrote ?start ?text] x, l))"
    by (simp add: act_def publish_start_def Let_def)
  then show "\<exists>es. act (publish_start peer_kernel) (x, l) = (Ok, (fold log_event es x, l))" by blast
qed

lemma goes_marker:
  assumes "length dir + 20 < 4096"
  shows "goes (in_step ct dir n ws) (act (marker peer_kernel ''.complete'')) (in_step ct dir n ws)"
proof (rule goes_same)
  fix x l assume "in_step ct dir n ws (x, l)"
  then have "length (in_run_dir x ''.complete'') < 4096" using assms by (simp add: in_run_dir_def in_step_def)
  then have "\<exists>es. marker peer_kernel ''.complete'' x = (Ok, fold log_event es x)"
    by (intro exI [of _ "[Created (in_run_dir x ''.complete''), Wrote (in_run_dir x ''.complete'') (ct_run_id (x_control x) @ [NL])]"]) (simp add: marker_def Let_def)
  then show "\<exists>es. act (marker peer_kernel ''.complete'') (x, l) = (Ok, (fold log_event es x, l))" by (auto simp: act_def)
qed

lemma goes_idle:
  "goes (in_step ct dir n ws) (act (prepare_environment peer_kernel)) (in_step ct dir n ws)"
  "goes (in_step ct dir n ws) (start_as (network_process peer_kernel) put_load) (in_step ct dir n ws)"
  "goes (in_step ct dir n ws) (act_on (network_pause peer_kernel)) (in_step ct dir n ws)"
  "goes (in_step ct dir n ws) (act_on (flush_flows peer_kernel)) (in_step ct dir n ws)"
  "i < 3 \<Longrightarrow> goes (in_step ct dir n ws) (act_on (wait_flow peer_kernel b i)) (in_step ct dir n ws)"
  "goes (in_step ct dir n ws) (act_on (\<lambda>l. stop_child peer_kernel (lo_load l))) (in_step ct dir n ws)"
  by (auto simp: goes_def in_step_def act_def act_on_def start_as_def prepare_environment_def smoke_mode_def network_process_def put_load_def
      no_locals_def network_pause_def flush_flows_def wait_flow_def stop_child_def Let_def less_Suc_eq numeral_3_eq_3)

lemma goes_completions:
  "goes (in_step ct dir n ws) (act_on (\<lambda>l. wait_completions peer_kernel (lo_flows l) t)) (in_step ct dir n ws)"
proof (rule goes_same)
  fix x l assume s: "in_step ct dir n ws (x, l)"
  have "stop_or_reap peer_kernel x = (False, x)" using s reap_done [OF s, of peer_kernel] by (simp add: stop_or_reap_def in_step_def)
  then have "completions_loop peer_kernel [None, None, None] u x = (Ok, x)" for u
    by (subst completions_loop.simps) (simp add: all_complete_def)
  then show "\<exists>es. act_on (\<lambda>l. wait_completions peer_kernel (lo_flows l) t) (x, l) = (Ok, (fold log_event es x, l))"
    using s by (intro exI [of _ "[]"]) (simp add: act_on_def act_def wait_completions_def in_step_def no_locals_def)
qed

text \<open>What the peer sends, and what the kernel takes of our own messages.\<close>

definition peer_answers :: "control \<Rightarrow> byte list list" where
  "peer_answers ct = map (\<lambda>type. frame_bytes (outgoing_frame ct type)) [RX_READY, TX_READY, START, STARTED, STOP, DONE, ACK]"

lemma sender_succeeds:
  assumes "control_ok ct" "length dir + 40 < 4096"
  shows "goes (in_step ct dir 0 (peer_answers ct))
    (run_steps (sender_prologue peer_kernel quiet_setup @ sender_measure peer_kernel quiet_setup @ sender_epilogue peer_kernel quiet_setup)) (in_step ct dir 2 [])"
proof -
  have len: "length (frame_bytes (outgoing_frame ct type)) = FRAME_SIZE" for type by (rule length_frame_bytes [OF outgoing_frame_ok [OF assms(1)]])
  have f: "enabled_flows quiet_setup = []" by (simp add: enabled_flows_def zero_flow_def)
  have d: "length dir + 20 < 4096" "length dir + 20 + length ''before'' < 4096" "length dir + 20 + length ''after'' < 4096" using assms(2) by simp_all
  have p: "goes (in_step ct dir n (frame_bytes (outgoing_frame ct type) # ws)) (await_message peer_kernel type timeout) (in_step ct dir n ws)"
    if "type \<in> {RX_READY, START, DONE}" "0 < timeout" for type n ws timeout using that goes_hear [OF assms(1), of type timeout] by auto
  have q: "goes (in_step ct dir n (frame_bytes (outgoing_frame ct type) # ws)) (send_message peer_kernel type timeout) (in_step ct dir n ws)"
    if "type \<noteq> FAIL" "0 < timeout" for type n ws timeout using goes_say [OF assms(1) len that] .
  have c: "goes (in_step ct dir 0 ws) (act (capture_state peer_kernel ''before'')) (in_step ct dir 1 ws)"
    "goes (in_step ct dir 1 ws) (act (capture_state peer_kernel ''after'')) (in_step ct dir 2 ws)" for ws
    using goes_capture [of 0 dir "''before''"] goes_capture [of 1 dir "''after''"] d(2,3) by (simp_all add: numeral_2_eq_2)
  have t: "0 < ms32 [tm_ready_ms (cf_timing quiet_setup), tm_warmup_ms (cf_timing quiet_setup)]"
    "0 < ms32 [tm_stop_ms (cf_timing quiet_setup) * 3, tm_settle_ms (cf_timing quiet_setup), tm_drain_ms (cf_timing quiet_setup)]"
    by (simp_all add: ms32_def)
  show ?thesis
    unfolding sender_prologue_def sender_measure_def sender_epilogue_def f peer_answers_def Let_def list.map append_Cons append_Nil append_assoc
    by (rule goes_Cons goes_Nil goes_idle p q c t goes_write_run goes_publish goes_marker goes_completions d | simp)+
qed

definition peer_control :: control where
  "peer_control = \<lparr>ct_index = 1, ct_nonce = replicate 16 0, ct_digest = [], ct_run_id = run_name quiet_setup ''socket-only'' 1, ct_receiver = False\<rparr>"

definition peer_run :: "byte list list run_context" where
  "peer_run = (initial_context quiet_setup False 0 (peer_answers peer_control))\<lparr>x_suite := ''/s''\<rparr>"

lemma peer_run_name: "run_name quiet_setup ''socket-only'' 1 = ''r-socket-only-r0001''"
proof -
  have "replicate 3 (CHR ''0'') = ''000''" by (simp only: numeral_3_eq_3 replicate.simps)
  then show ?thesis by (simp add: run_name_def pad4_def show_nat_eval)
qed

lemma peer_run_succeeds: "\<exists>x'. run_all peer_kernel [(1, 0)] peer_run = (False, x')"
proof -
  let ?dir = "''/s/runs/r-socket-only-r0001''"
  have ok: "control_ok peer_control" by (simp add: control_ok_def peer_control_def fits_def peer_run_name [simplified])
  define x0 where "x0 = peer_run\<lparr>x_repeat := 1, x_control := (x_control peer_run)\<lparr>ct_index := ct_index (x_control peer_run) + 1\<rparr>, x_mode := ''socket-only''\<rparr>"
  define x1 where "x1 = x0\<lparr>x_children := [], x_owns_run := True, x_release_attempts := 0, x_control := peer_control, x_run_dir := ?dir\<rparr>"
  have x1: "in_step peer_control ?dir 0 (peer_answers peer_control) (x1, no_locals)"
    by (simp add: in_step_def x1_def x0_def peer_run_def initial_context_def)
  have "run_mode_index quiet_setup 1 0 = 0" by (simp add: run_mode_index_def)
  then have one: "one_run peer_kernel 1 0 peer_run = (case begin_run peer_kernel x0 of
      (Ok, x) \<Rightarrow> if ct_receiver (x_control x) then receiver_run peer_kernel x else sender_run peer_kernel x | (r, x) \<Rightarrow> (r, x))"
    by (simp add: one_run_def x0_def peer_run_def initial_context_def Let_def)
  have "begin_run peer_kernel x0 = describe_run peer_kernel ''r-socket-only-r0001'' x1"
    by (simp add: begin_run_def x1_def x0_def peer_run_def initial_context_def peer_control_def Let_def peer_run_name [simplified])
  moreover obtain x2 where w: "write_run peer_kernel ''preparing'' x1 = (Ok, x2)" "in_step peer_control ?dir 0 (peer_answers peer_control) (x2, no_locals)"
  proof -
    have "length ?dir + 20 < 4096" by simp
    from goes_write_run [OF this] x1 obtain s' where "act (write_run peer_kernel ''preparing'') (x1, no_locals) = (Ok, s')"
      "in_step peer_control ?dir 0 (peer_answers peer_control) s'" unfolding goes_def by blast
    then show ?thesis using that [of "fst s'"] by (cases s') (auto simp: act_def in_step_def split: prod.splits)
  qed
  moreover have "describe_run peer_kernel ''r-socket-only-r0001'' x1 = (Ok, x2)" using w by (simp add: describe_run_def)
  ultimately have b: "begin_run peer_kernel x0 = (Ok, x2)" by simp
  have c: "x_config x2 = quiet_setup" "\<not> ct_receiver (x_control x2)" using w(2) by (simp_all add: in_step_def peer_control_def)
  obtain s' where "run_steps (sender_prologue peer_kernel quiet_setup @ sender_measure peer_kernel quiet_setup @ sender_epilogue peer_kernel quiet_setup) (x2, no_locals) = (Ok, s')"
  proof -
    have "length ?dir + 40 < 4096" by simp
    from sender_succeeds [OF ok this] w(2) that show ?thesis unfolding goes_def by blast
  qed
  then have "sender_run peer_kernel x2 = (Ok, fst s')" by (simp add: sender_run_def c)
  then have "one_run peer_kernel 1 0 peer_run = (Ok, fst s')" using one b c by simp
  then show ?thesis by simp
qed

theorem suite_follows_protocol_witness:
  "\<exists>x'. run_all peer_kernel [(1, 0)] peer_run = (False, x') \<and>
     signs peer_run x' = [Hear RX_READY, Say TX_READY, Hear START, Say STARTED, Say STOP, Hear DONE, Say ACK, Mark ''.complete'', Kept ''.complete'']"
proof -
  obtain x' where r: "run_all peer_kernel [(1, 0)] peer_run = (False, x')" using peer_run_succeeds by blast
  have "\<not> ct_receiver (x_control peer_run)" by (simp add: peer_run_def initial_context_def)
  then have "signs peer_run x' = run_signs False" using suite_follows_protocol [OF r] by auto
  then show ?thesis using r by (simp add: run_signs_def run_messages_def view_def)
qed

end
