(* ===== verification/Run_Outcome.thy ===== *)
theory Run_Outcome
  imports Run_Protocol
begin

text \<open>
  What a run of the coordinator leaves behind: after a successful run every child it started has ended
  as it should, after a failed one every child has ended.  The scripts are followed step by step with
  the set of local variables that may still hold a running child.
\<close>

section \<open>Operations that leave no new child running\<close>

lemma kept_ended: "kept c c' \<Longrightarrow> ended_well c \<Longrightarrow> ended_well c'"
  by (auto simp: kept_def ended_well_def)

text \<open>\<open>tidy f\<close>: where \<open>f\<close> returns 0, the children it started have ended as they should.\<close>

definition tidy :: "('w run_context \<Rightarrow> outcome \<times> 'w run_context) \<Rightarrow> bool" where
  "tidy f \<longleftrightarrow> (\<forall>x x'. roomy x \<and> f x = (Ok, x') \<longrightarrow> advances x x' \<and>
     (\<forall>i. length (x_children x) \<le> i \<and> i < length (x_children x') \<longrightarrow> ended_well (x_children x' ! i)))"

lemma tidyI:
  assumes "\<And>x x'. roomy x \<Longrightarrow> f x = (Ok, x') \<Longrightarrow> advances x x' \<and>
    (\<forall>i. length (x_children x) \<le> i \<and> i < length (x_children x') \<longrightarrow> ended_well (x_children x' ! i))"
  shows "tidy f"
  using assms by (auto simp: tidy_def)

lemma tidy_steady: "(\<And>x x'. roomy x \<Longrightarrow> f x = (Ok, x') \<Longrightarrow> steady UNIV x x') \<Longrightarrow> tidy f"
  by (auto simp: tidy_def steady_def moves_def)

lemma tidy_bind:
  assumes "tidy f" "\<And>x. tidy (g x)"
  shows "tidy (\<lambda>x. case f x of (r, y) \<Rightarrow> (case r of Ok \<Rightarrow> g x y | Err e \<Rightarrow> (Err e, y) | Unfinished \<Rightarrow> (Unfinished, y)))"
proof (rule tidyI)
  fix x x' assume x: "roomy x"
    "(case f x of (r, y) \<Rightarrow> (case r of Ok \<Rightarrow> g x y | Err e \<Rightarrow> (Err e, y) | Unfinished \<Rightarrow> (Unfinished, y))) = (Ok, x')"
  then obtain y where y: "f x = (Ok, y)" "g x y = (Ok, x')" by (auto split: prod.splits outcome.splits)
  have a: "advances x y" "\<And>i. length (x_children x) \<le> i \<Longrightarrow> i < length (x_children y) \<Longrightarrow> ended_well (x_children y ! i)"
    using assms(1) x(1) y(1) unfolding tidy_def by blast+
  have "roomy y" using advances_roomy [OF a(1)] x(1) by simp
  then have b: "advances y x'" "\<And>i. length (x_children y) \<le> i \<Longrightarrow> i < length (x_children x') \<Longrightarrow> ended_well (x_children x' ! i)"
    using assms(2) [of x] y(2) unfolding tidy_def by blast+
  have "ended_well (x_children x' ! i)" if "length (x_children x) \<le> i" "i < length (x_children x')" for i
  proof (cases "i < length (x_children y)")
    case True
    then have "kept (x_children y ! i) (x_children x' ! i)" using b(1) by (simp add: advances_def)
    then show ?thesis using a(2) [OF that(1) True] by (rule kept_ended)
  next
    case False
    then show ?thesis using b(2) that by simp
  qed
  then show "advances x x' \<and> (\<forall>i. length (x_children x) \<le> i \<and> i < length (x_children x') \<longrightarrow> ended_well (x_children x' ! i))"
    using advances_trans [OF a(1) b(1)] by blast
qed

lemma tidy_return: "tidy (\<lambda>x. (r, x))"
  by (rule tidy_steady) simp

lemma tidy_if: "tidy f \<Longrightarrow> tidy g \<Longrightarrow> tidy (\<lambda>x. if P x then f x else g x)"
  by (auto simp: tidy_def)

text \<open>A step before the operation that changes no child.\<close>

lemma tidy_pre:
  assumes "\<And>y. tidy (f y)" "\<And>x. steady UNIV x (h x)"
  shows "tidy (\<lambda>x. f x (h x))"
proof (rule tidyI)
  fix x x' assume x: "roomy x" "f x (h x) = (Ok, x')"
  have h: "advances x (h x)" "length (x_children (h x)) = length (x_children x)" using assms(2) [of x] by (auto simp: steady_def moves_def)
  have "roomy (h x)" using advances_roomy [OF h(1)] x(1) by simp
  then show "advances x x' \<and> (\<forall>i. length (x_children x) \<le> i \<and> i < length (x_children x') \<longrightarrow> ended_well (x_children x' ! i))"
    using assms(1) [of x] x(2) h advances_trans [OF h(1)] unfolding tidy_def by metis
qed

lemma tidy_flags: "(\<And>x. steady UNIV x (h x)) \<Longrightarrow> tidy (\<lambda>x. (Ok, h x))"
  by (rule tidy_steady) auto

lemma run_tool_tidy: "tidy (run_tool k name args timeout cleanup)"
proof (rule tidyI)
  fix x x' assume t: "run_tool k name args timeout cleanup x = (Ok, x')"
  obtain q y where q: "spawn_child k name [] None 0 0 False args False x = (q, y)" by fastforce
  obtain i where i: "q = Inr i" "wait_child k i timeout cleanup y = (Ok, x')" using t q by (cases q) (auto simp: run_tool_def)
  note s = spawn_moves [OF q, of UNIV] and w = wait_child_steady [OF i(2), of UNIV]
  have "advances x x'" using run_tool_moves [OF t, of UNIV] by (simp add: moves_def)
  moreover have "length (x_children x') = Suc (length (x_children x))" "i = length (x_children x)" using s w i(1) by (auto simp: steady_def)
  moreover have "ended_well (x_children x' ! i)" using w by simp
  ultimately show "advances x x' \<and> (\<forall>i. length (x_children x) \<le> i \<and> i < length (x_children x') \<longrightarrow> ended_well (x_children x' ! i))"
    by (auto simp: less_Suc_eq)
qed

lemma steady_flags [simp]:
  "steady S x (x\<lparr>x_coalesce_active := b\<rparr>)" "steady S x (x\<lparr>x_release_attempts := n\<rparr>)" "steady S x (x\<lparr>x_partition_active := b\<rparr>)"
  "steady S x (x\<lparr>x_partition_active := b, x_partition_attempted := b', x_partition_group := g\<rparr>)"
  "steady S x (x\<lparr>x_partition_group := g, x_partition_attempted := b\<rparr>)" "steady S x (x\<lparr>x_env := env\<rparr>)"
  "steady S x (x\<lparr>x_restore_attempts := n\<rparr>)"
  by (simp_all add: steady_def moves_same)

lemma scheduler_tidy: "tidy (scheduler_mask k cpus policy priority)"
  by (rule tidy_steady) (metis scheduler_mask_result steady_world)

lemma run_tool_tidy' [simp]: "tidy (\<lambda>x. run_tool k (name x) (args x) (timeout x) cleanup x)"
  using run_tool_tidy unfolding tidy_def by blast

lemma scheduler_tidy' [simp]: "tidy (\<lambda>x. scheduler_mask k (cpus x) policy priority x)"
  using scheduler_tidy unfolding tidy_def by blast

lemma coalesce_tidy: "tidy (coalesce k action)"
proof -
  let ?h = "\<lambda>x. if action = ''restore'' then x\<lparr>x_restore_attempts := x_restore_attempts x + 1\<rparr> else x"
  let ?f = "\<lambda>x. case run_tool k (if action = ''restore'' then ''rx-coalesce-restore-'' @ show_nat (x_restore_attempts x) else ''rx-coalesce-'' @ action)
      [''bash'', ''./monitor/rx_coalesce.sh'', action, cf_interface (x_config x), x_run_dir x, show_int (tm_rx_coalesce_usecs (cf_timing (x_config x)))]
      (unat (tm_ready_ms (cf_timing (x_config x)))) (action = ''restore'') x of
    (r, y) \<Rightarrow> (case r of Ok \<Rightarrow> (Ok, y\<lparr>x_coalesce_active := action \<noteq> ''restore''\<rparr>) | Err e \<Rightarrow> (Err e, y) | Unfinished \<Rightarrow> (Unfinished, y))"
  have "tidy ?f" by (intro tidy_bind run_tool_tidy' tidy_flags steady_flags)
  then have "tidy (\<lambda>x. ?f (?h x))" by (rule tidy_pre [of "\<lambda>_. ?f" ?h]) simp
  moreover have "coalesce k action = (\<lambda>x. ?f (?h x))" by (rule ext) (simp only: coalesce_def Let_def)
  ultimately show ?thesis by (simp only:)
qed

lemma calibrate_tidy: "tidy (calibrate k phase)"
  unfolding calibrate_def Let_def by simp

lemma capture_state_tidy: "tidy (capture_state k phase)"
  unfolding capture_state_def Let_def by (intro tidy_if tidy_return) simp

lemma capture_scheduler_tidy: "tidy (capture_scheduler k)"
  unfolding capture_scheduler_def Let_def by (intro tidy_if tidy_return) simp

lemma restore_partition_tidy: "tidy (restore_cpu_partition k)"
proof -
  let ?h = "\<lambda>x. x\<lparr>x_release_attempts := x_release_attempts x + 1\<rparr>"
  let ?f = "\<lambda>x. case run_tool k (cut 32 (''cpu-partition-release'' @ show_nat (x_release_attempts x)))
      [''bash'', ''./monitor/cpu_partition.sh'', ''release'', show_int (kn_pid k), x_run_dir x] (stop_timeout x) True x of
    (r, y) \<Rightarrow> (case r of Ok \<Rightarrow>
        (case scheduler_mask k (Some (pl_shared_mask (cf_placement (x_config y)))) 0 0 y of
          (r, z) \<Rightarrow> (case r of Ok \<Rightarrow> (Ok, z\<lparr>x_partition_active := False, x_partition_attempted := False, x_partition_group := []\<rparr>)
            | Err e \<Rightarrow> (Err e, z) | Unfinished \<Rightarrow> (Unfinished, z)))
      | Err e \<Rightarrow> (Err e, y) | Unfinished \<Rightarrow> (Unfinished, y))"
  have "tidy ?f" by (intro tidy_bind run_tool_tidy' scheduler_tidy' tidy_flags steady_flags)
  then have "tidy (\<lambda>x. ?f (?h x))" by (rule tidy_pre [of "\<lambda>_. ?f" ?h]) simp
  then have "tidy (\<lambda>x. if \<not> x_partition_attempted x then (Ok, x) else ?f (?h x))" by (rule tidy_if [OF tidy_return])
  moreover have "restore_cpu_partition k = (\<lambda>x. if \<not> x_partition_attempted x then (Ok, x) else ?f (?h x))"
    by (rule ext) (simp only: restore_cpu_partition_def Let_def)
  ultimately show ?thesis by (simp only:)
qed

lemma reserve_partition_tidy: "tidy (reserve_cpu_partition k)"
proof (rule tidyI)
  fix x x' assume x: "roomy x" "reserve_cpu_partition k x = (Ok, x')"
  let ?c = "x_config x" and ?group = "''/sys/fs/cgroup/ace-rx-'' @ show_int (kn_pid k)"
  let ?g = "\<lambda>y. scheduler_mask k (Some (run_general_cpu_set ?c (x_mode y))) 0 0 (y\<lparr>x_partition_active := True\<rparr>)"
  let ?f = "\<lambda>y. case run_tool k ''cpu-partition-acquire'' [''bash'', ''./monitor/cpu_partition.sh'', ''acquire'', show_int (kn_pid k),
      pl_shared_cpus (cf_placement ?c), show_nat (pl_cpumap_cpu (cf_placement ?c)), x_run_dir x] (ready_timeout x) False y of
    (r, z) \<Rightarrow> (case r of Ok \<Rightarrow> ?g z | Err e \<Rightarrow> (Err e, z) | Unfinished \<Rightarrow> (Unfinished, z))"
  have g: "tidy ?g" by (rule tidy_pre [of "\<lambda>y. scheduler_mask k (Some (run_general_cpu_set ?c (x_mode y))) 0 0"])
      (simp_all add: scheduler_tidy)
  then have f: "tidy ?f" by (intro tidy_bind run_tool_tidy) 
  have "tidy (\<lambda>y. ?f (y\<lparr>x_partition_group := ?group, x_partition_attempted := True\<rparr>))" using f by (rule tidy_pre [of "\<lambda>_. ?f"]) simp
  then have "tidy (\<lambda>y. if \<not> run_cpumap_active ?c (x_mode x) then (Ok, y) else if length ?group \<ge> 4096 then (Err (Some ENAMETOOLONG), y) else
     ?f (y\<lparr>x_partition_group := ?group, x_partition_attempted := True\<rparr>))" (is "tidy ?all") by (intro tidy_if tidy_return)
  moreover have "?all x = (Ok, x')" using x(2) by (simp only: reserve_cpu_partition_def Let_def)
  ultimately show "advances x x' \<and> (\<forall>i. length (x_children x) \<le> i \<and> i < length (x_children x') \<longrightarrow> ended_well (x_children x' ! i))"
    using x(1) unfolding tidy_def by blast
qed

lemma prepare_partition_tidy: "tidy (prepare_partition k)"
  unfolding prepare_partition_def Let_def
  by (intro tidy_if tidy_return tidy_bind run_tool_tidy' reserve_partition_tidy)

lemma prepare_environment_tidy: "tidy (prepare_environment k)"
  unfolding prepare_environment_def
  by (intro tidy_if tidy_return tidy_bind run_tool_tidy' prepare_partition_tidy)

lemma restore_coalesce_tidy: "tidy (restore_coalesce k)"
  unfolding restore_coalesce_def by (intro tidy_if tidy_return coalesce_tidy)

lemma pause_tidy: "tidy (pause_ms k ms)"
  by (rule tidy_steady) (auto simp: pause_ms_def dest: pause_steady)

lemma write_run_tidy: "tidy (write_run k state)"
  by (rule tidy_steady) (auto dest: write_run_steady)

lemma completions_tidy: "tidy (wait_completions k children timeout)"
  by (rule tidy_steady) (auto simp: wait_completions_def dest: completions_steady)

lemma wait_child_tidy: "tidy (wait_child k i timeout cleanup)"
  by (rule tidy_steady) (auto dest: wait_child_steady)

lemma wait_child_tidy': "tidy (\<lambda>x. wait_child k i (timeout x) cleanup x)"
  using wait_child_tidy unfolding tidy_def by blast

lemma stop_child_tidy: "tidy (stop_child k index)"
proof (rule tidy_steady)
  fix x x' assume "stop_child k index x = (Ok, x')"
  then show "steady UNIV x x'" using stop_child_steady [of k _ x Ok x' UNIV] by (cases index) (auto simp: stop_child_def)
qed

lemma wake_tidy: "tidy (wake_receiver k i l)"
proof (rule tidy_steady)
  fix x x' assume "wake_receiver k i l x = (Ok, x')"
  then have "x' = x \<or> (\<exists>n. x' = snd (signal_child k n SIGUSR2 x))"
    unfolding wake_receiver_def by (auto split: option.splits if_splits prod.splits intro: exI [of _ "the (lo_flows l ! i)"])
  then show "steady UNIV x x'" using signal_steady [of _ _ UNIV x k] by auto
qed

lemma stop_flows_tidy: "tidy (stop_flows k l)"
proof -
  have "steady UNIV x (request_stop k n x)" for n and x :: "'a run_context"
    using request_stop_steady [of _ UNIV x k] by (cases n) (auto simp: request_stop_def)
  then show ?thesis unfolding stop_flows_def by (intro tidy_flags fold_steady) simp_all
qed

lemma flush_flows_tidy: "tidy (flush_flows k l)"
proof -
  have "steady UNIV x (case n of None \<Rightarrow> x | Some i \<Rightarrow> snd (signal_child k i SIGUSR1 x))" for n and x :: "'a run_context"
    using signal_steady [of _ _ UNIV x k] by (cases n) auto
  then show ?thesis unfolding flush_flows_def by (intro tidy_flags fold_steady) simp_all
qed

lemma network_pause_tidy: "tidy (network_pause k l)"
  unfolding network_pause_def by (intro tidy_if tidy_return pause_tidy)

lemma tidy_logged:
  assumes "\<And>x x'. f x = (Ok, x') \<Longrightarrow> \<exists>y es. steady UNIV x y \<and> x' = fold log_event es y \<and> (\<forall>j st. Finished j st \<notin> set es)"
  shows "tidy f"
proof (rule tidyI)
  fix x x' assume "f x = (Ok, x')"
  then obtain y es where y: "steady UNIV x y" "x' = fold log_event es y" "\<forall>j st. Finished j st \<notin> set es" using assms by blast
  have "advances y x' \<and> x_children x' = x_children y" using advances_logs [of es y] y(2,3) by simp
  then show "advances x x' \<and> (\<forall>i. length (x_children x) \<le> i \<and> i < length (x_children x') \<longrightarrow> ended_well (x_children x' ! i))"
    using y(1) advances_trans [of x y x'] by (auto simp: steady_def moves_def)
qed

lemma message_tidy: "tidy (control_message k type writing timeout)"
proof (rule tidy_logged)
  fix x x' assume "control_message k type writing timeout x = (Ok, x')"
  then obtain y where y: "steady UNIV x y" "x' = log_event (if writing then Sent type else Received type) y"
    by (rule message_signs) auto
  show "\<exists>y es. steady UNIV x y \<and> x' = fold log_event es y \<and> (\<forall>j st. Finished j st \<notin> set es)"
    by (rule exI [of _ y], rule exI [of _ "[if writing then Sent type else Received type]"]) (use y in auto)
qed

lemma marked_events: "marked x name r es \<Longrightarrow> Finished j st \<notin> set es"
  by (auto simp: marked_def split: if_splits)

lemma marker_tidy: "tidy (marker k name)"
proof (rule tidy_logged)
  fix x x' assume "marker k name x = (Ok, x')"
  then show "\<exists>y es. steady UNIV x y \<and> x' = fold log_event es y \<and> (\<forall>j st. Finished j st \<notin> set es)"
    by (rule marker_signs) (blast dest: marked_events)
qed

lemma publish_start_tidy: "tidy (publish_start k)"
  by (rule tidy_steady) (rule publish_start_steady)

lemmas tidy_steps = prepare_environment_tidy capture_state_tidy capture_scheduler_tidy coalesce_tidy calibrate_tidy pause_tidy
  write_run_tidy completions_tidy restore_coalesce_tidy restore_partition_tidy wake_tidy stop_flows_tidy flush_flows_tidy
  network_pause_tidy message_tidy marker_tidy publish_start_tidy

section \<open>Children in local variables\<close>

datatype slot = Loader_slot | Load_slot | Clock_slot | Flow_slot nat

fun held :: "slot \<Rightarrow> locals \<Rightarrow> nat option" where
  "held Loader_slot l = lo_loader l"
| "held Load_slot l = lo_load l"
| "held Clock_slot l = lo_clock l"
| "held (Flow_slot i) l = lo_flows l ! i"

text \<open>Every child has ended well, or is one that a variable of \<open>U\<close> holds.\<close>

definition settled :: "slot set \<Rightarrow> 'w job \<Rightarrow> bool" where
  "settled U s \<longleftrightarrow> roomy (fst s) \<and> length (lo_flows (snd s)) = 3 \<and>
     (\<forall>i < length (x_children (fst s)). ended_well (x_children (fst s) ! i) \<or> (\<exists>v \<in> U. held v (snd s) = Some i))"

definition leads :: "slot set \<Rightarrow> ('w job \<Rightarrow> outcome \<times> 'w job) \<Rightarrow> slot set \<Rightarrow> bool" where
  "leads U f V \<longleftrightarrow> (\<forall>s s'. settled U s \<and> f s = (Ok, s') \<longrightarrow> settled V s')"

lemma settled_mono: "settled U s \<Longrightarrow> U \<subseteq> V \<Longrightarrow> settled V s"
  by (auto simp: settled_def)

lemma leads_mono: "leads U f V \<Longrightarrow> V \<subseteq> W \<Longrightarrow> leads U f W"
  unfolding leads_def using settled_mono by blast

lemma leads_Nil: "U \<subseteq> V \<Longrightarrow> leads U (run_steps []) V"
  by (auto simp: leads_def intro: settled_mono)

lemma leads_Cons: "leads U f V \<Longrightarrow> leads V (run_steps fs) W \<Longrightarrow> leads U (run_steps (f # fs)) W"
  unfolding leads_def by (simp split: prod.splits outcome.splits) blast

lemma leads_append: "leads U (run_steps fs) V \<Longrightarrow> leads V (run_steps gs) W \<Longrightarrow> leads U (run_steps (fs @ gs)) W"
  unfolding run_steps_append by (rule leads_Cons)

text \<open>A tidy step; the variables whose children it ends are done with.\<close>

lemma leads_ends:
  assumes "\<And>l. tidy (f l)" "\<And>l x x' v n. v \<in> D \<Longrightarrow> f l x = (Ok, x') \<Longrightarrow> held v l = Some n \<Longrightarrow> ended_well (x_children x' ! n)"
  shows "leads U (act_on f) (U - D)"
  unfolding leads_def
proof (intro allI impI)
  fix s s' assume a: "settled U s \<and> act_on f s = (Ok, s')"
  then have f: "f (snd s) (fst s) = (Ok, fst s')" "snd s' = snd s" by (auto simp: act_on_def act_def split: prod.splits)
  have s: "roomy (fst s)" "length (lo_flows (snd s)) = 3" using a by (auto simp: settled_def)
  have t: "advances (fst s) (fst s')" "\<And>i. length (x_children (fst s)) \<le> i \<Longrightarrow> i < length (x_children (fst s')) \<Longrightarrow> ended_well (x_children (fst s') ! i)"
    using assms(1) [of "snd s"] s(1) f(1) unfolding tidy_def by blast+
  have "ended_well (x_children (fst s') ! i) \<or> (\<exists>w \<in> U - D. held w (snd s') = Some i)" if i: "i < length (x_children (fst s'))" for i
  proof (cases "i < length (x_children (fst s)) \<and> (\<forall>v \<in> D. held v (snd s) \<noteq> Some i)")
    case True
    then have "kept (x_children (fst s) ! i) (x_children (fst s') ! i)" using t(1) by (simp add: advances_def)
    moreover have "ended_well (x_children (fst s) ! i) \<or> (\<exists>w \<in> U. held w (snd s) = Some i)" using a True by (simp add: settled_def)
    ultimately show ?thesis using True f(2) kept_ended by (metis DiffI)
  next
    case False
    then show ?thesis using t(2) [of i] i assms(2) [OF _ f(1)] by auto
  qed
  then show "settled (U - D) s'" using advances_roomy [OF t(1)] s f(2) by (simp add: settled_def)
qed

lemma leads_act_on: "(\<And>l. tidy (f l)) \<Longrightarrow> leads U (act_on f) U"
  using leads_ends [of f "{}" U] by simp

lemma leads_act: "tidy f \<Longrightarrow> leads U (act f) U"
  unfolding act_is_act_on by (rule leads_act_on)

lemma leads_message: "leads U (send_message k t timeout) U" "leads U (await_message k t timeout) U"
  unfolding send_message_def await_message_def by (rule leads_act, rule message_tidy)+

lemma leads_stop: "leads U (act_on (\<lambda>l. stop_child k (held v l))) (U - {v})"
  by (rule leads_ends) (auto intro: stop_child_tidy dest: stop_child_steady)

lemma leads_wait: "leads U (act_on (wait_flow k cleanup i)) (U - {Flow_slot i})"
proof (rule leads_ends)
  show "tidy (wait_flow k cleanup i l)" for l
  proof (cases "lo_flows l ! i")
    case None
    then show ?thesis unfolding wait_flow_def by (simp add: tidy_return)
  next
    case (Some n)
    then show ?thesis unfolding wait_flow_def by (simp add: wait_child_tidy')
  qed
  show "ended_well (x_children x' ! n)" if "v \<in> {Flow_slot i}" "wait_flow k cleanup i l x = (Ok, x')" "held v l = Some n" for l x x' v n
    using that wait_child_steady [of k n "stop_timeout x" cleanup x Ok x' UNIV] by (auto simp: wait_flow_def)
qed

lemma leads_clock: "leads U (act_on (stop_clock k)) (U - {Clock_slot})"
proof (rule leads_ends)
  show "tidy (stop_clock k l)" for l
    unfolding stop_clock_def by (cases "lo_clock l") (auto intro!: tidy_bind pause_tidy stop_child_tidy tidy_return)
  show "ended_well (x_children x' ! n)" if "v \<in> {Clock_slot}" "stop_clock k l x = (Ok, x')" "held v l = Some n" for l x x' v n
    using that by (auto simp: stop_clock_def split: prod.splits outcome.splits dest: stop_child_steady)
qed

text \<open>A step that starts at most one child and keeps it in a variable.\<close>

definition starts :: "('w run_context \<Rightarrow> (outcome + nat option) \<times> 'w run_context) \<Rightarrow> bool" where
  "starts f \<longleftrightarrow> (\<forall>x n x'. f x = (Inr n, x') \<longrightarrow> advances x x' \<and> (\<forall>i. length (x_children x) \<le> i \<and> i < length (x_children x') \<longrightarrow> n = Some i)) \<and>
     (\<forall>x x'. f x \<noteq> (Inl Ok, x'))"

definition puts :: "slot \<Rightarrow> (nat option \<Rightarrow> locals \<Rightarrow> locals) \<Rightarrow> bool" where
  "puts v put \<longleftrightarrow> (\<forall>n l w. length (lo_flows l) = 3 \<longrightarrow> held w (put n l) = (if w = v then n else held w l) \<and> length (lo_flows (put n l)) = 3)"

lemma leads_start:
  assumes "starts f" "puts v put" "v \<notin> U"
  shows "leads U (start_as f put) (insert v U)"
  unfolding leads_def
proof (intro allI impI)
  fix s s' assume a: "settled U s \<and> start_as f put s = (Ok, s')"
  moreover have "f (fst s) \<noteq> (Inl Ok, x')" for x' using assms(1) by (simp add: starts_def)
  ultimately obtain n where f: "f (fst s) = (Inr n, fst s')" "snd s' = put n (snd s)"
    by (cases s') (auto simp: start_as_def split: prod.splits sum.splits)
  have l: "length (lo_flows (snd s)) = 3" using a by (simp add: settled_def)
  have t: "advances (fst s) (fst s')" "\<And>i. length (x_children (fst s)) \<le> i \<Longrightarrow> i < length (x_children (fst s')) \<Longrightarrow> n = Some i"
    using assms(1) f(1) unfolding starts_def by blast+
  have p: "held w (snd s') = (if w = v then n else held w (snd s))" "length (lo_flows (snd s')) = 3" for w
    using assms(2) l by (auto simp: f(2) puts_def)
  have "ended_well (x_children (fst s') ! i) \<or> (\<exists>w \<in> insert v U. held w (snd s') = Some i)" if i: "i < length (x_children (fst s'))" for i
  proof (cases "i < length (x_children (fst s))")
    case True
    then have "kept (x_children (fst s) ! i) (x_children (fst s') ! i)" using t(1) by (simp add: advances_def)
    moreover have "ended_well (x_children (fst s) ! i) \<or> (\<exists>w \<in> U. held w (snd s) = Some i)" using a True by (simp add: settled_def)
    ultimately show ?thesis using kept_ended p(1) assms(3) by (metis insertI2)
  next
    case False
    then show ?thesis using t(2) [of i] i p(1) [of v] by simp
  qed
  then show "settled (insert v U) s'" using a advances_roomy [OF t(1)] p(2) by (simp add: settled_def)
qed

lemma puts_slots: "puts Loader_slot put_loader" "puts Load_slot put_load" "puts Clock_slot put_clock"
  unfolding puts_def put_loader_def put_load_def put_clock_def by (intro allI impI conjI; case_tac w; simp)+

lemma puts_flow: "i < 3 \<Longrightarrow> puts (Flow_slot i) (put_flow i)"
  unfolding puts_def put_flow_def by (intro allI impI conjI; case_tac w; auto simp: nth_list_update)

lemma start_ready_starts:
  assumes "\<And>c. kept c (setup c)" "\<And>c. ch_done (setup c) = ch_done c"
  shows "starts (start_ready k name ready cpus policy priority persistent args notify setup)"
proof -
  have "advances x x' \<and> (\<forall>i. length (x_children x) \<le> i \<and> i < length (x_children x') \<longrightarrow> n = Some i)"
    if s: "start_ready k name ready cpus policy priority persistent args notify setup x = (Inr n, x')" for x n x'
  proof -
    obtain q y where q: "spawn_child k name ready cpus policy priority persistent args notify x = (q, y)" by fastforce
    obtain i r where i: "q = Inr i" "ready_child k i (update_child i setup y) = (r, x')" "n = Some i"
      using s q by (cases q) (auto simp: start_ready_def split: prod.splits outcome.splits)
    have "steady UNIV (update_child i setup y) x'" using i(2) by (auto simp: ready_child_def dest: ready_steady)
    moreover have "steady UNIV y (update_child i setup y)" using assms by (rule steady_update)
    ultimately have "steady UNIV y x'" by (metis steady_trans)
    then show ?thesis using spawn_moves [OF q, of UNIV] i advances_trans [of x y x'] by (auto simp: steady_def moves_def)
  qed
  moreover have "start_ready k name ready cpus policy priority persistent args notify setup x \<noteq> (Inl Ok, x')" for x x'
    by (auto simp: start_ready_def split: prod.splits sum.splits outcome.splits)
  ultimately show ?thesis unfolding starts_def by blast
qed

lemma starts_const: "(\<And>y. starts (f y)) \<Longrightarrow> starts (\<lambda>x. f x x)"
  unfolding starts_def by blast

lemma loader_starts: "starts (loader_process k)"
  unfolding loader_process_def Let_def by (rule starts_const) (rule start_ready_starts, simp_all)

lemma phc_starts: "starts (start_phc_tracking k)"
  unfolding start_phc_tracking_def Let_def by (rule starts_const) (rule start_ready_starts, simp_all)

lemma starts_pipe:
  assumes "\<And>x fd. starts (f x fd)"
  shows "starts (\<lambda>x. case completion_pipe k x of (q, y) \<Rightarrow> (case q of Inl e \<Rightarrow> (Inl (Err (Some e)), y) | Inr fd \<Rightarrow> f x fd y))"
proof -
  let ?g = "\<lambda>x. case completion_pipe k x of (q, y) \<Rightarrow> (case q of Inl e \<Rightarrow> (Inl (Err (Some e)), y) | Inr fd \<Rightarrow> f x fd y)"
  have c: "(\<exists>e w. ?g x = (Inl (Err (Some e)), w)) \<or> (\<exists>fd w. ?g x = f x fd (x\<lparr>x_world := w\<rparr>))" for x
    by (auto simp: completion_pipe_def split: prod.splits sum.splits)
  have "advances x x' \<and> (\<forall>i. length (x_children x) \<le> i \<and> i < length (x_children x') \<longrightarrow> n = Some i)" if g: "?g x = (Inr n, x')" for x n x'
  proof -
    obtain fd w where f: "f x fd (x\<lparr>x_world := w\<rparr>) = (Inr n, x')" using c [of x] g by auto
    have "advances (x\<lparr>x_world := w\<rparr>) x'" "\<forall>i. length (x_children (x\<lparr>x_world := w\<rparr>)) \<le> i \<and> i < length (x_children x') \<longrightarrow> n = Some i"
      using assms [of x fd] f unfolding starts_def by blast+
    then show ?thesis using advances_trans [of x "x\<lparr>x_world := w\<rparr>" x'] moves_world [of UNIV x w] by (simp add: moves_def)
  qed
  moreover have "?g x \<noteq> (Inl Ok, x')" for x x'
    using c [of x] assms unfolding starts_def by (metis (no_types, lifting) Inl_inject outcome.distinct(1) prod.inject)
  ultimately show ?thesis unfolding starts_def by blast
qed

lemma receiver_process_starts: "starts (receiver_process k i)"
  unfolding receiver_process_def Let_def
  by (rule starts_pipe, rule starts_const, rule start_ready_starts) (simp_all add: kept_def)

lemma sender_process_starts: "starts (sender_process k i)"
  unfolding sender_process_def Let_def
  by (rule starts_pipe, rule starts_const, rule start_ready_starts) (simp_all add: kept_def)

lemma starts_env:
  assumes "starts f" "f (x\<lparr>x_env := env\<rparr>) = (Inr n, x')"
  shows "advances x x' \<and> (\<forall>i. length (x_children x) \<le> i \<and> i < length (x_children x') \<longrightarrow> n = Some i)"
proof -
  have "advances (x\<lparr>x_env := env\<rparr>) x'" "\<forall>i. length (x_children (x\<lparr>x_env := env\<rparr>)) \<le> i \<and> i < length (x_children x') \<longrightarrow> n = Some i"
    using assms unfolding starts_def by blast+
  then show ?thesis using advances_trans [of x "x\<lparr>x_env := env\<rparr>" x'] moves_flags(6) [of UNIV x env] by (simp add: moves_def)
qed

lemma starts_cases:
  assumes "\<And>x q x'. g x = (q, x') \<Longrightarrow> q = Inr None \<and> x' = x \<or> (\<exists>e. q = Inl (Err e)) \<or> (\<exists>f env. starts f \<and> f (x\<lparr>x_env := env\<rparr>) = (q, x'))"
  shows "starts g"
proof -
  have "advances x x' \<and> (\<forall>i. length (x_children x) \<le> i \<and> i < length (x_children x') \<longrightarrow> n = Some i)" if g: "g x = (Inr n, x')" for x n x'
  proof (cases "n = None \<and> x' = x")
    case False
    then obtain f env where f: "starts f" "f (x\<lparr>x_env := env\<rparr>) = (Inr n, x')" using assms [OF g] by auto
    then show ?thesis by (rule starts_env)
  qed simp
  moreover have "g x \<noteq> (Inl Ok, x')" for x x'
    using assms [of x "Inl Ok" x'] by (auto simp: starts_def)
  ultimately show ?thesis unfolding starts_def by blast
qed

lemma monitor_starts: "starts (monitor_process k)"
proof (rule starts_cases)
  fix x q x' assume m: "monitor_process k x = (q, x')"
  have "q = Inr None \<and> x' = x \<or> (\<exists>e. q = Inl (Err e)) \<or>
      (\<exists>name ready args env. start_ready k name ready None 0 0 True args False id (x\<lparr>x_env := env\<rparr>) = (q, x'))"
    using m by (auto simp: monitor_process_def Let_def split: if_splits option.splits; blast)
  moreover have "starts (start_ready k name ready None 0 0 True args False id)" for name ready args
    by (rule start_ready_starts) simp_all
  ultimately show "q = Inr None \<and> x' = x \<or> (\<exists>e. q = Inl (Err e)) \<or> (\<exists>f env. starts f \<and> f (x\<lparr>x_env := env\<rparr>) = (q, x'))" by blast
qed

definition spawned :: "'w kernel \<Rightarrow> nat set option \<Rightarrow> string list \<Rightarrow> 'w run_context \<Rightarrow> (outcome + nat option) \<times> 'w run_context" where
  "spawned k cpus args x =
   (case spawn_child k ''network-load'' [] cpus 0 0 True args False x of
      (Inl e, x) \<Rightarrow> (Inl (Err (Some e)), x) | (Inr n, x) \<Rightarrow> (Inr (Some n), x))"

lemma spawned_starts: "starts (spawned k cpus args)"
proof -
  have "advances x x' \<and> (\<forall>i. length (x_children x) \<le> i \<and> i < length (x_children x') \<longrightarrow> n = Some i)"
    if s: "spawned k cpus args x = (Inr n, x')" for x n x'
  proof -
    obtain i where "n = Some i" "spawn_child k ''network-load'' [] cpus 0 0 True args False x = (Inr i, x')"
      using s by (auto simp: spawned_def split: prod.splits sum.splits)
    then show ?thesis using spawn_moves [of k "''network-load''" "[]" cpus 0 0 True args False x "Inr i" x' UNIV] by (auto simp: moves_def)
  qed
  moreover have "spawned k cpus args x \<noteq> (Inl Ok, x')" for x x'
    by (auto simp: spawned_def split: prod.splits sum.splits)
  ultimately show ?thesis unfolding starts_def by blast
qed

lemma network_starts: "starts (network_process k)"
proof (rule starts_cases)
  fix x q x' assume m: "network_process k x = (q, x')"
  have "q = Inr None \<and> x' = x \<or> (\<exists>cpus args env. spawned k cpus args (x\<lparr>x_env := env\<rparr>) = (q, x'))"
    using m unfolding network_process_def Let_def spawned_def by (auto split: if_splits)
  then show "q = Inr None \<and> x' = x \<or> (\<exists>e. q = Inl (Err e)) \<or> (\<exists>f env. starts f \<and> f (x\<lparr>x_env := env\<rparr>) = (q, x'))"
    using spawned_starts by blast
qed

section \<open>The scripts\<close>

lemma leads_steps: "(\<And>f. f \<in> set fs \<Longrightarrow> leads U f U) \<Longrightarrow> leads U (run_steps fs) U"
  by (induction fs) (auto intro: leads_Cons leads_Nil)

lemma leads_flows:
  assumes "\<And>i. starts (f i)" "distinct is" "\<forall>i \<in> set is. i < 3 \<and> Flow_slot i \<notin> U"
  shows "leads U (run_steps (map (\<lambda>i. start_as (f i) (put_flow i)) is)) (U \<union> Flow_slot ` set is)"
  using assms(2,3)
proof (induction "is" arbitrary: U)
  case (Cons i "is")
  have "leads U (start_as (f i) (put_flow i)) (insert (Flow_slot i) U)"
    using Cons.prems by (intro leads_start assms(1) puts_flow) auto
  moreover have "leads (insert (Flow_slot i) U) (run_steps (map (\<lambda>i. start_as (f i) (put_flow i)) is)) (insert (Flow_slot i) U \<union> Flow_slot ` set is)"
    using Cons.prems by (intro Cons.IH) auto
  ultimately have "leads U (run_steps (start_as (f i) (put_flow i) # map (\<lambda>i. start_as (f i) (put_flow i)) is)) (insert (Flow_slot i) U \<union> Flow_slot ` set is)"
    by (rule leads_Cons)
  then show ?case by (simp only: list.map list.set image_insert Un_insert_left Un_insert_right)
qed (simp add: leads_Nil)

lemma enabled_flows_small: "distinct (enabled_flows c) \<and> set (enabled_flows c) \<subseteq> {0, 1, 2}"
  by (auto simp: enabled_flows_def)

abbreviation flow_slots :: "slot set" where "flow_slots \<equiv> {Flow_slot 0, Flow_slot 1, Flow_slot 2}"

lemma leads_enabled:
  assumes "\<And>i. starts (f i)" "\<forall>i. Flow_slot i \<notin> U"
  shows "leads U (run_steps (map (\<lambda>i. start_as (f i) (put_flow i)) (enabled_flows c))) (U \<union> flow_slots)"
proof -
  have "Flow_slot ` set (enabled_flows c) \<subseteq> flow_slots" using enabled_flows_small [of c] by auto
  moreover have "leads U (run_steps (map (\<lambda>i. start_as (f i) (put_flow i)) (enabled_flows c))) (U \<union> Flow_slot ` set (enabled_flows c))"
    using enabled_flows_small [of c] assms by (intro leads_flows) auto
  ultimately show ?thesis by (auto intro: leads_mono)
qed


abbreviation all_slots :: "slot set" where "all_slots \<equiv> {Loader_slot, Load_slot, Clock_slot} \<union> flow_slots"

lemma leads_start_if:
  assumes "starts f" "puts v put" "v \<notin> U"
  shows "leads U (run_steps (if P then [start_as f put] else [])) (insert v U)"
proof (cases P)
  case True
  have "leads U (run_steps [start_as f put]) (insert v U)" by (rule leads_Cons [OF leads_start [OF assms] leads_Nil [OF subset_refl]])
  then show ?thesis using True by (simp only: if_True)
next
  case False
  then show ?thesis using leads_Nil [of U "insert v U"] by (simp only: if_False) auto
qed

lemma receiver_prologue_leads: "leads {} (run_steps (receiver_prologue k c smoke)) all_slots"
proof -
  let ?coal = "\<not> smoke \<and> tm_rx_coalesce_usecs (cf_timing c) \<ge> 0"
  have 1: "leads {} (run_steps [act (prepare_environment k), act (capture_state k ''before'')]) {}"
    by (rule leads_steps) (auto intro!: leads_act tidy_steps)
  have 2: "leads {} (run_steps (if ?coal then [act (coalesce k ''save'')] else [])) {}"
    by (rule leads_steps) (auto intro!: leads_act tidy_steps split: if_splits)
  have "leads {} (run_steps (if \<not> smoke then [start_as (loader_process k) put_loader] else [])) {Loader_slot}"
    by (rule leads_start_if [OF loader_starts puts_slots(1)]) simp
  then have 3: "leads {} (run_steps (if smoke then [] else [start_as (loader_process k) put_loader])) {Loader_slot}"
    by (cases smoke) (simp_all only: if_True if_False not_True_eq_False not_False_eq_True)
  have 4: "leads {Loader_slot} (run_steps (map (\<lambda>i. start_as (receiver_process k i) (put_flow i)) (enabled_flows c))) ({Loader_slot} \<union> flow_slots)"
    by (rule leads_enabled [OF receiver_process_starts]) simp
  have t: "tidy (\<lambda>x. coalesce k ''apply'' (x\<lparr>x_coalesce_active := True\<rparr>))"
    by (rule tidy_pre [of "\<lambda>_. coalesce k ''apply''"]) (simp_all add: coalesce_tidy)
  have 5: "leads U (run_steps (if ?coal then [act (\<lambda>x. coalesce k ''apply'' (x\<lparr>x_coalesce_active := True\<rparr>))] else [])) U" for U
    using t by (intro leads_steps) (auto intro!: leads_act split: if_splits)
  have 6: "leads ({Loader_slot} \<union> flow_slots) (run_steps (if P then [start_as (start_phc_tracking k) put_clock] else []))
      (insert Clock_slot ({Loader_slot} \<union> flow_slots))" for P
    by (rule leads_start_if [OF phc_starts puts_slots(3)]) simp
  have 7: "leads (insert Clock_slot ({Loader_slot} \<union> flow_slots)) (run_steps [act (capture_scheduler k), start_as (monitor_process k) put_load]) all_slots"
    by (rule leads_Cons [OF leads_act [OF capture_scheduler_tidy]], rule leads_Cons [OF leads_start [OF monitor_starts puts_slots(2)]])
      (auto intro: leads_Nil)
  show ?thesis unfolding receiver_prologue_def Let_def
    by (rule leads_append [OF 1 leads_append [OF 2 leads_append [OF 3 leads_append [OF 4 leads_append [OF 5 leads_append [OF 6 7]]]]]])
qed


lemma receiver_measure_leads: "leads U (run_steps (receiver_measure k c smoke)) U"
  by (rule leads_steps) (auto simp: receiver_measure_def Let_def split: if_splits intro!: leads_message leads_act leads_act_on tidy_steps)

lemma leads_wait_flows: "leads (U \<union> flow_slots) (run_steps (map (\<lambda>i. act_on (wait_flow k cleanup i)) [0, 1, 2])) U"
proof -
  have "leads (U \<union> flow_slots) (run_steps (map (\<lambda>i. act_on (wait_flow k cleanup i)) [0, 1, 2]))
      (U \<union> flow_slots - {Flow_slot 0} - {Flow_slot 1} - {Flow_slot 2})"
    unfolding list.map by (rule leads_Cons [OF leads_wait leads_Cons [OF leads_wait leads_Cons [OF leads_wait leads_Nil [OF subset_refl]]]])
  then show ?thesis by (rule leads_mono) auto
qed

lemma receiver_epilogue_leads: "leads all_slots (run_steps (receiver_epilogue k c smoke)) {Loader_slot, Load_slot}"
proof -
  have 1: "leads all_slots (run_steps [act_on (stop_flows k), act_on (\<lambda>l. wait_completions k (lo_flows l) timeout), act_on (flush_flows k)]) all_slots" for timeout
    by (rule leads_steps) (auto intro!: leads_act_on tidy_steps)
  have "leads {Loader_slot, Load_slot, Clock_slot} (act_on (stop_clock k)) ({Loader_slot, Load_slot, Clock_slot} - {Clock_slot})"
    by (rule leads_clock)
  then have 3: "leads {Loader_slot, Load_slot, Clock_slot} (run_steps [act_on (stop_clock k)]) {Loader_slot, Load_slot}"
    by (intro leads_Cons [OF _ leads_Nil]) auto
  have 4: "leads U (run_steps (if P then [act (calibrate k ''after'')] else [])) U" for P U
    by (rule leads_steps) (auto intro!: leads_act tidy_steps split: if_splits)
  show ?thesis unfolding receiver_epilogue_def Let_def
    by (rule leads_append [OF 1 leads_append [OF leads_wait_flows leads_append [OF 3 4]]])
qed

lemma leads_stop_load: "leads U (act_on (\<lambda>l. stop_child k (lo_load l))) (U - {Load_slot})"
  using leads_stop [of U k Load_slot] by simp

lemma leads_stop_loader: "leads U (act_on (\<lambda>l. stop_child k (lo_loader l))) (U - {Loader_slot})"
  using leads_stop [of U k Loader_slot] by simp

lemma pipeline_leads: "leads {Loader_slot, Load_slot} (run_steps (stop_receiver_pipeline k c)) {}"
proof -
  have "leads {Loader_slot, Load_slot} (run_steps (stop_receiver_pipeline k c)) ({Loader_slot, Load_slot} - {Load_slot} - {Loader_slot})"
    unfolding stop_receiver_pipeline_def Let_def
    by (rule leads_Cons [OF leads_message(1) leads_Cons [OF leads_message(2) leads_Cons [OF leads_stop_load
        leads_Cons [OF leads_stop_loader leads_Cons [OF leads_act [OF restore_coalesce_tidy] leads_Nil [OF subset_refl]]]]]])
  then show ?thesis by (rule leads_mono) auto
qed

lemma closing_leads: "leads U (run_steps (closing_steps k)) U"
  by (rule leads_steps) (auto simp: closing_steps_def intro!: leads_act tidy_steps)

lemma settled_start: "roomy x \<Longrightarrow> x_children x = [] \<Longrightarrow> settled {} (x, no_locals)"
  by (simp add: settled_def no_locals_def)

lemma receiver_run_ended:
  assumes "roomy x" "x_children x = []" "receiver_run k x = (Ok, x')"
  shows "\<forall>c \<in> set (x_children x'). ended_well c"
proof -
  let ?c = "x_config x" and ?m = "smoke_mode x"
  let ?script = "receiver_prologue k ?c ?m @ receiver_measure k ?c ?m @ receiver_epilogue k ?c ?m @ stop_receiver_pipeline k ?c @ closing_steps k"
  obtain s where s: "run_steps ?script (x, no_locals) = (Ok, s)" "x' = fst s"
    using assms(3) by (auto simp: receiver_run_def Let_def split: prod.splits)
  have "leads {} (run_steps ?script) {}"
    by (rule leads_append [OF receiver_prologue_leads leads_append [OF receiver_measure_leads leads_append [OF receiver_epilogue_leads
        leads_append [OF pipeline_leads closing_leads]]]])
  then have "settled {} s" using s(1) settled_start [OF assms(1,2)] unfolding leads_def by blast
  then show ?thesis using s(2) by (auto simp: settled_def in_set_conv_nth)
qed

lemma sender_prologue_leads: "leads {} (run_steps (sender_prologue k c)) (insert Load_slot flow_slots)"
proof -
  have 1: "leads {} (run_steps [act (prepare_environment k), await_message k RX_READY ready, act (capture_state k ''before'')]) {}" for ready
    by (rule leads_steps) (auto intro!: leads_message leads_act tidy_steps)
  have 2: "leads {} (run_steps (map (\<lambda>i. start_as (sender_process k i) (put_flow i)) (enabled_flows c))) ({} \<union> flow_slots)"
    by (rule leads_enabled [OF sender_process_starts]) simp
  have "Load_slot \<notin> {} \<union> flow_slots" by simp
  note 3 = leads_Cons [OF leads_start [OF network_starts puts_slots(2) this]
      leads_Cons [OF leads_act_on [OF network_pause_tidy] leads_Nil [OF subset_refl]]]
  show ?thesis unfolding sender_prologue_def Let_def using leads_append [OF 1 leads_append [OF 2 3]] by (simp only: Un_empty_left)
qed

lemma sender_measure_leads: "leads U (run_steps (sender_measure k c)) U"
  by (rule leads_steps) (auto simp: sender_measure_def Let_def intro!: leads_message leads_act leads_act_on tidy_steps)

lemma sender_epilogue_leads: "leads (insert Load_slot flow_slots) (run_steps (sender_epilogue k c)) {}"
proof -
  have 1: "leads U (run_steps [act_on (flush_flows k)]) U" for U
    by (rule leads_steps) (auto intro!: leads_act_on tidy_steps)
  have 2: "leads (insert Load_slot flow_slots) (run_steps (map (\<lambda>i. act_on (wait_flow k False i)) [0, 1, 2])) {Load_slot}"
    using leads_wait_flows [of "{Load_slot}" k False] by (simp only: Un_insert_left Un_empty_left)
  have 4: "leads U (run_steps [act (capture_state k ''after''), act (write_run k ''completed''), send_message k ACK timeout, act (marker k ''.complete'')]) U" for U timeout
    by (rule leads_steps) (auto intro!: leads_message leads_act tidy_steps)
  have "leads (insert Load_slot flow_slots) (run_steps (sender_epilogue k c)) ({Load_slot} - {Load_slot})"
    unfolding sender_epilogue_def by (rule leads_append [OF 1 leads_append [OF 2 leads_Cons [OF leads_stop_load 4]]])
  then show ?thesis by (rule leads_mono) simp
qed

lemma sender_run_ended:
  assumes "roomy x" "x_children x = []" "sender_run k x = (Ok, x')"
  shows "\<forall>c \<in> set (x_children x'). ended_well c"
proof -
  let ?script = "sender_prologue k (x_config x) @ sender_measure k (x_config x) @ sender_epilogue k (x_config x)"
  obtain s where s: "run_steps ?script (x, no_locals) = (Ok, s)" "x' = fst s"
    using assms(3) by (auto simp: sender_run_def Let_def split: prod.splits)
  have "leads {} (run_steps ?script) {}"
    by (rule leads_append [OF sender_prologue_leads leads_append [OF sender_measure_leads sender_epilogue_leads]])
  then have "settled {} s" using s(1) settled_start [OF assms(1,2)] unfolding leads_def by blast
  then show ?thesis using s(2) by (auto simp: settled_def in_set_conv_nth)
qed

section \<open>After a run\<close>

lemma steady_all_done: "steady S x x' \<Longrightarrow> \<forall>c \<in> set (x_children x). ch_done c \<Longrightarrow> \<forall>c \<in> set (x_children x'). ch_done c"
proof
  assume s: "steady S x x'" "\<forall>c \<in> set (x_children x). ch_done c"
  fix c assume "c \<in> set (x_children x')"
  then obtain j where j: "j < length (x_children x')" "c = x_children x' ! j" by (auto simp: in_set_conv_nth)
  then have "j < length (x_children x)" using s(1) by (simp add: steady_def)
  then show "ch_done c" using steady_done [OF s(1), of j] s(2) j(2) by simp
qed

lemma restore_partition_done:
  assumes "restore_cpu_partition k x = (r, x')" "\<forall>c \<in> set (x_children x). ch_done c"
  shows "\<forall>c \<in> set (x_children x'). ch_done c"
proof (cases "x_partition_attempted x")
  case True
  define y where "y = x\<lparr>x_release_attempts := x_release_attempts x + 1\<rparr>"
  obtain name args q z where z: "run_tool k name args (stop_timeout y) True y = (q, z)" "x_children x' = x_children z"
    using assms(1) True scheduler_mask_result unfolding restore_cpu_partition_def Let_def y_def [symmetric]
    by (fastforce split: prod.splits outcome.splits)
  then show ?thesis using run_tool_done [OF z(1)] assms(2) by (simp add: y_def)
next
  case False
  then show ?thesis using assms by (simp add: restore_cpu_partition_def)
qed

lemma marker_done: "\<forall>c \<in> set (x_children x). ch_done c \<Longrightarrow> \<forall>c \<in> set (x_children (snd (marker k name x))). ch_done c"
proof -
  assume d: "\<forall>c \<in> set (x_children x). ch_done c"
  obtain r x' where m: "marker k name x = (r, x')" by fastforce
  then obtain y where "steady UNIV x y" "x_children x' = x_children y"
    by (rule marker_signs) (use marked_events advances_logs in blast)
  then show ?thesis using steady_all_done [of UNIV x y] d m by simp
qed

lemma fail_run_done: "\<forall>c \<in> set (x_children (fail_run k x)). ch_done c"
proof -
  obtain r1 x1 where c: "control_message k FAIL True 1000 x = (r1, x1)" by fastforce
  obtain r2 x2 where p: "restore_cpu_partition k (cleanup_children k x1) = (r2, x2)" by fastforce
  obtain r3 x3 where w: "write_run k ''failed'' x2 = (r3, x3)" by fastforce
  have "\<forall>c \<in> set (x_children (cleanup_children k x1)). ch_done c" by (rule cleanup_parts [of x1 k])
  then have d2: "\<forall>c \<in> set (x_children x2). ch_done c" by (rule restore_partition_done [OF p])
  then have "\<forall>c \<in> set (x_children x3). ch_done c" using steady_all_done write_run_steady [OF w] by blast
  then show ?thesis using d2 c p w marker_done [of x3 k "''.failed''"] by (simp add: fail_run_def Let_def)
qed

lemma one_run_ended:
  assumes "one_run k repeat position x = (Ok, x')"
  shows "\<forall>c \<in> set (x_children x'). ended_well c"
proof -
  let ?x = "x\<lparr>x_repeat := repeat, x_control := (x_control x)\<lparr>ct_index := ct_index (x_control x) + 1\<rparr>,
    x_mode := cf_modes (x_config x) ! unat (run_mode_index (x_config x) (of_nat repeat) (of_nat position))\<rparr>"
  obtain q y where y: "begin_run k ?x = (q, y)" by fastforce
  have q: "q = Ok" using assms y by (cases q) (simp_all add: one_run_def Let_def)
  then have "(if ct_receiver (x_control y) then receiver_run k y else sender_run k y) = (Ok, x')" using assms y by (simp add: one_run_def Let_def)
  then show ?thesis using begin_run_result [OF y] q receiver_run_ended [of y k x'] sender_run_ended [of y k x']
    by (auto simp: fresh_run_def split: if_splits)
qed

lemma suite_done:
  "run_all k schedule x = (failed, x') \<Longrightarrow> \<forall>c \<in> set (x_children x). ch_done c \<Longrightarrow> \<forall>c \<in> set (x_children x'). ch_done c"
proof (induction schedule arbitrary: x)
  case (Cons rp schedule)
  obtain repeat position r y where y: "rp = (repeat, position)" "one_run k repeat position x = (r, y)" by (cases rp) fastforce
  show ?case
  proof (cases "r = Ok")
    case True
    then have "\<forall>c \<in> set (x_children y). ended_well c" using one_run_ended y(2) by blast
    then have "\<forall>c \<in> set (x_children y). ch_done c" by (simp add: ended_well_def)
    then show ?thesis using Cons.IH [of y] Cons.prems(1) y True by simp
  next
    case False
    then have "x' = fail_run k y" using Cons.prems(1) y by (cases r) simp_all
    then show ?thesis using fail_run_done by simp
  qed
qed simp

text \<open>
  Property C11.  No program outlives its run.  When a run succeeds, every program it started has ended and ended
  well: with exit code 0, or, for the load generators, by the coordinator's request.  When a run fails,
  every program it started has ended once the failure was handled.  So the next run, which forgets the
  children of the run before, and the end of the coordinator leave no program behind.
\<close>

theorem runs_leave_no_child:
  assumes "\<forall>c \<in> set (x_children x). ch_done c" "run_all k schedule x = (failed, x')"
  shows "(\<forall>c \<in> set (x_children x'). ch_done c) \<and>
    (\<forall>repeat position r y. one_run k repeat position x = (r, y) \<longrightarrow>
       (if r = Ok then \<forall>c \<in> set (x_children y). ended_well c else \<forall>c \<in> set (x_children (fail_run k y)). ch_done c))"
  using one_run_ended suite_done [OF assms(2,1)] fail_run_done by (metis (mono_tags, lifting))

theorem runs_leave_no_child_witness:
  "\<exists>failed x'. run_all calm_kernel [(1, 0), (2, 0)] (sample_run\<lparr>x_children := []\<rparr>) = (failed, x') \<and> (\<forall>c \<in> set (x_children x'). ch_done c)"
proof -
  let ?x = "sample_run\<lparr>x_children := []\<rparr>"
  obtain failed x' where r: "run_all calm_kernel [(1, 0), (2, 0)] ?x = (failed, x')" by (cases "run_all calm_kernel [(1, 0), (2, 0)] ?x")
  have "\<forall>c \<in> set (x_children ?x). ch_done c" by simp
  from runs_leave_no_child [OF this r] r show ?thesis by blast
qed

end
