(* ===== verification/Manifest.thy ===== *)
theory Manifest
  imports Json_Text Run_Children
begin

text \<open>
  The manifest of a run (\<^verbatim>\<open>experiment/ace_manifest.c\<close>): the bounded capture of a command's output, the
  digests of the programs, and the atomic publication of the text.  Processes, clocks and files are
  parameters.
\<close>

section \<open>capture\<close>

abbreviation CAPTURE_LIMIT :: nat where "CAPTURE_LIMIT \<equiv> 2 * 1024 * 1024"
abbreviation COMMAND_TIMEOUT_MS :: int where "COMMAND_TIMEOUT_MS \<equiv> 10000"
abbreviation EFBIG :: errno where "EFBIG \<equiv> 27"

text \<open>The answers of one round of the read loop: the clock, \<^verbatim>\<open>poll\<close>, \<^verbatim>\<open>realloc\<close> and \<^verbatim>\<open>read\<close>.\<close>

record read_round =
  rr_now :: "errno + int"
  rr_poll :: "errno + nat"
  rr_realloc :: "errno option"
  rr_read :: "errno + string"

text \<open>
  The loop until the end of the output.  \<open>capacity\<close> is the size of the buffer and \<open>used\<close> what it holds;
  \<open>None\<close> means that the rounds do not suffice.
\<close>

fun capture_loop :: "read_round list \<Rightarrow> int \<Rightarrow> nat \<Rightarrow> string \<Rightarrow> (errno + string) option" where
  "capture_loop [] deadline capacity used = None"
| "capture_loop (r # rounds) deadline capacity used =
   (case rr_now r of
      Inl e \<Rightarrow> Some (Inl e)
    | Inr now \<Rightarrow>
        if now \<ge> deadline then Some (Inl ETIMEDOUT)
        else (case rr_poll r of
            Inl e \<Rightarrow> if e = EINTR then capture_loop rounds deadline capacity used else Some (Inl e)
          | Inr ready \<Rightarrow>
              if ready = 0 then Some (Inl ETIMEDOUT)
              else if length used + 1 = capacity \<and> capacity \<ge> CAPTURE_LIMIT then Some (Inl EFBIG)
              else if length used + 1 = capacity \<and> rr_realloc r \<noteq> None then Some (Inl (the (rr_realloc r)))
              else
               (let capacity = (if length used + 1 = capacity then capacity * 2 else capacity) in
                case rr_read r of
                  Inl e \<Rightarrow> if e = EINTR then capture_loop rounds deadline capacity used else Some (Inl e)
                | Inr piece \<Rightarrow>
                    if piece = [] then Some (Inr used) else capture_loop rounds deadline capacity (used @ piece))))"

text \<open>The kernel reads no more than the room that was offered.\<close>

fun reads_fit :: "read_round list \<Rightarrow> nat \<Rightarrow> nat \<Rightarrow> bool" where
  "reads_fit [] capacity used \<longleftrightarrow> True"
| "reads_fit (r # rounds) capacity used \<longleftrightarrow>
     (let grown = (if used + 1 = capacity then capacity * 2 else capacity);
          asked = (case rr_poll r of Inl e \<Rightarrow> False | Inr ready \<Rightarrow> True) in
      case rr_read r of
        Inl e \<Rightarrow> reads_fit rounds (if asked then grown else capacity) used
      | Inr piece \<Rightarrow> length piece \<le> grown - used - 1 \<and>
          (if asked then reads_fit rounds grown (used + length piece) else reads_fit rounds capacity used))"

text \<open>Waiting for the child: the answers of \<^verbatim>\<open>waitpid\<close> and the clock.\<close>

fun capture_wait :: "(wait_answer \<times> (errno + int)) list \<Rightarrow> int \<Rightarrow> (errno + nat) option" where
  "capture_wait [] deadline = None"
| "capture_wait ((answer, clock) # rounds) deadline =
   (case answer of
      Ended status \<Rightarrow> Some (Inr status)
    | Wait_failed e \<Rightarrow> if e = EINTR then capture_wait rounds deadline else Some (Inl e)
    | Still_running \<Rightarrow>
        (case clock of
           Inl e \<Rightarrow> Some (Inl e)
         | Inr now \<Rightarrow> if now \<ge> deadline then Some (Inl ETIMEDOUT) else capture_wait rounds deadline))"

record capture_io =
  ci_clock :: "errno + int"
  ci_pipe :: "errno option"
  ci_fork :: "errno option"
  ci_malloc :: "errno option"
  ci_rounds :: "read_round list"
  ci_waits :: "(wait_answer \<times> (errno + int)) list"

text \<open>
  The result, and whether the child was killed and waited for; a child that was started is waited for
  on every path.
\<close>

definition capture_failed :: "errno \<Rightarrow> (errno + string) \<times> bool" where
  "capture_failed saved = (Inl (if saved \<noteq> 0 then saved else EIO), True)"

definition capture :: "capture_io \<Rightarrow> ((errno + string) \<times> bool) option" where
  "capture io =
   (case ci_clock io of Inl e \<Rightarrow> Some (Inl e, False) | Inr now \<Rightarrow>
    (let deadline = now + COMMAND_TIMEOUT_MS in
     case ci_pipe io of Some e \<Rightarrow> Some (Inl e, False) | None \<Rightarrow>
     case ci_fork io of Some e \<Rightarrow> Some (Inl e, False) | None \<Rightarrow>
     case ci_malloc io of Some e \<Rightarrow> Some (capture_failed e) | None \<Rightarrow>
     (case capture_loop (ci_rounds io) deadline 4096 [] of
        None \<Rightarrow> None
      | Some (Inl e) \<Rightarrow> Some (capture_failed e)
      | Some (Inr text) \<Rightarrow>
          (case capture_wait (ci_waits io) deadline of
             None \<Rightarrow> None
           | Some (Inl e) \<Rightarrow> Some (capture_failed e)
           | Some (Inr status) \<Rightarrow>
               if \<not> WIFEXITED status \<or> WEXITSTATUS status \<noteq> 0
               then Some (Inl (if WIFEXITED status \<and> WEXITSTATUS status = 127 then ENOENT else EIO), False)
               else Some (Inr text, False)))))"

section \<open>Files and digests\<close>

text \<open>\<^verbatim>\<open>read_optional_text\<close> with its buffer of 64 KiB: \<open>None\<close> inside stands for the null pointer.\<close>

definition strip_newlines :: "string \<Rightarrow> string" where
  "strip_newlines t = rev (dropWhile (\<lambda>c. c = NL \<or> c = CHR 0x0D) (rev t))"

text \<open>A C string ends at its first zero byte.\<close>

definition c_text :: "string \<Rightarrow> string" where "c_text t = takeWhile (\<lambda>c. c \<noteq> CHR 0x00) t"

fun optional_loop :: "(errno + string) list \<Rightarrow> string \<Rightarrow> string option option" where
  "optional_loop [] used = None"
| "optional_loop (answer # answers) used =
   (case answer of
      Inl e \<Rightarrow> if e = EINTR then optional_loop answers used else Some None
    | Inr piece \<Rightarrow>
        if length used + length piece \<ge> 65536 - 1 then Some None
        else if piece = [] then Some (Some (c_text (strip_newlines used)))
        else optional_loop answers (used @ piece))"

definition read_optional_text :: "errno option \<Rightarrow> (errno + string) list \<Rightarrow> string option option" where
  "read_optional_text opened answers = (case opened of Some e \<Rightarrow> Some None | None \<Rightarrow> optional_loop answers [])"







section \<open>The text\<close>








section \<open>ace_write_manifest\<close>










section \<open>The capture is bounded\<close>

definition buffer_size :: "nat \<Rightarrow> bool" where "buffer_size n \<longleftrightarrow> (\<exists>k \<le> 21. n = 2 ^ k)"

lemma buffer_size_bound: "buffer_size n \<Longrightarrow> n \<le> CAPTURE_LIMIT"
  unfolding buffer_size_def by (auto simp: power_increasing [of _ 21 "2 :: nat", simplified])

lemma buffer_size_double: "buffer_size n \<Longrightarrow> n < CAPTURE_LIMIT \<Longrightarrow> buffer_size (n * 2)"
proof -
  assume "buffer_size n" "n < CAPTURE_LIMIT"
  then obtain k where k: "n = 2 ^ k" "k \<le> 21" "(2 :: nat) ^ k < 2 ^ 21" by (auto simp: buffer_size_def)
  then have "k < 21" using power_less_imp_less_exp [of 2 k 21] by simp
  then show ?thesis using k(1) unfolding buffer_size_def by (intro exI [of _ "Suc k"]) simp
qed

text \<open>What a round adds to the output, and the round that finds its end.\<close>

definition delivered :: "read_round \<Rightarrow> string" where
  "delivered r = (case (rr_poll r, rr_read r) of (Inr _, Inr piece) \<Rightarrow> piece | _ \<Rightarrow> [])"

definition end_of_output :: "read_round \<Rightarrow> bool" where
  "end_of_output r \<longleftrightarrow> (\<exists>ready. rr_poll r = Inr ready) \<and> rr_read r = Inr []"

text \<open>The child is waited for up to the answer with its status.\<close>

definition ended_with :: "(wait_answer \<times> (errno + int)) list \<Rightarrow> nat \<Rightarrow> bool" where
  "ended_with waits status \<longleftrightarrow>
     (\<exists>k < length waits. fst (waits ! k) = Ended status \<and> (\<forall>j < k. fst (waits ! j) \<in> {Still_running, Wait_failed EINTR}))"

lemma capture_wait_ended: "capture_wait waits deadline = Some (Inr status) \<Longrightarrow> ended_with waits status"
proof (induction waits deadline rule: capture_wait.induct)
  case (2 answer clock rounds deadline)
  show ?case
  proof (cases "answer = Ended status")
    case True
    then show ?thesis unfolding ended_with_def by (intro exI [of _ 0]) simp
  next
    case False
    then have a: "answer \<in> {Still_running, Wait_failed EINTR}" and r: "capture_wait rounds deadline = Some (Inr status)"
      using 2(3) by (auto split: wait_answer.splits sum.splits if_splits)
    have "ended_with rounds status" using 2 a r by (auto split: sum.splits if_splits)
    then obtain k where "k < length rounds" "fst (rounds ! k) = Ended status" "\<forall>j < k. fst (rounds ! j) \<in> {Still_running, Wait_failed EINTR}"
      by (auto simp: ended_with_def)
    then show ?thesis using a unfolding ended_with_def by (intro exI [of _ "Suc k"]) (auto simp: less_Suc_eq_0_disj)
  qed
qed simp

lemma capture_loop_bounded:
  assumes "capture_loop rounds deadline capacity used = Some (Inr t)" "reads_fit rounds capacity (length used)"
    "length used < capacity" "buffer_size capacity"
  shows "length t < CAPTURE_LIMIT \<and> (\<exists>n < length rounds. end_of_output (rounds ! n) \<and> t = used @ concat (map delivered (take n rounds)))"
  using assms
proof (induction rounds arbitrary: capacity used)
  case (Cons r rounds)
  have next_round: "\<exists>n < length (r # rs). end_of_output ((r # rs) ! n) \<and> t = used @ concat (map delivered (take n (r # rs)))"
    if "\<exists>n < length rs. end_of_output (rs ! n) \<and> t = (used @ delivered r) @ concat (map delivered (take n rs))" for rs
    using that by (elim exE conjE, intro exI [of _ "Suc _"]) auto
  define grown where "grown = (if length used + 1 = capacity then capacity * 2 else capacity)"
  obtain now where now: "rr_now r = Inr now" "now < deadline" using Cons.prems(1) by (auto split: sum.splits if_splits)
  show ?case
  proof (cases "rr_poll r")
    case (Inl e)
    then have "capture_loop rounds deadline capacity used = Some (Inr t)" using Cons.prems(1) now by (auto split: if_splits)
    moreover have "reads_fit rounds capacity (length used)" using Cons.prems(2) Inl by (auto simp: Let_def split: sum.splits)
    moreover have "delivered r = []" using Inl by (simp add: delivered_def)
    ultimately show ?thesis using Cons.IH [OF _ _ Cons.prems(3,4)] next_round [of rounds] by simp
  next
    case (Inr ready)
    have g: "buffer_size grown" "length used + 1 < grown \<or> length used + 1 = capacity \<and> capacity = grown"
      "\<not> (length used + 1 = capacity \<and> capacity \<ge> CAPTURE_LIMIT)"
      using Cons.prems(1,3,4) now Inr buffer_size_double [OF Cons.prems(4)] by (auto simp: grown_def split: if_splits)
    have lu: "length used < grown" using Cons.prems(3) by (auto simp: grown_def)
    show ?thesis
    proof (cases "rr_read r")
      case (Inl e)
      then have "capture_loop rounds deadline grown used = Some (Inr t)"
        using Cons.prems(1) now Inr by (auto simp: grown_def Let_def split: if_splits)
      moreover have "reads_fit rounds grown (length used)" using Cons.prems(2) Inl Inr by (simp add: Let_def grown_def)
      moreover have "delivered r = []" using Inl Inr by (simp add: delivered_def)
      ultimately show ?thesis using Cons.IH [OF _ _ lu g(1)] next_round [of rounds] by simp
    next
      case (Inr piece)
      have fit: "length piece \<le> grown - length used - 1" "reads_fit rounds grown (length (used @ piece))"
        using Cons.prems(2) Inr \<open>rr_poll r = Inr ready\<close> by (auto simp: Let_def grown_def)
      show ?thesis
      proof (cases "piece = []")
        case True
        then have "t = used" using Cons.prems(1) now Inr \<open>rr_poll r = Inr ready\<close> by (auto simp: Let_def split: if_splits)
        moreover have "end_of_output r" using True Inr \<open>rr_poll r = Inr ready\<close> by (simp add: end_of_output_def)
        ultimately show ?thesis using lu buffer_size_bound [OF g(1)] by (auto intro!: exI [of _ 0])
      next
        case False
        then have "capture_loop rounds deadline grown (used @ piece) = Some (Inr t)"
          using Cons.prems(1) now Inr \<open>rr_poll r = Inr ready\<close> by (auto simp: grown_def Let_def split: if_splits)
        moreover have "length (used @ piece) < grown" using fit(1) lu by simp
        moreover have "delivered r = piece" using Inr \<open>rr_poll r = Inr ready\<close> by (simp add: delivered_def)
        ultimately show ?thesis using Cons.IH [OF _ fit(2) _ g(1)] next_round [of rounds] by simp
      qed
    qed
  qed
qed simp

text \<open>
  Property C31.  A command's output is captured whole or not at all, and within fixed bounds.  Whatever the command
  writes, a successful capture is everything that was read up to the end of the output, in order, holds less than
  two megabytes, and comes from a command that was waited for and exited with 0.  A capture that fails either did not
  start the command, or has killed and waited for it, or the command had ended by itself with another
  status, of which 127 is reported as ENOENT.
\<close>

theorem capture_bounded:
  assumes "capture io = Some (r, killed)" "reads_fit (ci_rounds io) 4096 0"
  shows "case r of
      Inr t \<Rightarrow> \<not> killed \<and> length t < CAPTURE_LIMIT \<and>
        (\<exists>n < length (ci_rounds io). end_of_output (ci_rounds io ! n) \<and> t = concat (map delivered (take n (ci_rounds io)))) \<and>
        (\<exists>status. ended_with (ci_waits io) status \<and> WIFEXITED status \<and> WEXITSTATUS status = 0)
    | Inl e \<Rightarrow> killed \<or> ci_clock io = Inl e \<or> ci_pipe io = Some e \<or> ci_fork io = Some e \<or>
        (\<exists>status. ended_with (ci_waits io) status \<and> \<not> (WIFEXITED status \<and> WEXITSTATUS status = 0) \<and>
           e = (if WIFEXITED status \<and> WEXITSTATUS status = 127 then ENOENT else EIO))"
proof -
  have "buffer_size 4096" unfolding buffer_size_def by (intro exI [of _ 12]) simp
  then have b: "length t < CAPTURE_LIMIT \<and> (\<exists>n < length (ci_rounds io). end_of_output (ci_rounds io ! n) \<and> t = concat (map delivered (take n (ci_rounds io))))"
    if "capture_loop (ci_rounds io) d 4096 [] = Some (Inr t)" for d t
    using capture_loop_bounded [OF that] assms(2) by simp
  show ?thesis
  proof (cases r)
    case (Inl e)
    then show ?thesis using assms(1) capture_wait_ended
      by (auto simp: capture_def capture_failed_def Let_def split: sum.splits option.splits if_splits)
  next
    case (Inr t)
    then obtain d status where c: "capture_loop (ci_rounds io) d 4096 [] = Some (Inr t)" "capture_wait (ci_waits io) d = Some (Inr status)"
      "WIFEXITED status" "WEXITSTATUS status = 0" "\<not> killed"
      using assms(1) by (auto simp: capture_def capture_failed_def Let_def split: sum.splits option.splits if_splits)
    then show ?thesis using Inr b [OF c(1)] capture_wait_ended [OF c(2)] by auto
  qed
qed

definition sample_capture :: "string \<Rightarrow> capture_io" where
  "sample_capture t = \<lparr>ci_clock = Inr 0, ci_pipe = None, ci_fork = None, ci_malloc = None,
     ci_rounds = [\<lparr>rr_now = Inr 1, rr_poll = Inl EINTR, rr_realloc = None, rr_read = Inl EINTR\<rparr>,
       \<lparr>rr_now = Inr 2, rr_poll = Inr 1, rr_realloc = None, rr_read = Inr t\<rparr>,
       \<lparr>rr_now = Inr 3, rr_poll = Inr 1, rr_realloc = None, rr_read = Inr []\<rparr>],
     ci_waits = [(Still_running, Inr 4), (Ended 0, Inr 5)]\<rparr>"

lemma sample_capture_eval: "t \<noteq> [] \<Longrightarrow> length t < 4095 \<Longrightarrow> capture (sample_capture t) = Some (Inr t, False)"
  by (simp add: capture_def sample_capture_def WIFEXITED_def WEXITSTATUS_def)

theorem capture_bounded_witness:
  "capture (sample_capture ''abc'') = Some (Inr ''abc'', False) \<and> length ''abc'' < CAPTURE_LIMIT"
proof -
  have c: "capture (sample_capture ''abc'') = Some (Inr ''abc'', False)" by (simp add: sample_capture_eval)
  have "reads_fit (ci_rounds (sample_capture ''abc'')) 4096 0" by (simp add: sample_capture_def)
  from capture_bounded [OF c this] c show ?thesis by simp
qed

section \<open>The digests\<close>






section \<open>Publication\<close>














end
