(* ===== verification/Cpu_Sample.thy ===== *)
theory Cpu_Sample
  imports Csv_Export Run_Config
begin

text \<open>
  The sampler of the load monitor (\<^verbatim>\<open>udp_socket/src/cpu_sample.c\<close>): snapshots of \<^verbatim>\<open>/proc/stat\<close> and
  \<^verbatim>\<open>/proc/net/dev\<close> as CSV rows at a fixed interval until a stop signal arrives, and a last pair of
  snapshots then.  The contents of the two files, the clock, the answers of \<^verbatim>\<open>sigtimedwait\<close> and of the
  output calls are parameters; memory allocation is taken to succeed and a line to hold no NUL.
\<close>

section \<open>Tokens\<close>

text \<open>The successive results of \<^verbatim>\<open>strtok_r\<close> with the blanks of the source; \<open>None\<close> stands for NULL.\<close>

definition blank :: "char \<Rightarrow> bool" where
  "blank c \<longleftrightarrow> c = CHR '' '' \<or> c = CHR 0x09 \<or> c = CHR 0x0D \<or> c = NL"

function tokens :: "string \<Rightarrow> string list" where
  "tokens s = (let t = dropWhile blank s in if t = [] then [] else takeWhile (\<lambda>c. \<not> blank c) t # tokens (dropWhile (\<lambda>c. \<not> blank c) t))"
  by pat_completeness auto
termination
proof (relation "measure length")
  fix s t assume t: "t = dropWhile blank s" "t \<noteq> []"
  then obtain c cs where c: "t = c # cs" "\<not> blank c" by (metis hd_dropWhile list.exhaust_sel)
  have "length (dropWhile (\<lambda>c. \<not> blank c) t) \<le> length cs" using c by (simp add: length_dropWhile_le)
  also have "\<dots> < length t" using c by simp
  also have "\<dots> \<le> length s" by (simp add: t(1) length_dropWhile_le)
  finally show "(dropWhile (\<lambda>c. \<not> blank c) t, s) \<in> measure length" by simp
qed simp

declare tokens.simps [simp del]

text \<open>The first \<open>n\<close> tokens as numbers.\<close>

fun token_values :: "nat \<Rightarrow> string list \<Rightarrow> u64 list option" where
  "token_values 0 ts = Some []"
| "token_values (Suc n) ts =
   (case unsigned_value (case ts of [] \<Rightarrow> None | t # _ \<Rightarrow> Some t) of
      None \<Rightarrow> None
    | Some v \<Rightarrow> (case token_values n (tl ts) of None \<Rightarrow> None | Some vs \<Rightarrow> Some (v # vs)))"

section \<open>CPU rows\<close>

record cpu_ticks =
  ct_name :: string
  ct_ticks :: "u64 list"

abbreviation MAX_CPU_ROWS :: nat where "MAX_CPU_ROWS \<equiv> 16384"

text \<open>The rows of \<^verbatim>\<open>/proc/stat\<close>, or the error that ends the loop.\<close>

definition cpu_name :: "string \<Rightarrow> string" where "cpu_name label = (if drop 3 label = [] then ''all'' else drop 3 label)"

fun read_cpu_rows :: "cpu_ticks list \<Rightarrow> string list \<Rightarrow> errno + cpu_ticks list" where
  "read_cpu_rows rows [] = Inr rows"
| "read_cpu_rows rows (line # lines) =
   (case tokens line of
      [] \<Rightarrow> read_cpu_rows rows lines
    | label # ts \<Rightarrow>
        if take 3 label \<noteq> ''cpu'' then read_cpu_rows rows lines
        else if drop 3 label \<noteq> [] \<and> unsigned_value (Some (drop 3 label)) = None then Inl EINVAL
        else if length (cpu_name label) \<ge> 24 \<or> length rows = MAX_CPU_ROWS then Inl EINVAL
        else if cpu_name label \<in> ct_name ` set rows then Inl EINVAL
        else (case token_values 8 ts of
            None \<Rightarrow> Inl EINVAL
          | Some ticks \<Rightarrow> read_cpu_rows (rows @ [\<lparr>ct_name = cpu_name label, ct_ticks = ticks\<rparr>]) lines))"

text \<open>
  What the calls around one snapshot answer: the clock before and after, the opened file with its
  lines, an error of reading or closing it, and an error of the output.
\<close>

record snap_io =
  si_before :: "u64 option"
  si_lines :: "errno + string list"
  si_read_error :: "errno option"
  si_after :: "errno + u64"
  si_print_error :: "errno option"

definition midpoint :: "u64 \<Rightarrow> u64 \<Rightarrow> u64" where "midpoint before after = before + (after - before) div 2"

definition cpu_fields :: "u64 \<times> cpu_ticks \<Rightarrow> string list" where
  "cpu_fields r = (case r of (timestamp, row) \<Rightarrow> show_word timestamp # ct_name row # map show_word (ct_ticks row))"

text \<open>The rows that a snapshot prints, or why it fails.  Where printing fails a part may be printed.\<close>

definition snapshot_rows :: "snap_io \<Rightarrow> errno option + (u64 \<times> cpu_ticks) list" where
  "snapshot_rows io =
   (case si_before io of None \<Rightarrow> Inl None | Some before \<Rightarrow>
    case si_lines io of Inl e \<Rightarrow> Inl (Some e) | Inr lines \<Rightarrow>
    case read_cpu_rows [] lines of Inl e \<Rightarrow> Inl (Some e) | Inr rows \<Rightarrow>
    case si_read_error io of Some e \<Rightarrow> Inl (Some e) | None \<Rightarrow>
      if rows = [] \<or> ct_name (hd rows) \<noteq> ''all'' then Inl (Some EINVAL)
      else (case si_after io of Inl e \<Rightarrow> Inl (Some e) | Inr after \<Rightarrow> Inr (map (\<lambda>row. (midpoint before after, row)) rows)))"

definition snapshot :: "snap_io \<Rightarrow> (errno option + string)" where
  "snapshot io =
   (case snapshot_rows io of
      Inl e \<Rightarrow> Inl e
    | Inr rows \<Rightarrow> (case si_print_error io of Some e \<Rightarrow> Inl (Some e) | None \<Rightarrow> Inr (concat (map (csv_line \<circ> cpu_fields) rows))))"

section \<open>Network rows\<close>

text \<open>\<^verbatim>\<open>isspace\<close> and \<^verbatim>\<open>isalnum\<close> in the C locale.\<close>

definition space_char :: "char \<Rightarrow> bool" where "space_char c \<longleftrightarrow> c = CHR '' '' \<or> 9 \<le> char_code c \<and> char_code c \<le> 13"

definition trim :: "string \<Rightarrow> string" where "trim s = rev (dropWhile space_char (rev (dropWhile space_char s)))"

text \<open>The parts of a line before and after its last colon.\<close>

definition at_last_colon :: "string \<Rightarrow> (string \<times> string) option" where
  "at_last_colon line =
   (if CHR '':'' \<in> set line
    then Some (rev (tl (dropWhile (\<lambda>c. c \<noteq> CHR '':'') (rev line))), rev (takeWhile (\<lambda>c. c \<noteq> CHR '':'') (rev line)))
    else None)"

fun net_counters :: "string \<Rightarrow> u64 list option \<Rightarrow> string list \<Rightarrow> errno + u64 list option" where
  "net_counters interface found [] = Inr found"
| "net_counters interface found (line # lines) =
   (case at_last_colon line of
      None \<Rightarrow> net_counters interface found lines
    | Some (name, rest) \<Rightarrow>
        if trim name \<noteq> interface then net_counters interface found lines
        else if found \<noteq> None then Inl EINVAL
        else (case token_values 16 (tokens rest) of
            None \<Rightarrow> Inl EINVAL
          | Some counters \<Rightarrow> if length (tokens rest) > 16 then Inl EINVAL else net_counters interface (Some counters) lines))"

abbreviation ENODEV :: errno where "ENODEV \<equiv> 19"

text \<open>Received and sent bytes, packets, errors and drops.\<close>

definition columns :: "nat list" where "columns = [0, 1, 2, 3, 8, 9, 10, 11]"

record net_row =
  nr_time :: u64
  nr_interface :: string
  nr_counters :: "u64 list"

definition net_fields :: "net_row \<Rightarrow> string list" where
  "net_fields r = show_word (nr_time r) # nr_interface r # map show_word (nr_counters r)"

definition network_row :: "snap_io \<Rightarrow> string \<Rightarrow> errno option + net_row" where
  "network_row io interface =
   (case si_before io of None \<Rightarrow> Inl None | Some before \<Rightarrow>
    case si_lines io of Inl e \<Rightarrow> Inl (Some e) | Inr lines \<Rightarrow>
    case net_counters interface None lines of Inl e \<Rightarrow> Inl (Some e) | Inr found \<Rightarrow>
    case si_read_error io of Some e \<Rightarrow> Inl (Some e) | None \<Rightarrow>
    case found of None \<Rightarrow> Inl (Some ENODEV) | Some counters \<Rightarrow>
    case si_after io of Inl e \<Rightarrow> Inl (Some e) | Inr after \<Rightarrow>
      Inr \<lparr>nr_time = midpoint before after, nr_interface = interface, nr_counters = map (\<lambda>i. counters ! i) columns\<rparr>)"

definition network_snapshot :: "snap_io \<Rightarrow> string option \<Rightarrow> errno option + string" where
  "network_snapshot io interface =
   (case interface of
      None \<Rightarrow> Inr []
    | Some name \<Rightarrow>
        (case network_row io name of
           Inl e \<Rightarrow> Inl e
         | Inr row \<Rightarrow> (case si_print_error io of Some e \<Rightarrow> Inl (Some e) | None \<Rightarrow> Inr (csv_line (net_fields row)))))"

section \<open>Sampling\<close>

text \<open>The two outputs so far, standard output and the network file, and the timeouts of the waits.\<close>

record outputs =
  op_cpu :: string
  op_net :: string
  op_waits :: "u64 list"

definition sample :: "snap_io \<Rightarrow> snap_io \<Rightarrow> string option \<Rightarrow> outputs \<Rightarrow> bool \<times> outputs" where
  "sample cpu net interface out =
   (case snapshot cpu of
      Inl e \<Rightarrow> (False, out)
    | Inr text \<Rightarrow>
        (let out = out\<lparr>op_cpu := op_cpu out @ text\<rparr> in
         case network_snapshot net interface of
           Inl e \<Rightarrow> (False, out)
         | Inr line \<Rightarrow> (True, out\<lparr>op_net := op_net out @ line\<rparr>)))"

text \<open>One pass of the loop: the clock, what \<^verbatim>\<open>sigtimedwait\<close> answers, and the sample with the clock after it.\<close>

datatype wait_result = Stop_signal | Timed_out | Interrupted | Wait_error

record sample_round =
  sr_now :: "u64 option"
  sr_wait :: wait_result
  sr_cpu :: snap_io
  sr_net :: snap_io
  sr_after :: "u64 option"

definition wait_left :: "u64 \<Rightarrow> u64 \<Rightarrow> u64" where "wait_left deadline now = (if now < deadline then deadline - now else 0)"

text \<open>After a sample the deadline moves by one interval, but never stays in the past.\<close>

definition next_deadline :: "u64 \<Rightarrow> u64 \<Rightarrow> u64 \<Rightarrow> u64" where
  "next_deadline deadline interval now = (if deadline + interval \<le> now then now + interval else deadline + interval)"

text \<open>The exit code and the outputs; \<open>None\<close> where the rounds do not suffice.\<close>

fun sample_loop :: "string option \<Rightarrow> bool \<Rightarrow> u64 \<Rightarrow> sample_round list \<Rightarrow> u64 \<Rightarrow> outputs \<Rightarrow> (nat \<times> outputs) option" where
  "sample_loop interface close_ok interval [] deadline out = None"
| "sample_loop interface close_ok interval (r # rounds) deadline out =
   (case sr_now r of
      None \<Rightarrow> Some (1, out)
    | Some now \<Rightarrow>
        (let out = out\<lparr>op_waits := op_waits out @ [wait_left deadline now]\<rparr> in
         case sr_wait r of
           Stop_signal \<Rightarrow>
             (case sample (sr_cpu r) (sr_net r) interface out of
                (okay, out) \<Rightarrow> Some (if okay \<and> (interface = None \<or> close_ok) then 0 else 1, out))
         | Interrupted \<Rightarrow> sample_loop interface close_ok interval rounds deadline out
         | Wait_error \<Rightarrow> Some (1, out)
         | Timed_out \<Rightarrow>
             (case sample (sr_cpu r) (sr_net r) interface out of
                (okay, out) \<Rightarrow>
                  if \<not> okay then Some (1, out)
                  else (case sr_after r of
                      None \<Rightarrow> Some (1, out)
                    | Some now \<Rightarrow> sample_loop interface close_ok interval rounds (next_deadline deadline interval now) out))))"

section \<open>The program\<close>

datatype sampler_opt = U_interval string | U_stat string | U_interface string | U_network string | U_net_dev string | U_help | U_unknown

record sampler_config =
  uc_interval_ms :: u64
  uc_stat_file :: string
  uc_net_file :: string
  uc_interface :: "string option"
  uc_network_path :: "string option"

definition sampler_defaults :: sampler_config where
  "sampler_defaults = \<lparr>uc_interval_ms = 1000, uc_stat_file = ''/proc/stat'', uc_net_file = ''/proc/net/dev'', uc_interface = None, uc_network_path = None\<rparr>"

fun sampler_option :: "sampler_opt \<Rightarrow> sampler_config \<Rightarrow> sampler_config cli_result" where
  "sampler_option U_help c = Cli_help"
| "sampler_option (U_stat t) c = Cli_ok (c\<lparr>uc_stat_file := t\<rparr>)"
| "sampler_option (U_interface t) c = Cli_ok (c\<lparr>uc_interface := Some t\<rparr>)"
| "sampler_option (U_network t) c = Cli_ok (c\<lparr>uc_network_path := Some t\<rparr>)"
| "sampler_option (U_net_dev t) c = Cli_ok (c\<lparr>uc_net_file := t\<rparr>)"
| "sampler_option (U_interval t) c =
   (case unsigned_value (Some t) of
      None \<Rightarrow> Cli_bad
    | Some v \<Rightarrow> if v = 0 \<or> v > 3600000 then Cli_bad else Cli_ok (c\<lparr>uc_interval_ms := v\<rparr>))"
| "sampler_option U_unknown c = Cli_bad"

definition sampler_arguments :: "sampler_opt list \<Rightarrow> nat \<Rightarrow> sampler_config cli_result" where
  "sampler_arguments options operands =
   (case cli_loop sampler_option options sampler_defaults of
      Cli_ok c \<Rightarrow>
        if operands \<noteq> 0 \<or> (uc_interface c \<noteq> None) \<noteq> (uc_network_path c \<noteq> None) then Cli_bad
        else (case (uc_interface c, uc_network_path c) of
            (Some interface, Some path) \<Rightarrow>
              if interface = [] \<or> length interface > 15 \<or> path = [] \<or>
                 \<not> list_all (\<lambda>ch. alnum ch \<or> ch \<in> set ''_.:-'') interface
              then Cli_bad else Cli_ok c
          | _ \<Rightarrow> Cli_ok c)
    | r \<Rightarrow> r)"

definition cpu_header :: string where "cpu_header = ''monotonic_ns,cpu,user,nice,system,idle,iowait,irq,softirq,steal''"

definition net_header :: string where
  "net_header = ''monotonic_ns,interface,rx_bytes,rx_packets,rx_errors,rx_dropped,tx_bytes,tx_packets,tx_errors,tx_dropped''"

text \<open>What the calls outside the loop answer.\<close>

record sampler_io =
  ui_block :: "errno option"
  ui_create :: "errno option"
  ui_net_header :: "errno option"
  ui_cpu_header :: "errno option"
  ui_cpu :: snap_io
  ui_net :: snap_io
  ui_now :: "u64 option"
  ui_rounds :: "sample_round list"
  ui_close :: "errno option"

definition sampler_run :: "sampler_config \<Rightarrow> sampler_io \<Rightarrow> (nat \<times> outputs) option" where
  "sampler_run c io =
   (let out = \<lparr>op_cpu = [], op_net = [], op_waits = []\<rparr>; network = (uc_network_path c \<noteq> None);
        interval = uc_interval_ms c * 1000000 in
    if ui_block io \<noteq> None \<or> network \<and> (ui_create io \<noteq> None \<or> ui_net_header io \<noteq> None) then Some (1, out)
    else
     (let out = (if network then out\<lparr>op_net := net_header @ [NL]\<rparr> else out) in
      if ui_cpu_header io \<noteq> None then Some (1, out)
      else (case sample (ui_cpu io) (ui_net io) (uc_interface c) (out\<lparr>op_cpu := cpu_header @ [NL]\<rparr>) of
          (okay, out) \<Rightarrow>
            if \<not> okay then Some (1, out)
            else (case ui_now io of
                None \<Rightarrow> Some (1, out)
              | Some now \<Rightarrow> sample_loop (uc_interface c) (ui_close io = None) interval (ui_rounds io) (now + interval) out))))"

definition cpu_sample_main :: "sampler_opt list \<Rightarrow> nat \<Rightarrow> sampler_io \<Rightarrow> (nat \<times> outputs) option" where
  "cpu_sample_main options operands io =
   (case sampler_arguments options operands of
      Cli_help \<Rightarrow> Some (0, \<lparr>op_cpu = [], op_net = [], op_waits = []\<rparr>)
    | Cli_bad \<Rightarrow> Some (2, \<lparr>op_cpu = [], op_net = [], op_waits = []\<rparr>)
    | Cli_ok c \<Rightarrow> sampler_run c io)"

section \<open>Reading the kernel's text\<close>

lemma tokens_empty [simp]: "tokens [] = []"
  by (simp add: tokens.simps)

lemma tokens_blank: "blank c \<Longrightarrow> tokens (c # s) = tokens s"
  by (subst (1 2) tokens.simps) simp

lemma tokens_word:
  assumes "t \<noteq> []" "\<forall>c \<in> set t. \<not> blank c" "rest = [] \<or> blank (hd rest)"
  shows "tokens (t @ rest) = t # tokens rest"
proof -
  have d: "dropWhile blank (t @ rest) = t @ rest" using assms by (cases t) auto
  have "takeWhile (\<lambda>c. \<not> blank c) (t @ rest) = t" "dropWhile (\<lambda>c. \<not> blank c) (t @ rest) = rest"
    using assms by (cases rest; simp add: takeWhile_append2 dropWhile_append2)+
  then show ?thesis using d assms(1) by (subst tokens.simps) (simp add: Let_def)
qed

lemma digits_not_blank: "list_all is_digit s \<Longrightarrow> \<forall>c \<in> set s. \<not> blank c"
  by (auto simp: list_all_iff is_digit_def char_code_def blank_def)

lemma show_word_not_blank: "\<forall>c \<in> set (show_word v). \<not> blank c" "show_word v \<noteq> []"
  unfolding show_word_def using digits_not_blank [OF show_nat_digits] by simp_all

definition values_text :: "u64 list \<Rightarrow> string" where
  "values_text vs = concat (map (\<lambda>v. CHR '' '' # show_word v) vs) @ [NL]"

lemma values_hd: "values_text vs \<noteq> []" "blank (hd (values_text vs))"
  by (cases vs; simp add: values_text_def blank_def)+

lemma values_tokens: "tokens (values_text vs) = map show_word vs"
proof (induction vs)
  case Nil
  then show ?case by (simp add: values_text_def tokens_blank blank_def)
next
  case (Cons v vs)
  have "values_text (v # vs) = CHR '' '' # show_word v @ values_text vs" by (simp add: values_text_def)
  moreover have "tokens (show_word v @ values_text vs) = show_word v # tokens (values_text vs)"
    using show_word_not_blank values_hd by (intro tokens_word) blast+
  ultimately show ?case using Cons by (simp add: tokens_blank blank_def)
qed

lemma unsigned_value_show [simp]: "unsigned_value (Some (show_word v)) = Some v"
  unfolding show_word_def using cpu_u64.parse_show [of v] unat_bound [of v] by simp

lemma values_read: "n \<le> length vs \<Longrightarrow> token_values n (map show_word vs) = Some (take n vs)"
proof (induction n arbitrary: vs)
  case (Suc n)
  then show ?case by (cases vs) auto
qed simp

text \<open>A line of \<^verbatim>\<open>/proc/stat\<close> for a CPU: its label and at least eight counters.\<close>

definition stat_line :: "cpu_ticks \<Rightarrow> u64 list \<Rightarrow> string" where
  "stat_line row guest = ''cpu'' @ (if ct_name row = ''all'' then [] else ct_name row) @ values_text (ct_ticks row @ guest)"

definition row_ok :: "cpu_ticks \<Rightarrow> bool" where
  "row_ok row \<longleftrightarrow> length (ct_ticks row) = 8 \<and>
     (ct_name row = ''all'' \<or> ct_name row \<noteq> [] \<and> list_all is_digit (ct_name row) \<and> length (ct_name row) < 20)"

lemma dec_val_bound: "list_all is_digit s \<Longrightarrow> dec_val s < 10 ^ length s"
proof (induction s rule: rev_induct)
  case (snoc c s)
  then have "dec_val s < 10 ^ length s" "digit_val c < 10" by (auto simp: is_digit_def digit_val_def)
  then show ?case by simp
qed (simp add: dec_val_def)

lemma short_digits: "s \<noteq> [] \<Longrightarrow> list_all is_digit s \<Longrightarrow> length s < 20 \<Longrightarrow> unsigned_value (Some s) \<noteq> None"
proof -
  assume s: "s \<noteq> []" "list_all is_digit s" "length s < 20"
  have "dec_val s < 10 ^ length s" by (rule dec_val_bound [OF s(2)])
  also have "\<dots> \<le> 10 ^ 19" using s(3) by (intro power_increasing) simp_all
  also have "\<dots> \<le> (2 :: nat) ^ 64 - 1" by simp
  finally show ?thesis using s by (simp add: cpu_u64.parse_exact dec_accepts_def)
qed

lemma stat_line_tokens:
  assumes "row_ok row"
  shows "tokens (stat_line row guest) = (''cpu'' @ (if ct_name row = ''all'' then [] else ct_name row)) # map show_word (ct_ticks row @ guest)"
proof -
  let ?label = "''cpu'' @ (if ct_name row = ''all'' then [] else ct_name row)"
  have "\<forall>c \<in> set ?label. \<not> blank c" using assms digits_not_blank [of "ct_name row"] by (auto simp: row_ok_def blank_def)
  then have "tokens (?label @ values_text (ct_ticks row @ guest)) = ?label # tokens (values_text (ct_ticks row @ guest))"
    using values_hd by (intro tokens_word) auto
  then show ?thesis by (simp add: stat_line_def values_tokens)
qed

lemma cpu_label_name: "row_ok row \<Longrightarrow> cpu_name (''cpu'' @ (if ct_name row = ''all'' then [] else ct_name row)) = ct_name row"
  by (auto simp: row_ok_def cpu_name_def)

text \<open>Lines that are not of a CPU.\<close>

definition other_line :: "string \<Rightarrow> bool" where
  "other_line line \<longleftrightarrow> (case tokens line of [] \<Rightarrow> True | label # _ \<Rightarrow> take 3 label \<noteq> ''cpu'')"

lemma other_lines_skipped: "\<forall>line \<in> set others. other_line line \<Longrightarrow> read_cpu_rows rows others = Inr rows"
  by (induction others) (auto simp: other_line_def split: list.splits)

lemma cpu_rows_read:
  assumes "list_all row_ok new" "distinct (map ct_name (rows @ new))" "length (rows @ new) \<le> MAX_CPU_ROWS"
    "\<forall>line \<in> set others. other_line line"
  shows "read_cpu_rows rows (map (\<lambda>row. stat_line row (guest row)) new @ others) = Inr (rows @ new)"
  using assms(1-3)
proof (induction new arbitrary: rows)
  case Nil
  then show ?case using other_lines_skipped assms(4) by simp
next
  case (Cons row new)
  let ?label = "''cpu'' @ (if ct_name row = ''all'' then [] else ct_name row)"
  have ok: "row_ok row" using Cons.prems by simp
  have name: "cpu_name ?label = ct_name row" by (rule cpu_label_name [OF ok])
  have label: "drop 3 ?label = [] \<or> unsigned_value (Some (drop 3 ?label)) \<noteq> None"
    using ok short_digits [of "ct_name row"] by (auto simp: row_ok_def)
  have len: "length (ct_name row) < 24" using ok by (auto simp: row_ok_def)
  have new: "ct_name row \<notin> ct_name ` set rows" using Cons.prems(2) by auto
  have vals: "token_values 8 (map show_word (ct_ticks row @ guest row)) = Some (ct_ticks row)"
    using ok values_read [of 8 "ct_ticks row @ guest row"] by (simp add: row_ok_def)
  have row_eq: "\<lparr>ct_name = ct_name row, ct_ticks = ct_ticks row\<rparr> = row" by simp
  have "read_cpu_rows rows (stat_line row (guest row) # map (\<lambda>row. stat_line row (guest row)) new @ others) =
      read_cpu_rows (rows @ [row]) (map (\<lambda>row. stat_line row (guest row)) new @ others)"
    unfolding read_cpu_rows.simps stat_line_tokens [OF ok] list.case name vals option.case row_eq
    using label len new Cons.prems(3) by auto
  also have "\<dots> = Inr ((rows @ [row]) @ new)" using Cons.prems by (intro Cons.IH) auto
  finally show ?case by simp
qed

text \<open>The CSV formats of the two outputs.\<close>

definition read_cpu_row :: "string list \<Rightarrow> (u64 \<times> cpu_ticks) option" where
  "read_cpu_row fs = (case fs of timestamp # name # ticks \<Rightarrow> Some (read_word timestamp, \<lparr>ct_name = name, ct_ticks = map read_word ticks\<rparr>) | _ \<Rightarrow> None)"

definition read_net :: "string list \<Rightarrow> net_row option" where
  "read_net fs = (case fs of timestamp # name # counters \<Rightarrow>
     Some \<lparr>nr_time = read_word timestamp, nr_interface = name, nr_counters = map read_word counters\<rparr> | _ \<Rightarrow> None)"

interpretation cpu_csv: csv_format cpu_header cpu_fields read_cpu_row "\<lambda>(_, row). plain_text (ct_name row)"
proof
  show "NL \<notin> set cpu_header" by (simp add: cpu_header_def)
  fix r :: "u64 \<times> cpu_ticks" assume "case r of (_, row) \<Rightarrow> plain_text (ct_name row)"
  then show "cpu_fields r \<noteq> [] \<and> list_all plain_text (cpu_fields r)" "read_cpu_row (cpu_fields r) = Some r"
    by (auto simp: cpu_fields_def read_cpu_row_def list_all_iff comp_def)
qed

interpretation net_csv: csv_format net_header net_fields read_net "\<lambda>row. plain_text (nr_interface row)"
proof
  show "NL \<notin> set net_header" by (simp add: net_header_def)
  fix r :: net_row assume "plain_text (nr_interface r)"
  then show "net_fields r \<noteq> [] \<and> list_all plain_text (net_fields r)" "read_net (net_fields r) = Some r"
    by (auto simp: net_fields_def read_net_def list_all_iff comp_def)
qed

text \<open>The time of a snapshot lies between the two readings of the clock.\<close>

lemma midpoint_between: "before \<le> after \<Longrightarrow> before \<le> midpoint before after \<and> midpoint before after \<le> after"
proof -
  assume le: "before \<le> after"
  then have d: "unat (after - before) = unat after - unat before" "unat before \<le> unat after"
    by (simp_all add: unat_sub word_le_nat_alt)
  have "unat before + unat after - unat before < 2 ^ 64" using unat_bound [of after] by simp
  then have "unat (midpoint before after) = unat before + (unat after - unat before) div 2"
    unfolding midpoint_def using d unat_bound [of after] by (subst unat_add_lem [THEN iffD1]) (simp_all add: unat_div)
  then show ?thesis using d(2) by (simp add: word_le_nat_alt)
qed

lemma snapshot_reads_kernel:
  assumes "list_all row_ok rows" "distinct (map ct_name rows)" "length rows \<le> MAX_CPU_ROWS" "rows \<noteq> []" "ct_name (hd rows) = ''all''"
    and "si_before io = Some before" "si_after io = Inr after" "si_read_error io = None"
    and "si_lines io = Inr (map (\<lambda>row. stat_line row (guest row)) rows @ others)" "\<forall>line \<in> set others. other_line line"
  shows "snapshot_rows io = Inr (map (\<lambda>row. (midpoint before after, row)) rows)"
  using assms cpu_rows_read [of rows "[]" others guest] by (simp add: snapshot_rows_def)

section \<open>The outputs are complete\<close>

definition ticks_ok :: "cpu_ticks \<Rightarrow> bool" where
  "ticks_ok row \<longleftrightarrow> (ct_name row = ''all'' \<or> list_all is_digit (ct_name row)) \<and> length (ct_ticks row) = 8"

lemma token_values_length: "token_values n ts = Some vs \<Longrightarrow> length vs = n"
  by (induction n arbitrary: ts vs) (auto split: option.splits)

lemma read_cpu_rows_ok: "read_cpu_rows rows lines = Inr rows' \<Longrightarrow> list_all ticks_ok rows \<Longrightarrow> list_all ticks_ok rows'"
proof (induction lines arbitrary: rows)
  case (Cons line lines)
  show ?case
  proof (cases "\<exists>rows. read_cpu_rows rows lines = Inr rows' \<and> list_all ticks_ok rows")
    case True
    then show ?thesis using Cons.IH by blast
  next
    case False
    then have "\<exists>label ts ticks. tokens line = label # ts \<and> (drop 3 label = [] \<or> unsigned_value (Some (drop 3 label)) \<noteq> None) \<and>
        token_values 8 ts = Some ticks \<and> read_cpu_rows (rows @ [\<lparr>ct_name = cpu_name label, ct_ticks = ticks\<rparr>]) lines = Inr rows'"
      using Cons.prems by (auto split: list.splits if_splits option.splits)
    then obtain label ts ticks where l: "drop 3 label = [] \<or> unsigned_value (Some (drop 3 label)) \<noteq> None"
      "token_values 8 ts = Some ticks" "read_cpu_rows (rows @ [\<lparr>ct_name = cpu_name label, ct_ticks = ticks\<rparr>]) lines = Inr rows'" by blast
    have "ticks_ok \<lparr>ct_name = cpu_name label, ct_ticks = ticks\<rparr>"
      using l(1) token_values_length [OF l(2)] cpu_u64.parse_rejects [of "drop 3 label"] by (auto simp: ticks_ok_def cpu_name_def)
    then show ?thesis using Cons.IH [OF l(3)] Cons.prems(2) by simp
  qed
qed simp

lemma snapshot_rows_plain: "snapshot_rows io = Inr rows \<Longrightarrow> list_all (\<lambda>(_, row). plain_text (ct_name row)) rows"
proof -
  assume "snapshot_rows io = Inr rows"
  then obtain lines rs t where r: "read_cpu_rows [] lines = Inr rs" "rows = map (\<lambda>row. (t, row)) rs"
    by (auto simp: snapshot_rows_def split: option.splits sum.splits if_splits)
  have "list_all ticks_ok rs" using read_cpu_rows_ok [OF r(1)] by simp
  then show ?thesis using plain_digits by (auto simp: r(2) list_all_iff ticks_ok_def plain_text_def)
qed

text \<open>The rounds that take a sample, up to the one that ends the program.\<close>

fun sampled :: "sample_round list \<Rightarrow> sample_round list" where
  "sampled [] = []"
| "sampled (r # rounds) = (case sr_wait r of Stop_signal \<Rightarrow> [r] | Interrupted \<Rightarrow> sampled rounds | Timed_out \<Rightarrow> r # sampled rounds | Wait_error \<Rightarrow> [])"

text \<open>\<open>writes interface pairs out out'\<close>: the outputs grow by the rows of these samples.\<close>

definition writes :: "string option \<Rightarrow> (snap_io \<times> snap_io) list \<Rightarrow> outputs \<Rightarrow> outputs \<Rightarrow> bool" where
  "writes interface ios out out' \<longleftrightarrow> (\<exists>rowss nets.
     list_all2 (\<lambda>io rows. snapshot_rows (fst io) = Inr rows) ios rowss \<and>
     op_cpu out' = op_cpu out @ concat (map (csv_line \<circ> cpu_fields) (concat rowss)) \<and>
     (case interface of None \<Rightarrow> nets = [] | Some name \<Rightarrow> list_all2 (\<lambda>io row. network_row (snd io) name = Inr row) ios nets) \<and>
     op_net out' = op_net out @ concat (map (csv_line \<circ> net_fields) nets))"

lemma writes_Nil: "writes interface [] out out"
  by (auto simp: writes_def split: option.splits)

lemma writes_sample:
  assumes "sample cpu net interface out = (True, out1)" "writes interface ios out1 out'"
  shows "writes interface ((cpu, net) # ios) out out'"
proof -
  obtain rows line where r: "snapshot_rows cpu = Inr rows" "network_snapshot net interface = Inr line"
    "op_cpu out1 = op_cpu out @ concat (map (csv_line \<circ> cpu_fields) rows)" "op_net out1 = op_net out @ line"
    using assms(1) by (auto simp: sample_def snapshot_def Let_def split: sum.splits option.splits)
  obtain rowss nets where w: "list_all2 (\<lambda>io rows. snapshot_rows (fst io) = Inr rows) ios rowss"
    "op_cpu out' = op_cpu out1 @ concat (map (csv_line \<circ> cpu_fields) (concat rowss))"
    "case interface of None \<Rightarrow> nets = [] | Some name \<Rightarrow> list_all2 (\<lambda>io row. network_row (snd io) name = Inr row) ios nets"
    "op_net out' = op_net out1 @ concat (map (csv_line \<circ> net_fields) nets)"
    using assms(2) unfolding writes_def by blast
  have c: "list_all2 (\<lambda>io rows. snapshot_rows (fst io) = Inr rows) ((cpu, net) # ios) (rows # rowss)"
    "op_cpu out' = op_cpu out @ concat (map (csv_line \<circ> cpu_fields) (concat (rows # rowss)))" using r w by simp_all
  show ?thesis
  proof (cases interface)
    case None
    then have "op_net out' = op_net out @ concat (map (csv_line \<circ> net_fields) [])" using r(2,4) w by (simp add: network_snapshot_def)
    then show ?thesis unfolding writes_def using c None by (intro exI [of _ "rows # rowss"] exI [of _ "[]"]) simp
  next
    case (Some name)
    then obtain row where n: "network_row net name = Inr row" "line = csv_line (net_fields row)"
      using r(2) by (auto simp: network_snapshot_def split: sum.splits option.splits)
    then have "op_net out' = op_net out @ concat (map (csv_line \<circ> net_fields) (row # nets))" using r(4) w(4) by simp
    then show ?thesis unfolding writes_def using c Some n(1) w(3) by (intro exI [of _ "rows # rowss"] exI [of _ "row # nets"]) simp
  qed
qed

lemma sample_waits: "op_waits (snd (sample cpu net interface out)) = op_waits out"
  by (simp add: sample_def Let_def split: sum.splits)

lemma loop_writes:
  "sample_loop interface close_ok interval rounds deadline out = Some (0, out') \<Longrightarrow>
     writes interface (map (\<lambda>r. (sr_cpu r, sr_net r)) (sampled rounds)) out out'"
proof (induction rounds arbitrary: deadline out)
  case (Cons r rounds)
  obtain now where now: "sr_now r = Some now" using Cons.prems by (auto split: option.splits)
  define out0 where "out0 = out\<lparr>op_waits := op_waits out @ [wait_left deadline now]\<rparr>"
  have same: "writes interface ios out0 o' \<Longrightarrow> writes interface ios out o'" for ios o' by (simp add: writes_def out0_def)
  obtain okay out1 where s: "sample (sr_cpu r) (sr_net r) interface out0 = (okay, out1)" by fastforce
  show ?case
  proof (cases "sr_wait r")
    case Stop_signal
    then have "okay" "out' = out1" using Cons.prems now s by (auto simp: out0_def Let_def split: if_splits)
    then show ?thesis using same writes_sample [of "sr_cpu r" "sr_net r" interface out0 out1 "[]" out'] s writes_Nil Stop_signal by auto
  next
    case Timed_out
    then obtain after where a: "okay" "sample_loop interface close_ok interval rounds (next_deadline deadline interval after) out1 = Some (0, out')"
      using Cons.prems now s by (auto simp: out0_def Let_def split: if_splits option.splits)
    from Cons.IH [OF a(2)] show ?thesis using same writes_sample [of "sr_cpu r" "sr_net r" interface out0 out1 _ out'] s a(1) Timed_out by auto
  next
    case Interrupted
    then have "sample_loop interface close_ok interval rounds deadline out0 = Some (0, out')" using Cons.prems now by (simp add: out0_def Let_def)
    from Cons.IH [OF this] show ?thesis using same Interrupted by simp
  next
    case Wait_error
    then show ?thesis using Cons.prems now by (simp add: Let_def)
  qed
qed simp

text \<open>
  The clock never goes back and stays below half its range, and \<^verbatim>\<open>sigtimedwait\<close> reports the end of the
  timeout only after it.
\<close>

fun paced :: "u64 \<Rightarrow> u64 \<Rightarrow> u64 \<Rightarrow> sample_round list \<Rightarrow> bool" where
  "paced interval prev deadline [] \<longleftrightarrow> True"
| "paced interval prev deadline (r # rounds) \<longleftrightarrow>
   (case sr_now r of
      None \<Rightarrow> True
    | Some now \<Rightarrow> prev \<le> now \<and> unat now < 2 ^ 63 \<and>
        (case sr_wait r of
           Timed_out \<Rightarrow>
             (case sr_after r of
                None \<Rightarrow> True
              | Some after \<Rightarrow> now \<le> after \<and> deadline \<le> after \<and> unat after < 2 ^ 63 \<and>
                  paced interval after (next_deadline deadline interval after) rounds)
         | Interrupted \<Rightarrow> paced interval now deadline rounds
         | _ \<Rightarrow> True))"

definition near :: "u64 \<Rightarrow> u64 \<Rightarrow> u64 \<Rightarrow> bool" where "near interval prev deadline \<longleftrightarrow> unat deadline \<le> unat prev + unat interval"

lemma wait_near: "near interval prev deadline \<Longrightarrow> prev \<le> now \<Longrightarrow> wait_left deadline now \<le> interval"
  by (auto simp: near_def wait_left_def word_le_nat_alt word_less_nat_alt unat_sub)

lemma unat_plus_small: "unat (a :: u64) < 2 ^ 63 \<Longrightarrow> unat b < 2 ^ 63 \<Longrightarrow> unat (a + b) = unat a + unat b"
  by (subst unat_add_lem [THEN iffD1]) simp_all

lemma next_near:
  assumes "deadline \<le> now" "unat now < 2 ^ 63" "unat interval < 2 ^ 63" "0 < interval"
  shows "near interval now (next_deadline deadline interval now) \<and> now < next_deadline deadline interval now"
proof -
  have "unat deadline < 2 ^ 63" using assms(1,2) by (simp add: word_le_nat_alt)
  then show ?thesis using assms unat_plus_small [of now interval] unat_plus_small [of deadline interval]
    by (auto simp: next_deadline_def near_def word_le_nat_alt word_less_nat_alt)
qed

lemma loop_waits:
  assumes "0 < interval" "unat interval < 2 ^ 63"
  shows "sample_loop interface close_ok interval rounds deadline out = Some (code, out') \<Longrightarrow> paced interval prev deadline rounds \<Longrightarrow>
     near interval prev deadline \<Longrightarrow> \<forall>w \<in> set (op_waits out). w \<le> interval \<Longrightarrow> \<forall>w \<in> set (op_waits out'). w \<le> interval"
proof (induction rounds arbitrary: deadline prev out)
  case (Cons r rounds)
  show ?case
  proof (cases "sr_now r")
    case None
    then show ?thesis using Cons.prems by simp
  next
    case (Some now)
    define out0 where "out0 = out\<lparr>op_waits := op_waits out @ [wait_left deadline now]\<rparr>"
    have p: "prev \<le> now" "unat now < 2 ^ 63" using Cons.prems(2) Some by simp_all
    have w0: "\<forall>w \<in> set (op_waits out0). w \<le> interval" using Cons.prems(3,4) wait_near p(1) by (auto simp: out0_def)
    obtain okay out1 where s: "sample (sr_cpu r) (sr_net r) interface out0 = (okay, out1)" by fastforce
    have w1: "\<forall>w \<in> set (op_waits out1). w \<le> interval" using w0 s sample_waits [of "sr_cpu r" "sr_net r" interface out0] by simp
    show ?thesis
    proof (cases "sr_wait r")
      case Stop_signal
      then show ?thesis using Cons.prems(1) Some s w1 by (auto simp: Let_def simp flip: out0_def)
    next
      case Timed_out
      show ?thesis
      proof (cases "okay \<and> sr_after r \<noteq> None")
        case True
        then obtain after where a: "sr_after r = Some after" by blast
        have l: "sample_loop interface close_ok interval rounds (next_deadline deadline interval after) out1 = Some (code, out')"
          using Cons.prems(1) Some Timed_out s True a by (simp add: Let_def flip: out0_def)
        have q: "deadline \<le> after" "unat after < 2 ^ 63" "paced interval after (next_deadline deadline interval after) rounds"
          using Cons.prems(2) Some Timed_out a by simp_all
        show ?thesis using Cons.IH [OF l q(3) _ w1] next_near [OF q(1,2) assms(2,1)] by blast
      next
        case False
        then show ?thesis using Cons.prems(1) Some Timed_out s w1 by (auto simp: Let_def simp flip: out0_def split: option.splits if_splits)
      qed
    next
      case Interrupted
      have l: "sample_loop interface close_ok interval rounds deadline out0 = Some (code, out')"
        using Cons.prems(1) Some Interrupted by (simp add: Let_def flip: out0_def)
      have q: "paced interval now deadline rounds" using Cons.prems(2) Some Interrupted by simp
      have "near interval now deadline" using Cons.prems(3) p(1) by (auto simp: near_def word_le_nat_alt)
      then show ?thesis using Cons.IH [OF l q _ w0] by blast
    next
      case Wait_error
      then show ?thesis using Cons.prems(1) Some w0 by (auto simp: Let_def simp flip: out0_def)
    qed
  qed
qed simp

definition sampler_config_ok :: "sampler_config \<Rightarrow> bool" where
  "sampler_config_ok c \<longleftrightarrow> 0 < uc_interval_ms c \<and> uc_interval_ms c \<le> 3600000"

interpretation sampler_cli: option_handler sampler_option sampler_config_ok
proof
  fix c opt c' assume a: "sampler_config_ok c" "sampler_option opt c = Cli_ok c'"
  then show "sampler_config_ok c'"
    by (cases opt) (auto simp: sampler_config_ok_def word_gt_0 split: option.splits if_splits)
qed

lemma sampler_arguments_ok:
  assumes "sampler_arguments options operands = Cli_ok c"
  shows "sampler_config_ok c \<and> (uc_network_path c = None \<longleftrightarrow> uc_interface c = None) \<and>
    (\<forall>name. uc_interface c = Some name \<longrightarrow> list_all (\<lambda>ch. alnum ch \<or> ch \<in> set ''_.:-'') name)"
proof -
  have l: "cli_loop sampler_option options sampler_defaults = Cli_ok c"
    "(uc_interface c \<noteq> None) = (uc_network_path c \<noteq> None)" "\<forall>name. uc_interface c = Some name \<longrightarrow> list_all (\<lambda>ch. alnum ch \<or> ch \<in> set ''_.:-'') name"
    using assms by (auto simp: sampler_arguments_def split: cli_result.splits if_splits option.splits)
  have "sampler_config_ok sampler_defaults" by (simp add: sampler_config_ok_def sampler_defaults_def)
  then show ?thesis using sampler_cli.loop_ok [OF _ l(1)] l(2,3) by blast
qed

lemma interface_plain: "list_all (\<lambda>ch. alnum ch \<or> ch \<in> set ''_.:-'') name \<Longrightarrow> plain_text name"
  by (auto simp: list_all_iff plain_text_def alnum_def char_code_def Let_def)

lemma network_row_name: "network_row io name = Inr row \<Longrightarrow> nr_interface row = name"
  by (auto simp: network_row_def split: option.splits sum.splits)

lemma sampler_run_loop:
  assumes "sampler_run c io = Some (0, out)" "uc_network_path c = None \<longleftrightarrow> uc_interface c = None"
  obtains now out1 where "ui_now io = Some now"
    "sample (ui_cpu io) (ui_net io) (uc_interface c)
       \<lparr>op_cpu = cpu_header @ [NL], op_net = (if uc_interface c = None then [] else net_header @ [NL]), op_waits = []\<rparr> = (True, out1)"
    "sample_loop (uc_interface c) (ui_close io = None) (uc_interval_ms c * 1000000) (ui_rounds io) (now + uc_interval_ms c * 1000000) out1 = Some (0, out)"
proof -
  obtain okay out1 where s: "sample (ui_cpu io) (ui_net io) (uc_interface c)
       \<lparr>op_cpu = cpu_header @ [NL], op_net = (if uc_interface c = None then [] else net_header @ [NL]), op_waits = []\<rparr> = (okay, out1)" by fastforce
  have o: "okay = True" and "\<exists>now. ui_now io = Some now \<and> sample_loop (uc_interface c) (ui_close io = None) (uc_interval_ms c * 1000000) (ui_rounds io) (now + uc_interval_ms c * 1000000) out1 = Some (0, out)"
    using assms s by (auto simp: sampler_run_def Let_def split: if_splits option.splits)
  then obtain now where "ui_now io = Some now" "sample_loop (uc_interface c) (ui_close io = None) (uc_interval_ms c * 1000000) (ui_rounds io) (now + uc_interval_ms c * 1000000) out1 = Some (0, out)"
    by blast
  then show thesis using that [of now out1] s [unfolded o] by blast
qed

lemma writes_readable:
  assumes "writes interface ios \<lparr>op_cpu = cpu_header @ [NL], op_net = (if interface = None then [] else net_header @ [NL]), op_waits = ws\<rparr> out"
    "\<forall>name. interface = Some name \<longrightarrow> plain_text name"
  shows "\<exists>rowss nets. list_all2 (\<lambda>io rows. snapshot_rows (fst io) = Inr rows) ios rowss \<and> read_csv read_cpu_row (op_cpu out) = Some (concat rowss) \<and>
    (case interface of None \<Rightarrow> op_net out = []
     | Some name \<Rightarrow> list_all2 (\<lambda>io row. network_row (snd io) name = Inr row) ios nets \<and> read_csv read_net (op_net out) = Some nets)"
proof -
  obtain rowss nets where w: "list_all2 (\<lambda>io rows. snapshot_rows (fst io) = Inr rows) ios rowss"
    "op_cpu out = cpu_header @ NL # concat (map (csv_line \<circ> cpu_fields) (concat rowss))"
    "case interface of None \<Rightarrow> nets = [] | Some name \<Rightarrow> list_all2 (\<lambda>io row. network_row (snd io) name = Inr row) ios nets"
    "op_net out = (if interface = None then [] else net_header @ [NL]) @ concat (map (csv_line \<circ> net_fields) nets)"
    using assms(1) unfolding writes_def by auto
  have "list_all (\<lambda>(_, row). plain_text (ct_name row)) rows" if "rows \<in> set rowss" for rows
  proof -
    have "\<exists>i < length rowss. rowss ! i = rows" using that by (simp add: in_set_conv_nth)
    then have "\<exists>io. snapshot_rows io = Inr rows" using w(1) by (auto simp: list_all2_conv_all_nth)
    then show ?thesis using snapshot_rows_plain by blast
  qed
  then have "list_all (\<lambda>(_, row). plain_text (ct_name row)) (concat rowss)" by (auto simp: list_all_iff)
  then have cpu: "read_csv read_cpu_row (op_cpu out) = Some (concat rowss)" unfolding w(2) by (rule cpu_csv.file_readable)
  show ?thesis
  proof (cases interface)
    case None
    then show ?thesis using w cpu by (intro exI [of _ rowss] exI [of _ nets]) simp
  next
    case (Some name)
    then have "list_all (\<lambda>row. plain_text (nr_interface row)) nets"
      using w(3) assms(2) network_row_name by (fastforce simp: list_all_length list_all2_conv_all_nth)
    then have "read_csv read_net (op_net out) = Some nets" using net_csv.file_readable [of nets] w(4) Some by simp
    then show ?thesis using w(1,3) cpu Some by (intro exI [of _ rowss] exI [of _ nets]) simp
  qed
qed

text \<open>
  Property C32.  What \<^verbatim>\<open>cpu_sample\<close> leaves is complete.  When it ends with exit code 0, its CSV output reads back as
  the rows of exactly the snapshots it took: the first, one per elapsed interval, and a last one after the
  stop signal; and so does the network file.  Where the clock does not go back, no wait is longer than
  the interval, and a late sample is not followed by a burst of waits in the past.
\<close>

theorem cpu_sample_complete:
  assumes "sampler_arguments options operands = Cli_ok c" "cpu_sample_main options operands io = Some (0, out)"
  shows "(\<exists>rowss nets. list_all2 (\<lambda>io rows. snapshot_rows (fst io) = Inr rows)
        ((ui_cpu io, ui_net io) # map (\<lambda>r. (sr_cpu r, sr_net r)) (sampled (ui_rounds io))) rowss \<and>
      read_csv read_cpu_row (op_cpu out) = Some (concat rowss) \<and>
      (case uc_interface c of None \<Rightarrow> op_net out = []
       | Some name \<Rightarrow> list_all2 (\<lambda>io row. network_row (snd io) name = Inr row)
             ((ui_cpu io, ui_net io) # map (\<lambda>r. (sr_cpu r, sr_net r)) (sampled (ui_rounds io))) nets \<and>
           read_csv read_net (op_net out) = Some nets)) \<and>
    (\<forall>now. ui_now io = Some now \<and> unat now < 2 ^ 63 \<and>
       paced (uc_interval_ms c * 1000000) now (now + uc_interval_ms c * 1000000) (ui_rounds io) \<longrightarrow>
       (\<forall>w \<in> set (op_waits out). w \<le> uc_interval_ms c * 1000000))"
proof -
  let ?interval = "uc_interval_ms c * 1000000"
  note ok = sampler_arguments_ok [OF assms(1)]
  have net: "uc_network_path c = None \<longleftrightarrow> uc_interface c = None" using ok by blast
  have run: "sampler_run c io = Some (0, out)" using assms by (simp add: cpu_sample_main_def)
  obtain now out1 where l: "ui_now io = Some now" "sample (ui_cpu io) (ui_net io) (uc_interface c)
       \<lparr>op_cpu = cpu_header @ [NL], op_net = (if uc_interface c = None then [] else net_header @ [NL]), op_waits = []\<rparr> = (True, out1)"
    "sample_loop (uc_interface c) (ui_close io = None) ?interval (ui_rounds io) (now + ?interval) out1 = Some (0, out)"
    by (rule sampler_run_loop [OF run net])
  have "0 < unat (uc_interval_ms c)" "unat (uc_interval_ms c) \<le> 3600000"
    using ok by (auto simp: sampler_config_ok_def word_le_nat_alt word_less_nat_alt)
  moreover from this have "unat ?interval = unat (uc_interval_ms c) * 1000000"
    by (subst unat_mult_lem [THEN iffD1]) simp_all
  ultimately have u: "0 < ?interval" "unat ?interval < 2 ^ 63" by (simp_all add: word_less_nat_alt)
  have "writes (uc_interface c) ((ui_cpu io, ui_net io) # map (\<lambda>r. (sr_cpu r, sr_net r)) (sampled (ui_rounds io)))
      \<lparr>op_cpu = cpu_header @ [NL], op_net = (if uc_interface c = None then [] else net_header @ [NL]), op_waits = []\<rparr> out"
    by (rule writes_sample [OF l(2) loop_writes [OF l(3)]])
  from writes_readable [OF this] ok interface_plain
  have first: "\<exists>rowss nets. list_all2 (\<lambda>io rows. snapshot_rows (fst io) = Inr rows)
        ((ui_cpu io, ui_net io) # map (\<lambda>r. (sr_cpu r, sr_net r)) (sampled (ui_rounds io))) rowss \<and>
      read_csv read_cpu_row (op_cpu out) = Some (concat rowss) \<and>
      (case uc_interface c of None \<Rightarrow> op_net out = []
       | Some name \<Rightarrow> list_all2 (\<lambda>io row. network_row (snd io) name = Inr row)
             ((ui_cpu io, ui_net io) # map (\<lambda>r. (sr_cpu r, sr_net r)) (sampled (ui_rounds io))) nets \<and>
           read_csv read_net (op_net out) = Some nets)" by blast
  have w1: "\<forall>w \<in> set (op_waits out1). w \<le> ?interval" using sample_waits [of "ui_cpu io" "ui_net io"] l(2) by (metis (no_types) empty_iff list.set(1) outputs.select_convs(3) snd_conv)
  have "near ?interval now (now + ?interval)" if "unat now < 2 ^ 63" using unat_plus_small [OF that u(2)] by (simp add: near_def)
  then have "\<forall>w \<in> set (op_waits out). w \<le> ?interval" if "unat now < 2 ^ 63" "paced ?interval now (now + ?interval) (ui_rounds io)"
    using that loop_waits [OF u(1,2) l(3), of now] w1 by simp
  then show ?thesis using first l(1) by auto
qed


text \<open>A machine with one CPU, one elapsed interval, an interrupted wait and a stop signal.\<close>

definition sample_stat :: "u64 \<Rightarrow> snap_io" where
  "sample_stat t = \<lparr>si_before = Some t,
     si_lines = Inr (map (\<lambda>row. stat_line row [0, 0]) [\<lparr>ct_name = ''all'', ct_ticks = [1, 2, 3, 4, 5, 6, 7, 8]\<rparr>,
       \<lparr>ct_name = ''0'', ct_ticks = [1, 2, 3, 4, 5, 6, 7, 8]\<rparr>] @ [[]]),
     si_read_error = None, si_after = Inr (t + 10), si_print_error = None\<rparr>"

definition sample_rounds :: "sample_round list" where
  "sample_rounds =
     [\<lparr>sr_now = Some 100, sr_wait = Interrupted, sr_cpu = sample_stat 0, sr_net = sample_stat 0, sr_after = None\<rparr>,
      \<lparr>sr_now = Some 110, sr_wait = Timed_out, sr_cpu = sample_stat 1000000200, sr_net = sample_stat 0, sr_after = Some 1000000300\<rparr>,
      \<lparr>sr_now = Some 1000000400, sr_wait = Stop_signal, sr_cpu = sample_stat 1500000000, sr_net = sample_stat 0, sr_after = None\<rparr>]"

definition sample_io :: sampler_io where
  "sample_io = \<lparr>ui_block = None, ui_create = None, ui_net_header = None, ui_cpu_header = None, ui_cpu = sample_stat 50, ui_net = sample_stat 0,
     ui_now = Some 90, ui_rounds = sample_rounds, ui_close = None\<rparr>"

lemma sample_stat_rows: "\<exists>rows. snapshot_rows (sample_stat t) = Inr rows \<and> length rows = 2"
proof -
  let ?rows = "[\<lparr>ct_name = ''all'', ct_ticks = [1, 2, 3, 4, 5, 6, 7, 8]\<rparr>, \<lparr>ct_name = ''0'', ct_ticks = [1, 2, 3, 4, 5, 6, 7, 8]\<rparr>]"
  have "snapshot_rows (sample_stat t) = Inr (map (\<lambda>row. (midpoint t (t + 10), row)) ?rows)"
    by (rule snapshot_reads_kernel [where guest = "\<lambda>_. [0, 0]" and others = "[[]]"])
      (simp_all add: sample_stat_def row_ok_def is_digit_def char_code_def other_line_def)
  then show ?thesis by simp
qed

lemma sample_snapshot: "\<exists>text. snapshot (sample_stat t) = Inr text"
  using sample_stat_rows [of t] by (auto simp: snapshot_def sample_stat_def split: sum.splits)

theorem cpu_sample_complete_witness:
  "\<exists>out rows. cpu_sample_main [] 0 sample_io = Some (0, out) \<and>
     read_csv read_cpu_row (op_cpu out) = Some rows \<and> length rows = 6 \<and> (\<forall>w \<in> set (op_waits out). w \<le> 1000000000)"
proof -
  have c: "sampler_arguments [] 0 = Cli_ok sampler_defaults" by (simp add: sampler_arguments_def sampler_defaults_def)
  obtain txts where t: "\<And>t. snapshot (sample_stat t) = Inr (txts t)" using sample_snapshot by metis
  obtain out where m: "cpu_sample_main [] 0 sample_io = Some (0, out)"
    using t by (simp add: cpu_sample_main_def c sampler_run_def sample_io_def sample_rounds_def sample_def network_snapshot_def sampler_defaults_def Let_def)
  note all = cpu_sample_complete [OF c m]
  have s: "sampled (ui_rounds sample_io) = tl sample_rounds" by (simp add: sample_io_def sample_rounds_def)
  obtain rowss where r: "list_all2 (\<lambda>io rows. snapshot_rows (fst io) = Inr rows)
        ((ui_cpu sample_io, ui_net sample_io) # map (\<lambda>r. (sr_cpu r, sr_net r)) (tl sample_rounds)) rowss"
    "read_csv read_cpu_row (op_cpu out) = Some (concat rowss)" using all unfolding s by blast
  have two: "length rows = 2" if "snapshot_rows (sample_stat t) = Inr rows" for t rows using sample_stat_rows [of t] that by auto
  have "length (concat rowss) = 6"
    using r(1) two by (auto simp: sample_rounds_def sample_io_def list_all2_Cons1)
  moreover have "\<forall>w \<in> set (op_waits out). w \<le> 1000000000"
    using all by (simp add: sample_io_def sample_rounds_def sampler_defaults_def next_deadline_def)
  ultimately show ?thesis using m r(2) by blast
qed

end
