(* ===== verification/Spec2Isabelle.thy ===== *)
theory Spec2Isabelle
  imports Afxdp_Umem Drain Command_Line Udp_Receiver Run_Config Loader_Main Phc Run_Outcome Manifest Cpu_Sample
begin

text \<open>
  Verification of the ACE latency-measurement programs.

  The system measures how long UDP packets need from a sending to a receiving computer when the Linux
  kernel hands them over by three paths: the ordinary socket, another CPU through a CPUMAP, or an
  AF_XDP socket.  On the receiving side an XDP program (\<^verbatim>\<open>BPF/xdp_kern.c\<close>) classifies packets, records
  them in BPF maps and redirects them; a loader (\<^verbatim>\<open>BPF/xdp_loader.c\<close>) attaches it, configures hardware
  timestamps, pins the maps, and at the end detaches, exports the maps as CSV and cleans up; AF_XDP
  packets go to \<^verbatim>\<open>BPF/afxdp_recv.c\<close>, the others to \<^verbatim>\<open>udp_socket/src/receiver.c\<close>.  The sender
  (\<^verbatim>\<open>udp_socket/src/sender.c\<close>) sends on a fixed schedule.  \<^verbatim>\<open>phc_track.c\<close> and \<^verbatim>\<open>phc_calibrate.c\<close> compare the
  network card's clock with the system's.  A coordinator on each computer (\<^verbatim>\<open>experiment/ace-run.c\<close>) reads a
  configuration, starts and supervises these programs, talks to its peer over TCP, and describes every
  run in JSON files.

  Conventions.  Machine integers are words of their width, or int and nat where the code cannot leave
  their range.  Every call of the kernel, of libbpf or of the C library whose result the code tests is a
  parameter: a record of answers (for straight-line code), a function of a world (for the coordinator),
  or a list of rounds (for loops that poll).  Errors are values of a sum or option type with the errno.
  Loops are total: by the clock, by a measure, or by the list of answers; a result \<open>None\<close> or \<open>Unfinished\<close>
  then means that the given answers do not suffice, and the theorems that claim an end show that enough
  answers give one.  Fuel is used for map iteration (one unit per key; the bound is the number of keys
  the iteration may visit, and the theorems state it) and for reading JSON (the length of the text).

  The theories, in the order of their dependencies.

  \<^item> \<open>Ace_Prelude\<close>, \<open>Ace_Abi\<close>, \<open>Packet_Spec\<close>: shared types and lemmas; the wire header, metadata and record
    structures of \<^verbatim>\<open>include/ace_packet_abi.h\<close>, \<^verbatim>\<open>BPF/metadata.h\<close> and \<^verbatim>\<open>BPF/config.h\<close> with their byte formats; the
    specification of a UDP datagram inside a frame.
  \<^item> \<open>Xdp_Kern\<close>, \<open>Xdp_Machine\<close>: the classifier and the CPUMAP observer with bounds-checked packet access
    (an access outside the packet is \<open>None\<close>), then a step relation over the maps and the CPUMAP queue.
    Shown: no access leaves the packet; the parser equals its specification; the counters balance in
    every reachable state; every record belongs to a frame that the
    classifier handled, and every CPUMAP record to one that was redirected to CPUMAP before.
  \<^item> \<open>Afxdp_Packet\<close>, \<open>Afxdp_Umem\<close>: the AF_XDP receiver's parser and \<^verbatim>\<open>receive_batch\<close>.  Shown: it agrees with the
    classifier; every UMEM frame goes back to the kernel on every path; the batch refines an abstract
    observation; the metadata that the classifier wrote is what is recorded.
  \<^item> \<open>Drain\<close>: the fixed drain window of the receiver and the loader's wait for stable counters.
  \<^item> \<open>Decimal_Text\<close>, \<open>Command_Line\<close>: the eight decimal parsers over a model of \<^verbatim>\<open>strtoull\<close>, and the option
    handling of the programs.
  \<^item> \<open>Udp_Sender\<close>, \<open>Udp_Receiver\<close>: the schedule and send loop; the receive loop, its windows and its file.
  \<^item> \<open>Hwtstamp\<close>: saving, changing and restoring the timestamp configuration, over a device parameter with
    the law that it reports what it adopted.
  \<^item> \<open>Ace_Process\<close>, \<open>Xsk_Handshake\<close>: process identity by pid and start time; the interleaving of receivers
    claiming a queue with the loader's shutdown, as a step relation.
  \<^item> \<open>Csv_Export\<close>, \<open>Loader_Lifecycle\<close>, \<open>Loader_Main\<close>: the exported files; start, shutdown and crash recovery of
    the loader; \<^verbatim>\<open>main\<close>.  Shown: no trace after exit code 0; no loss of a completed measurement; recovery
    acts only on dead runs and completes them.
  \<^item> \<open>Cpu_List\<close>, \<open>Run_Config\<close>: CPU lists and the configuration file with every check.
  \<^item> \<open>Run_Control\<close>, \<open>Phc\<close>: exclusive streams, the readiness marker, \<^verbatim>\<open>ace_clock\<close>; the clock comparison programs.
  \<^item> \<open>Cpu_Sample\<close>: the load sampler (\<^verbatim>\<open>cpu_sample.c\<close>), from the kernel's text to its CSV files.
  \<^item> \<open>Json_Text\<close>, \<open>Json_Value\<close>, \<open>Condition\<close>, \<open>Manifest\<close>: the two JSON encoders, a reference printer and reader, the
    condition of a run, and the manifest (\<^verbatim>\<open>experiment/ace_manifest.c\<close>).
  \<^item> \<open>Control_Channel\<close>, \<open>Run_Children\<close>, \<open>Supervision\<close>: the coordinator's messages and its child processes.  The
    state keeps the clock and a log of what was done, so that orders of actions are statements about the
    log; \<open>Supervision\<close> shows what each operation keeps (relations \<open>moves\<close> and \<open>steady\<close>).
  \<^item> \<open>Run_Scripts\<close>, \<open>Ace_Run\<close>: the coordinator's helper programs, the commands of its children, the scripts
    \<^verbatim>\<open>receiver_run\<close> and \<^verbatim>\<open>sender_run\<close> as lists of steps, and \<^verbatim>\<open>main\<close> with its preparation, the connection to the
    peer and the loop over the runs.
  \<^item> \<open>Run_Protocol\<close>, \<open>Run_Outcome\<close>: what a suite of runs shows and leaves.  Both follow the scripts step by step,
    once with the messages and markers each step gives, once with the variables that may hold a running
    child.  Shown: both sides follow one protocol; a run is marked complete exactly when it succeeded; no
    program outlives its run.

  Interfaces.  The contracts that several components share are locales, interpreted on the model:
  \<open>experiment_parser\<close> (what a parser of experiment frames accepts: the classifier and the AF_XDP receiver),
  \<open>rx_validator\<close> (descriptor checks of the UMEM), \<open>csv_format\<close> (every CSV file, with its reader),
  \<open>option_handler\<close> (the option loops of the programs), \<open>decimal_parser\<close> (the numeric options), and
  \<open>link_publisher\<close> (publication by hard link: the readiness marker and the manifest).

  Not modelled.  Of the coordinator: the end of descendants that other children left behind
  (\<^verbatim>\<open>cleanup_adopted_children\<close>) is a call of the
  kernel parameter.  Of the sender, the receiver and the AF_XDP receiver: creating sockets, rings and
  buffers and the text of the statistics files.  \<^verbatim>\<open>xdp_pass.c\<close> and
  \<^verbatim>\<open>xdp_drop.c\<close>, which return one constant.  Usage texts, messages on standard error, and the shell scripts
  and analysis tools around the programs.
\<close>

end
